(* ===== verification/Prelude.thy ===== *)
theory Prelude
  imports Main "HOL-Library.Word"
begin

text \<open>
  Shared ground of the development: the machine integers of the Rust sources, the result type
  with its sequencing (\<open>?\<close> of Rust), the big-endian byte conversions of \<open>u16\<close>, \<open>u32\<close>, \<open>u64\<close>
  (\<open>to_be_bytes\<close>, \<open>from_be_bytes\<close>), the saturating arithmetic of \<open>u64\<close> and \<open>usize\<close>, and the list
  lemmas that the component theories rely on.  Vector lengths and other \<open>usize\<close> values are natural
  numbers; where the code asks for saturation the bound \<open>2 ^ 64 - 1\<close> is written out.
\<close>

section \<open>Machine integers\<close>

type_synonym u8 = "8 word"
type_synonym u16 = "16 word"
type_synonym u32 = "32 word"
type_synonym u64 = "64 word"
type_synonym usize = nat
type_synonym bytes = "u8 list"

named_theorems be_simps "big-endian byte conversions"
named_theorems result_simps "sequencing of results"

definition usize_max :: nat where
  "usize_max = 2 ^ 64 - 1"

definition saturating_add_usize :: "nat \<Rightarrow> nat \<Rightarrow> nat" where
  "saturating_add_usize a b = min (a + b) usize_max"

definition saturating_mul_usize :: "nat \<Rightarrow> nat \<Rightarrow> nat" where
  "saturating_mul_usize a b = min (a * b) usize_max"

definition saturating_add_u64 :: "u64 \<Rightarrow> u64 \<Rightarrow> u64" where
  "saturating_add_u64 a b = (if unat a + unat b < 2 ^ 64 then a + b else - 1)"

definition saturating_sub_u64 :: "u64 \<Rightarrow> u64 \<Rightarrow> u64" where
  "saturating_sub_u64 a b = (if a < b then 0 else a - b)"

section \<open>Results\<close>

text \<open>\<open>Result<T, E>\<close> is the sum \<open>'e + 'a\<close>: \<open>Inl\<close> carries the error, \<open>Inr\<close> the value.\<close>

definition bind_result :: "'e + 'a \<Rightarrow> ('a \<Rightarrow> 'e + 'b) \<Rightarrow> 'e + 'b" where
  "bind_result r f = (case r of Inl e \<Rightarrow> Inl e | Inr x \<Rightarrow> f x)"

definition map_err :: "('e \<Rightarrow> 'f) \<Rightarrow> 'e + 'a \<Rightarrow> 'f + 'a" where
  "map_err g r = (case r of Inl e \<Rightarrow> Inl (g e) | Inr x \<Rightarrow> Inr x)"

definition is_ok :: "'e + 'a \<Rightarrow> bool" where
  "is_ok r = (case r of Inl _ \<Rightarrow> False | Inr _ \<Rightarrow> True)"

section \<open>Big-endian bytes\<close>

fun be_bytes :: "nat \<Rightarrow> nat \<Rightarrow> bytes" where
  "be_bytes 0 v = []"
| "be_bytes (Suc n) v = be_bytes n (v div 256) @ [of_nat (v mod 256)]"

definition be_val :: "bytes \<Rightarrow> nat" where
  "be_val bs = foldl (\<lambda>a b. a * 256 + unat b) 0 bs"

definition u64_to_be_bytes :: "u64 \<Rightarrow> bytes" where
  "u64_to_be_bytes w = be_bytes 8 (unat w)"

definition u32_to_be_bytes :: "u32 \<Rightarrow> bytes" where
  "u32_to_be_bytes w = be_bytes 4 (unat w)"

definition u16_to_be_bytes :: "u16 \<Rightarrow> bytes" where
  "u16_to_be_bytes w = be_bytes 2 (unat w)"

definition u64_from_be_bytes :: "bytes \<Rightarrow> u64" where
  "u64_from_be_bytes bs = of_nat (be_val bs)"

definition u32_from_be_bytes :: "bytes \<Rightarrow> u32" where
  "u32_from_be_bytes bs = of_nat (be_val bs)"

definition u16_from_be_bytes :: "bytes \<Rightarrow> u16" where
  "u16_from_be_bytes bs = of_nat (be_val bs)"

text \<open>\<open>&bytes[i..j]\<close>; every use in the sources is behind a length check.\<close>

definition sub_slice :: "nat \<Rightarrow> nat \<Rightarrow> 'a list \<Rightarrow> 'a list" where
  "sub_slice i j xs = take (j - i) (drop i xs)"

section \<open>Lemmas on results\<close>

lemma bind_result_simps [simp, result_simps]:
  "bind_result (Inl e) f = Inl e"
  "bind_result (Inr x) f = f x"
  by (simp_all add: bind_result_def)

lemma bind_result_Inr_iff [result_simps]:
  "bind_result r f = Inr y \<longleftrightarrow> (\<exists>x. r = Inr x \<and> f x = Inr y)"
  by (cases r) simp_all

lemma bind_result_Inl_iff [result_simps]:
  "bind_result r f = Inl e \<longleftrightarrow> r = Inl e \<or> (\<exists>x. r = Inr x \<and> f x = Inl e)"
  by (cases r) simp_all

lemma map_err_simps [simp, result_simps]:
  "map_err g (Inl e) = Inl (g e)"
  "map_err g (Inr x) = Inr x"
  by (simp_all add: map_err_def)

lemma map_err_Inr_iff [simp, result_simps]: "map_err g r = Inr x \<longleftrightarrow> r = Inr x"
  by (cases r) simp_all

lemma map_err_Inl_iff [result_simps]: "map_err g r = Inl e \<longleftrightarrow> (\<exists>e'. r = Inl e' \<and> e = g e')"
  by (cases r) auto

lemma is_ok_simps [simp]: "is_ok (Inr x)" "\<not> is_ok (Inl e)"
  by (simp_all add: is_ok_def)

lemma is_ok_iff: "is_ok r \<longleftrightarrow> (\<exists>x. r = Inr x)"
  by (cases r) simp_all

section \<open>Lemmas on big-endian bytes\<close>

lemma length_be_bytes [simp, be_simps]: "length (be_bytes n v) = n"
  by (induction n arbitrary: v) simp_all

lemma be_val_Nil [simp, be_simps]: "be_val [] = 0"
  by (simp add: be_val_def)

lemma be_val_snoc [be_simps]: "be_val (bs @ [b]) = be_val bs * 256 + unat b"
  by (simp add: be_val_def)

lemma unat_of_nat_byte [simp]: "v < 256 \<Longrightarrow> unat (of_nat v :: u8) = v"
  by (simp add: unat_of_nat take_bit_nat_def)

lemma be_val_be_bytes: "be_val (be_bytes n v) = v mod 256 ^ n"
proof (induction n arbitrary: v)
  case 0
  then show ?case by simp
next
  case (Suc n)
  have "v mod 256 ^ Suc n = (v div 256 mod 256 ^ n) * 256 + v mod 256"
    using mod_mult2_eq [of v 256 "256 ^ n"] by simp
  then show ?case
    by (simp add: be_val_snoc Suc)
qed

lemma be_val_less: "be_val bs < 256 ^ length bs"
proof (induction bs rule: rev_induct)
  case Nil
  then show ?case by simp
next
  case (snoc b bs)
  have "unat b < 256" using unsigned_less [of b, where ?'a = nat] by simp
  with snoc show ?case by (simp add: be_val_snoc)
qed

lemma be_bytes_be_val [be_simps]: "be_bytes (length bs) (be_val bs) = bs"
proof (induction bs rule: rev_induct)
  case Nil
  then show ?case by simp
next
  case (snoc b bs)
  have "unat b < 256" using unsigned_less [of b, where ?'a = nat] by simp
  with snoc show ?case by (simp add: be_val_snoc)
qed

lemma length_to_be_bytes [simp, be_simps]:
  "length (u64_to_be_bytes w) = 8"
  "length (u32_to_be_bytes x) = 4"
  "length (u16_to_be_bytes y) = 2"
  by (simp_all add: u64_to_be_bytes_def u32_to_be_bytes_def u16_to_be_bytes_def)

lemma u64_be_roundtrip [simp, be_simps]: "u64_from_be_bytes (u64_to_be_bytes w) = w"
  using unsigned_less [of w, where ?'a = nat]
  by (simp add: u64_from_be_bytes_def u64_to_be_bytes_def be_val_be_bytes)

lemma u32_be_roundtrip [simp, be_simps]: "u32_from_be_bytes (u32_to_be_bytes w) = w"
  using unsigned_less [of w, where ?'a = nat]
  by (simp add: u32_from_be_bytes_def u32_to_be_bytes_def be_val_be_bytes)

lemma u16_be_roundtrip [simp, be_simps]: "u16_from_be_bytes (u16_to_be_bytes w) = w"
  using unsigned_less [of w, where ?'a = nat]
  by (simp add: u16_from_be_bytes_def u16_to_be_bytes_def be_val_be_bytes)

lemma u64_bytes_roundtrip [be_simps]:
  "length bs = 8 \<Longrightarrow> u64_to_be_bytes (u64_from_be_bytes bs) = bs"
  using be_val_less [of bs] be_bytes_be_val [of bs]
  by (simp add: u64_from_be_bytes_def u64_to_be_bytes_def unat_of_nat take_bit_nat_def)

lemma u32_bytes_roundtrip [be_simps]:
  "length bs = 4 \<Longrightarrow> u32_to_be_bytes (u32_from_be_bytes bs) = bs"
  using be_val_less [of bs] be_bytes_be_val [of bs]
  by (simp add: u32_from_be_bytes_def u32_to_be_bytes_def unat_of_nat take_bit_nat_def)

lemma u16_bytes_roundtrip [be_simps]:
  "length bs = 2 \<Longrightarrow> u16_to_be_bytes (u16_from_be_bytes bs) = bs"
  using be_val_less [of bs] be_bytes_be_val [of bs]
  by (simp add: u16_from_be_bytes_def u16_to_be_bytes_def unat_of_nat take_bit_nat_def)

section \<open>Lemmas on slices\<close>

lemma length_sub_slice [simp]: "j \<le> length xs \<Longrightarrow> length (sub_slice i j xs) = j - i"
  by (simp add: sub_slice_def)

lemma sub_slice_all [simp]: "sub_slice 0 (length xs) xs = xs"
  by (simp add: sub_slice_def)

lemma sub_slice_take: "j \<le> n \<Longrightarrow> sub_slice i j (take n xs) = sub_slice i j xs"
  by (simp add: sub_slice_def drop_take)

lemma sub_slice_split:
  assumes "i \<le> j" and "j \<le> k"
  shows "sub_slice i j xs @ sub_slice j k xs = sub_slice i k xs"
proof -
  from assms have "k - i = (j - i) + (k - j)" and "j = (j - i) + i" by simp_all
  then show ?thesis
    by (metis drop_drop sub_slice_def take_add)
qed

section \<open>Lemmas on concatenation\<close>

lemma append_eq_longer:
  assumes "xs @ ys = zs @ ts" and "length xs \<le> length zs"
  obtains us where "zs = xs @ us" and "ys = us @ ts"
  using assms by (auto simp: append_eq_append_conv2)

lemma take_prefix_eq: "xs = take n ys \<Longrightarrow> n \<le> length ys \<Longrightarrow> ys = xs @ drop n ys \<and> length xs = n"
  by simp

end
