(* ===== verification/RustStr.thy ===== *)
theory RustStr
  imports Prelude
begin

text \<open>
  The parts of Rust's \<open>str\<close> and \<open>String\<close> that the sources use.  A \<open>str\<close> is its sequence of UTF-8
  bytes, here a \<open>string\<close> (a list of 8-bit characters); \<open>wf_str\<close> is the type's validity invariant.
  White space is Unicode's \<open>White_Space\<close> property, recognised on the encoded bytes, because \<open>trim\<close> and
  \<open>char::is_whitespace\<close> use it.  Then follow the ASCII case operations, searching, splitting, joining,
  the decimal and hexadecimal formatting of integers, and \<open>str::parse\<close> for unsigned integers.
\<close>

section \<open>Bytes, characters and UTF-8\<close>

definition as_bytes :: "string \<Rightarrow> bytes" where
  "as_bytes s = map (\<lambda>c. of_nat (of_char c)) s"

definition str_of_bytes :: "bytes \<Rightarrow> string" where
  "str_of_bytes bs = map (\<lambda>b. char_of (unat b)) bs"

definition in_range :: "nat \<Rightarrow> nat \<Rightarrow> u8 \<Rightarrow> bool" where
  "in_range lo hi b \<longleftrightarrow> lo \<le> unat b \<and> unat b \<le> hi"

text \<open>The width of the character at the head of the input, as \<open>std::str::from_utf8\<close> accepts it.\<close>

definition utf8_width :: "bytes \<Rightarrow> nat option" where
  "utf8_width bs =
     (case bs of
        [] \<Rightarrow> None
      | a # rest \<Rightarrow>
          if unat a < 128 then Some 1
          else if in_range 0xC2 0xDF a then
            (case rest of b # _ \<Rightarrow> if in_range 0x80 0xBF b then Some 2 else None | _ \<Rightarrow> None)
          else if in_range 0xE0 0xEF a then
            (case rest of
               b # c # _ \<Rightarrow>
                 if in_range (if a = 0xE0 then 0xA0 else 0x80) (if a = 0xED then 0x9F else 0xBF) b
                    \<and> in_range 0x80 0xBF c
                 then Some 3 else None
             | _ \<Rightarrow> None)
          else if in_range 0xF0 0xF4 a then
            (case rest of
               b # c # d # _ \<Rightarrow>
                 if in_range (if a = 0xF0 then 0x90 else 0x80) (if a = 0xF4 then 0x8F else 0xBF) b
                    \<and> in_range 0x80 0xBF c \<and> in_range 0x80 0xBF d
                 then Some 4 else None
             | _ \<Rightarrow> None)
          else None)"

fun utf8_valid :: "bytes \<Rightarrow> bool" where
  "utf8_valid [] = True"
| "utf8_valid (b # bs) =
     (case utf8_width (b # bs) of None \<Rightarrow> False | Some n \<Rightarrow> utf8_valid (drop (n - 1) bs))"

definition from_utf8 :: "bytes \<Rightarrow> string option" where
  "from_utf8 bs = (if utf8_valid bs then Some (str_of_bytes bs) else None)"

definition wf_str :: "string \<Rightarrow> bool" where
  "wf_str s \<longleftrightarrow> utf8_valid (as_bytes s)"

section \<open>White space and trimming\<close>

text \<open>
  \<open>ws_head cs\<close> is the number of bytes of a white space character at the head of \<open>cs\<close>, 0 if there is
  none: U+0009 to U+000D, U+0020, U+0085, U+00A0, U+1680, U+2000 to U+200A, U+2028, U+2029, U+202F,
  U+205F, U+3000.  \<open>ws_last\<close> does the same at the head of a reversed string.
\<close>

definition ascii_ws :: "nat \<Rightarrow> bool" where
  "ascii_ws n \<longleftrightarrow> (9 \<le> n \<and> n \<le> 13) \<or> n = 32"

definition ws2 :: "nat \<Rightarrow> nat \<Rightarrow> bool" where
  "ws2 a b \<longleftrightarrow> a = 0xC2 \<and> (b = 0x85 \<or> b = 0xA0)"

definition ws3 :: "nat \<Rightarrow> nat \<Rightarrow> nat \<Rightarrow> bool" where
  "ws3 a b c \<longleftrightarrow>
     (a = 0xE1 \<and> b = 0x9A \<and> c = 0x80)
     \<or> (a = 0xE2 \<and> b = 0x80 \<and> ((0x80 \<le> c \<and> c \<le> 0x8A) \<or> c = 0xA8 \<or> c = 0xA9 \<or> c = 0xAF))
     \<or> (a = 0xE2 \<and> b = 0x81 \<and> c = 0x9F)
     \<or> (a = 0xE3 \<and> b = 0x80 \<and> c = 0x80)"

fun ws_head :: "string \<Rightarrow> nat" where
  "ws_head [] = 0"
| "ws_head [a] = (if ascii_ws (of_char a) then 1 else 0)"
| "ws_head [a, b] =
     (if ascii_ws (of_char a) then 1 else if ws2 (of_char a) (of_char b) then 2 else 0)"
| "ws_head (a # b # c # _) =
     (if ascii_ws (of_char a) then 1 else if ws2 (of_char a) (of_char b) then 2
      else if ws3 (of_char a) (of_char b) (of_char c) then 3 else 0)"

fun ws_last :: "string \<Rightarrow> nat" where
  "ws_last [] = 0"
| "ws_last [a] = (if ascii_ws (of_char a) then 1 else 0)"
| "ws_last [b, a] =
     (if ascii_ws (of_char b) then 1 else if ws2 (of_char a) (of_char b) then 2 else 0)"
| "ws_last (c # b # a # _) =
     (if ascii_ws (of_char c) then 1 else if ws2 (of_char b) (of_char c) then 2
      else if ws3 (of_char a) (of_char b) (of_char c) then 3 else 0)"

fun trim_start :: "string \<Rightarrow> string" where
  "trim_start [] = []"
| "trim_start (c # cs) =
     (case ws_head (c # cs) of 0 \<Rightarrow> c # cs | Suc n \<Rightarrow> trim_start (drop n cs))"

fun trim_rev :: "string \<Rightarrow> string" where
  "trim_rev [] = []"
| "trim_rev (c # cs) =
     (case ws_last (c # cs) of 0 \<Rightarrow> c # cs | Suc n \<Rightarrow> trim_rev (drop n cs))"

definition trim_end :: "string \<Rightarrow> string" where
  "trim_end s = rev (trim_rev (rev s))"

definition trim :: "string \<Rightarrow> string" where
  "trim s = trim_end (trim_start s)"

section \<open>ASCII case\<close>

definition ascii_lower :: "char \<Rightarrow> char" where
  "ascii_lower c =
     (let n = (of_char c :: nat) in if 65 \<le> n \<and> n \<le> 90 then char_of (n + 32) else c)"

definition to_ascii_lowercase :: "string \<Rightarrow> string" where
  "to_ascii_lowercase s = map ascii_lower s"

definition eq_ignore_ascii_case :: "string \<Rightarrow> string \<Rightarrow> bool" where
  "eq_ignore_ascii_case a b \<longleftrightarrow> to_ascii_lowercase a = to_ascii_lowercase b"

section \<open>Searching, splitting, joining\<close>

fun strip_prefix :: "string \<Rightarrow> string \<Rightarrow> string option" where
  "strip_prefix [] s = Some s"
| "strip_prefix (p # ps) [] = None"
| "strip_prefix (p # ps) (c # cs) = (if p = c then strip_prefix ps cs else None)"

definition starts_with :: "string \<Rightarrow> string \<Rightarrow> bool" where
  "starts_with s p \<longleftrightarrow> strip_prefix p s \<noteq> None"

fun contains_str :: "string \<Rightarrow> string \<Rightarrow> bool" where
  "contains_str [] p = starts_with [] p"
| "contains_str (c # cs) p = (starts_with (c # cs) p \<or> contains_str cs p)"

text \<open>\<open>split\<close> on the characters that satisfy a predicate; the result is never empty.\<close>

fun split_by :: "(char \<Rightarrow> bool) \<Rightarrow> string \<Rightarrow> string list" where
  "split_by p [] = [[]]"
| "split_by p (c # cs) =
     (if p c then [] # split_by p cs
      else (case split_by p cs of [] \<Rightarrow> [[c]] | x # xs \<Rightarrow> (c # x) # xs))"

definition split_char :: "char \<Rightarrow> string \<Rightarrow> string list" where
  "split_char d s = split_by (\<lambda>c. c = d) s"

text \<open>\<open>split(|ch| ch == d || ch.is_whitespace())\<close>.\<close>

function split_char_or_ws :: "char \<Rightarrow> string \<Rightarrow> string \<Rightarrow> string list" where
  "split_char_or_ws d acc [] = [rev acc]"
| "split_char_or_ws d acc (c # cs) =
     (if c = d then rev acc # split_char_or_ws d [] cs
      else (case ws_head (c # cs) of
              0 \<Rightarrow> split_char_or_ws d (c # acc) cs
            | Suc n \<Rightarrow> rev acc # split_char_or_ws d [] (drop n cs)))"
  by pat_completeness auto
termination
  by (relation "measure (\<lambda>(d, acc, cs). length cs)") auto

text \<open>\<open>split_once\<close> and \<open>rsplit_once\<close> on one character, \<open>split_once\<close> on a string.\<close>

fun split_once :: "char \<Rightarrow> string \<Rightarrow> (string \<times> string) option" where
  "split_once d [] = None"
| "split_once d (c # cs) =
     (if c = d then Some ([], cs)
      else map_option (\<lambda>(a, b). (c # a, b)) (split_once d cs))"

definition rsplit_once :: "char \<Rightarrow> string \<Rightarrow> (string \<times> string) option" where
  "rsplit_once d s = map_option (\<lambda>(a, b). (rev b, rev a)) (split_once d (rev s))"

fun split_once_str :: "string \<Rightarrow> string \<Rightarrow> (string \<times> string) option" where
  "split_once_str p [] = (if p = [] then Some ([], []) else None)"
| "split_once_str p (c # cs) =
     (case strip_prefix p (c # cs) of
        Some rest \<Rightarrow> Some ([], rest)
      | None \<Rightarrow> map_option (\<lambda>(a, b). (c # a, b)) (split_once_str p cs))"

text \<open>\<open>matches(c).count()\<close>.\<close>

definition count_char :: "char \<Rightarrow> string \<Rightarrow> nat" where
  "count_char c s = length (filter (\<lambda>x. x = c) s)"

fun join_str :: "string \<Rightarrow> string list \<Rightarrow> string" where
  "join_str sep [] = []"
| "join_str sep [x] = x"
| "join_str sep (x # y # ys) = x @ sep @ join_str sep (y # ys)"

section \<open>Formatting and parsing integers\<close>

definition digit_char :: "nat \<Rightarrow> char" where
  "digit_char d = char_of (d + 48)"

fun show_nat :: "nat \<Rightarrow> string" where
  "show_nat n = (if n < 10 then [digit_char n] else show_nat (n div 10) @ [digit_char (n mod 10)])"

declare show_nat.simps [simp del]

definition hex_char :: "nat \<Rightarrow> char" where
  "hex_char d = (if d < 10 then char_of (d + 48) else char_of (d + 87))"

text \<open>\<open>{:#04x}\<close> of a byte: the prefix and at least two digits.\<close>

definition show_hex_u8 :: "u8 \<Rightarrow> string" where
  "show_hex_u8 b = ''0x'' @ [hex_char (unat b div 16), hex_char (unat b mod 16)]"

definition digit_val :: "char \<Rightarrow> nat option" where
  "digit_val c = (let n = of_char c in if 48 \<le> n \<and> n \<le> 57 then Some (n - 48) else None)"

text \<open>\<open>from_str_radix(10)\<close> stops at the first overflow or foreign character.\<close>

fun parse_digits :: "nat \<Rightarrow> nat \<Rightarrow> string \<Rightarrow> nat option" where
  "parse_digits bound acc [] = Some acc"
| "parse_digits bound acc (c # cs) =
     (case digit_val c of
        None \<Rightarrow> None
      | Some d \<Rightarrow>
          if acc * 10 + d \<le> bound then parse_digits bound (acc * 10 + d) cs else None)"

definition parse_unsigned :: "nat \<Rightarrow> string \<Rightarrow> nat option" where
  "parse_unsigned bound s =
     (case s of
        [] \<Rightarrow> None
      | c # cs \<Rightarrow>
          if c = CHR ''+'' then (if cs = [] then None else parse_digits bound 0 cs)
          else parse_digits bound 0 s)"

definition parse_u8 :: "string \<Rightarrow> nat option" where
  "parse_u8 s = parse_unsigned 255 s"

section \<open>Lemmas\<close>

lemma length_as_bytes [simp]: "length (as_bytes s) = length s"
  by (simp add: as_bytes_def)

lemma str_of_bytes_as_bytes [simp]: "str_of_bytes (as_bytes s) = s"
proof -
  have "char_of (unat (of_nat (of_char c) :: u8)) = c" for c
    using nat_of_char_less_256 [of c] by simp
  then show ?thesis
    by (simp add: str_of_bytes_def as_bytes_def comp_def)
qed

lemma as_bytes_str_of_bytes [simp]: "as_bytes (str_of_bytes bs) = bs"
proof -
  have "of_nat (of_char (char_of (unat b) :: char)) = b" for b :: u8
    using unsigned_less [of b, where ?'a = nat] by simp
  then show ?thesis
    by (simp add: str_of_bytes_def as_bytes_def comp_def map_idI)
qed

lemma from_utf8_as_bytes [simp]: "wf_str s \<Longrightarrow> from_utf8 (as_bytes s) = Some s"
  by (simp add: from_utf8_def wf_str_def)

lemma from_utf8_SomeD: "from_utf8 bs = Some s \<Longrightarrow> wf_str s \<and> as_bytes s = bs"
  by (auto simp: from_utf8_def wf_str_def split: if_splits)

lemma split_by_nonempty [simp]: "split_by p s \<noteq> []"
  by (cases s) (auto split: list.splits)

lemma split_once_Some: "split_once d s = Some (a, b) \<Longrightarrow> s = a @ d # b \<and> d \<notin> set a"
  by (induction s arbitrary: a b) (auto split: if_splits)

lemma split_once_None: "split_once d s = None \<longleftrightarrow> d \<notin> set s"
  by (induction s) auto

lemma strip_prefix_iff: "strip_prefix p s = Some r \<longleftrightarrow> s = p @ r"
  by (induction p s rule: strip_prefix.induct) auto

lemma parse_digits_bound: "acc \<le> bound \<Longrightarrow> parse_digits bound acc s = Some n \<Longrightarrow> n \<le> bound"
  by (induction s arbitrary: acc) (auto split: option.splits if_splits)

lemma parse_u8_bound: "parse_u8 s = Some n \<Longrightarrow> n \<le> 255"
  by (auto simp: parse_u8_def parse_unsigned_def simp del: parse_digits.simps
      split: list.splits if_splits dest!: parse_digits_bound [rotated])

text \<open>Trimming leaves a string of visible ASCII characters alone.\<close>

definition visible_ascii :: "char \<Rightarrow> bool" where
  "visible_ascii c \<longleftrightarrow> 33 \<le> (of_char c :: nat) \<and> (of_char c :: nat) \<le> 126"

lemma ws_visible:
  assumes "visible_ascii c"
  shows "ws_head (c # cs) = 0" and "visible_ascii b \<Longrightarrow> ws_last (c # b # cs) = 0" and "ws_last [c] = 0"
proof -
  have no_ws: "\<not> ascii_ws (of_char c)" "\<not> ws2 (of_char c) n" "\<not> ws3 (of_char c) n k"
    "\<not> ws2 n (of_char c)" "\<not> ws3 k n (of_char c)" for n k
    using assms by (auto simp: visible_ascii_def ascii_ws_def ws2_def ws3_def)
  show "ws_head (c # cs) = 0" "visible_ascii b \<Longrightarrow> ws_last (c # b # cs) = 0" "ws_last [c] = 0"
    by (cases cs; cases "tl cs"; simp add: no_ws)+
qed

lemma trim_visible:
  assumes "list_all visible_ascii s"
  shows "trim s = s"
proof -
  have "trim_start s = s"
    using assms by (cases s) (auto simp: ws_visible simp del: ws_head.simps)
  moreover have "trim_rev (rev s) = rev s"
  proof (cases "rev s")
    case (Cons c cs)
    then have "list_all visible_ascii (c # cs)"
      using assms by (metis list_all_rev)
    then have "ws_last (c # cs) = 0"
      by (cases cs) (auto simp: ws_visible simp del: ws_last.simps)
    with Cons show ?thesis by simp
  qed simp
  ultimately show ?thesis by (simp add: trim_def trim_end_def)
qed

text \<open>Trimming twice is trimming once.\<close>

lemma ws_head_append: "ws_head xs \<noteq> 0 \<Longrightarrow> ws_head (xs @ ys) = ws_head xs"
proof (induction xs rule: ws_head.induct)
  case (2 a)
  then show ?case by (cases ys; cases "tl ys") (auto split: if_splits)
next
  case (3 a b)
  then show ?case by (cases ys) (auto split: if_splits)
qed auto

lemma trim_start_fixed: "ws_head s = 0 \<Longrightarrow> trim_start s = s"
  by (cases s) (auto simp del: ws_head.simps)

lemma ws_head_trim_start: "ws_head (trim_start s) = 0"
  by (induction s rule: trim_start.induct)
    (auto split: nat.splits simp del: ws_head.simps(2,3,4))

lemma ws_last_trim_rev: "ws_last (trim_rev s) = 0"
  by (induction s rule: trim_rev.induct)
    (auto split: nat.splits simp del: ws_last.simps(2,3,4))

lemma trim_rev_fixed: "ws_last s = 0 \<Longrightarrow> trim_rev s = s"
  by (cases s) (auto simp del: ws_last.simps)

lemma trim_rev_suffix: "\<exists>xs. s = xs @ trim_rev s"
proof (induction s rule: trim_rev.induct)
  case (2 c cs)
  show ?case
  proof (cases "ws_last (c # cs)")
    case (Suc n)
    with 2 obtain xs where "drop n cs = xs @ trim_rev (drop n cs)" by blast
    then have "c # cs = (c # take n cs @ xs) @ trim_rev (c # cs)"
      using Suc by (simp del: ws_last.simps)
    then show ?thesis by blast
  qed (simp del: ws_last.simps)
qed simp

lemma trim_end_prefix: "\<exists>ys. s = trim_end s @ ys"
  using trim_rev_suffix [of "rev s"] by (metis rev_append rev_rev_ident trim_end_def)

lemma trim_idem [simp]: "trim (trim s) = trim s"
proof -
  let ?u = "trim_start s"
  obtain ys where "?u = trim_end ?u @ ys" using trim_end_prefix by blast
  then have "ws_head (trim_end ?u) = 0"
    using ws_head_append [of "trim_end ?u" ys] ws_head_trim_start [of s] by metis
  then have "trim_start (trim_end ?u) = trim_end ?u" by (simp add: trim_start_fixed)
  then show ?thesis
    by (simp add: trim_def trim_end_def trim_rev_fixed ws_last_trim_rev)
qed

lemma trim_Nil [simp]: "trim [] = []"
  by (simp add: trim_def trim_end_def)

text \<open>Trimming keeps a string valid UTF-8.\<close>

definition is_cont :: "u8 \<Rightarrow> bool" where
  "is_cont b \<longleftrightarrow> in_range 0x80 0xBF b"

lemma utf8_width_cont:
  assumes "utf8_width bs = Some n"
  shows "0 < n \<and> n \<le> length bs \<and> (\<forall>i. 0 < i \<longrightarrow> i < n \<longrightarrow> is_cont (bs ! i))"
proof -
  have "(\<forall>i. 0 < i \<longrightarrow> i < n \<longrightarrow> is_cont (bs ! i)) \<longleftrightarrow>
      (1 < n \<longrightarrow> is_cont (bs ! 1)) \<and> (2 < n \<longrightarrow> is_cont (bs ! 2)) \<and> (3 < n \<longrightarrow> is_cont (bs ! 3))" if "n \<le> 4"
  proof -
    have "i = 1 \<or> i = 2 \<or> i = 3" if "0 < i" "i < n" for i using that \<open>n \<le> 4\<close> by linarith
    then show ?thesis using \<open>n \<le> 4\<close> by auto
  qed
  moreover have "n \<le> 4"
    using assms by (auto simp: utf8_width_def split: list.splits if_splits)
  moreover have "0 < n \<and> n \<le> length bs \<and> (1 < n \<longrightarrow> is_cont (bs ! 1)) \<and> (2 < n \<longrightarrow> is_cont (bs ! 2))
      \<and> (3 < n \<longrightarrow> is_cont (bs ! 3))"
    using assms
    by (auto simp: utf8_width_def is_cont_def in_range_def numeral_2_eq_2 numeral_3_eq_3
        split: list.splits if_splits)
  ultimately show ?thesis by blast
qed

lemma width_cases:
  obtains "xs = []" | a where "xs = [a]" | a b where "xs = [a, b]" | a b c where "xs = [a, b, c]"
    | a b c d r where "xs = a # b # c # d # r"
  by (metis neq_Nil_conv)

lemma utf8_width_take:
  assumes "utf8_width (xs @ ys) = Some n" and "n \<le> length xs"
  shows "utf8_width xs = Some n"
proof (cases xs rule: width_cases)
  case 1
  with assms show ?thesis using utf8_width_cont [OF assms(1)] by simp
next
  case (2 a)
  with assms show ?thesis by (simp add: utf8_width_def split: if_splits list.splits)
next
  case (3 a b)
  with assms show ?thesis by (simp add: utf8_width_def split: if_splits list.splits)
next
  case (4 a b c)
  with assms show ?thesis by (cases ys) (auto simp: utf8_width_def split: if_split_asm)
next
  case (5 a b c d r)
  then have "utf8_width (xs @ ys) = utf8_width xs" by (simp add: utf8_width_def)
  with assms show ?thesis by simp
qed

lemma utf8_valid_split:
  assumes "utf8_valid (xs @ ys)" and "ys = [] \<or> \<not> is_cont (hd ys)"
  shows "utf8_valid xs \<and> utf8_valid ys"
  using assms
proof (induction "length xs" arbitrary: xs rule: less_induct)
  case less
  show ?case
  proof (cases xs)
    case (Cons b bs)
    with less.prems obtain n where n: "utf8_width (xs @ ys) = Some n"
        "utf8_valid (drop (n - 1) (bs @ ys))"
      by (auto split: option.splits)
    note w = utf8_width_cont [OF n(1)]
    have le: "n \<le> length xs"
    proof (rule ccontr)
      assume "\<not> n \<le> length xs"
      moreover have "0 < length xs" using Cons by simp
      ultimately have "is_cont ((xs @ ys) ! length xs)" "ys \<noteq> []" using w by auto
      with less.prems(2) show False by (simp add: nth_append hd_conv_nth)
    qed
    with Cons w have "n - 1 \<le> length bs" by simp
    then have "utf8_valid (drop (n - 1) bs @ ys)" using n(2) by simp
    then have "utf8_valid (drop (n - 1) bs) \<and> utf8_valid ys"
      using less.hyps [of "drop (n - 1) bs"] less.prems(2) Cons by simp
    with utf8_width_take [OF n(1) le] Cons show ?thesis by simp
  qed (use less.prems in simp)
qed

lemma as_bytes_append [simp]: "as_bytes (xs @ ys) = as_bytes xs @ as_bytes ys"
  by (simp add: as_bytes_def)

lemma as_bytes_Cons [simp]: "as_bytes (c # cs) = of_nat (of_char c) # as_bytes cs"
  by (simp add: as_bytes_def)

lemma as_bytes_Nil [simp]: "as_bytes [] = []"
  by (simp add: as_bytes_def)

lemma unat_of_char [simp]: "unat (of_nat (of_char c) :: u8) = of_char c"
  by (rule unat_of_nat_byte) (rule nat_of_char_less_256)

lemma wf_str_drop_ws:
  assumes "wf_str s" and "ws_head s = n" and "n \<noteq> 0"
  shows "wf_str (drop n s)"
  using assms
  by (cases s rule: ws_head.cases)
    (auto simp: wf_str_def utf8_width_def in_range_def ascii_ws_def ws2_def ws3_def
      split: if_splits option.splits list.splits)

lemma wf_str_drop_last_ws:
  assumes "wf_str (rev t)" and "ws_last t = n" and "n \<noteq> 0"
  shows "wf_str (rev (drop n t))"
proof -
  have n: "n \<le> length t \<and> \<not> is_cont (of_nat (of_char (t ! (n - 1))))"
    using assms(2,3)
    by (cases t rule: ws_last.cases)
      (auto simp: is_cont_def in_range_def ascii_ws_def ws2_def ws3_def numeral_2_eq_2
        numeral_3_eq_3 split: if_splits)
  have "rev t = rev (drop n t) @ rev (take n t)"
    by (metis append_take_drop_id rev_append)
  moreover have "take n t \<noteq> []" using n assms(3) by auto
  then have "hd (as_bytes (rev (take n t))) = of_nat (of_char (t ! (n - 1)))"
    using n assms(3) by (simp add: as_bytes_def hd_map hd_rev last_conv_nth)
  ultimately show ?thesis
    using assms(1) n utf8_valid_split [of "as_bytes (rev (drop n t))" "as_bytes (rev (take n t))"]
    by (simp add: wf_str_def flip: as_bytes_append)
qed

lemma wf_str_trim_rev: "wf_str (rev t) \<Longrightarrow> wf_str (rev (trim_rev t))"
proof (induction t rule: trim_rev.induct)
  case (2 c cs)
  show ?case
  proof (cases "ws_last (c # cs)")
    case (Suc n)
    then show ?thesis
      using wf_str_drop_last_ws [OF 2(2) Suc] 2(1) [OF Suc] by (simp del: ws_last.simps)
  qed (use 2(2) in \<open>simp del: ws_last.simps\<close>)
qed simp

lemma wf_str_trim_start: "wf_str s \<Longrightarrow> wf_str (trim_start s)"
proof (induction s rule: trim_start.induct)
  case (2 c cs)
  show ?case
  proof (cases "ws_head (c # cs)")
    case (Suc n)
    then show ?thesis
      using wf_str_drop_ws [OF 2(2) Suc] 2(1) [OF Suc] by (simp del: ws_head.simps)
  qed (use 2(2) in \<open>simp del: ws_head.simps\<close>)
qed simp

lemma wf_str_trim: "wf_str s \<Longrightarrow> wf_str (trim s)"
  by (simp add: trim_def trim_end_def wf_str_trim_rev wf_str_trim_start)

section \<open>Lossy conversion, splitting and joining\<close>

text \<open>
  \<open>String::from_utf8_lossy\<close> replaces every maximal prefix of a character that is not continued by
  U+FFFD.  \<open>lossy_skip\<close> is the length of such a prefix.
\<close>

definition lossy_skip :: "bytes \<Rightarrow> nat" where
  "lossy_skip bs =
     (case bs of
        a # b # rest \<Rightarrow>
          if in_range 0xE0 0xEF a then
            (if in_range (if a = 0xE0 then 0xA0 else 0x80) (if a = 0xED then 0x9F else 0xBF) b
             then 2 else 1)
          else if in_range 0xF0 0xF4 a then
            (if in_range (if a = 0xF0 then 0x90 else 0x80) (if a = 0xF4 then 0x8F else 0xBF) b
             then (case rest of c # _ \<Rightarrow> if is_cont c then 3 else 2 | [] \<Rightarrow> 2)
             else 1)
          else 1
      | _ \<Rightarrow> 1)"

fun utf8_lossy :: "bytes \<Rightarrow> bytes" where
  "utf8_lossy [] = []"
| "utf8_lossy (b # bs) =
     (case utf8_width (b # bs) of
        Some n \<Rightarrow> b # take (n - 1) bs @ utf8_lossy (drop (n - 1) bs)
      | None \<Rightarrow> [0xEF, 0xBF, 0xBD] @ utf8_lossy (drop (lossy_skip (b # bs) - 1) bs))"

definition from_utf8_lossy :: "bytes \<Rightarrow> string" where
  "from_utf8_lossy bs = str_of_bytes (utf8_lossy bs)"

lemma utf8_lossy_valid: "utf8_valid bs \<Longrightarrow> utf8_lossy bs = bs"
  by (induction bs rule: utf8_valid.induct) (auto split: option.splits)

lemma from_utf8_lossy_wf [simp]: "wf_str s \<Longrightarrow> from_utf8_lossy (as_bytes s) = s"
  by (simp add: from_utf8_lossy_def wf_str_def utf8_lossy_valid)

text \<open>\<open>trim_end_matches\<close> of one character.\<close>

definition trim_end_matches :: "char \<Rightarrow> string \<Rightarrow> string" where
  "trim_end_matches d s = rev (dropWhile (\<lambda>c. c = d) (rev s))"

lemma split_char_no: "d \<notin> set s \<Longrightarrow> split_char d s = [s]"
  unfolding split_char_def by (induction s) auto

lemma split_char_append: "d \<notin> set x \<Longrightarrow> split_char d (x @ d # s) = x # split_char d s"
  unfolding split_char_def by (induction x) auto

lemma split_join:
  "xs \<noteq> [] \<Longrightarrow> list_all (\<lambda>x. d \<notin> set x) xs \<Longrightarrow> split_char d (join_str [d] xs) = xs"
  by (induction xs rule: induct_list012) (auto simp: split_char_no split_char_append)

lemma split_parts: "list_all (\<lambda>x. d \<notin> set x) (split_char d s)"
  unfolding split_char_def by (induction s) (auto split: list.splits)

lemma join_split: "join_str [d] (split_char d s) = s"
  unfolding split_char_def
proof (induction s)
  case (Cons c s)
  obtain y ys where "split_by (\<lambda>c. c = d) s = y # ys"
    by (metis split_by_nonempty neq_Nil_conv)
  with Cons show ?case by (cases ys) auto
qed simp

lemma split_once_append: "d \<notin> set a \<Longrightarrow> split_once d (a @ d # b) = Some (a, b)"
  by (induction a) auto

end
