(* ===== verification/Transport.thy ===== *)
theory Transport
  imports RustStr
begin

text \<open>
  The parts of \<open>transport.rs\<close> that compute: the error type that every connection of the agent reports,
  the URL of the basic information upload with its percent encoding, the reading of the token back from
  a URL, the classification of HTTP responses, and the access headers.  Sending requests and the
  WebSocket handshake are calls into \<open>reqwest\<close> and \<open>tungstenite\<close> and are not modelled.
\<close>

section \<open>Errors\<close>

datatype TransportError =
    EmptyEndpoint
  | EmptyToken
  | UnsupportedScheme string
  | InvalidClientToken string string u16 string
  | RequestFailed string
  | SocketClosed

type_synonym HeaderPair = "string \<times> string"

fun show_transport_error :: "TransportError \<Rightarrow> string" where
  "show_transport_error EmptyEndpoint = ''endpoint is required''"
| "show_transport_error EmptyToken = ''token is required''"
| "show_transport_error (UnsupportedScheme scheme) = ''unsupported endpoint scheme: '' @ scheme"
| "show_transport_error (InvalidClientToken op tok status det) =
     (if det = []
      then ''invalid client token during '' @ op @ '': status='' @ show_nat (unat status)
      else ''invalid client token during '' @ op @ '': '' @ det)"
| "show_transport_error (RequestFailed message) = ''request failed: '' @ message"
| "show_transport_error SocketClosed = ''websocket closed''"

section \<open>Percent encoding\<close>

definition unreserved :: "char \<Rightarrow> bool" where
  "unreserved c \<longleftrightarrow>
     (let n = of_char c :: nat in
      (65 \<le> n \<and> n \<le> 90) \<or> (97 \<le> n \<and> n \<le> 122) \<or> (48 \<le> n \<and> n \<le> 57)
      \<or> c = CHR ''-'' \<or> c = CHR ''.'' \<or> c = CHR ''_'' \<or> c = CHR ''~'')"

definition hex_upper :: "nat \<Rightarrow> char" where
  "hex_upper d = (if d < 10 then char_of (d + 48) else char_of (d + 55))"

fun percent_encode :: "string \<Rightarrow> string" where
  "percent_encode [] = []"
| "percent_encode (c # cs) =
     (if unreserved c then [c]
      else [CHR ''%'', hex_upper (of_char c div 16), hex_upper (of_char c mod 16)])
     @ percent_encode cs"

definition hex_value :: "char \<Rightarrow> nat option" where
  "hex_value c =
     (let n = of_char c in
      if 48 \<le> n \<and> n \<le> 57 then Some (n - 48)
      else if 97 \<le> n \<and> n \<le> 102 then Some (n - 97 + 10)
      else if 65 \<le> n \<and> n \<le> 70 then Some (n - 65 + 10)
      else None)"

text \<open>The loop of \<open>percent_decode\<close> over the bytes that are left; then the lossy conversion.\<close>

fun percent_decode_bytes :: "string \<Rightarrow> string" where
  "percent_decode_bytes (c # h # l # rest) =
     (if c = CHR ''%'' then
        (case (hex_value h, hex_value l) of
           (Some hi, Some lo) \<Rightarrow> char_of (hi * 16 + lo) # percent_decode_bytes rest
         | _ \<Rightarrow> c # percent_decode_bytes (h # l # rest))
      else c # percent_decode_bytes (h # l # rest))"
| "percent_decode_bytes (c # rest) = c # percent_decode_bytes rest"
| "percent_decode_bytes [] = []"

definition percent_decode :: "string \<Rightarrow> string" where
  "percent_decode v = from_utf8_lossy (as_bytes (percent_decode_bytes v))"

section \<open>URLs\<close>

definition normalize_http_base :: "string \<Rightarrow> TransportError + string" where
  "normalize_http_base endpoint =
     (let endpoint = trim_end_matches (CHR ''/'') (trim endpoint) in
      if endpoint = [] then Inl EmptyEndpoint
      else if starts_with endpoint ''https://'' \<or> starts_with endpoint ''http://'' then Inr endpoint
      else Inl (UnsupportedScheme
                  (case split_once_str ''://'' endpoint of Some (scheme, _) \<Rightarrow> scheme | None \<Rightarrow> ''missing'')))"

definition require_non_empty :: "string \<Rightarrow> TransportError \<Rightarrow> TransportError + string" where
  "require_non_empty v error = (let v = trim v in if v = [] then Inl error else Inr v)"

definition build_basic_info_url :: "string \<Rightarrow> string \<Rightarrow> TransportError + string" where
  "build_basic_info_url endpoint tok =
     bind_result (normalize_http_base endpoint) (\<lambda>endpoint.
     bind_result (require_non_empty tok EmptyToken) (\<lambda>tok.
       Inr (endpoint @ ''/api/clients/uploadBasicInfo?token='' @ percent_encode tok)))"

definition token_part :: "string \<Rightarrow> string option" where
  "token_part part =
     (case split_once (CHR ''='') part of
        Some (key, v) \<Rightarrow> if key = ''token'' then Some (percent_decode v) else None
      | None \<Rightarrow> None)"

definition token_from_query :: "string \<Rightarrow> string" where
  "token_from_query query =
     (case List.map_filter token_part (split_char (CHR ''&'') query) of [] \<Rightarrow> [] | tok # _ \<Rightarrow> tok)"

definition token_from_url :: "string \<Rightarrow> string" where
  "token_from_url url =
     (case split_once (CHR ''?'') url of Some (_, query) \<Rightarrow> token_from_query query | None \<Rightarrow> [])"

section \<open>Responses and headers\<close>

definition indicates_invalid_client_token_response :: "u16 \<Rightarrow> string \<Rightarrow> bool" where
  "indicates_invalid_client_token_response status body \<longleftrightarrow>
     status = 401
     \<and> (let body = to_ascii_lowercase (trim body) in
        body \<noteq> []
        \<and> (contains_str body ''invalid token'' \<or> contains_str body ''token is required''
           \<or> contains_str body ''failed to validate token''))"

definition classify_client_token_response :: "string \<Rightarrow> string \<Rightarrow> u16 \<Rightarrow> string \<Rightarrow> TransportError" where
  "classify_client_token_response op tok status body =
     (let det = trim body in
      if indicates_invalid_client_token_response status det
      then InvalidClientToken op (trim tok) status det
      else if det = [] then RequestFailed (''status='' @ show_nat (unat status))
      else RequestFailed (''status='' @ show_nat (unat status) @ '' '' @ det))"

text \<open>What \<open>tungstenite\<close> reports: an HTTP response with its body, or any other error's text.\<close>

datatype websocket_error = WsHttp u16 "bytes option" | WsOther string

fun classify_websocket_error :: "string \<Rightarrow> string \<Rightarrow> websocket_error \<Rightarrow> TransportError" where
  "classify_websocket_error op tok (WsHttp status body) =
     classify_client_token_response op tok status
       (case body of Some b \<Rightarrow> from_utf8_lossy b | None \<Rightarrow> [])"
| "classify_websocket_error op tok (WsOther message) = RequestFailed message"

text \<open>The configuration enters by the two fields that are read.\<close>

definition access_headers :: "string \<Rightarrow> string \<Rightarrow> HeaderPair list" where
  "access_headers cf_access_client_id cf_access_client_secret =
     (let id = trim cf_access_client_id; secret = trim cf_access_client_secret in
      if id = [] \<or> secret = [] then []
      else [(''CF-Access-Client-Id'', id), (''CF-Access-Client-Secret'', secret)])"

text \<open>The port a WebSocket is opened on when the URL has none.\<close>

definition websocket_port :: "u16 option \<Rightarrow> string option \<Rightarrow> u16" where
  "websocket_port port scheme =
     (case port of Some p \<Rightarrow> p | None \<Rightarrow> if scheme = Some ''wss'' then 443 else 80)"

section \<open>Reading from a WebSocket\<close>

text \<open>
  The three sockets (reports, tunnel control, tunnel data) read from the WebSocket library, whose future
  outcomes are a list; \<open>set_timeout\<close> is the error of setting the read timeout, if any.  The data socket
  skips control messages and interrupted reads, which may leave it waiting (\<open>None\<close>); the other two return
  to their caller after each outcome.
\<close>

datatype ws_message = WsText string | WsBinary bytes | WsClose | WsControl

datatype error_kind = WouldBlock | TimedOut | Interrupted | OtherKind

datatype ws_read = WsMessage ws_message | WsIoError error_kind string | WsReadError string

fun report_read_outcome :: "ws_read \<Rightarrow> TransportError + bytes option" where
  "report_read_outcome (WsMessage (WsText text)) = Inr (Some (as_bytes text))"
| "report_read_outcome (WsMessage (WsBinary bs)) = Inr (Some bs)"
| "report_read_outcome (WsMessage WsClose) = Inl SocketClosed"
| "report_read_outcome (WsMessage WsControl) = Inr None"
| "report_read_outcome (WsIoError kind message) =
     (if kind \<in> {WouldBlock, TimedOut} then Inr None else Inl (RequestFailed message))"
| "report_read_outcome (WsReadError message) = Inl (RequestFailed message)"

definition is_idle_read_error_control :: "error_kind \<Rightarrow> bool" where
  "is_idle_read_error_control kind \<longleftrightarrow> kind \<in> {WouldBlock, TimedOut, Interrupted}"

fun control_read_outcome :: "ws_read \<Rightarrow> TransportError + bytes option" where
  "control_read_outcome (WsMessage (WsText text)) = Inr (Some (as_bytes text))"
| "control_read_outcome (WsMessage (WsBinary bs)) = Inr (Some bs)"
| "control_read_outcome (WsMessage WsClose) = Inl SocketClosed"
| "control_read_outcome (WsMessage WsControl) = Inr None"
| "control_read_outcome (WsIoError kind message) =
     (if is_idle_read_error_control kind then Inr None else Inl (RequestFailed message))"
| "control_read_outcome (WsReadError message) = Inl (RequestFailed message)"

definition is_idle_read_error_data :: "error_kind \<Rightarrow> bool" where
  "is_idle_read_error_data kind \<longleftrightarrow> kind \<in> {WouldBlock, TimedOut}"

fun data_read_loop ::
  "bool \<Rightarrow> ws_read list \<Rightarrow> (TransportError + bytes option) option \<times> ws_read list" where
  "data_read_loop timeout_as_idle [] = (None, [])"
| "data_read_loop timeout_as_idle (WsMessage (WsBinary bs) # rest) = (Some (Inr (Some bs)), rest)"
| "data_read_loop timeout_as_idle (WsMessage (WsText text) # rest) = (Some (Inr (Some (as_bytes text))), rest)"
| "data_read_loop timeout_as_idle (WsMessage WsClose # rest) = (Some (Inl SocketClosed), rest)"
| "data_read_loop timeout_as_idle (WsMessage WsControl # rest) = data_read_loop timeout_as_idle rest"
| "data_read_loop timeout_as_idle (WsIoError kind message # rest) =
     (if kind = Interrupted then data_read_loop timeout_as_idle rest
      else if is_idle_read_error_data kind then
        (Some (if timeout_as_idle then Inr None
               else Inl (RequestFailed ''tunnel data frame timeout'')), rest)
      else (Some (Inl (RequestFailed message)), rest))"
| "data_read_loop timeout_as_idle (WsReadError message # rest) = (Some (Inl (RequestFailed message)), rest)"

definition data_read_next_frame ::
  "bool \<Rightarrow> string option \<Rightarrow> ws_read list \<Rightarrow> (TransportError + bytes option) option \<times> ws_read list" where
  "data_read_next_frame timeout_as_idle set_timeout reads =
     (case set_timeout of
        Some e \<Rightarrow> (Some (Inl (RequestFailed e)), reads)
      | None \<Rightarrow> data_read_loop timeout_as_idle reads)"

definition data_read_frame ::
  "string option \<Rightarrow> ws_read list \<Rightarrow> (TransportError + bytes) option \<times> ws_read list" where
  "data_read_frame set_timeout reads =
     (case data_read_next_frame False set_timeout reads of
        (None, rest) \<Rightarrow> (None, rest)
      | (Some (Inl e), rest) \<Rightarrow> (Some (Inl e), rest)
      | (Some (Inr None), rest) \<Rightarrow> (Some (Inl (RequestFailed ''tunnel data frame timeout'')), rest)
      | (Some (Inr (Some bs)), rest) \<Rightarrow> (Some (Inr bs), rest))"

section \<open>Redaction of tokens\<close>

text \<open>
  \<open>redact_token_in_url\<close> exists twice, in \<open>tunnel_control.rs\<close> and in \<open>tunnel_data.rs\<close>; both are here.
\<close>

definition redact_part_control :: "string \<Rightarrow> string" where
  "redact_part_control part =
     (if (case split_once (CHR ''='') part of Some (key, _) \<Rightarrow> key = ''token'' | None \<Rightarrow> False)
      then ''token=redacted'' else part)"

definition redact_token_in_url_control :: "string \<Rightarrow> string" where
  "redact_token_in_url_control url =
     (case split_once (CHR ''?'') url of
        None \<Rightarrow> url
      | Some (base, query) \<Rightarrow>
          base @ ''?'' @ join_str ''&'' (map redact_part_control (split_char (CHR ''&'') query)))"

definition redact_part_data :: "string \<Rightarrow> string" where
  "redact_part_data part =
     (case split_once (CHR ''='') part of
        Some (key, _) \<Rightarrow> if key = ''token'' then key @ ''=redacted'' else part
      | None \<Rightarrow> part)"

definition redact_token_in_url_data :: "string \<Rightarrow> string" where
  "redact_token_in_url_data url =
     (case split_once (CHR ''?'') url of
        None \<Rightarrow> url
      | Some (base, query) \<Rightarrow>
          base @ ''?'' @ join_str ''&'' (map redact_part_data (split_char (CHR ''&'') query)))"

section \<open>Lemmas\<close>

lemma set_trim_end_matches: "set (trim_end_matches d s) \<subseteq> set s"
  unfolding trim_end_matches_def using set_dropWhileD by fastforce

lemma set_trim_start: "set (trim_start s) \<subseteq> set s"
  by (induction s rule: trim_start.induct)
    (auto split: nat.splits simp del: ws_head.simps dest!: in_set_dropD subsetD)

lemma set_trim: "set (trim s) \<subseteq> set s"
proof -
  obtain ys where "trim_start s = trim s @ ys"
    using trim_end_prefix [of "trim_start s"] by (auto simp: trim_def)
  then show ?thesis using set_trim_start [of s] by auto
qed

lemma hex_value_upper: "d < 16 \<Longrightarrow> hex_value (hex_upper d) = Some d"
  by (auto simp: hex_value_def hex_upper_def Let_def of_char_of)

lemma percent_decode_plain:
  "c \<noteq> CHR ''%'' \<Longrightarrow> percent_decode_bytes (c # s) = c # percent_decode_bytes s"
  by (cases "c # s" rule: percent_decode_bytes.cases) auto

lemma percent_decode_encode [simp]: "percent_decode_bytes (percent_encode s) = s"
proof (induction s)
  case (Cons c s)
  have "of_char c < (256 :: nat)" by (rule nat_of_char_less_256)
  then have hex: "hex_value (hex_upper (of_char c div 16)) = Some (of_char c div 16)"
      "hex_value (hex_upper (of_char c mod 16)) = Some (of_char c mod 16)"
    by (simp_all add: hex_value_upper less_mult_imp_div_less)
  show ?case
  proof (cases "unreserved c")
    case True
    then have "c \<noteq> CHR ''%''" by (auto simp: unreserved_def)
    with True Cons show ?thesis by (simp add: percent_decode_plain)
  qed (use hex Cons in simp)
qed simp

lemma percent_encode_chars: "c \<in> set (percent_encode s) \<Longrightarrow> unreserved c \<or> c = CHR ''%''"
proof (induction s)
  case (Cons a s)
  have "unreserved (hex_upper d)" if "d < 16" for d
    using that by (auto simp: unreserved_def hex_upper_def Let_def of_char_of)
  moreover have "of_char a div 16 < (16 :: nat)"
    using nat_of_char_less_256 [of a] by (simp add: less_mult_imp_div_less)
  ultimately show ?case using Cons by (auto split: if_splits)
qed simp

lemma percent_encode_no:
  "CHR ''&'' \<notin> set (percent_encode s)" "CHR ''='' \<notin> set (percent_encode s)"
  "CHR ''?'' \<notin> set (percent_encode s)"
  by (auto dest!: percent_encode_chars simp: unreserved_def)

lemma token_from_url_first:
  assumes "wf_str tok" and "CHR ''?'' \<notin> set base" and "rest = [] \<or> (\<exists>r. rest = CHR ''&'' # r)"
  shows "token_from_url (base @ CHR ''?'' # ''token='' @ percent_encode tok @ rest) = tok"
proof -
  let ?part = "''token='' @ percent_encode tok"
  have "split_once (CHR ''?'') (base @ CHR ''?'' # ?part @ rest) = Some (base, ?part @ rest)"
    by (rule split_once_append [OF assms(2)])
  moreover obtain more where "split_char (CHR ''&'') (?part @ rest) = ?part # more"
  proof -
    have no: "CHR ''&'' \<notin> set ?part" by (simp add: percent_encode_no)
    from assms(3) show thesis
    proof
      assume "rest = []"
      then show thesis using that [of "[]"] split_char_no [OF no] by simp
    next
      assume "\<exists>r. rest = CHR ''&'' # r"
      then obtain r where "rest = CHR ''&'' # r" ..
      then show thesis using that split_char_append [OF no, of r] by simp
    qed
  qed
  moreover have "split_once (CHR ''='') (''token'' @ CHR ''='' # percent_encode tok) =
      Some (''token'', percent_encode tok)"
    by (intro split_once_append) simp
  moreover have "percent_decode (percent_encode tok) = tok"
    using assms(1) by (simp add: percent_decode_def)
  ultimately show ?thesis
    by (simp add: token_from_url_def token_from_query_def token_part_def List.map_filter_def)
qed

section \<open>Properties\<close>

text \<open>
  The token survives the upload URL: whatever valid string is configured as the token, the
  URL built from it carries it in such a form that the reading side gets back exactly the trimmed token,
  provided the endpoint has no query of its own.
\<close>
theorem token_url_roundtrip:
  assumes "build_basic_info_url endpoint tok = Inr url" and "wf_str tok" and "CHR ''?'' \<notin> set endpoint"
  shows "token_from_url url = trim tok"
proof -
  obtain base where base: "normalize_http_base endpoint = Inr base"
      and url: "url = (base @ ''/api/clients/uploadBasicInfo'') @ CHR ''?'' # ''token='' @ percent_encode (trim tok)"
    using assms(1)
    by (auto simp: build_basic_info_url_def require_non_empty_def result_simps Let_def
        split: if_splits)
  have "set base \<subseteq> set endpoint"
    using base set_trim [of endpoint] set_trim_end_matches [of "CHR ''/''" "trim endpoint"]
    by (auto simp: normalize_http_base_def Let_def split: if_splits)
  with assms(2,3) show ?thesis
    using token_from_url_first [OF wf_str_trim, of tok "base @ ''/api/clients/uploadBasicInfo''" "[]"]
    by (auto simp: url)
qed

theorem token_url_roundtrip_witness:
  "\<exists>url. build_basic_info_url ''https://x/'' '' a&b=%?'' = Inr url \<and> token_from_url url = ''a&b=%?''"
proof -
  let ?url = "''https://x/api/clients/uploadBasicInfo?token=a%26b%3D%25%3F''"
  have url: "build_basic_info_url ''https://x/'' '' a&b=%?'' = Inr ?url" by code_simp
  moreover have "wf_str '' a&b=%?''" by code_simp
  moreover have "trim '' a&b=%?'' = ''a&b=%?''" by code_simp
  ultimately show ?thesis
    using token_url_roundtrip [of "''https://x/''" "'' a&b=%?''" ?url] by simp
qed

text \<open>The query parameters of a URL.\<close>

definition query_parts :: "string \<Rightarrow> string list" where
  "query_parts url =
     (case split_once (CHR ''?'') url of Some (_, query) \<Rightarrow> split_char (CHR ''&'') query | None \<Rightarrow> [])"

definition is_token_part :: "string \<Rightarrow> bool" where
  "is_token_part part \<longleftrightarrow> (\<exists>v. split_once (CHR ''='') part = Some (''token'', v))"

lemma redact_part_eq:
  "redact_part_control = (\<lambda>part. if is_token_part part then ''token=redacted'' else part)"
  "redact_part_data = redact_part_control"
  by (auto simp: fun_eq_iff redact_part_control_def redact_part_data_def is_token_part_def
      split: option.splits)

lemma query_parts_redact:
  "query_parts (redact_token_in_url_control url) = map redact_part_control (query_parts url)"
proof (cases "split_once (CHR ''?'') url")
  case None
  then show ?thesis by (simp add: query_parts_def redact_token_in_url_control_def)
next
  case (Some x)
  then obtain base query where x: "split_once (CHR ''?'') url = Some (base, query)" by (cases x) auto
  then have base: "CHR ''?'' \<notin> set base" by (auto dest: split_once_Some)
  let ?parts = "map redact_part_control (split_char (CHR ''&'') query)"
  have "CHR ''&'' \<notin> set (redact_part_control p)" if "p \<in> set (split_char (CHR ''&'') query)" for p
    using that split_parts [of "CHR ''&''" query] by (auto simp: redact_part_eq(1) list_all_iff)
  then have "split_char (CHR ''&'') (join_str [CHR ''&''] ?parts) = ?parts"
    by (intro split_join) (auto simp: list_all_iff split_char_def)
  with x base show ?thesis
    by (simp add: query_parts_def redact_token_in_url_control_def split_once_append)
qed

text \<open>
  Claim C15.  No token reaches a log line through a URL: the two redaction functions agree, they replace
  exactly the \<open>token\<close> parameters of the query by \<open>token=redacted\<close> and keep all others in order, and the
  token read back from a redacted URL is empty or \<open>redacted\<close>.
\<close>
theorem redaction_hides_token:
  "redact_token_in_url_data url = redact_token_in_url_control url
   \<and> query_parts (redact_token_in_url_control url)
       = map (\<lambda>part. if is_token_part part then ''token=redacted'' else part) (query_parts url)
   \<and> token_from_url (redact_token_in_url_control url) \<in> {[], ''redacted''}"
proof -
  have eq: "redact_token_in_url_data url = redact_token_in_url_control url"
    unfolding redact_token_in_url_data_def redact_token_in_url_control_def redact_part_eq(2) ..
  have parts: "token_from_url u =
      (case List.map_filter token_part (query_parts u) of [] \<Rightarrow> [] | tok # _ \<Rightarrow> tok)" for u
    by (auto simp: token_from_url_def token_from_query_def query_parts_def List.map_filter_def
        split: option.splits)
  have "token_part ''token=redacted'' = Some ''redacted''" by code_simp
  moreover have "token_part p = None" if "\<not> is_token_part p" for p
    using that by (auto simp: token_part_def is_token_part_def split: option.splits)
  ultimately have "tok = ''redacted''" if "tok \<in> set (List.map_filter token_part (map redact_part_control ps))" for tok ps
    using that by (auto simp: List.map_filter_def redact_part_eq(1) split: if_splits)
  then have "token_from_url (redact_token_in_url_control url) \<in> {[], ''redacted''}"
    unfolding parts query_parts_redact
    by (auto split: list.splits) (metis list.set_intros(1))
  with eq show ?thesis by (simp add: query_parts_redact redact_part_eq(1))
qed

end
