(* ===== verification/KtpFrame.thy ===== *)
theory KtpFrame
  imports RustStr
begin

text \<open>
  The KTP frame format of \<open>src/src/ktp.rs\<close>: frame types and legs with their wire codes, the frame
  record, the validation rule (a connection level frame has the connection leg and session 0, a
  session level frame has neither), the encoder and the decoder with every error branch.  The lemmas
  show that encoding and decoding are inverse to each other, that the decoder reads exactly one frame
  off the front of its input, and which frames and inputs are refused.
\<close>

section \<open>Constants, types and codes\<close>

definition KTP_MAGIC :: bytes where
  "KTP_MAGIC = [0x4B, 0x54, 0x50, 0x31]"

definition KTP_VERSION :: u8 where
  "KTP_VERSION = 1"

definition KTP_HEADER_LEN :: nat where
  "KTP_HEADER_LEN = 24"

definition KTP_MAX_PAYLOAD_LEN :: nat where
  "KTP_MAX_PAYLOAD_LEN = 1024 * 1024"

datatype FrameType =
    Hello | HelloAck | Ready
  | SessionOpen | SessionAccept | SessionData | SessionWindow | SessionClose | SessionError
  | Ping | Pong | Stats

datatype FrameLeg = LegConnection | LegIngress | LegEgress

record KtpFrame =
  frame_type :: FrameType
  leg :: FrameLeg
  flags :: u8
  session_id :: u64
  payload :: bytes

datatype KtpError =
    WrongMagic
  | UnsupportedVersion u8
  | UnknownFrameType u8
  | InvalidLeg u8
  | InvalidSessionId
  | TruncatedHeader
  | TruncatedPayload
  | PayloadTooLarge nat
  | ReservedNonZero u32

fun frame_type_as_u8 :: "FrameType \<Rightarrow> u8" where
  "frame_type_as_u8 Hello = 0x01"
| "frame_type_as_u8 HelloAck = 0x02"
| "frame_type_as_u8 Ready = 0x03"
| "frame_type_as_u8 SessionOpen = 0x10"
| "frame_type_as_u8 SessionAccept = 0x11"
| "frame_type_as_u8 SessionData = 0x12"
| "frame_type_as_u8 SessionWindow = 0x13"
| "frame_type_as_u8 SessionClose = 0x14"
| "frame_type_as_u8 SessionError = 0x15"
| "frame_type_as_u8 Ping = 0x20"
| "frame_type_as_u8 Pong = 0x21"
| "frame_type_as_u8 Stats = 0x30"

definition frame_type_from_u8 :: "u8 \<Rightarrow> KtpError + FrameType" where
  "frame_type_from_u8 v =
     (if v = 0x01 then Inr Hello
      else if v = 0x02 then Inr HelloAck
      else if v = 0x03 then Inr Ready
      else if v = 0x10 then Inr SessionOpen
      else if v = 0x11 then Inr SessionAccept
      else if v = 0x12 then Inr SessionData
      else if v = 0x13 then Inr SessionWindow
      else if v = 0x14 then Inr SessionClose
      else if v = 0x15 then Inr SessionError
      else if v = 0x20 then Inr Ping
      else if v = 0x21 then Inr Pong
      else if v = 0x30 then Inr Stats
      else Inl (UnknownFrameType v))"

definition is_connection_level :: "FrameType \<Rightarrow> bool" where
  "is_connection_level t \<longleftrightarrow>
     t = Hello \<or> t = HelloAck \<or> t = Ready \<or> t = Ping \<or> t = Pong \<or> t = Stats"

fun frame_leg_as_u8 :: "FrameLeg \<Rightarrow> u8" where
  "frame_leg_as_u8 LegConnection = 0"
| "frame_leg_as_u8 LegIngress = 1"
| "frame_leg_as_u8 LegEgress = 2"

definition frame_leg_from_u8 :: "u8 \<Rightarrow> KtpError + FrameLeg" where
  "frame_leg_from_u8 v =
     (if v = 0 then Inr LegConnection
      else if v = 1 then Inr LegIngress
      else if v = 2 then Inr LegEgress
      else Inl (InvalidLeg v))"

definition connection_frame :: "FrameType \<Rightarrow> bytes \<Rightarrow> KtpFrame" where
  "connection_frame t p =
     \<lparr>frame_type = t, leg = LegConnection, flags = 0, session_id = 0, payload = p\<rparr>"

fun show_ktp_error :: "KtpError \<Rightarrow> string" where
  "show_ktp_error WrongMagic = ''wrong KTP magic''"
| "show_ktp_error (UnsupportedVersion v) = ''unsupported KTP version '' @ show_nat (unat v)"
| "show_ktp_error (UnknownFrameType t) = ''unknown KTP frame type '' @ show_hex_u8 t"
| "show_ktp_error (InvalidLeg l) = ''invalid KTP frame leg '' @ show_nat (unat l)"
| "show_ktp_error InvalidSessionId = ''invalid KTP session id''"
| "show_ktp_error TruncatedHeader = ''truncated KTP header''"
| "show_ktp_error TruncatedPayload = ''truncated KTP payload''"
| "show_ktp_error (PayloadTooLarge n) = ''KTP payload too large: '' @ show_nat n @ '' bytes''"
| "show_ktp_error (ReservedNonZero v) =
     ''KTP reserved header field is non-zero: '' @ show_nat (unat v)"

section \<open>Validation, encoding, decoding\<close>

definition validate_frame :: "KtpFrame \<Rightarrow> KtpError + unit" where
  "validate_frame f =
     (if is_connection_level (frame_type f) then
        (if leg f \<noteq> LegConnection then Inl (InvalidLeg (frame_leg_as_u8 (leg f)))
         else if session_id f \<noteq> 0 then Inl InvalidSessionId
         else Inr ())
      else
        (if leg f = LegConnection then Inl (InvalidLeg (frame_leg_as_u8 (leg f)))
         else if session_id f = 0 then Inl InvalidSessionId
         else Inr ()))"

text \<open>\<open>append_frame_bytes\<close> mutates its vector; the model returns the result and the vector.\<close>

definition append_frame_bytes :: "KtpFrame \<Rightarrow> bytes \<Rightarrow> (KtpError + unit) \<times> bytes" where
  "append_frame_bytes f bs =
     (case validate_frame f of
        Inl e \<Rightarrow> (Inl e, bs)
      | Inr _ \<Rightarrow>
          let payload_len = length (payload f) in
          if payload_len > KTP_MAX_PAYLOAD_LEN then (Inl (PayloadTooLarge payload_len), bs)
          else
            (Inr (),
             bs @ KTP_MAGIC
                @ [KTP_VERSION]
                @ [frame_type_as_u8 (frame_type f)]
                @ [frame_leg_as_u8 (leg f)]
                @ [flags f]
                @ u64_to_be_bytes (session_id f)
                @ u32_to_be_bytes (of_nat payload_len)
                @ u32_to_be_bytes 0
                @ payload f))"

definition encode_frame_into :: "KtpFrame \<Rightarrow> bytes \<Rightarrow> (KtpError + unit) \<times> bytes" where
  "encode_frame_into f bs = append_frame_bytes f []"

definition encode_frame :: "KtpFrame \<Rightarrow> KtpError + bytes" where
  "encode_frame f =
     (case encode_frame_into f [] of
        (Inl e, _) \<Rightarrow> Inl e
      | (Inr _, bs) \<Rightarrow> Inr bs)"

definition decode_frame :: "bytes \<Rightarrow> nat \<Rightarrow> KtpError + KtpFrame" where
  "decode_frame bs max_payload_len =
     (let effective_max_payload_len = min max_payload_len KTP_MAX_PAYLOAD_LEN in
      if length bs < KTP_HEADER_LEN then Inl TruncatedHeader
      else if sub_slice 0 4 bs \<noteq> KTP_MAGIC then Inl WrongMagic
      else if bs ! 4 \<noteq> KTP_VERSION then Inl (UnsupportedVersion (bs ! 4))
      else
        bind_result (frame_type_from_u8 (bs ! 5)) (\<lambda>ft.
        bind_result (frame_leg_from_u8 (bs ! 6)) (\<lambda>lg.
          let fl = bs ! 7;
              sid = u64_from_be_bytes (sub_slice 8 16 bs);
              payload_len = unat (u32_from_be_bytes (sub_slice 16 20 bs));
              reserved = u32_from_be_bytes (sub_slice 20 24 bs)
          in
            if reserved \<noteq> 0 then Inl (ReservedNonZero reserved)
            else if payload_len > effective_max_payload_len then Inl (PayloadTooLarge payload_len)
            else if length bs < KTP_HEADER_LEN + payload_len then Inl TruncatedPayload
            else
              let f = \<lparr>frame_type = ft, leg = lg, flags = fl, session_id = sid,
                       payload = sub_slice KTP_HEADER_LEN (KTP_HEADER_LEN + payload_len) bs\<rparr>
              in bind_result (validate_frame f) (\<lambda>_. Inr f))))"

section \<open>Well-formed frames and the wire image\<close>

text \<open>A frame the encoder accepts, and the bytes it produces.\<close>

definition wf_frame :: "KtpFrame \<Rightarrow> bool" where
  "wf_frame f \<longleftrightarrow>
     (if is_connection_level (frame_type f) then leg f = LegConnection \<and> session_id f = 0
      else leg f \<noteq> LegConnection \<and> session_id f \<noteq> 0)
     \<and> length (payload f) \<le> KTP_MAX_PAYLOAD_LEN"

definition frame_header :: "KtpFrame \<Rightarrow> bytes" where
  "frame_header f =
     KTP_MAGIC
     @ [KTP_VERSION, frame_type_as_u8 (frame_type f), frame_leg_as_u8 (leg f), flags f]
     @ u64_to_be_bytes (session_id f)
     @ u32_to_be_bytes (of_nat (length (payload f)))
     @ u32_to_be_bytes 0"

definition frame_wire :: "KtpFrame \<Rightarrow> bytes" where
  "frame_wire f = frame_header f @ payload f"

lemmas ktp_const_defs = KTP_MAGIC_def KTP_VERSION_def KTP_HEADER_LEN_def KTP_MAX_PAYLOAD_LEN_def

lemma frame_type_roundtrip [simp]: "frame_type_from_u8 (frame_type_as_u8 t) = Inr t"
  by (cases t) (simp_all add: frame_type_from_u8_def)

lemma frame_leg_roundtrip [simp]: "frame_leg_from_u8 (frame_leg_as_u8 l) = Inr l"
  by (cases l) (simp_all add: frame_leg_from_u8_def)

lemma frame_type_from_u8_Inr: "frame_type_from_u8 v = Inr t \<Longrightarrow> frame_type_as_u8 t = v"
  by (auto simp: frame_type_from_u8_def split: if_splits)

lemma frame_leg_from_u8_Inr: "frame_leg_from_u8 v = Inr l \<Longrightarrow> frame_leg_as_u8 l = v"
  by (auto simp: frame_leg_from_u8_def split: if_splits)

lemma validate_frame_ok_iff:
  "validate_frame f = Inr u \<and> length (payload f) \<le> KTP_MAX_PAYLOAD_LEN \<longleftrightarrow> wf_frame f"
  by (auto simp: validate_frame_def wf_frame_def)

lemma wf_frame_validate: "wf_frame f \<Longrightarrow> validate_frame f = Inr ()"
  by (auto simp: validate_frame_def wf_frame_def)

lemma wf_frame_payload: "wf_frame f \<Longrightarrow> length (payload f) \<le> KTP_MAX_PAYLOAD_LEN"
  by (simp add: wf_frame_def)

lemma length_frame_header [simp]: "length (frame_header f) = KTP_HEADER_LEN"
  by (simp add: frame_header_def ktp_const_defs)

lemma length_frame_wire: "length (frame_wire f) = KTP_HEADER_LEN + length (payload f)"
  by (simp add: frame_wire_def)

lemma append_frame_bytes_wf:
  "wf_frame f \<Longrightarrow> append_frame_bytes f bs = (Inr (), bs @ frame_wire f)"
  by (simp add: append_frame_bytes_def wf_frame_validate frame_wire_def frame_header_def
      Let_def linorder_not_less wf_frame_payload)

lemma append_frame_bytes_not_wf:
  "\<not> wf_frame f \<Longrightarrow> \<exists>e. append_frame_bytes f bs = (Inl e, bs)"
  using validate_frame_ok_iff [of f "()"]
  by (auto simp: append_frame_bytes_def Let_def split: sum.splits)

lemma encode_frame_wf: "wf_frame f \<Longrightarrow> encode_frame f = Inr (frame_wire f)"
  by (simp add: encode_frame_def encode_frame_into_def append_frame_bytes_wf)

lemma encode_frame_Inr_iff: "encode_frame f = Inr bs \<longleftrightarrow> wf_frame f \<and> bs = frame_wire f"
proof (cases "wf_frame f")
  case True
  then show ?thesis by (auto simp: encode_frame_wf)
next
  case False
  then obtain e where "append_frame_bytes f [] = (Inl e, [])"
    using append_frame_bytes_not_wf by blast
  with False show ?thesis by (simp add: encode_frame_def encode_frame_into_def)
qed

section \<open>Reading a header back\<close>

text \<open>The fields of the first 24 bytes, as \<open>decode_frame\<close> and the stream codec read them.\<close>

lemma header_fields:
  "sub_slice 0 4 (frame_header f @ rest) = KTP_MAGIC"
  "(frame_header f @ rest) ! 4 = KTP_VERSION"
  "(frame_header f @ rest) ! 5 = frame_type_as_u8 (frame_type f)"
  "(frame_header f @ rest) ! 6 = frame_leg_as_u8 (leg f)"
  "(frame_header f @ rest) ! 7 = flags f"
  "u64_from_be_bytes (sub_slice 8 16 (frame_header f @ rest)) = session_id f"
  "u32_from_be_bytes (sub_slice 16 20 (frame_header f @ rest)) = of_nat (length (payload f))"
  "u32_from_be_bytes (sub_slice 20 24 (frame_header f @ rest)) = 0"
  by (simp_all add: frame_header_def KTP_MAGIC_def sub_slice_def)

lemma unat_payload_len:
  assumes "length p \<le> KTP_MAX_PAYLOAD_LEN"
  shows "unat (of_nat (length p) :: u32) = length p"
  using assms by (simp add: KTP_MAX_PAYLOAD_LEN_def unat_of_nat take_bit_nat_def)

lemma sub_slice_payload:
  "sub_slice KTP_HEADER_LEN (KTP_HEADER_LEN + length (payload f)) (frame_wire f @ rest) = payload f"
  by (simp add: sub_slice_def frame_wire_def)

section \<open>The decoder\<close>

lemma KtpFrame_eta [simp]:
  "\<lparr>frame_type = frame_type f, leg = leg f, flags = flags f,
    session_id = session_id f, payload = payload f\<rparr> = f"
  by (cases f) simp

lemma decode_frame_wire:
  assumes "wf_frame f" and "length (payload f) \<le> max_payload_len"
  shows "decode_frame (frame_wire f @ rest) max_payload_len = Inr f"
proof -
  have len: "unat (of_nat (length (payload f)) :: u32) = length (payload f)"
    using assms(1) by (simp add: unat_payload_len wf_frame_payload)
  show ?thesis
    using assms header_fields [of f "payload f @ rest"] sub_slice_payload [of f rest]
    by (simp add: decode_frame_def Let_def len frame_wire_def wf_frame_validate wf_frame_payload
        linorder_not_less)
qed

lemma decode_frame_header:
  assumes "wf_frame f" and "length (payload f) \<le> max_payload_len"
  shows "decode_frame (frame_header f) max_payload_len =
    (if payload f = [] then Inr f else Inl TruncatedPayload)"
proof -
  have len: "unat (of_nat (length (payload f)) :: u32) = length (payload f)"
    using assms(1) by (simp add: unat_payload_len wf_frame_payload)
  show ?thesis
  proof (cases "payload f = []")
    case True
    then show ?thesis
      using decode_frame_wire [OF assms, of "[]"] by (simp add: frame_wire_def)
  next
    case False
    then show ?thesis
      using assms header_fields [of f "[]"] wf_frame_payload [OF assms(1)]
      by (simp add: decode_frame_def Let_def len linorder_not_less)
  qed
qed

text \<open>
  A successful decode fixes the first bytes of the input: they are the wire image of the frame, which
  is well formed and within both payload limits.
\<close>

lemma header_split:
  assumes "24 \<le> length bs"
  shows "take 24 bs =
    sub_slice 0 4 bs @ [bs ! 4, bs ! 5, bs ! 6, bs ! 7]
    @ sub_slice 8 16 bs @ sub_slice 16 20 bs @ sub_slice 20 24 bs"
proof -
  have "[bs ! 4, bs ! 5, bs ! 6, bs ! 7] = sub_slice 4 8 bs"
  proof (rule nth_equalityI)
    show "length [bs ! 4, bs ! 5, bs ! 6, bs ! 7] = length (sub_slice 4 8 bs)"
      using assms by simp
    fix i assume "i < length [bs ! 4, bs ! 5, bs ! 6, bs ! 7]"
    then have "i = 0 \<or> i = 1 \<or> i = 2 \<or> i = 3" by auto
    then show "[bs ! 4, bs ! 5, bs ! 6, bs ! 7] ! i = sub_slice 4 8 bs ! i"
      using assms by (auto simp: sub_slice_def)
  qed
  then show ?thesis
    by (simp add: sub_slice_split) (simp add: sub_slice_def)
qed

lemma decode_frame_Inr:
  assumes "decode_frame bs max_payload_len = Inr f"
  shows "wf_frame f" and "length (payload f) \<le> max_payload_len"
    and "bs = frame_wire f @ drop (KTP_HEADER_LEN + length (payload f)) bs"
proof -
  let ?n = "unat (u32_from_be_bytes (sub_slice 16 20 bs))"
  from assms have len: "24 \<le> length bs" and magic: "sub_slice 0 4 bs = KTP_MAGIC"
    and version: "bs ! 4 = KTP_VERSION"
    and ft: "frame_type_from_u8 (bs ! 5) = Inr (frame_type f)"
    and lg: "frame_leg_from_u8 (bs ! 6) = Inr (leg f)"
    and fl: "flags f = bs ! 7" and sid: "session_id f = u64_from_be_bytes (sub_slice 8 16 bs)"
    and res: "u32_from_be_bytes (sub_slice 20 24 bs) = 0"
    and lim: "?n \<le> min max_payload_len KTP_MAX_PAYLOAD_LEN" and total: "24 + ?n \<le> length bs"
    and pl: "payload f = sub_slice 24 (24 + ?n) bs" and valid: "validate_frame f = Inr ()"
    by (auto simp: decode_frame_def Let_def result_simps KTP_HEADER_LEN_def split: if_splits)
  have n: "length (payload f) = ?n"
    using pl total by simp
  from valid lim n show wf: "wf_frame f" and "length (payload f) \<le> max_payload_len"
    using validate_frame_ok_iff [of f "()"] by auto
  have "frame_header f = take 24 bs"
    using header_split [OF len] magic version frame_type_from_u8_Inr [OF ft]
      frame_leg_from_u8_Inr [OF lg] fl sid res n len
      u64_bytes_roundtrip [of "sub_slice 8 16 bs"] u32_bytes_roundtrip [of "sub_slice 16 20 bs"]
      u32_bytes_roundtrip [of "sub_slice 20 24 bs"]
    by (simp add: frame_header_def)
  then have "frame_wire f = take 24 bs @ sub_slice 24 (24 + ?n) bs"
    by (simp add: frame_wire_def pl)
  also have "\<dots> = take (24 + ?n) bs"
    by (simp add: sub_slice_def take_add)
  finally show "bs = frame_wire f @ drop (KTP_HEADER_LEN + length (payload f)) bs"
    by (simp add: n KTP_HEADER_LEN_def)
qed

lemma frame_wire_inj:
  assumes "wf_frame f" and "wf_frame g" and "frame_wire f @ r = frame_wire g @ s"
  shows "f = g \<and> r = s"
proof -
  have "decode_frame (frame_wire f @ r) KTP_MAX_PAYLOAD_LEN = Inr f"
    and "decode_frame (frame_wire g @ s) KTP_MAX_PAYLOAD_LEN = Inr g"
    using assms(1,2) by (simp_all add: decode_frame_wire wf_frame_payload)
  with assms(3) show ?thesis by simp
qed

section \<open>Properties of the frame format\<close>

text \<open>
  Claim C4.  Every well-formed frame can be encoded, into a 24 byte header and the payload, and
  decoding those bytes, whatever follows them, with a limit that admits the payload returns the
  frame: no field is lost.
\<close>
theorem ktp_frame_roundtrip:
  assumes "wf_frame f" and "length (payload f) \<le> max_payload_len"
  shows "\<exists>bs. encode_frame f = Inr bs \<and> length bs = KTP_HEADER_LEN + length (payload f)
    \<and> (\<forall>rest. decode_frame (bs @ rest) max_payload_len = Inr f)"
  using assms by (simp add: encode_frame_wf length_frame_wire decode_frame_wire)

definition sample_frame :: KtpFrame where
  "sample_frame =
     \<lparr>frame_type = SessionData, leg = LegIngress, flags = 3, session_id = 258, payload = [1, 2, 255]\<rparr>"

lemma wf_sample_frame: "wf_frame sample_frame" "length (payload sample_frame) = 3"
  by (simp_all add: wf_frame_def sample_frame_def KTP_MAX_PAYLOAD_LEN_def is_connection_level_def)

theorem ktp_frame_roundtrip_witness:
  "wf_frame sample_frame \<and> (\<exists>bs. encode_frame sample_frame = Inr bs \<and> length bs = 27
     \<and> (\<forall>rest. decode_frame (bs @ rest) 3 = Inr sample_frame))"
  using ktp_frame_roundtrip [of sample_frame 3] wf_sample_frame
  by (simp add: sample_frame_def KTP_HEADER_LEN_def)

text \<open>
  Claim C5.  The decoder accepts only canonical encodings: what it accepts is a well-formed frame
  within both payload limits, and encoding that frame gives back exactly the bytes it was decoded
  from.
\<close>
theorem ktp_decode_canonical:
  assumes "decode_frame bs max_payload_len = Inr f"
  shows "length (payload f) \<le> min max_payload_len KTP_MAX_PAYLOAD_LEN
    \<and> encode_frame f = Inr (take (KTP_HEADER_LEN + length (payload f)) bs)"
proof -
  note d = decode_frame_Inr [OF assms]
  have "take (KTP_HEADER_LEN + length (payload f)) bs = frame_wire f"
    by (subst d(3)) (simp add: length_frame_wire)
  with d(1,2) show ?thesis
    by (simp add: encode_frame_wf wf_frame_payload)
qed

theorem ktp_decode_canonical_witness:
  "encode_frame sample_frame = Inr (take 27 (frame_wire sample_frame @ [9, 9]))"
  using ktp_decode_canonical [OF decode_frame_wire [OF wf_sample_frame(1), of 3 "[9, 9]"]]
  by (simp add: wf_sample_frame KTP_HEADER_LEN_def)

end
