(* ===== verification/TunnelQueue.thy ===== *)
theory TunnelQueue
  imports KtpFrame
begin

text \<open>
  The first half of \<open>src/src/tunnel_async_runtime.rs\<close>: the relay batch policy, the runtime limits and
  errors, the outbound frame queue with its notifier, and the runtime statistics with the dwell time
  percentiles.  Durations and instants are nanoseconds; an operation that looks at the clock takes the
  current instant as an argument.  A \<open>Mutex\<close> is its value and whether it is poisoned (a thread panicked
  while it held the lock).  Plain integer arithmetic wraps around, as in a release build.
\<close>

section \<open>Durations and locks\<close>

type_synonym Duration = nat
type_synonym Instant = nat

definition from_secs :: "nat \<Rightarrow> Duration" where
  "from_secs n = n * 1000000000"

definition from_millis :: "nat \<Rightarrow> Duration" where
  "from_millis n = n * 1000000"

definition as_micros :: "Duration \<Rightarrow> nat" where
  "as_micros d = d div 1000"

definition elapsed :: "Instant \<Rightarrow> Instant \<Rightarrow> Duration" where
  "elapsed now start = now - start"

record 'a mutex =
  guarded :: 'a
  poisoned :: bool

definition mutex_new :: "'a \<Rightarrow> 'a mutex" where
  "mutex_new x = \<lparr>guarded = x, poisoned = False\<rparr>"

section \<open>Statistics\<close>

definition OUTBOUND_QUEUE_DWELL_MICROS_BUCKETS :: "u64 list" where
  "OUTBOUND_QUEUE_DWELL_MICROS_BUCKETS =
     [10, 25, 50, 100, 250, 500, 1000, 2500, 5000, 10000, 25000, 50000, 100000, 250000, 500000,
      1000000, - 1]"

definition OUTBOUND_QUEUE_DWELL_RECENT_SAMPLES :: nat where
  "OUTBOUND_QUEUE_DWELL_RECENT_SAMPLES = 16"

record TunnelQueueDwellStatsInner =
  dwell_frames :: u64
  dwell_micros_total :: u64
  dwell_micros_max :: u64
  dwell_micros_buckets :: "u64 list"

record TunnelQueueDwellStatsSnapshot =
  snap_frames :: u64
  snap_micros_total :: u64
  snap_micros_max :: u64
  p50_micros :: u64
  p95_micros :: u64
  p99_micros :: u64

definition dwell_snapshot_default :: TunnelQueueDwellStatsSnapshot where
  "dwell_snapshot_default =
     \<lparr>snap_frames = 0, snap_micros_total = 0, snap_micros_max = 0,
      p50_micros = 0, p95_micros = 0, p99_micros = 0\<rparr>"

fun position_from :: "nat \<Rightarrow> ('a \<Rightarrow> bool) \<Rightarrow> 'a list \<Rightarrow> nat option" where
  "position_from i p [] = None"
| "position_from i p (x # xs) = (if p x then Some i else position_from (Suc i) p xs)"

definition outbound_queue_dwell_bucket_index :: "u64 \<Rightarrow> nat" where
  "outbound_queue_dwell_bucket_index elapsed_micros =
     (case position_from 0 (\<lambda>bucket. elapsed_micros \<le> bucket) OUTBOUND_QUEUE_DWELL_MICROS_BUCKETS of
        Some i \<Rightarrow> i
      | None \<Rightarrow> length OUTBOUND_QUEUE_DWELL_MICROS_BUCKETS - 1)"

text \<open>The loop of the percentile over the buckets that are left, with their bounds.\<close>

fun percentile_loop :: "nat \<Rightarrow> u64 \<Rightarrow> u64 \<Rightarrow> u64 \<Rightarrow> u64 list \<Rightarrow> u64" where
  "percentile_loop index cumulative rank overflow_value [] = overflow_value"
| "percentile_loop index cumulative rank overflow_value (count # counts) =
     (let cumulative' = saturating_add_u64 cumulative count in
      if cumulative' \<ge> rank then
        (if index = length OUTBOUND_QUEUE_DWELL_MICROS_BUCKETS - 1 then overflow_value
         else OUTBOUND_QUEUE_DWELL_MICROS_BUCKETS ! index)
      else percentile_loop (Suc index) cumulative' rank overflow_value counts)"

definition percentile_rank :: "u64 \<Rightarrow> u64 \<Rightarrow> u64" where
  "percentile_rank tot percentile = max (saturating_add_u64 (tot * percentile) 99 div 100) 1"

definition outbound_queue_dwell_percentile :: "u64 list \<Rightarrow> u64 \<Rightarrow> u64 \<Rightarrow> u64 \<Rightarrow> u64" where
  "outbound_queue_dwell_percentile buckets tot percentile overflow_bucket_value =
     (if tot = 0 then 0
      else percentile_loop 0 0 (percentile_rank tot percentile) overflow_bucket_value buckets)"

definition outbound_queue_dwell_snapshot ::
  "u64 \<Rightarrow> u64 \<Rightarrow> u64 \<Rightarrow> u64 list \<Rightarrow> TunnelQueueDwellStatsSnapshot" where
  "outbound_queue_dwell_snapshot frames micros_total micros_max buckets =
     \<lparr>snap_frames = frames, snap_micros_total = micros_total, snap_micros_max = micros_max,
      p50_micros = outbound_queue_dwell_percentile buckets frames 50 micros_max,
      p95_micros = outbound_queue_dwell_percentile buckets frames 95 micros_max,
      p99_micros = outbound_queue_dwell_percentile buckets frames 99 micros_max\<rparr>"

definition recent_record :: "u64 \<Rightarrow> u64 list mutex \<Rightarrow> u64 list mutex" where
  "recent_record elapsed_micros m =
     (if poisoned m then m
      else
        let samples = guarded m;
            kept = (if length samples \<ge> OUTBOUND_QUEUE_DWELL_RECENT_SAMPLES then drop 1 samples
                    else samples)
        in m\<lparr>guarded := kept @ [elapsed_micros]\<rparr>)"

definition zero_buckets :: "u64 list" where
  "zero_buckets = replicate (length OUTBOUND_QUEUE_DWELL_MICROS_BUCKETS) 0"

definition count_sample :: "u64 \<Rightarrow> u64 list \<Rightarrow> u64 list" where
  "count_sample x buckets =
     (let i = outbound_queue_dwell_bucket_index x in buckets[i := buckets ! i + 1])"

fun tally_samples :: "u64 list \<Rightarrow> u64 \<times> u64 \<times> u64 list \<Rightarrow> u64 \<times> u64 \<times> u64 list" where
  "tally_samples [] acc = acc"
| "tally_samples (x # xs) (tot, mx, buckets) =
     tally_samples xs (saturating_add_u64 tot x, max mx x, count_sample x buckets)"

definition recent_snapshot :: "u64 list mutex \<Rightarrow> TunnelQueueDwellStatsSnapshot" where
  "recent_snapshot m =
     (if poisoned m then dwell_snapshot_default
      else case tally_samples (guarded m) (0, 0, zero_buckets) of
        (tot, mx, buckets) \<Rightarrow>
          outbound_queue_dwell_snapshot (of_nat (length (guarded m))) tot mx buckets)"

text \<open>
  The counters are atomics, shared by every holder of the statistics: one record.  \<open>fetch_add\<close> wraps
  around.
\<close>

record TunnelRuntimeStats =
  active_sessions :: u64
  total_sessions :: u64
  stat_bytes_in :: u64
  stat_bytes_out :: u64
  rule_session_counts :: "(u64 \<rightharpoonup> u64) mutex"
  outbound_queue_dwell :: TunnelQueueDwellStatsInner
  recent_outbound_queue_dwell :: "u64 list mutex"

definition runtime_stats_default :: TunnelRuntimeStats where
  "runtime_stats_default =
     \<lparr>active_sessions = 0, total_sessions = 0, stat_bytes_in = 0, stat_bytes_out = 0,
      rule_session_counts = mutex_new Map.empty,
      outbound_queue_dwell =
        \<lparr>dwell_frames = 0, dwell_micros_total = 0, dwell_micros_max = 0,
         dwell_micros_buckets = zero_buckets\<rparr>,
      recent_outbound_queue_dwell = mutex_new []\<rparr>"

record TunnelRuntimeStatsSnapshot =
  snap_active_sessions :: nat
  snap_total_sessions :: u64
  snap_bytes_in :: u64
  snap_bytes_out :: u64
  snap_rule_session_counts :: "u64 \<rightharpoonup> u64"
  snap_outbound_queue_dwell :: TunnelQueueDwellStatsSnapshot
  snap_recent_outbound_queue_dwell :: TunnelQueueDwellStatsSnapshot

definition count_of :: "u64 \<Rightarrow> (u64 \<rightharpoonup> u64) \<Rightarrow> u64" where
  "count_of rule_id m = (case m rule_id of None \<Rightarrow> 0 | Some n \<Rightarrow> n)"

definition session_opened :: "u64 \<Rightarrow> TunnelRuntimeStats \<Rightarrow> TunnelRuntimeStats" where
  "session_opened rule_id st =
     (let m = rule_session_counts st in
      st\<lparr>active_sessions := active_sessions st + 1,
         total_sessions := total_sessions st + 1,
         rule_session_counts :=
           (if poisoned m then m
            else m\<lparr>guarded := (guarded m)(rule_id \<mapsto> count_of rule_id (guarded m) + 1)\<rparr>)\<rparr>)"

definition session_closed :: "u64 \<Rightarrow> TunnelRuntimeStats \<Rightarrow> TunnelRuntimeStats" where
  "session_closed rule_id st =
     (let m = rule_session_counts st in
      st\<lparr>active_sessions := saturating_sub_u64 (active_sessions st) 1,
         rule_session_counts :=
           (if poisoned m then m
            else m\<lparr>guarded :=
              (guarded m)(rule_id \<mapsto> saturating_sub_u64 (count_of rule_id (guarded m)) 1)\<rparr>)\<rparr>)"

definition stats_bytes_in :: "u64 \<Rightarrow> u64 \<Rightarrow> TunnelRuntimeStats \<Rightarrow> TunnelRuntimeStats" where
  "stats_bytes_in rule_id n st = st\<lparr>stat_bytes_in := stat_bytes_in st + n\<rparr>"

definition stats_bytes_out :: "u64 \<Rightarrow> u64 \<Rightarrow> TunnelRuntimeStats \<Rightarrow> TunnelRuntimeStats" where
  "stats_bytes_out rule_id n st = st\<lparr>stat_bytes_out := stat_bytes_out st + n\<rparr>"

text \<open>
  \<open>update_atomic_max\<close> retries its compare-and-exchange until the candidate is stored or is not larger
  than what is there; its effect is the maximum.
\<close>

definition update_atomic_max :: "u64 \<Rightarrow> u64 \<Rightarrow> u64" where
  "update_atomic_max current candidate = (if candidate > current then candidate else current)"

definition record_outbound_queue_dwell :: "Duration \<Rightarrow> TunnelRuntimeStats \<Rightarrow> TunnelRuntimeStats" where
  "record_outbound_queue_dwell d st =
     (let elapsed_micros = of_nat (min (as_micros d) (2 ^ 64 - 1));
          w = outbound_queue_dwell st
      in
      st\<lparr>outbound_queue_dwell :=
           w\<lparr>dwell_frames := dwell_frames w + 1,
             dwell_micros_total := dwell_micros_total w + elapsed_micros,
             dwell_micros_max := update_atomic_max (dwell_micros_max w) elapsed_micros,
             dwell_micros_buckets := count_sample elapsed_micros (dwell_micros_buckets w)\<rparr>,
         recent_outbound_queue_dwell :=
           recent_record elapsed_micros (recent_outbound_queue_dwell st)\<rparr>)"

definition stats_snapshot :: "TunnelRuntimeStats \<Rightarrow> TunnelRuntimeStatsSnapshot" where
  "stats_snapshot st =
     (let w = outbound_queue_dwell st; m = rule_session_counts st in
      \<lparr>snap_active_sessions = unat (active_sessions st), snap_total_sessions = total_sessions st,
       snap_bytes_in = stat_bytes_in st, snap_bytes_out = stat_bytes_out st,
       snap_rule_session_counts = (if poisoned m then Map.empty else guarded m),
       snap_outbound_queue_dwell =
         outbound_queue_dwell_snapshot (dwell_frames w) (dwell_micros_total w) (dwell_micros_max w)
           (dwell_micros_buckets w),
       snap_recent_outbound_queue_dwell = recent_snapshot (recent_outbound_queue_dwell st)\<rparr>)"

section \<open>Batch policy and limits\<close>

datatype TunnelRelayBatchPolicy = Fixed | Adaptive

record TunnelRelayBatchTuning =
  high_session_threshold :: nat
  elevated_dwell_p95_micros :: u64
  severe_dwell_p95_micros :: u64
  elevated_batch_cap :: nat
  severe_batch_cap :: nat

definition batch_tuning_default :: TunnelRelayBatchTuning where
  "batch_tuning_default =
     \<lparr>high_session_threshold = 8, elevated_dwell_p95_micros = 50000,
      severe_dwell_p95_micros = 250000, elevated_batch_cap = 16, severe_batch_cap = 8\<rparr>"

record TunnelRuntimeLimits =
  max_sessions_per_agent :: nat
  max_outbound_frames :: nat
  max_session_pending_bytes :: nat
  tcp_read_chunk_size :: nat
  target_dial_timeout :: Duration
  idle_timeout :: Duration
  relay_batch_policy :: TunnelRelayBatchPolicy
  relay_batch_tuning :: TunnelRelayBatchTuning

definition runtime_limits_default :: TunnelRuntimeLimits where
  "runtime_limits_default =
     \<lparr>max_sessions_per_agent = 1024, max_outbound_frames = 4096,
      max_session_pending_bytes = 4 * 1024 * 1024, tcp_read_chunk_size = 16 * 1024,
      target_dial_timeout = from_secs 5, idle_timeout = from_secs 600,
      relay_batch_policy = Fixed, relay_batch_tuning = batch_tuning_default\<rparr>"

definition batch_policy_parse :: "string \<Rightarrow> TunnelRelayBatchPolicy option" where
  "batch_policy_parse raw =
     (let v = to_ascii_lowercase (trim raw) in
      if v = ''fixed'' then Some Fixed
      else if v = ''adaptive'' then Some Adaptive
      else None)"

fun batch_policy_value :: "TunnelRelayBatchPolicy \<Rightarrow> string" where
  "batch_policy_value Fixed = ''fixed''"
| "batch_policy_value Adaptive = ''adaptive''"

fun effective_batch_frames_with_tuning ::
  "TunnelRelayBatchPolicy \<Rightarrow> nat \<Rightarrow> nat \<Rightarrow> TunnelQueueDwellStatsSnapshot \<Rightarrow> TunnelRelayBatchTuning
   \<Rightarrow> nat" where
  "effective_batch_frames_with_tuning Fixed configured sessions dwell tuning = max configured 1"
| "effective_batch_frames_with_tuning Adaptive configured sessions dwell tuning =
     (let configured' = max configured 1 in
      if p95_micros dwell \<ge> severe_dwell_p95_micros tuning
      then min configured' (max (severe_batch_cap tuning) 1)
      else if p95_micros dwell \<ge> elevated_dwell_p95_micros tuning
      then min configured' (max (elevated_batch_cap tuning) 1)
      else if sessions \<ge> max (high_session_threshold tuning) 1
      then min configured' (max (elevated_batch_cap tuning) 1)
      else configured')"

definition effective_batch_frames_with_dwell ::
  "TunnelRelayBatchPolicy \<Rightarrow> nat \<Rightarrow> nat \<Rightarrow> TunnelQueueDwellStatsSnapshot \<Rightarrow> nat" where
  "effective_batch_frames_with_dwell policy configured sessions dwell =
     effective_batch_frames_with_tuning policy configured sessions dwell batch_tuning_default"

definition effective_batch_frames :: "TunnelRelayBatchPolicy \<Rightarrow> nat \<Rightarrow> nat \<Rightarrow> nat" where
  "effective_batch_frames policy configured sessions =
     effective_batch_frames_with_dwell policy configured sessions dwell_snapshot_default"

section \<open>Errors\<close>

record TunnelRuntimeError =
  runtime_code :: string
  runtime_message :: string

definition backpressure_limit :: TunnelRuntimeError where
  "backpressure_limit =
     \<lparr>runtime_code = ''backpressure_limit'',
      runtime_message = ''tunnel outbound frame queue is full''\<rparr>"

definition runtime_unavailable :: "string \<Rightarrow> TunnelRuntimeError" where
  "runtime_unavailable message =
     \<lparr>runtime_code = ''runtime_unavailable'', runtime_message = message\<rparr>"

definition target_connect_failed :: "string \<Rightarrow> TunnelRuntimeError" where
  "target_connect_failed message =
     \<lparr>runtime_code = ''target_connect_failed'', runtime_message = message\<rparr>"

definition listen_bind_failed :: "string \<Rightarrow> TunnelRuntimeError" where
  "listen_bind_failed message =
     \<lparr>runtime_code = ''listen_bind_failed'', runtime_message = message\<rparr>"

definition session_limit :: "string \<Rightarrow> TunnelRuntimeError" where
  "session_limit message = \<lparr>runtime_code = ''session_limit'', runtime_message = message\<rparr>"

definition session_pending_bytes_limit :: "string \<Rightarrow> TunnelRuntimeError" where
  "session_pending_bytes_limit message =
     \<lparr>runtime_code = ''session_pending_bytes_limit'', runtime_message = message\<rparr>"

definition show_runtime_error :: "TunnelRuntimeError \<Rightarrow> string" where
  "show_runtime_error e =
     (if trim (runtime_message e) = [] then runtime_code e
      else runtime_code e @ '': '' @ runtime_message e)"

section \<open>The notifier and the frame queue\<close>

type_synonym TunnelFrameReadyNotifier = "u64 mutex"

definition notifier_new :: TunnelFrameReadyNotifier where
  "notifier_new = mutex_new 0"

definition notifier_generation :: "TunnelFrameReadyNotifier \<Rightarrow> u64" where
  "notifier_generation n = (if poisoned n then 0 else guarded n)"

definition notifier_notify :: "TunnelFrameReadyNotifier \<Rightarrow> TunnelFrameReadyNotifier" where
  "notifier_notify n = (if poisoned n then n else n\<lparr>guarded := saturating_add_u64 (guarded n) 1\<rparr>)"

text \<open>
  \<open>later\<close> is the notifier at the moment the wait ends, by a change or by the timeout.
\<close>

definition wait_for_change ::
  "u64 \<Rightarrow> Duration \<Rightarrow> TunnelFrameReadyNotifier \<Rightarrow> TunnelFrameReadyNotifier \<Rightarrow> u64" where
  "wait_for_change observed timeout n later =
     (if poisoned n then observed
      else if guarded n \<noteq> observed \<or> timeout = 0 then guarded n
      else if poisoned later then observed
      else guarded later)"

record QueuedKtpFrame =
  queued_frame :: KtpFrame
  enqueued_at :: Instant

record AsyncTunnelFrameQueue =
  queue_frames :: "QueuedKtpFrame list mutex"
  shared_ready :: "TunnelFrameReadyNotifier option"
  queue_stats :: TunnelRuntimeStats
  queue_capacity :: nat

definition frame_queue_new_internal ::
  "nat \<Rightarrow> TunnelFrameReadyNotifier option \<Rightarrow> TunnelRuntimeStats \<Rightarrow> AsyncTunnelFrameQueue" where
  "frame_queue_new_internal cap notifier st =
     \<lparr>queue_frames = mutex_new [], shared_ready = notifier, queue_stats = st, queue_capacity = cap\<rparr>"

definition frame_queue_new :: "nat \<Rightarrow> AsyncTunnelFrameQueue" where
  "frame_queue_new cap = frame_queue_new_internal cap None runtime_stats_default"

definition try_push ::
  "Instant \<Rightarrow> KtpFrame \<Rightarrow> AsyncTunnelFrameQueue
   \<Rightarrow> (TunnelRuntimeError + unit) \<times> AsyncTunnelFrameQueue" where
  "try_push now f q =
     (let m = queue_frames q in
      if poisoned m then (Inl (runtime_unavailable ''frame queue is unavailable''), q)
      else if length (guarded m) \<ge> queue_capacity q then (Inl backpressure_limit, q)
      else
        (Inr (),
         q\<lparr>queue_frames := m\<lparr>guarded := guarded m @ [\<lparr>queued_frame = f, enqueued_at = now\<rparr>]\<rparr>,
           shared_ready := map_option notifier_notify (shared_ready q)\<rparr>))"

definition into_frame_with_dwell ::
  "Instant \<Rightarrow> QueuedKtpFrame \<Rightarrow> AsyncTunnelFrameQueue \<Rightarrow> KtpFrame \<times> AsyncTunnelFrameQueue" where
  "into_frame_with_dwell now queued q =
     (queued_frame queued,
      q\<lparr>queue_stats := record_outbound_queue_dwell (elapsed now (enqueued_at queued)) (queue_stats q)\<rparr>)"

fun into_frames_with_dwell ::
  "Instant \<Rightarrow> QueuedKtpFrame list \<Rightarrow> AsyncTunnelFrameQueue \<Rightarrow> KtpFrame list \<times> AsyncTunnelFrameQueue" where
  "into_frames_with_dwell now [] q = ([], q)"
| "into_frames_with_dwell now (x # xs) q =
     (case into_frame_with_dwell now x q of
        (f, q') \<Rightarrow> (case into_frames_with_dwell now xs q' of (fs, q'') \<Rightarrow> (f # fs, q'')))"

definition queue_pop ::
  "Instant \<Rightarrow> AsyncTunnelFrameQueue \<Rightarrow> KtpFrame option \<times> AsyncTunnelFrameQueue" where
  "queue_pop now q =
     (let m = queue_frames q in
      if poisoned m then (None, q)
      else case guarded m of
        [] \<Rightarrow> (None, q)
      | x # xs \<Rightarrow>
          (case into_frame_with_dwell now x (q\<lparr>queue_frames := m\<lparr>guarded := xs\<rparr>\<rparr>) of
             (f, q') \<Rightarrow> (Some f, q')))"

definition drain ::
  "Instant \<Rightarrow> nat \<Rightarrow> AsyncTunnelFrameQueue \<Rightarrow> KtpFrame list \<times> AsyncTunnelFrameQueue" where
  "drain now max_frames q =
     (let m = queue_frames q in
      if max_frames = 0 then ([], q)
      else if poisoned m then ([], q)
      else
        let count = min max_frames (length (guarded m)) in
        into_frames_with_dwell now (take count (guarded m))
          (q\<lparr>queue_frames := m\<lparr>guarded := drop count (guarded m)\<rparr>\<rparr>))"

text \<open>
  While \<open>drain_after_wait\<close> waits it has released the lock; \<open>meanwhile\<close> is what other threads do to the
  queue until it gets the lock back.
\<close>

definition drain_after_wait ::
  "Instant \<Rightarrow> nat \<Rightarrow> Duration \<Rightarrow> (AsyncTunnelFrameQueue \<Rightarrow> AsyncTunnelFrameQueue)
   \<Rightarrow> AsyncTunnelFrameQueue \<Rightarrow> KtpFrame list \<times> AsyncTunnelFrameQueue" where
  "drain_after_wait now max_frames timeout meanwhile q =
     (if max_frames = 0 then ([], q)
      else if poisoned (queue_frames q) then ([], q)
      else
        let q1 = (if guarded (queue_frames q) = [] \<and> timeout \<noteq> 0 then meanwhile q else q);
            m = queue_frames q1
        in
        if poisoned m then ([], q1)
        else
          let count = min max_frames (length (guarded m)) in
          into_frames_with_dwell now (take count (guarded m))
            (q1\<lparr>queue_frames := m\<lparr>guarded := drop count (guarded m)\<rparr>\<rparr>))"

definition queue_clear :: "AsyncTunnelFrameQueue \<Rightarrow> nat \<times> AsyncTunnelFrameQueue" where
  "queue_clear q =
     (let m = queue_frames q in
      if poisoned m then (0, q)
      else (length (guarded m), q\<lparr>queue_frames := m\<lparr>guarded := []\<rparr>\<rparr>))"

definition remove_session_frames :: "u64 \<Rightarrow> AsyncTunnelFrameQueue \<Rightarrow> nat \<times> AsyncTunnelFrameQueue" where
  "remove_session_frames sid q =
     (let m = queue_frames q in
      if poisoned m then (0, q)
      else
        let kept = filter (\<lambda>x. session_id (queued_frame x) \<noteq> sid) (guarded m) in
        (length (guarded m) - length kept, q\<lparr>queue_frames := m\<lparr>guarded := kept\<rparr>\<rparr>))"

definition queue_len :: "AsyncTunnelFrameQueue \<Rightarrow> nat" where
  "queue_len q = (if poisoned (queue_frames q) then 0 else length (guarded (queue_frames q)))"

definition queue_is_empty :: "AsyncTunnelFrameQueue \<Rightarrow> bool" where
  "queue_is_empty q \<longleftrightarrow> queue_len q = 0"

section \<open>The interface of a bounded queue\<close>

text \<open>
  What a sender and a transport rely on: a push is accepted exactly when there is room and then
  appends, a refused push changes nothing, and taking returns the oldest frames.  \<open>'t\<close> is the clock.
\<close>

datatype ('t, 'f) queue_op = Push 't 'f | Take 't nat

fun queue_run ::
  "('t \<Rightarrow> 'f \<Rightarrow> 'q \<Rightarrow> ('e + unit) \<times> 'q) \<Rightarrow> ('t \<Rightarrow> nat \<Rightarrow> 'q \<Rightarrow> 'f list \<times> 'q)
   \<Rightarrow> ('t, 'f) queue_op list \<Rightarrow> 'q \<Rightarrow> 'f list \<times> 'f list \<times> 'q" where
  "queue_run push tk [] q = ([], [], q)"
| "queue_run push tk (Push t f # ops) q =
     (case push t f q of
        (Inl _, q') \<Rightarrow> queue_run push tk ops q'
      | (Inr _, q') \<Rightarrow> (case queue_run push tk ops q' of (acc, out, q'') \<Rightarrow> (f # acc, out, q'')))"
| "queue_run push tk (Take t n # ops) q =
     (case tk t n q of
        (fs, q') \<Rightarrow> (case queue_run push tk ops q' of (acc, out, q'') \<Rightarrow> (acc, fs @ out, q'')))"

locale bounded_queue =
  fixes push :: "'t \<Rightarrow> 'f \<Rightarrow> 'q \<Rightarrow> ('e + unit) \<times> 'q"
    and tk :: "'t \<Rightarrow> nat \<Rightarrow> 'q \<Rightarrow> 'f list \<times> 'q"
    and contents :: "'q \<Rightarrow> 'f list"
    and room :: "'q \<Rightarrow> nat"
    and usable :: "'q \<Rightarrow> bool"
  assumes push_room: "usable q \<Longrightarrow> length (contents q) < room q \<Longrightarrow>
      \<exists>q'. push t f q = (Inr (), q') \<and> usable q' \<and> contents q' = contents q @ [f] \<and> room q' = room q"
    and push_full: "usable q \<Longrightarrow> room q \<le> length (contents q) \<Longrightarrow> \<exists>e. push t f q = (Inl e, q)"
    and tk_front: "usable q \<Longrightarrow>
      \<exists>q'. tk t n q = (take n (contents q), q') \<and> usable q' \<and> contents q' = drop n (contents q)
        \<and> room q' = room q"
begin

lemma run_fifo:
  "usable q \<Longrightarrow> length (contents q) \<le> room q \<Longrightarrow> queue_run push tk ops q = (acc, out, q') \<Longrightarrow>
     contents q @ acc = out @ contents q' \<and> length (contents q') \<le> room q \<and> room q' = room q"
proof (induction ops arbitrary: q acc out)
  case Nil
  then show ?case by simp
next
  case (Cons op ops)
  show ?case
  proof (cases op)
    case (Push t f)
    show ?thesis
    proof (cases "length (contents q) < room q")
      case True
      obtain q1 where q1: "push t f q = (Inr (), q1)" "usable q1" "contents q1 = contents q @ [f]"
        "room q1 = room q"
        using push_room [OF Cons.prems(1) True] by blast
      obtain acc1 where "queue_run push tk ops q1 = (acc1, out, q')" "acc = f # acc1"
        using Cons.prems(3) Push q1(1) by (auto split: prod.splits)
      with Cons.IH [OF q1(2)] q1 True show ?thesis by simp
    next
      case False
      then obtain e where "push t f q = (Inl e, q)"
        using push_full Cons.prems(1) by (meson linorder_not_less)
      with Cons Push show ?thesis by simp
    qed
  next
    case (Take t n)
    obtain q1 where q1: "tk t n q = (take n (contents q), q1)" "usable q1"
      "contents q1 = drop n (contents q)" "room q1 = room q"
      using tk_front [OF Cons.prems(1)] by blast
    obtain out1 where out1: "queue_run push tk ops q1 = (acc, out1, q')"
      "out = take n (contents q) @ out1"
      using Cons.prems(3) Take q1(1) by (auto split: prod.splits)
    have "contents q1 @ acc = out1 @ contents q' \<and> length (contents q') \<le> room q1 \<and> room q' = room q1"
      using Cons.IH [OF q1(2) _ out1(1)] q1 Cons.prems(2) by simp
    with q1 out1(2) show ?thesis
      by (metis append.assoc append_take_drop_id)
  qed
qed

end

section \<open>The frame queue implements the interface\<close>

definition queued_frames :: "AsyncTunnelFrameQueue \<Rightarrow> KtpFrame list" where
  "queued_frames q = map queued_frame (guarded (queue_frames q))"

definition queue_usable :: "AsyncTunnelFrameQueue \<Rightarrow> bool" where
  "queue_usable q \<longleftrightarrow> \<not> poisoned (queue_frames q)"

lemma into_frames_with_dwell:
  assumes "into_frames_with_dwell now xs q = (fs, q')"
  shows "fs = map queued_frame xs \<and> queue_frames q' = queue_frames q
    \<and> queue_capacity q' = queue_capacity q \<and> shared_ready q' = shared_ready q"
  using assms
  by (induction xs arbitrary: q fs) (auto simp: into_frame_with_dwell_def split: prod.splits)

interpretation frame_queue: bounded_queue try_push drain queued_frames queue_capacity queue_usable
proof (unfold_locales, goal_cases)
  case (1 q t f)
  then show ?case
    by (simp add: try_push_def Let_def queued_frames_def queue_usable_def)
next
  case (2 q t f)
  then show ?case
    by (simp add: try_push_def Let_def queued_frames_def queue_usable_def)
next
  case (3 q t n)
  obtain fs q' where d: "drain t n q = (fs, q')" by fastforce
  let ?m = "queue_frames q" and ?n = "min n (length (guarded (queue_frames q)))"
  show ?case
  proof (cases "n = 0")
    case True
    with 3 show ?thesis by (simp add: drain_def Let_def)
  next
    case False
    then have "into_frames_with_dwell t (take ?n (guarded ?m))
        (q\<lparr>queue_frames := ?m\<lparr>guarded := drop ?n (guarded ?m)\<rparr>\<rparr>) = (fs, q')"
      using d 3 by (simp add: drain_def Let_def queue_usable_def)
    from into_frames_with_dwell [OF this] d 3 show ?thesis
      by (simp add: queued_frames_def queue_usable_def min_def take_map drop_map)
  qed
qed

text \<open>
  Claim C12.  The outbound queue is a bounded first-in first-out queue: over any sequence of pushes and
  drains, the frames drained followed by the frames still queued are exactly the frames whose push was
  accepted, in that order, and there are never more than \<open>capacity\<close> of them.
\<close>
theorem outbound_queue_fifo:
  assumes "queue_run try_push drain ops (frame_queue_new cap) = (accepted, drained, q)"
  shows "accepted = drained @ queued_frames q \<and> length (queued_frames q) \<le> cap"
  using frame_queue.run_fifo [OF _ _ assms]
  by (simp add: frame_queue_new_def frame_queue_new_internal_def queue_usable_def mutex_new_def
      queued_frames_def)

definition sample_queue_ops :: "(nat, KtpFrame) queue_op list" where
  "sample_queue_ops =
     [Push 10 sample_frame, Push 20 (connection_frame Ping []), Push 30 sample_frame, Take 5000 1]"

lemma sample_queue_run:
  "\<exists>q. queue_run try_push drain sample_queue_ops (frame_queue_new 2) =
     ([sample_frame, connection_frame Ping []], [sample_frame], q)
     \<and> queued_frames q = [connection_frame Ping []]"
  by (simp add: sample_queue_ops_def frame_queue_new_def frame_queue_new_internal_def try_push_def
      drain_def into_frame_with_dwell_def mutex_new_def Let_def queued_frames_def)

theorem outbound_queue_fifo_witness:
  "\<exists>accepted drained q. queue_run try_push drain sample_queue_ops (frame_queue_new 2) =
       (accepted, drained, q)
     \<and> drained = [sample_frame] \<and> accepted = drained @ queued_frames q
     \<and> length (queued_frames q) \<le> 2"
proof -
  obtain q where "queue_run try_push drain sample_queue_ops (frame_queue_new 2) =
     ([sample_frame, connection_frame Ping []], [sample_frame], q)"
    using sample_queue_run by blast
  with outbound_queue_fifo [OF this] show ?thesis by blast
qed

section \<open>The batch policy\<close>

text \<open>
  The relay batch size is always at least one and never above the configured size, and it
  reacts to load in the right direction: with more active sessions or a higher 95th percentile of the
  queue dwell time the batch never gets larger, provided the tuning is ordered as the default one is
  (the severe threshold above the elevated one, the severe cap below the elevated cap).
\<close>
theorem batch_policy_monotone:
  assumes "elevated_dwell_p95_micros tuning \<le> severe_dwell_p95_micros tuning"
    and "severe_batch_cap tuning \<le> elevated_batch_cap tuning"
    and "sessions \<le> sessions'" and "p95_micros dwell \<le> p95_micros dwell'"
  shows "1 \<le> effective_batch_frames_with_tuning policy n sessions' dwell' tuning
    \<and> effective_batch_frames_with_tuning policy n sessions' dwell' tuning
        \<le> effective_batch_frames_with_tuning policy n sessions dwell tuning
    \<and> effective_batch_frames_with_tuning policy n sessions dwell tuning \<le> max n 1"
proof (cases policy)
  case Fixed
  then show ?thesis by simp
next
  case Adaptive
  with assms show ?thesis
    by (auto simp: Let_def intro: order.trans)
qed

theorem batch_policy_monotone_witness:
  "effective_batch_frames_with_tuning Adaptive 64 9 dwell_snapshot_default batch_tuning_default = 16
   \<and> effective_batch_frames_with_tuning Adaptive 64 9 dwell_snapshot_default batch_tuning_default
       \<le> effective_batch_frames_with_tuning Adaptive 64 2 dwell_snapshot_default batch_tuning_default"
  using batch_policy_monotone [of batch_tuning_default 2 9 dwell_snapshot_default
      dwell_snapshot_default Adaptive 64]
  by (simp add: batch_tuning_default_def dwell_snapshot_default_def)

section \<open>Dwell time percentiles\<close>

definition samples_upto :: "u64 \<Rightarrow> u64 list \<Rightarrow> nat" where
  "samples_upto b xs = length (filter (\<lambda>x. x \<le> b) xs)"

text \<open>
  \<open>v\<close> is the bucketed nearest-rank percentile: at least \<open>p\<close> percent of the samples are at most \<open>v\<close>,
  and that is not so for any smaller bucket bound.
\<close>

definition is_percentile :: "u64 list \<Rightarrow> nat \<Rightarrow> u64 \<Rightarrow> bool" where
  "is_percentile xs p v \<longleftrightarrow>
     p * length xs \<le> 100 * samples_upto v xs
     \<and> (\<forall>b\<in>set OUTBOUND_QUEUE_DWELL_MICROS_BUCKETS. b < v \<longrightarrow> 100 * samples_upto b xs < p * length xs)"

abbreviation bucket_bound :: "nat \<Rightarrow> u64" where
  "bucket_bound i \<equiv> OUTBOUND_QUEUE_DWELL_MICROS_BUCKETS ! i"

lemma length_buckets [simp]: "length OUTBOUND_QUEUE_DWELL_MICROS_BUCKETS = 17"
  by (simp add: OUTBOUND_QUEUE_DWELL_MICROS_BUCKETS_def)

lemma buckets_sorted: "sorted_wrt (<) OUTBOUND_QUEUE_DWELL_MICROS_BUCKETS"
  by (simp add: OUTBOUND_QUEUE_DWELL_MICROS_BUCKETS_def)

lemma bucket_bound_mono: "i < j \<Longrightarrow> j < 17 \<Longrightarrow> bucket_bound i < bucket_bound j"
  using buckets_sorted by (simp add: sorted_wrt_iff_nth_less)

lemma bucket_bound_last: "x \<le> bucket_bound 16"
  by (simp add: OUTBOUND_QUEUE_DWELL_MICROS_BUCKETS_def)

lemma position_from_Some:
  "position_from i p xs = Some k \<Longrightarrow>
     i \<le> k \<and> k < i + length xs \<and> p (xs ! (k - i)) \<and> (\<forall>j<k - i. \<not> p (xs ! j))"
proof (induction i p xs rule: position_from.induct)
  case (1 i p)
  then show ?case by simp
next
  case (2 i p x xs)
  show ?case
  proof (cases "p x")
    case True
    with 2 show ?thesis by auto
  next
    case False
    with 2 have IH: "Suc i \<le> k \<and> k < Suc i + length xs \<and> p (xs ! (k - Suc i))
        \<and> (\<forall>j<k - Suc i. \<not> p (xs ! j))" by simp
    then have "k - i = Suc (k - Suc i)" by (auto intro: Suc_diff_Suc [symmetric])
    with IH False show ?thesis by (auto simp: less_Suc_eq_0_disj)
  qed
qed

lemma position_from_None: "position_from i p xs = None \<longleftrightarrow> (\<forall>x\<in>set xs. \<not> p x)"
  by (induction i p xs rule: position_from.induct) auto

lemma bucket_index_iff:
  assumes "j < 17"
  shows "outbound_queue_dwell_bucket_index x \<le> j \<longleftrightarrow> x \<le> bucket_bound j"
proof -
  have "\<exists>b\<in>set OUTBOUND_QUEUE_DWELL_MICROS_BUCKETS. x \<le> b"
    using bucket_bound_last [of x] nth_mem [of 16 OUTBOUND_QUEUE_DWELL_MICROS_BUCKETS] by auto
  then obtain k where k: "position_from 0 (\<lambda>b. x \<le> b) OUTBOUND_QUEUE_DWELL_MICROS_BUCKETS = Some k"
    using position_from_None [of 0 "\<lambda>b. x \<le> b"] by (meson not_None_eq)
  then have *: "k < 17" "x \<le> bucket_bound k" "\<forall>i<k. \<not> x \<le> bucket_bound i"
    using position_from_Some [OF k] by auto
  have "k \<le> j \<longleftrightarrow> x \<le> bucket_bound j"
  proof (cases "k \<le> j")
    case True
    then have "bucket_bound k \<le> bucket_bound j"
      using bucket_bound_mono [of k j] assms by (cases "k = j") auto
    with True *(2) show ?thesis by simp
  next
    case False
    with *(3) show ?thesis by simp
  qed
  then show ?thesis by (simp add: outbound_queue_dwell_bucket_index_def k)
qed

lemma bucket_index_less [simp]: "outbound_queue_dwell_bucket_index x < 17"
  using bucket_index_iff [of 16 x] bucket_bound_last [of x] by simp

text \<open>The number of samples in the buckets before the \<open>i\<close>-th.\<close>

definition below_bucket :: "nat \<Rightarrow> u64 list \<Rightarrow> nat" where
  "below_bucket i xs = length (filter (\<lambda>x. outbound_queue_dwell_bucket_index x < i) xs)"

definition in_bucket :: "nat \<Rightarrow> u64 list \<Rightarrow> nat" where
  "in_bucket i xs = length (filter (\<lambda>x. outbound_queue_dwell_bucket_index x = i) xs)"

lemma below_bucket_Suc: "below_bucket (Suc i) xs = below_bucket i xs + in_bucket i xs"
  by (induction xs) (auto simp: below_bucket_def in_bucket_def)

lemma below_bucket_0 [simp]: "below_bucket 0 xs = 0"
  by (simp add: below_bucket_def)

lemma below_bucket_all: "below_bucket 17 xs = length xs"
  by (simp add: below_bucket_def)

lemma samples_upto_bound: "i < 17 \<Longrightarrow> samples_upto (bucket_bound i) xs = below_bucket (Suc i) xs"
  by (simp add: samples_upto_def below_bucket_def bucket_index_iff less_Suc_eq_le)

lemma below_bucket_le: "below_bucket i xs \<le> length xs"
  by (simp add: below_bucket_def)

lemma tally_samples_spec:
  assumes "length bs = 17" and "tally_samples xs (t, m, bs) = (t', m', bs')"
  shows "length bs' = 17 \<and> m' = fold max xs m \<and> (\<forall>i<17. bs' ! i = bs ! i + of_nat (in_bucket i xs))"
  using assms
proof (induction xs arbitrary: t m bs)
  case Nil
  then show ?case by (simp add: in_bucket_def)
next
  case (Cons x xs)
  let ?bs = "count_sample x bs"
  have len: "length ?bs = 17"
    using Cons.prems(1) by (simp add: count_sample_def Let_def)
  have "?bs ! i + of_nat (in_bucket i xs) = bs ! i + of_nat (in_bucket i (x # xs))" if "i < 17" for i
    using that Cons.prems(1)
    by (simp add: count_sample_def Let_def in_bucket_def nth_list_update)
  with Cons.IH [OF len] Cons.prems(2) show ?case by (simp add: max.commute)
qed

lemma unat_saturating_add: "unat a + unat b < 2 ^ 64 \<Longrightarrow> unat (saturating_add_u64 a b) = unat a + unat b"
  by (simp add: saturating_add_u64_def unat_word_ariths)

text \<open>The loop stops at the first bucket with which \<open>rank\<close> samples are reached.\<close>

lemma percentile_loop_spec:
  assumes "length bs = 17" and "\<forall>i<17. bs ! i = of_nat (in_bucket i xs)" and "length xs < 2 ^ 63"
    and "unat rank \<le> length xs"
    and "i \<le> 17" and "unat cum = below_bucket i xs" and "unat cum < unat rank"
  shows "\<exists>j. j < 17 \<and> below_bucket j xs < unat rank \<and> unat rank \<le> below_bucket (Suc j) xs
    \<and> percentile_loop i cum rank ov (drop i bs) = (if j = 16 then ov else bucket_bound j)"
  using assms(5-7)
proof (induction "17 - i" arbitrary: i cum)
  case 0
  then have "i = 17" by simp
  with 0(3,4) assms(4) show ?case by (simp add: below_bucket_all)
next
  case (Suc d)
  then have i: "i < 17" by simp
  have "in_bucket i xs \<le> length xs" by (simp add: in_bucket_def)
  then have cnt: "unat (bs ! i) = in_bucket i xs"
    using assms(2,3) i by (simp add: unat_of_nat take_bit_nat_def)
  let ?cum = "saturating_add_u64 cum (bs ! i)"
  have cum: "unat ?cum = below_bucket (Suc i) xs"
    using Suc.prems(2) cnt below_bucket_le [of "Suc i" xs] assms(3)
    by (subst unat_saturating_add) (simp_all add: below_bucket_Suc)
  have drop: "drop i bs = bs ! i # drop (Suc i) bs"
    using i assms(1) by (simp add: Cons_nth_drop_Suc)
  show ?case
  proof (cases "rank \<le> ?cum")
    case True
    then have "unat rank \<le> below_bucket (Suc i) xs"
      using cum by (simp add: word_le_nat_alt)
    with True i Suc.prems show ?thesis by (intro exI [of _ i]) (simp add: drop)
  next
    case False
    then have "unat ?cum < unat rank"
      by (simp add: word_le_nat_alt)
    with Suc.hyps(1) [of "Suc i" ?cum] Suc.hyps(2) i cum False show ?thesis by (simp add: drop)
  qed
qed

lemma unat_percentile_rank:
  assumes "n * p < 2 ^ 63" and "0 < n * p" and "n < 2 ^ 63" and "p \<le> 100"
  shows "unat (percentile_rank (of_nat n) (of_nat p)) = (n * p + 99) div 100"
proof -
  have "unat (of_nat n * of_nat p :: u64) = n * p"
    using assms(1) unfolding of_nat_mult [symmetric] unat_of_nat take_bit_nat_def by simp
  then have "unat (saturating_add_u64 (of_nat n * of_nat p) 99) = n * p + 99"
    using assms(1) by (subst unat_saturating_add) simp_all
  moreover have "1 \<le> (n * p + 99) div 100"
    using assms(2) by (simp add: Suc_le_eq div_greater_zero_iff)
  ultimately show ?thesis
    by (simp add: percentile_rank_def max_def word_le_nat_alt unat_div)
qed

lemma fold_max_ge: "x \<in> set xs \<or> x = m \<Longrightarrow> x \<le> fold max xs m" for x m :: u64
  using Max.set_eq_fold [of m xs] Max_ge [of "set (m # xs)" x] by auto

lemma length_filter_mono:
  "(\<And>x. P x \<Longrightarrow> Q x) \<Longrightarrow> length (filter P xs) \<le> length (filter Q xs)"
  by (induction xs) (auto intro: le_SucI)

lemma ceil_div_100:
  "k \<le> 100 * n \<Longrightarrow> (k + 99) div 100 \<le> n" "0 < k \<Longrightarrow> 0 < (k + 99) div 100"
  "(k + 99) div 100 \<le> n \<Longrightarrow> k \<le> 100 * n" "n < (k + 99) div 100 \<Longrightarrow> 100 * n < k"
  for k n :: nat
  by linarith+

lemma percentile_correct_gen:
  assumes "length bs = 17" and "\<forall>i<17. bs ! i = of_nat (in_bucket i xs)" and "\<forall>x\<in>set xs. x \<le> m"
    and "xs \<noteq> []" and "100 * length xs < 2 ^ 63" and "0 < p" and "p \<le> 100"
  shows "is_percentile xs p
    (outbound_queue_dwell_percentile bs (of_nat (length xs)) (of_nat p) m)"
proof -
  let ?n = "length xs" and ?rank = "percentile_rank (of_nat (length xs)) (of_nat p)"
  let ?v = "outbound_queue_dwell_percentile bs (of_nat (length xs)) (of_nat p) m"
  note bs = assms(1,2)
  have np: "?n * p < 2 ^ 63" and n: "?n < 2 ^ 63"
    using mult_le_mono2 [OF assms(7), of ?n] assms(5) by linarith+
  moreover have pos: "0 < ?n * p" using assms(4,6) by simp
  ultimately have rank: "unat ?rank = (?n * p + 99) div 100"
    using assms(7) by (intro unat_percentile_rank) simp_all
  have "?n * p \<le> 100 * ?n" using assms(7) by simp
  from ceil_div_100(1) [OF this] ceil_div_100(2) [OF pos]
  have le: "unat ?rank \<le> ?n" "0 < unat ?rank"
    unfolding rank by blast+
  have "of_nat ?n \<noteq> (0 :: u64)"
    using assms(4) n by (simp add: word_unat_eq_iff unat_of_nat take_bit_nat_def)
  moreover obtain j where j: "j < 17" "below_bucket j xs < unat ?rank"
    "unat ?rank \<le> below_bucket (Suc j) xs"
    "percentile_loop 0 0 ?rank m bs = (if j = 16 then m else bucket_bound j)"
    using percentile_loop_spec [OF bs n le(1), of 0 0 m] le(2) by auto
  ultimately have v: "?v = (if j = 16 then m else bucket_bound j)"
    by (simp add: outbound_queue_dwell_percentile_def)
  have "samples_upto ?v xs = below_bucket (Suc j) xs"
  proof (cases "j = 16")
    case True
    with v assms(3) show ?thesis by (simp add: samples_upto_def below_bucket_all)
  next
    case False
    with v j(1) show ?thesis by (simp add: samples_upto_bound)
  qed
  then have "p * ?n \<le> 100 * samples_upto ?v xs"
    using ceil_div_100(3) [OF j(3) [unfolded rank]] by (simp add: mult.commute)
  moreover have "100 * samples_upto b xs < p * ?n"
    if b: "b \<in> set OUTBOUND_QUEUE_DWELL_MICROS_BUCKETS" "b < ?v" for b
  proof -
    obtain i where i: "i < 17" "b = bucket_bound i"
      using b(1) by (auto simp: in_set_conv_nth)
    have "i < j"
    proof (rule ccontr)
      assume "\<not> i < j"
      then have "bucket_bound j \<le> bucket_bound i"
        using bucket_bound_mono [of j i] i(1) by (cases "i = j") auto
      then show False
        using b(2) i v bucket_bound_last [of m] by (auto split: if_splits)
    qed
    have "below_bucket (Suc i) xs \<le> below_bucket j xs"
      unfolding below_bucket_def using \<open>i < j\<close>
      by (intro length_filter_mono) auto
    then have "samples_upto b xs < (?n * p + 99) div 100"
      using j(2) i by (simp add: samples_upto_bound rank)
    from ceil_div_100(4) [OF this] show ?thesis by (simp add: mult.commute)
  qed
  ultimately show ?thesis by (simp add: is_percentile_def)
qed

lemma percentile_correct:
  assumes "tally_samples xs (0, 0, zero_buckets) = (t, m, bs)" and "xs \<noteq> []" and "length xs \<le> 16"
    and "0 < p" and "p \<le> 100"
  shows "is_percentile xs p
    (outbound_queue_dwell_percentile bs (of_nat (length xs)) (of_nat p) m)"
proof -
  have bs: "length bs = 17" "\<forall>i<17. bs ! i = of_nat (in_bucket i xs)" and "m = fold max xs 0"
    using tally_samples_spec [OF _ assms(1)] by (simp_all add: zero_buckets_def)
  then have "\<forall>x\<in>set xs. x \<le> m" using fold_max_ge by blast
  from percentile_correct_gen [OF bs this assms(2) _ assms(4,5)] assms(3) show ?thesis by simp
qed

definition recent_window :: "u64 list \<Rightarrow> u64 list" where
  "recent_window ys = drop (length ys - OUTBOUND_QUEUE_DWELL_RECENT_SAMPLES) ys"

lemma recent_record_window:
  "fold recent_record ys (mutex_new []) = mutex_new (recent_window ys)"
proof (induction ys rule: rev_induct)
  case Nil
  then show ?case by (simp add: recent_window_def)
next
  case (snoc y ys)
  have "recent_record y (mutex_new (recent_window ys)) = mutex_new (recent_window (ys @ [y]))"
  proof (cases "length ys < 16")
    case True
    then show ?thesis
      by (simp add: recent_record_def mutex_new_def recent_window_def Let_def
          OUTBOUND_QUEUE_DWELL_RECENT_SAMPLES_def)
  next
    case False
    then have "Suc (length ys) - 16 = Suc (length ys - 16)" by simp
    with False show ?thesis
      by (simp add: recent_record_def mutex_new_def recent_window_def Let_def
          OUTBOUND_QUEUE_DWELL_RECENT_SAMPLES_def)
  qed
  with snoc show ?case by simp
qed

text \<open>
  The recent dwell percentiles that steer the batch policy are right: after any number of
  recorded dwell times, the 50th, 95th and 99th percentile of the snapshot are the bucketed
  nearest-rank percentiles of the last (at most 16) recorded values.
\<close>
theorem recent_percentiles_correct:
  assumes "ys \<noteq> []" and "s = recent_snapshot (fold recent_record ys (mutex_new []))"
  shows "is_percentile (recent_window ys) 50 (p50_micros s)
    \<and> is_percentile (recent_window ys) 95 (p95_micros s)
    \<and> is_percentile (recent_window ys) 99 (p99_micros s)"
proof -
  let ?xs = "recent_window ys"
  have xs: "?xs \<noteq> []" "length ?xs \<le> 16"
    using assms(1) by (cases ys) (auto simp: recent_window_def OUTBOUND_QUEUE_DWELL_RECENT_SAMPLES_def)
  obtain t m bs where t: "tally_samples ?xs (0, 0, zero_buckets) = (t, m, bs)"
    using prod_cases3 by blast
  note pc = percentile_correct [OF t xs]
  show ?thesis
    using pc [of 50] pc [of 95] pc [of 99] unfolding assms(2) recent_record_window
    by (simp add: recent_snapshot_def mutex_new_def t outbound_queue_dwell_snapshot_def)
qed

theorem recent_percentiles_correct_witness:
  "\<exists>s. s = recent_snapshot (fold recent_record [40, 700, 12] (mutex_new []))
     \<and> p50_micros s = 50 \<and> p95_micros s = 1000
     \<and> is_percentile (recent_window [40, 700, 12]) 50 (p50_micros s)"
proof -
  let ?s = "recent_snapshot (fold recent_record [40, 700, 12] (mutex_new []))"
  have "p50_micros ?s = 50" "p95_micros ?s = 1000"
    unfolding recent_record_window
    by (simp_all add: recent_window_def OUTBOUND_QUEUE_DWELL_RECENT_SAMPLES_def mutex_new_def
        recent_snapshot_def zero_buckets_def OUTBOUND_QUEUE_DWELL_MICROS_BUCKETS_def
        count_sample_def outbound_queue_dwell_bucket_index_def outbound_queue_dwell_snapshot_def
        outbound_queue_dwell_percentile_def percentile_rank_def saturating_add_u64_def Let_def)
      (simp_all add: word_le_nat_alt)
  moreover have "is_percentile (recent_window [40, 700, 12]) 50 (p50_micros ?s)"
    using recent_percentiles_correct [of "[40, 700, 12]" ?s] by blast
  ultimately show ?thesis by blast
qed

end
