(* ===== verification/TunnelControl.thy ===== *)
theory TunnelControl
  imports Transport TunnelQueue
begin

text \<open>
  The control channel of the tunnels, \<open>tunnel_control.rs\<close>: the rules the server selects for this agent,
  the messages of the two sides, the handler of a server message, and the two loops that run a
  connection.  The JSON codec is \<open>serde_json\<close>'s and enters as the parameter \<open>parse\<close>; the socket, its
  clock and the sink of rule updates are the traits of the source and enter as functions on a state.
\<close>

section \<open>Messages\<close>

definition TUNNEL_CONTROL_PROTOCOL_V1 :: string where
  "TUNNEL_CONTROL_PROTOCOL_V1 = ''keli-tunnel-control.v1''"

definition TUNNEL_DATA_TRANSPORT_WEBSOCKET :: string where
  "TUNNEL_DATA_TRANSPORT_WEBSOCKET = ''websocket''"

definition TUNNEL_DATA_TRANSPORT_KTP_TCP :: string where
  "TUNNEL_DATA_TRANSPORT_KTP_TCP = ''ktp_tcp''"

record SelectedTunnelRule =
  sel_id :: u64
  sel_name :: string
  sel_enabled :: bool
  sel_protocol :: string
  sel_role :: string
  sel_ingress_group :: string
  sel_listen_address :: string
  sel_listen_port :: u16
  sel_egress_group :: string
  sel_target_host :: string
  sel_target_port :: u16
  sel_source_allowlist :: string
  sel_max_concurrent_sessions :: u32
  sel_last_revision :: int
  sel_data_transport :: string

definition data_transport :: "SelectedTunnelRule \<Rightarrow> string" where
  "data_transport rule =
     (let v = trim (sel_data_transport rule) in
      if v = [] then TUNNEL_DATA_TRANSPORT_WEBSOCKET else v)"

record RejectedTunnelRule =
  rej_id :: u64
  rej_error :: string

record TunnelRuleStatus =
  status_id :: u64
  status_status :: string
  status_error :: string

datatype TunnelControlClientMessage =
    Hello (control_protocol: string) (agent_version: string) (capabilities: "string list")
      (data_transports: "string list") (data_plane: bool)
  | Heartbeat (last_rule_revision: string) (active_rules: "u64 list")
  | RuleAck (ack_revision: string) (accepted_rule_ids: "u64 list")
      (rejected_rules: "RejectedTunnelRule list")
  | RuleStatus (status_revision: string) (status_rules: "TunnelRuleStatus list")

datatype TunnelControlServerMessage =
    HelloAck string u64
  | RuleSync string "SelectedTunnelRule list"
  | ServerError string string

datatype TunnelControlError = InvalidMessage string

fun show_control_error :: "TunnelControlError \<Rightarrow> string" where
  "show_control_error (InvalidMessage message) = ''invalid tunnel control message: '' @ message"

section \<open>Building messages\<close>

definition supported_tunnel_data_transports :: "string list" where
  "supported_tunnel_data_transports = [TUNNEL_DATA_TRANSPORT_WEBSOCKET, TUNNEL_DATA_TRANSPORT_KTP_TCP]"

definition supported_tunnel_data_transports_for_ktp_tcp :: "bool \<Rightarrow> string list" where
  "supported_tunnel_data_transports_for_ktp_tcp enabled =
     (if enabled then [TUNNEL_DATA_TRANSPORT_KTP_TCP] else [TUNNEL_DATA_TRANSPORT_WEBSOCKET])"

fun normalize_transports :: "string list \<Rightarrow> string list \<Rightarrow> string list" where
  "normalize_transports [] result = result"
| "normalize_transports (v # vs) result =
     (let v = trim v;
          push = (\<lambda>n. if n \<in> set result then result else result @ [n])
      in normalize_transports vs
        (if eq_ignore_ascii_case v TUNNEL_DATA_TRANSPORT_KTP_TCP
         then push TUNNEL_DATA_TRANSPORT_KTP_TCP
         else if eq_ignore_ascii_case v TUNNEL_DATA_TRANSPORT_WEBSOCKET
         then push TUNNEL_DATA_TRANSPORT_WEBSOCKET
         else result))"

definition normalize_supported_tunnel_data_transports :: "string list \<Rightarrow> string list" where
  "normalize_supported_tunnel_data_transports transports =
     (let result = normalize_transports transports [] in
      if result = [] then [TUNNEL_DATA_TRANSPORT_WEBSOCKET] else result)"

definition build_hello_with_data_transports ::
  "string \<Rightarrow> string list \<Rightarrow> TunnelControlClientMessage" where
  "build_hello_with_data_transports version transports =
     Hello TUNNEL_CONTROL_PROTOCOL_V1 (trim version)
       [''tunnel_control'', ''rule_sync'', ''status_report'']
       (normalize_supported_tunnel_data_transports transports) False"

definition build_hello :: "string \<Rightarrow> TunnelControlClientMessage" where
  "build_hello version = build_hello_with_data_transports version supported_tunnel_data_transports"

definition build_heartbeat :: "string \<Rightarrow> u64 list \<Rightarrow> TunnelControlClientMessage" where
  "build_heartbeat revision rules = Heartbeat (trim revision) rules"

definition build_rule_ack ::
  "string \<Rightarrow> SelectedTunnelRule list \<Rightarrow> RejectedTunnelRule list \<Rightarrow> TunnelControlClientMessage" where
  "build_rule_ack revision accepted rejected = RuleAck (trim revision) (map sel_id accepted) rejected"

definition build_rule_status :: "string \<Rightarrow> TunnelRuleStatus list \<Rightarrow> TunnelControlClientMessage" where
  "build_rule_status revision rules = RuleStatus (trim revision) rules"

type_synonym json_parser = "bytes \<Rightarrow> string + TunnelControlServerMessage"

definition parse_server_message ::
  "json_parser \<Rightarrow> bytes \<Rightarrow> TunnelControlError + TunnelControlServerMessage" where
  "parse_server_message parse bs = map_err InvalidMessage (parse bs)"

section \<open>The handler of server messages\<close>

fun is_non_fatal_tunnel_control_error :: "TransportError \<Rightarrow> bool" where
  "is_non_fatal_tunnel_control_error (InvalidClientToken _ _ _ _) = False"
| "is_non_fatal_tunnel_control_error EmptyEndpoint = False"
| "is_non_fatal_tunnel_control_error EmptyToken = False"
| "is_non_fatal_tunnel_control_error (UnsupportedScheme _) = False"
| "is_non_fatal_tunnel_control_error (RequestFailed message) =
     (let lower = to_ascii_lowercase message in
      contains_str lower ''404'' \<or> contains_str lower ''403''
      \<or> contains_str lower ''feature_disabled'')"
| "is_non_fatal_tunnel_control_error SocketClosed = True"

text \<open>
  \<open>'s\<close> is the state of the socket, and \<open>clock\<close> reads \<open>Instant::now()\<close> from it; \<open>'k\<close> is the state of the
  rule sink.
\<close>

record 's control_socket =
  send_message :: "TunnelControlClientMessage \<Rightarrow> 's \<Rightarrow> (TransportError + unit) \<times> 's"
  read_message :: "'s \<Rightarrow> (TransportError + bytes option) \<times> 's"
  clock :: "'s \<Rightarrow> Instant"

type_synonym 'k rule_update = "string \<Rightarrow> SelectedTunnelRule list \<Rightarrow> 'k \<Rightarrow> 'k"

record ControlLoop =
  latest_revision :: string
  accepted_rules :: "SelectedTunnelRule list"
  heartbeat_interval :: Duration

definition control_loop_new :: ControlLoop where
  "control_loop_new = \<lparr>latest_revision = [], accepted_rules = [], heartbeat_interval = from_secs 15\<rparr>"

datatype TunnelControlLoopAction = Continue | Stop

definition ok_status :: "SelectedTunnelRule \<Rightarrow> TunnelRuleStatus" where
  "ok_status rule = \<lparr>status_id = sel_id rule, status_status = ''ok'', status_error = []\<rparr>"

definition handle_tunnel_control_message ::
  "'s control_socket \<Rightarrow> json_parser \<Rightarrow> 'k rule_update \<Rightarrow> bytes \<Rightarrow> ControlLoop \<Rightarrow> 's \<Rightarrow> 'k
   \<Rightarrow> (TransportError + TunnelControlLoopAction) \<times> ControlLoop \<times> 's \<times> 'k" where
  "handle_tunnel_control_message io parse update bs l s k =
     (case parse_server_message parse bs of
        Inr (HelloAck server_protocol seconds) \<Rightarrow>
          if trim server_protocol \<noteq> TUNNEL_CONTROL_PROTOCOL_V1
          then (Inl (RequestFailed (''unsupported tunnel control protocol: '' @ server_protocol)), l, s, k)
          else (Inr Continue,
                if seconds > 0 then l\<lparr>heartbeat_interval := from_secs (unat seconds)\<rparr> else l, s, k)
      | Inr (RuleSync revision rules) \<Rightarrow>
          let l = l\<lparr>latest_revision := revision, accepted_rules := rules\<rparr>;
              k = update revision rules k
          in (case send_message io (build_rule_ack revision rules []) s of
                (Inl e, s) \<Rightarrow> (Inl e, l, s, k)
              | (Inr _, s) \<Rightarrow>
                  (case send_message io (build_rule_status revision (map ok_status rules)) s of
                     (Inl e, s) \<Rightarrow> (Inl e, l, s, k)
                   | (Inr _, s) \<Rightarrow> (Inr Continue, l, s, k)))
      | Inr (ServerError code message) \<Rightarrow>
          if code = ''feature_disabled'' then (Inr Stop, l, s, k)
          else (Inl (RequestFailed message), l, s, k)
      | Inl e \<Rightarrow> (Inl (RequestFailed (show_control_error e)), l, s, k))"

definition send_tunnel_control_heartbeat ::
  "'s control_socket \<Rightarrow> ControlLoop \<Rightarrow> 's \<Rightarrow> (TransportError + unit) \<times> 's" where
  "send_tunnel_control_heartbeat io l s =
     send_message io (build_heartbeat (latest_revision l) (map sel_id (accepted_rules l))) s"

section \<open>The loops of a connection\<close>

text \<open>\<open>while let Some(bytes) = socket.read_message()?\<close>, then a heartbeat.\<close>

partial_function (option) control_once_loop ::
  "'s control_socket \<Rightarrow> json_parser \<Rightarrow> 'k rule_update \<Rightarrow> ControlLoop \<Rightarrow> 's \<Rightarrow> 'k
   \<Rightarrow> ((TransportError + unit) \<times> 's \<times> 'k) option" where
  "control_once_loop io parse update l s k =
     (case read_message io s of
        (Inl e, s) \<Rightarrow> Some (Inl e, s, k)
      | (Inr None, s) \<Rightarrow> (case send_tunnel_control_heartbeat io l s of (r, s) \<Rightarrow> Some (r, s, k))
      | (Inr (Some bs), s) \<Rightarrow>
          (case handle_tunnel_control_message io parse update bs l s k of
             (Inl e, l, s, k) \<Rightarrow> Some (Inl e, s, k)
           | (Inr Stop, l, s, k) \<Rightarrow> Some (Inr (), s, k)
           | (Inr Continue, l, s, k) \<Rightarrow> control_once_loop io parse update l s k))"

text \<open>The endless loop of a session; \<open>last_heartbeat\<close> is the time of the last heartbeat.\<close>

partial_function (option) control_session_loop ::
  "'s control_socket \<Rightarrow> json_parser \<Rightarrow> 'k rule_update \<Rightarrow> Instant \<Rightarrow> ControlLoop \<Rightarrow> 's \<Rightarrow> 'k
   \<Rightarrow> ((TransportError + unit) \<times> 's \<times> 'k) option" where
  "control_session_loop io parse update last_heartbeat l s k =
     (case read_message io s of
        (Inr (Some bs), s) \<Rightarrow>
          (case handle_tunnel_control_message io parse update bs l s k of
             (Inl e, l, s, k) \<Rightarrow> Some (Inl e, s, k)
           | (Inr Stop, l, s, k) \<Rightarrow> Some (Inr (), s, k)
           | (Inr Continue, l, s, k) \<Rightarrow> control_session_loop io parse update last_heartbeat l s k)
      | (Inr None, s) \<Rightarrow>
          if elapsed (clock io s) last_heartbeat \<ge> heartbeat_interval l
          then (case send_tunnel_control_heartbeat io l s of
                  (Inl e, s) \<Rightarrow> Some (Inl e, s, k)
                | (Inr _, s) \<Rightarrow> control_session_loop io parse update (clock io s) l s k)
          else control_session_loop io parse update last_heartbeat l s k
      | (Inl SocketClosed, s) \<Rightarrow> Some (Inr (), s, k)
      | (Inl e, s) \<Rightarrow> Some (Inl e, s, k))"

text \<open>Connecting, saying hello and running a loop; \<open>connect\<close> is the transport's.\<close>

definition with_control_socket ::
  "'s control_socket \<Rightarrow> TransportError + 's \<Rightarrow> string \<Rightarrow> string list
   \<Rightarrow> ('s \<Rightarrow> 'k \<Rightarrow> ((TransportError + unit) \<times> 's \<times> 'k) option) \<Rightarrow> 'k
   \<Rightarrow> ((TransportError + unit) \<times> 's option \<times> 'k) option" where
  "with_control_socket io connect version transports run k =
     (case connect of
        Inl e \<Rightarrow> Some (if is_non_fatal_tunnel_control_error e then Inr () else Inl e, None, k)
      | Inr s \<Rightarrow>
          (case send_message io (build_hello_with_data_transports version transports) s of
             (Inl e, s) \<Rightarrow> Some (Inl e, Some s, k)
           | (Inr _, s) \<Rightarrow> map_option (\<lambda>(r, s, k). (r, Some s, k)) (run s k)))"

definition run_tunnel_control_once_with_rule_sink_and_data_transports ::
  "'s control_socket \<Rightarrow> json_parser \<Rightarrow> 'k rule_update \<Rightarrow> TransportError + 's \<Rightarrow> string \<Rightarrow> string list \<Rightarrow> 'k
   \<Rightarrow> ((TransportError + unit) \<times> 's option \<times> 'k) option" where
  "run_tunnel_control_once_with_rule_sink_and_data_transports io parse update connect version transports =
     with_control_socket io connect version transports (control_once_loop io parse update control_loop_new)"

definition run_tunnel_control_session_with_rule_sink_and_data_transports ::
  "'s control_socket \<Rightarrow> json_parser \<Rightarrow> 'k rule_update \<Rightarrow> TransportError + 's \<Rightarrow> string \<Rightarrow> string list \<Rightarrow> 'k
   \<Rightarrow> ((TransportError + unit) \<times> 's option \<times> 'k) option" where
  "run_tunnel_control_session_with_rule_sink_and_data_transports io parse update connect version transports =
     with_control_socket io connect version transports
       (\<lambda>s. control_session_loop io parse update (clock io s) control_loop_new s)"

definition tunnel_control_startup_line :: "string \<Rightarrow> bool \<Rightarrow> string" where
  "tunnel_control_startup_line url enabled =
     (if \<not> enabled then ''tunnel control: disabled''
      else ''tunnel control: enabled url='' @ redact_token_in_url_control url)"

section \<open>A scripted connection\<close>

text \<open>
  For statements about whole connections the socket is given by what it will deliver: each read takes
  some time and returns its outcome, and after the last one the connection is closed.  Everything sent
  is recorded with its time.
\<close>

record script =
  script_reads :: "(Duration \<times> (TransportError + bytes option)) list"
  script_sent :: "(Instant \<times> TunnelControlClientMessage) list"
  script_time :: Instant

definition script_io :: "script control_socket" where
  "script_io =
     \<lparr>send_message = (\<lambda>m s. (Inr (), s\<lparr>script_sent := script_sent s @ [(script_time s, m)]\<rparr>)),
      read_message = (\<lambda>s. case script_reads s of
          [] \<Rightarrow> (Inl SocketClosed, s)
        | (d, r) # rest \<Rightarrow> (r, s\<lparr>script_reads := rest, script_time := script_time s + d\<rparr>)),
      clock = script_time\<rparr>"

lemma script_io_simps [simp]:
  "send_message script_io m s = (Inr (), s\<lparr>script_sent := script_sent s @ [(script_time s, m)]\<rparr>)"
  "clock script_io = script_time"
  "script_reads s = [] \<Longrightarrow> read_message script_io s = (Inl SocketClosed, s)"
  "script_reads s = (d, r) # rest \<Longrightarrow>
     read_message script_io s = (r, s\<lparr>script_reads := rest, script_time := script_time s + d\<rparr>)"
  by (simp_all add: script_io_def)

text \<open>The effect of one server message: what is sent, and the loop variables.\<close>

fun server_reply :: "TunnelControlServerMessage \<Rightarrow> TunnelControlClientMessage list" where
  "server_reply (RuleSync revision rules) =
     [RuleAck (trim revision) (map sel_id rules) [], RuleStatus (trim revision) (map ok_status rules)]"
| "server_reply _ = []"

fun apply_message :: "TunnelControlServerMessage \<Rightarrow> ControlLoop \<Rightarrow> ControlLoop" where
  "apply_message (HelloAck _ seconds) l =
     (if seconds > 0 then l\<lparr>heartbeat_interval := from_secs (unat seconds)\<rparr> else l)"
| "apply_message (RuleSync revision rules) l = l\<lparr>latest_revision := revision, accepted_rules := rules\<rparr>"
| "apply_message _ l = l"

fun apply_sync :: "'k rule_update \<Rightarrow> TunnelControlServerMessage \<Rightarrow> 'k \<Rightarrow> 'k" where
  "apply_sync update (RuleSync revision rules) k = update revision rules k"
| "apply_sync update _ k = k"

fun message_accepted :: "TunnelControlServerMessage \<Rightarrow> bool" where
  "message_accepted (HelloAck protocol _) \<longleftrightarrow> trim protocol = TUNNEL_CONTROL_PROTOCOL_V1"
| "message_accepted (RuleSync _ _) \<longleftrightarrow> True"
| "message_accepted (ServerError _ _) \<longleftrightarrow> False"

lemma handle_message_accepted:
  assumes "parse bs = Inr m" and "message_accepted m"
  shows "handle_tunnel_control_message script_io parse update bs l s k =
    (Inr Continue, apply_message m l,
     s\<lparr>script_sent := script_sent s @ map (Pair (script_time s)) (server_reply m)\<rparr>, apply_sync update m k)"
  using assms
  by (cases m) (simp_all add: handle_tunnel_control_message_def parse_server_message_def Let_def
      build_rule_ack_def build_rule_status_def)

lemma handle_message_cases:
  obtains (go) m s' where "parse bs = Inr m"
      and "handle_tunnel_control_message script_io parse update bs l s k =
        (Inr Continue, apply_message m l, s', apply_sync update m k)"
      and "script_reads s' = script_reads s"
    | (stop) r l' where "handle_tunnel_control_message script_io parse update bs l s k = (r, l', s, k)"
      and "r \<noteq> Inr Continue" and "r \<noteq> Inl SocketClosed"
      and "\<And>m. parse bs = Inr m \<Longrightarrow> apply_sync update m k = k"
proof (cases "\<exists>m. parse bs = Inr m \<and> message_accepted m")
  case True
  then show ?thesis using go handle_message_accepted [of parse bs _ update l s k] by force
next
  case False
  then show ?thesis
  proof (cases "parse bs")
    case (Inl e)
    then show ?thesis
      by (intro stop) (auto simp: handle_tunnel_control_message_def parse_server_message_def)
  next
    case (Inr m)
    with False have "\<not> message_accepted m" by simp
    with Inr show ?thesis
      by (cases m; intro stop [of "fst (handle_tunnel_control_message script_io parse update bs l s k)" l])
        (auto simp: handle_tunnel_control_message_def parse_server_message_def)
  qed
qed

section \<open>Properties\<close>

lemma control_once_messages:
  "list_all2 (\<lambda>(d, r) m. \<exists>bs. r = Inr (Some bs) \<and> parse bs = Inr m) reads ms \<Longrightarrow>
   list_all message_accepted ms \<Longrightarrow> script_reads s = reads @ [(d, Inr None)] \<Longrightarrow>
   \<exists>s'. control_once_loop script_io parse update l s k = Some (Inr (), s', fold (apply_sync update) ms k)
     \<and> map snd (script_sent s') = map snd (script_sent s) @ concat (map server_reply ms)
         @ [let l' = fold apply_message ms l
            in Heartbeat (trim (latest_revision l')) (map sel_id (accepted_rules l'))]"
proof (induction ms arbitrary: reads l s k)
  case Nil
  then have "script_reads s = [(d, Inr None)]" by simp
  then show ?case
    by (subst control_once_loop.simps)
      (simp add: send_tunnel_control_heartbeat_def build_heartbeat_def)
next
  case (Cons m ms)
  then obtain d' bs rest where reads: "reads = (d', Inr (Some bs)) # rest" and m: "parse bs = Inr m"
      and rest: "list_all2 (\<lambda>(d, r) m. \<exists>bs. r = Inr (Some bs) \<and> parse bs = Inr m) rest ms"
    by (auto simp: list_all2_Cons2)
  let ?s = "s\<lparr>script_reads := rest @ [(d, Inr None)], script_time := script_time s + d'\<rparr>"
  let ?s' = "?s\<lparr>script_sent := script_sent s @ map (Pair (script_time s + d')) (server_reply m)\<rparr>"
  have step: "control_once_loop script_io parse update l s k =
      control_once_loop script_io parse update (apply_message m l) ?s' (apply_sync update m k)"
    using Cons.prems(2,3) reads m handle_message_accepted [of parse bs m update l ?s k]
    by (subst control_once_loop.simps) simp
  have "script_reads ?s' = rest @ [(d, Inr None)]" by simp
  from Cons.IH [OF rest _ this, of "apply_message m l" "apply_sync update m k"] Cons.prems(2)
  show ?case unfolding step by (auto simp: comp_def)
qed

text \<open>
  A one-shot control connection says what it should: if the server's messages are
  acknowledgements with the right protocol and rule synchronisations, and then nothing, the run ends
  without an error, every synchronisation has reached the rule sink in order, and the agent has sent
  exactly its hello, an acknowledgement and a status for each synchronisation, and a heartbeat with the
  latest revision and rules.
\<close>
theorem control_once_transcript:
  assumes "list_all2 (\<lambda>(d, r) m. \<exists>bs. r = Inr (Some bs) \<and> parse bs = Inr m) reads ms"
    and "list_all message_accepted ms" and "script_reads s = reads @ [(d, Inr None)]"
    and "script_sent s = []"
  shows "\<exists>s'. run_tunnel_control_once_with_rule_sink_and_data_transports script_io parse update (Inr s)
        version transports k = Some (Inr (), Some s', fold (apply_sync update) ms k)
      \<and> map snd (script_sent s') = [build_hello_with_data_transports version transports]
          @ concat (map server_reply ms)
          @ [let l = fold apply_message ms control_loop_new
             in Heartbeat (trim (latest_revision l)) (map sel_id (accepted_rules l))]"
  using control_once_messages [OF assms(1,2), where
      s = "s\<lparr>script_sent := [(script_time s, build_hello_with_data_transports version transports)]\<rparr>"]
    assms(3,4)
  by (fastforce simp: run_tunnel_control_once_with_rule_sink_and_data_transports_def
      with_control_socket_def)

theorem control_once_transcript_witness:
  "\<exists>s'. run_tunnel_control_once_with_rule_sink_and_data_transports script_io
        (\<lambda>bs. if bs = [7] then Inr (RuleSync '' r1 '' []) else Inl ''bad'') (\<lambda>r rules k. (r, rules) # k)
        (Inr \<lparr>script_reads = [(5, Inr (Some [7])), (5, Inr None)], script_sent = [], script_time = 0\<rparr>)
        ''1.0'' [] [] = Some (Inr (), Some s', [('' r1 '', [])])
      \<and> map snd (script_sent s') = [build_hello_with_data_transports ''1.0'' [],
          RuleAck ''r1'' [] [], RuleStatus ''r1'' [], Heartbeat ''r1'' []]"
proof -
  have "trim '' r1 '' = ''r1''" by code_simp
  then show ?thesis
    using control_once_transcript [of "\<lambda>bs. if bs = [7] then Inr (RuleSync '' r1 '' []) else Inl ''bad''"
        "[(5, Inr (Some [7]))]" "[RuleSync '' r1 '' []]"
        "\<lparr>script_reads = [(5, Inr (Some [7])), (5, Inr None)], script_sent = [], script_time = 0\<rparr>"
        5 "\<lambda>r rules k. (r, rules) # k" "''1.0''" "[]" "[]"]
    by simp
qed

text \<open>The effect on the rule sink of what has been read.\<close>

fun apply_reads ::
  "json_parser \<Rightarrow> 'k rule_update \<Rightarrow> (Duration \<times> (TransportError + bytes option)) list \<Rightarrow> 'k \<Rightarrow> 'k" where
  "apply_reads parse update [] k = k"
| "apply_reads parse update ((d, r) # reads) k =
     apply_reads parse update reads
       (case r of
          Inr (Some bs) \<Rightarrow> (case parse bs of Inr m \<Rightarrow> apply_sync update m k | Inl _ \<Rightarrow> k)
        | _ \<Rightarrow> k)"

text \<open>The loop returns, having consumed some of the reads and applied them.\<close>

definition session_ends ::
  "json_parser \<Rightarrow> 'k rule_update \<Rightarrow> script \<Rightarrow> 'k \<Rightarrow> ((TransportError + unit) \<times> script \<times> 'k) option \<Rightarrow> bool" where
  "session_ends parse update s k res \<longleftrightarrow>
     (\<exists>r s' k' n. res = Some (r, s', k') \<and> r \<noteq> Inl SocketClosed
        \<and> script_reads s' = drop n (script_reads s)
        \<and> k' = apply_reads parse update (take n (script_reads s)) k)"

lemma session_ends_later:
  assumes "session_ends parse update s' k' res" and "script_reads s = x # script_reads s'"
    and "apply_reads parse update [x] k = k'"
  shows "session_ends parse update s k res"
proof -
  obtain r s'' k'' n where "res = Some (r, s'', k'')" "r \<noteq> Inl SocketClosed"
      "script_reads s'' = drop n (script_reads s')"
      "k'' = apply_reads parse update (take n (script_reads s')) k'"
    using assms(1) by (auto simp: session_ends_def)
  then have "script_reads s'' = drop (Suc n) (script_reads s)"
      "k'' = apply_reads parse update (take (Suc n) (script_reads s)) k"
    using assms(2,3) by (cases x; simp)+
  with \<open>res = _\<close> \<open>r \<noteq> _\<close> show ?thesis unfolding session_ends_def by blast
qed

lemma session_ends_now:
  assumes "r \<noteq> Inl SocketClosed" and "script_reads s = x # script_reads s'"
    and "apply_reads parse update [x] k = k"
  shows "session_ends parse update s k (Some (r, s', k))"
  unfolding session_ends_def
  using assms by (intro exI [of _ r] exI [of _ s'] exI [of _ k] exI [of _ 1]) (cases x; simp)

lemma control_session_ends:
  "session_ends parse update s k (control_session_loop script_io parse update last_heartbeat l s k)"
proof (induction "script_reads s" arbitrary: last_heartbeat l s k)
  case Nil
  then have "script_reads s = []" by simp
  then show ?case by (subst control_session_loop.simps) (simp add: session_ends_def)
next
  case (Cons x reads)
  obtain d r where x: "x = (d, r)" by (cases x)
  let ?s = "s\<lparr>script_reads := reads, script_time := script_time s + d\<rparr>"
  have read: "read_message script_io s = (r, ?s)" using Cons.hyps(2) x by simp
  have later: "session_ends parse update s k (control_session_loop script_io parse update h l' s' k')"
    if "script_reads s' = reads" "apply_reads parse update [x] k = k'" for h l' s' k'
    using session_ends_later [OF Cons.hyps(1)] that Cons.hyps(2) by metis
  have now: "session_ends parse update s k (Some (r', s', k))"
    if "r' \<noteq> Inl SocketClosed" "script_reads s' = reads" "apply_reads parse update [x] k = k" for r' s'
    using session_ends_now [of r' s x s' parse update k] that Cons.hyps(2) by simp
  consider (err) e where "r = Inl e" | (idle) "r = Inr None" | (msg) bs where "r = Inr (Some bs)"
    by (metis sum.exhaust option.exhaust)
  then show ?case
  proof cases
    case err
    then show ?thesis
      by (subst control_session_loop.simps, cases e) (auto simp: read x intro!: now)
  next
    case idle
    then show ?thesis
      by (subst control_session_loop.simps)
        (auto simp: read x send_tunnel_control_heartbeat_def intro!: later)
  next
    case (msg bs)
    show ?thesis
    proof (cases rule: handle_message_cases [of parse bs update l ?s k])
      case (go m s')
      then show ?thesis
        by (subst control_session_loop.simps) (auto simp: read x msg intro!: later)
    next
      case (stop r' l')
      then have "apply_reads parse update [x] k = k" by (simp add: x msg split: sum.splits)
      with stop show ?thesis
        by (subst control_session_loop.simps)
          (auto simp: read x msg intro!: now split: sum.splits TunnelControlLoopAction.splits)
    qed
  qed
qed


text \<open>Times at most \<open>interval + delay\<close> and at least \<open>interval\<close> apart, none overdue at \<open>now\<close>.\<close>

fun cadence :: "Duration \<Rightarrow> Duration \<Rightarrow> Instant \<Rightarrow> Instant list \<Rightarrow> Instant \<Rightarrow> bool" where
  "cadence interval delay previous [] now \<longleftrightarrow> now < previous + interval"
| "cadence interval delay previous (t # ts) now \<longleftrightarrow>
     previous + interval \<le> t \<and> t < previous + interval + delay \<and> cadence interval delay t ts now"

text \<open>
  Heartbeats keep coming: while the connection is idle, with each read waiting at most
  \<open>delay\<close>, the session sends a heartbeat with its revision and rules no earlier than the interval after
  the last one and less than \<open>delay\<close> later, for as long as the connection lasts.
\<close>
theorem control_heartbeat_cadence:
  assumes "script_reads s = map (\<lambda>d. (d, Inr None)) ds" and "\<forall>d \<in> set ds. d \<le> delay"
    and "0 < heartbeat_interval l"
    and "last_heartbeat \<le> script_time s" and "script_time s < last_heartbeat + heartbeat_interval l"
  shows "\<exists>s' ts. control_session_loop script_io parse update last_heartbeat l s k = Some (Inr (), s', k)
      \<and> script_sent s' = script_sent s @ map (\<lambda>t. (t, Heartbeat (trim (latest_revision l))
                                                        (map sel_id (accepted_rules l)))) ts
      \<and> cadence (heartbeat_interval l) delay last_heartbeat ts (script_time s')"
  using assms
proof (induction ds arbitrary: last_heartbeat s)
  case Nil
  then show ?case by (subst control_session_loop.simps) (auto intro!: exI [of _ "[] :: nat list"])
next
  case (Cons d ds)
  let ?s = "s\<lparr>script_reads := map (\<lambda>d. (d, Inr None)) ds, script_time := script_time s + d\<rparr>"
  let ?m = "Heartbeat (trim (latest_revision l)) (map sel_id (accepted_rules l))"
  let ?s' = "?s\<lparr>script_sent := script_sent s @ [(script_time s + d, ?m)]\<rparr>"
  have read: "read_message script_io s = (Inr None, ?s)" using Cons.prems(1) by simp
  show ?case
  proof (cases "heartbeat_interval l \<le> script_time s + d - last_heartbeat")
    case False
    then have "control_session_loop script_io parse update last_heartbeat l s k =
        control_session_loop script_io parse update last_heartbeat l ?s k"
      by (subst control_session_loop.simps) (simp add: read elapsed_def)
    with Cons.IH [of ?s last_heartbeat] Cons.prems False show ?thesis by auto
  next
    case True
    then have step: "control_session_loop script_io parse update last_heartbeat l s k =
        control_session_loop script_io parse update (script_time s + d) l ?s' k"
      by (subst control_session_loop.simps)
        (simp add: read elapsed_def send_tunnel_control_heartbeat_def build_heartbeat_def)
    obtain s' ts where "control_session_loop script_io parse update (script_time s + d) l ?s' k =
          Some (Inr (), s', k)"
        "script_sent s' = script_sent ?s' @ map (\<lambda>t. (t, ?m)) ts"
        "cadence (heartbeat_interval l) delay (script_time s + d) ts (script_time s')"
      using Cons.IH [of ?s' "script_time s + d"] Cons.prems(2,3) by auto
    then show ?thesis
      using step True Cons.prems
      by (intro exI [of _ s'] exI [of _ "(script_time s + d) # ts"]) auto
  qed
qed

theorem control_heartbeat_cadence_witness:
  "\<exists>s' ts. control_session_loop script_io (\<lambda>_. Inl ''bad'') (\<lambda>_ _ k. k) 0
        \<lparr>latest_revision = ''r1'', accepted_rules = [], heartbeat_interval = 10\<rparr>
        \<lparr>script_reads = [(4, Inr None), (4, Inr None), (4, Inr None)], script_sent = [], script_time = 0\<rparr> ()
      = Some (Inr (), s', ())
      \<and> script_sent s' = map (\<lambda>t. (t, Heartbeat ''r1'' [])) ts \<and> cadence 10 4 0 ts (script_time s')"
proof -
  have "trim ''r1'' = ''r1''" by code_simp
  then show ?thesis
    using control_heartbeat_cadence [of
        "\<lparr>script_reads = [(4, Inr None), (4, Inr None), (4, Inr None)], script_sent = [], script_time = 0\<rparr>"
        "[4, 4, 4]" 4 "\<lparr>latest_revision = ''r1'', accepted_rules = [], heartbeat_interval = 10\<rparr>" 0
        "\<lambda>_. Inl ''bad''" "\<lambda>_ _ k. k" "()"]
    by simp
qed

end
