(* ===== verification/TunnelReady.thy ===== *)
theory TunnelReady
  imports TunnelControl
begin

text \<open>
  The readiness report of the data channel, from \<open>tunnel_data.rs\<close>: which rules this agent serves and
  which it cannot, the simple report made from the selected rules alone, its shared holder, and the
  payloads of the hello and ready frames.
\<close>

section \<open>Readiness\<close>

record TunnelDataRuleFailure =
  failure_rule_id :: u64
  failure_status :: string
  failure_error :: string

record TunnelDataReadyState =
  ready_revision :: string
  ingress_rule_ids :: "u64 list"
  egress_rule_ids :: "u64 list"
  failed_rules :: "TunnelDataRuleFailure list"

definition ready_empty :: "string \<Rightarrow> TunnelDataReadyState" where
  "ready_empty revision =
     \<lparr>ready_revision = trim revision, ingress_rule_ids = [], egress_rule_ids = [], failed_rules = []\<rparr>"

text \<open>\<open>sort_unstable\<close> and \<open>dedup\<close> of the two lists of rules.\<close>

definition sort_rule_ids :: "TunnelDataReadyState \<Rightarrow> TunnelDataReadyState" where
  "sort_rule_ids ready =
     ready\<lparr>ingress_rule_ids := remdups_adj (sort (ingress_rule_ids ready)),
           egress_rule_ids := remdups_adj (sort (egress_rule_ids ready))\<rparr>"

definition push_ingress :: "u64 \<Rightarrow> TunnelDataReadyState \<Rightarrow> TunnelDataReadyState" where
  "push_ingress rid ready = ready\<lparr>ingress_rule_ids := ingress_rule_ids ready @ [rid]\<rparr>"

definition push_egress :: "u64 \<Rightarrow> TunnelDataReadyState \<Rightarrow> TunnelDataReadyState" where
  "push_egress rid ready = ready\<lparr>egress_rule_ids := egress_rule_ids ready @ [rid]\<rparr>"

definition push_selected_rule :: "SelectedTunnelRule \<Rightarrow> TunnelDataReadyState \<Rightarrow> TunnelDataReadyState" where
  "push_selected_rule rule ready =
     (if sel_role rule = ''ingress'' then push_ingress (sel_id rule) ready
      else if sel_role rule = ''egress'' then push_egress (sel_id rule) ready
      else if sel_role rule = ''both'' then push_egress (sel_id rule) (push_ingress (sel_id rule) ready)
      else ready)"

definition from_selected_rules :: "string \<Rightarrow> SelectedTunnelRule list \<Rightarrow> TunnelDataReadyState" where
  "from_selected_rules revision rules =
     sort_rule_ids (fold push_selected_rule rules (ready_empty revision))"

type_synonym SharedTunnelDataReadyState = "TunnelDataReadyState mutex"

definition shared_ready_new :: SharedTunnelDataReadyState where
  "shared_ready_new = mutex_new (ready_empty [])"

definition shared_ready_snapshot :: "SharedTunnelDataReadyState \<Rightarrow> TunnelDataReadyState" where
  "shared_ready_snapshot m = (if poisoned m then ready_empty [] else guarded m)"

definition update_from_selected_rules ::
  "string \<Rightarrow> SelectedTunnelRule list \<Rightarrow> SharedTunnelDataReadyState \<Rightarrow> SharedTunnelDataReadyState" where
  "update_from_selected_rules revision rules m =
     (if poisoned m then m else m\<lparr>guarded := from_selected_rules revision rules\<rparr>)"

section \<open>Payloads\<close>

definition write_count :: "bytes \<Rightarrow> nat \<Rightarrow> string \<Rightarrow> TransportError + bytes" where
  "write_count out len field =
     (if len < 2 ^ 16 then Inr (out @ u16_to_be_bytes (of_nat len))
      else Inl (RequestFailed (field @ '' too long: exceeds u16'')))"

definition data_write_string :: "bytes \<Rightarrow> string \<Rightarrow> TransportError + bytes" where
  "data_write_string out v =
     bind_result (write_count out (length (as_bytes v)) ''string length'') (\<lambda>out. Inr (out @ as_bytes v))"

fun write_strings :: "bytes \<Rightarrow> string list \<Rightarrow> TransportError + bytes" where
  "write_strings out [] = Inr out"
| "write_strings out (v # vs) = bind_result (data_write_string out v) (\<lambda>out. write_strings out vs)"

definition write_string_list :: "bytes \<Rightarrow> string list \<Rightarrow> TransportError + bytes" where
  "write_string_list out vs =
     bind_result (write_count out (length vs) ''string list count'') (\<lambda>out. write_strings out vs)"

definition write_u64_list :: "bytes \<Rightarrow> u64 list \<Rightarrow> TransportError + bytes" where
  "write_u64_list out vs =
     bind_result (write_count out (length vs) ''u64 list count'')
       (\<lambda>out. Inr (out @ concat (map u64_to_be_bytes vs)))"

definition encode_hello_payload :: "string \<Rightarrow> string \<Rightarrow> string \<Rightarrow> TransportError + bytes" where
  "encode_hello_payload agent_id_hint version revision =
     bind_result (data_write_string [] agent_id_hint) (\<lambda>out.
     bind_result (data_write_string out version) (\<lambda>out.
     bind_result (data_write_string out revision) (\<lambda>out.
       write_string_list out [''tcp'', ''multiplex'', ''flow_control'', ''stats''])))"

fun write_failures :: "bytes \<Rightarrow> TunnelDataRuleFailure list \<Rightarrow> TransportError + bytes" where
  "write_failures out [] = Inr out"
| "write_failures out (f # fs) =
     bind_result (data_write_string (out @ u64_to_be_bytes (failure_rule_id f)) (failure_status f)) (\<lambda>out.
     bind_result (data_write_string out (failure_error f)) (\<lambda>out. write_failures out fs))"

definition encode_ready_payload :: "TunnelDataReadyState \<Rightarrow> TransportError + bytes" where
  "encode_ready_payload ready =
     bind_result (data_write_string [] (ready_revision ready)) (\<lambda>out.
     bind_result (write_u64_list out (ingress_rule_ids ready)) (\<lambda>out.
     bind_result (write_u64_list out (egress_rule_ids ready)) (\<lambda>out.
     bind_result (write_count out (length (failed_rules ready)) ''failed rule count'') (\<lambda>out.
       write_failures out (failed_rules ready)))))"

section \<open>Encodings that can be read back\<close>

text \<open>
  What a reader of the payloads relies on: the values a writer accepts have encodings from which the
  value and the rest of the input can be told apart.  A counted list of such values has the same
  property.
\<close>

locale field_encoding =
  fixes enc :: "'a \<Rightarrow> bytes" and fits :: "'a \<Rightarrow> bool"
  assumes enc_apart: "fits x \<Longrightarrow> fits y \<Longrightarrow> enc x @ r = enc y @ r' \<Longrightarrow> x = y \<and> r = r'"
begin

lemma enc_items_apart:
  "list_all fits xs \<Longrightarrow> list_all fits ys \<Longrightarrow> length xs = length ys \<Longrightarrow>
   concat (map enc xs) @ r = concat (map enc ys) @ r' \<Longrightarrow> xs = ys \<and> r = r'"
proof (induction xs ys rule: list_induct2')
  case (4 x xs y ys)
  then show ?case using enc_apart [of x y "concat (map enc xs) @ r" "concat (map enc ys) @ r'"] by auto
qed auto

end

definition string_enc :: "string \<Rightarrow> bytes" where
  "string_enc v = u16_to_be_bytes (of_nat (length v)) @ as_bytes v"

definition string_fits :: "string \<Rightarrow> bool" where
  "string_fits v \<longleftrightarrow> length v < 2 ^ 16"

definition counted_enc :: "('a \<Rightarrow> bytes) \<Rightarrow> 'a list \<Rightarrow> bytes" where
  "counted_enc e vs = u16_to_be_bytes (of_nat (length vs)) @ concat (map e vs)"

definition counted_fits :: "('a \<Rightarrow> bool) \<Rightarrow> 'a list \<Rightarrow> bool" where
  "counted_fits ok vs \<longleftrightarrow> length vs < 2 ^ 16 \<and> list_all ok vs"

lemma count_apart:
  assumes "n < 2 ^ 16" "m < 2 ^ 16" "u16_to_be_bytes (of_nat n) @ r = u16_to_be_bytes (of_nat m) @ r'"
  shows "n = m \<and> r = r'"
proof -
  have "u16_to_be_bytes (of_nat n) = u16_to_be_bytes (of_nat m)" "r = r'"
    using assms(3) by auto
  then have "unat (of_nat n :: u16) = unat (of_nat m :: u16)" by (metis u16_be_roundtrip)
  then show ?thesis using assms(1,2) \<open>r = r'\<close> by (simp add: unat_of_nat)
qed

locale counted_encoding = item: field_encoding enc fits
  for enc :: "'a \<Rightarrow> bytes" and fits :: "'a \<Rightarrow> bool"
begin

lemma counted_apart:
  assumes "counted_fits fits xs" "counted_fits fits ys" "counted_enc enc xs @ r = counted_enc enc ys @ r'"
  shows "xs = ys \<and> r = r'"
  using assms count_apart [of "length xs" "length ys" "concat (map enc xs) @ r" "concat (map enc ys) @ r'"]
    item.enc_items_apart [of xs ys r r']
  by (auto simp: counted_fits_def counted_enc_def)

end

sublocale counted_encoding \<subseteq> counted: field_encoding "counted_enc enc" "counted_fits fits"
  by unfold_locales (rule counted_apart)

interpretation string_encoding: field_encoding string_enc string_fits
proof unfold_locales
  fix x y :: string and r r' :: bytes
  assume fits: "string_fits x" "string_fits y" and eq: "string_enc x @ r = string_enc y @ r'"
  have "length x = length y \<and> as_bytes x @ r = as_bytes y @ r'"
    by (rule count_apart) (use fits eq in \<open>simp_all add: string_enc_def string_fits_def\<close>)
  then have "as_bytes x = as_bytes y \<and> r = r'"
    using append_eq_append_conv [of "as_bytes x" "as_bytes y" r r'] by simp
  then show "x = y \<and> r = r'" by (metis str_of_bytes_as_bytes)
qed

lemma u64_bytes_eq [simp]: "u64_to_be_bytes x = u64_to_be_bytes y \<longleftrightarrow> x = y"
  by (metis u64_be_roundtrip)

interpretation u64_encoding: counted_encoding u64_to_be_bytes "\<lambda>_. True"
  by unfold_locales simp

definition failure_enc :: "TunnelDataRuleFailure \<Rightarrow> bytes" where
  "failure_enc f =
     u64_to_be_bytes (failure_rule_id f) @ string_enc (failure_status f) @ string_enc (failure_error f)"

definition failure_fits :: "TunnelDataRuleFailure \<Rightarrow> bool" where
  "failure_fits f \<longleftrightarrow> string_fits (failure_status f) \<and> string_fits (failure_error f)"

interpretation failure_encoding: counted_encoding failure_enc failure_fits
proof
  fix x y :: TunnelDataRuleFailure and r r'
  assume "failure_fits x" "failure_fits y" "failure_enc x @ r = failure_enc y @ r'"
  then show "x = y \<and> r = r'"
    by (auto simp: failure_enc_def failure_fits_def dest!: string_encoding.enc_apart [rotated 2]
        intro: TunnelDataRuleFailure.equality)
qed

section \<open>Properties\<close>

lemma write_count_Inr: "write_count out n field = Inr out' \<longleftrightarrow> n < 2 ^ 16 \<and> out' = out @ u16_to_be_bytes (of_nat n)"
  by (auto simp: write_count_def)

lemma data_write_string_Inr: "data_write_string out v = Inr out' \<longleftrightarrow> string_fits v \<and> out' = out @ string_enc v"
  by (auto simp: data_write_string_def result_simps write_count_Inr string_fits_def string_enc_def)

lemma write_failures_Inr:
  "write_failures out fs = Inr out' \<longleftrightarrow> list_all failure_fits fs \<and> out' = out @ concat (map failure_enc fs)"
  by (induction fs arbitrary: out)
    (auto simp: result_simps data_write_string_Inr failure_fits_def failure_enc_def)

lemma write_u64_list_Inr:
  "write_u64_list out vs = Inr out' \<longleftrightarrow>
     counted_fits (\<lambda>_. True) vs \<and> out' = out @ counted_enc u64_to_be_bytes vs"
  by (auto simp: write_u64_list_def result_simps write_count_Inr counted_fits_def counted_enc_def
      list_all_iff)

lemma encode_ready_Inr:
  "encode_ready_payload ready = Inr p \<longleftrightarrow>
     string_fits (ready_revision ready) \<and> counted_fits (\<lambda>_. True) (ingress_rule_ids ready)
     \<and> counted_fits (\<lambda>_. True) (egress_rule_ids ready) \<and> counted_fits failure_fits (failed_rules ready)
     \<and> p = string_enc (ready_revision ready) @ counted_enc u64_to_be_bytes (ingress_rule_ids ready)
           @ counted_enc u64_to_be_bytes (egress_rule_ids ready)
           @ counted_enc failure_enc (failed_rules ready)"
  by (auto simp: encode_ready_payload_def result_simps data_write_string_Inr write_u64_list_Inr
      write_count_Inr write_failures_Inr counted_fits_def [of failure_fits]
      counted_enc_def [of failure_enc])

text \<open>
  The ready payload loses nothing: two readiness reports with the same payload are equal, and
  no payload is a proper prefix of another, so a reader recovers revision, rule lists and failures.
\<close>
theorem ready_payload_unambiguous:
  assumes "encode_ready_payload ready = Inr p" and "encode_ready_payload ready' = Inr p'"
    and "p @ rest = p' @ rest'"
  shows "ready = ready' \<and> rest = rest'"
proof -
  have "ready_revision ready = ready_revision ready' \<and> ingress_rule_ids ready = ingress_rule_ids ready'
      \<and> egress_rule_ids ready = egress_rule_ids ready' \<and> failed_rules ready = failed_rules ready' \<and> rest = rest'"
    using assms
    by (auto simp: encode_ready_Inr dest!: string_encoding.enc_apart [rotated 2]
        u64_encoding.counted.enc_apart [rotated 2] failure_encoding.counted.enc_apart [rotated 2])
  then show ?thesis by (auto intro: TunnelDataReadyState.equality)
qed

definition sample_ready :: TunnelDataReadyState where
  "sample_ready = \<lparr>ready_revision = ''r'', ingress_rule_ids = [1], egress_rule_ids = [],
     failed_rules = [\<lparr>failure_rule_id = 2, failure_status = ''s'', failure_error = []\<rparr>]\<rparr>"

theorem ready_payload_unambiguous_witness:
  "\<exists>p. encode_ready_payload sample_ready = Inr p
     \<and> {ready'. encode_ready_payload ready' = Inr p} = {sample_ready}"
proof -
  obtain p where p: "encode_ready_payload sample_ready = Inr p"
    by (simp add: encode_ready_Inr sample_ready_def counted_fits_def string_fits_def failure_fits_def)
  then show ?thesis using ready_payload_unambiguous [OF p, of _ p "[]" "[]"] by auto
qed

text \<open>The rules a report of selected rules lists for a side.\<close>

lemma set_push_selected:
  "set (ingress_rule_ids (fold push_selected_rule rules ready)) =
     set (ingress_rule_ids ready) \<union> sel_id ` {r \<in> set rules. sel_role r \<in> {''ingress'', ''both''}}"
  "set (egress_rule_ids (fold push_selected_rule rules ready)) =
     set (egress_rule_ids ready) \<union> sel_id ` {r \<in> set rules. sel_role r \<in> {''egress'', ''both''}}"
  by (induction rules arbitrary: ready)
    (auto simp: push_selected_rule_def push_ingress_def push_egress_def)

lemma distinct_remdups_adj_sorted: "sorted xs \<Longrightarrow> distinct (remdups_adj xs)" for xs :: "'a :: linorder list"
  by (induction xs rule: remdups_adj.induct) auto

lemma sorted_rule_ids:
  "sorted (remdups_adj (sort xs))" "distinct (remdups_adj (sort xs))" "set (remdups_adj (sort xs)) = set xs"
  for xs :: "u64 list"
  by (simp_all add: sorted_remdups_adj distinct_remdups_adj_sorted)

lemma from_selected_rules_ids:
  "sorted (ingress_rule_ids (from_selected_rules revision rules)) \<and> distinct (ingress_rule_ids (from_selected_rules revision rules))
   \<and> set (ingress_rule_ids (from_selected_rules revision rules)) =
       sel_id ` {r \<in> set rules. sel_role r \<in> {''ingress'', ''both''}}
   \<and> set (egress_rule_ids (from_selected_rules revision rules)) =
       sel_id ` {r \<in> set rules. sel_role r \<in> {''egress'', ''both''}}"
  unfolding from_selected_rules_def sort_rule_ids_def
  by (simp add: sorted_rule_ids set_push_selected ready_empty_def)

end
