(* ===== verification/TunnelSession.thy ===== *)
theory TunnelSession
  imports RustStr
begin

text \<open>
  The session payloads of \<open>src/src/tunnel_session.rs\<close>: the bodies of the SESSION_OPEN, SESSION_ACCEPT
  and SESSION_ERROR frames.  A field is read through a cursor over the payload; the interface
  \<open>field_codec\<close> says what reading a field promises about the bytes that writing it produces, and is
  interpreted for the three kinds of field.  Decoding and encoding are then exact inverses.
\<close>

section \<open>Payloads and errors\<close>

record TunnelSessionOpenPayload =
  open_rule_id :: u64
  listen_host :: string
  listen_port :: u16
  source_addr :: string

record TunnelSessionErrorPayload =
  error_rule_id :: u64
  error_code :: string
  error_message :: string

datatype TunnelSessionPayloadError =
    Truncated string
  | StringTooLong string
  | InvalidUtf8 string
  | TrailingBytes nat

fun show_session_payload_error :: "TunnelSessionPayloadError \<Rightarrow> string" where
  "show_session_payload_error (Truncated field) =
     ''truncated tunnel session payload field: '' @ field"
| "show_session_payload_error (StringTooLong field) =
     ''tunnel session payload string too long: '' @ field"
| "show_session_payload_error (InvalidUtf8 field) =
     ''invalid utf-8 tunnel session field: '' @ field"
| "show_session_payload_error (TrailingBytes count) =
     ''tunnel session payload has '' @ show_nat count @ '' trailing bytes''"

section \<open>Writing and reading fields\<close>

definition write_string ::
  "bytes \<Rightarrow> string \<Rightarrow> string \<Rightarrow> (TunnelSessionPayloadError + unit) \<times> bytes" where
  "write_string bs field v =
     (if length v > 65535 then (Inl (StringTooLong field), bs)
      else (Inr (), bs @ u16_to_be_bytes (of_nat (length v)) @ as_bytes v))"

record PayloadCursor =
  cursor_bytes :: bytes
  cursor_offset :: nat

definition cursor_new :: "bytes \<Rightarrow> PayloadCursor" where
  "cursor_new bs = \<lparr>cursor_bytes = bs, cursor_offset = 0\<rparr>"

definition read_u64 ::
  "string \<Rightarrow> PayloadCursor \<Rightarrow> (TunnelSessionPayloadError + u64) \<times> PayloadCursor" where
  "read_u64 field c =
     (let stop = cursor_offset c + 8 in
      if length (cursor_bytes c) < stop then (Inl (Truncated field), c)
      else (Inr (u64_from_be_bytes (sub_slice (cursor_offset c) stop (cursor_bytes c))),
            c\<lparr>cursor_offset := stop\<rparr>))"

definition read_u16 ::
  "string \<Rightarrow> PayloadCursor \<Rightarrow> (TunnelSessionPayloadError + u16) \<times> PayloadCursor" where
  "read_u16 field c =
     (let stop = cursor_offset c + 2 in
      if length (cursor_bytes c) < stop then (Inl (Truncated field), c)
      else (Inr (u16_from_be_bytes (sub_slice (cursor_offset c) stop (cursor_bytes c))),
            c\<lparr>cursor_offset := stop\<rparr>))"

definition read_string ::
  "string \<Rightarrow> PayloadCursor \<Rightarrow> (TunnelSessionPayloadError + string) \<times> PayloadCursor" where
  "read_string field c =
     (case read_u16 field c of
        (Inl e, c1) \<Rightarrow> (Inl e, c1)
      | (Inr n, c1) \<Rightarrow>
          let stop = cursor_offset c1 + unat n in
          if length (cursor_bytes c1) < stop then (Inl (Truncated field), c1)
          else
            case from_utf8 (sub_slice (cursor_offset c1) stop (cursor_bytes c1)) of
              None \<Rightarrow> (Inl (InvalidUtf8 field), c1)
            | Some v \<Rightarrow> (Inr v, c1\<lparr>cursor_offset := stop\<rparr>))"

definition expect_end :: "PayloadCursor \<Rightarrow> TunnelSessionPayloadError + unit" where
  "expect_end c =
     (let trailing = length (cursor_bytes c) - cursor_offset c in
      if trailing \<noteq> 0 then Inl (TrailingBytes trailing) else Inr ())"

text \<open>The \<open>?\<close> operator on a result paired with the state it leaves.\<close>

definition try_state ::
  "('e + 'a) \<times> 's \<Rightarrow> ('a \<Rightarrow> 's \<Rightarrow> 'e + 'b) \<Rightarrow> 'e + 'b" where
  "try_state r go = (case r of (Inl e, _) \<Rightarrow> Inl e | (Inr x, s) \<Rightarrow> go x s)"

section \<open>The payload codecs\<close>

definition encode_session_open_payload ::
  "TunnelSessionOpenPayload \<Rightarrow> TunnelSessionPayloadError + bytes" where
  "encode_session_open_payload p =
     try_state (write_string (u64_to_be_bytes (open_rule_id p)) ''listen_host'' (listen_host p)) (\<lambda>_ bs.
     try_state (write_string (bs @ u16_to_be_bytes (listen_port p)) ''source_addr'' (source_addr p)) (\<lambda>_ bs.
     Inr bs))"

definition decode_session_open_payload ::
  "bytes \<Rightarrow> TunnelSessionPayloadError + TunnelSessionOpenPayload" where
  "decode_session_open_payload bs =
     try_state (read_u64 ''rule_id'' (cursor_new bs)) (\<lambda>rule_id c.
     try_state (read_string ''listen_host'' c) (\<lambda>host c.
     try_state (read_u16 ''listen_port'' c) (\<lambda>port c.
     try_state (read_string ''source_addr'' c) (\<lambda>source c.
     bind_result (expect_end c) (\<lambda>_.
     Inr \<lparr>open_rule_id = rule_id, listen_host = host, listen_port = port, source_addr = source\<rparr>)))))"

definition encode_session_accept_payload :: "u64 \<Rightarrow> bytes" where
  "encode_session_accept_payload rule_id = u64_to_be_bytes rule_id"

definition decode_session_accept_payload :: "bytes \<Rightarrow> TunnelSessionPayloadError + u64" where
  "decode_session_accept_payload bs =
     try_state (read_u64 ''rule_id'' (cursor_new bs)) (\<lambda>rule_id c.
     bind_result (expect_end c) (\<lambda>_. Inr rule_id))"

definition encode_session_error_payload ::
  "TunnelSessionErrorPayload \<Rightarrow> TunnelSessionPayloadError + bytes" where
  "encode_session_error_payload p =
     try_state (write_string (u64_to_be_bytes (error_rule_id p)) ''code'' (error_code p)) (\<lambda>_ bs.
     try_state (write_string bs ''message'' (error_message p)) (\<lambda>_ bs.
     Inr bs))"

definition decode_session_error_payload ::
  "bytes \<Rightarrow> TunnelSessionPayloadError + TunnelSessionErrorPayload" where
  "decode_session_error_payload bs =
     try_state (read_u64 ''rule_id'' (cursor_new bs)) (\<lambda>rule_id c.
     try_state (read_string ''code'' c) (\<lambda>code c.
     try_state (read_string ''message'' c) (\<lambda>message c.
     bind_result (expect_end c) (\<lambda>_.
     Inr \<lparr>error_rule_id = rule_id, error_code = code, error_message = message\<rparr>))))"

section \<open>The interface of a field\<close>

definition cursor_ok :: "PayloadCursor \<Rightarrow> bool" where
  "cursor_ok c \<longleftrightarrow> cursor_offset c \<le> length (cursor_bytes c)"

definition cursor_rest :: "PayloadCursor \<Rightarrow> bytes" where
  "cursor_rest c = drop (cursor_offset c) (cursor_bytes c)"

text \<open>
  Reading a field succeeds with \<open>v\<close> exactly when the rest of the payload begins with what writing
  \<open>v\<close> produces, and then these bytes are consumed.
\<close>

locale field_codec =
  fixes rd :: "string \<Rightarrow> PayloadCursor \<Rightarrow> (TunnelSessionPayloadError + 'a) \<times> PayloadCursor"
    and wr :: "'a \<Rightarrow> bytes"
    and writable :: "'a \<Rightarrow> bool"
  assumes rd_iff: "cursor_ok c \<Longrightarrow> rd field c = (Inr v, c') \<longleftrightarrow>
      writable v \<and> take (length (wr v)) (cursor_rest c) = wr v
      \<and> c' = c\<lparr>cursor_offset := cursor_offset c + length (wr v)\<rparr>"
begin

lemma rd_consumes:
  assumes "cursor_ok c" and "rd field c = (Inr v, c')"
  shows "writable v \<and> cursor_ok c' \<and> cursor_rest c = wr v @ cursor_rest c'"
proof -
  have v: "writable v" "take (length (wr v)) (cursor_rest c) = wr v"
    "c' = c\<lparr>cursor_offset := cursor_offset c + length (wr v)\<rparr>"
    using assms rd_iff by auto
  have "length (wr v) \<le> length (cursor_rest c)"
    using arg_cong [OF v(2), of length] by simp
  moreover have "cursor_rest c' = drop (length (wr v)) (cursor_rest c)"
    by (simp add: v(3) cursor_rest_def add.commute)
  ultimately show ?thesis
    using v assms(1) append_take_drop_id [of "length (wr v)" "cursor_rest c"]
    by (auto simp: cursor_ok_def cursor_rest_def)
qed

lemma rd_accepts:
  assumes "cursor_ok c" and "writable v" and "cursor_rest c = wr v @ r"
  obtains c' where "rd field c = (Inr v, c')" and "cursor_ok c'" and "cursor_rest c' = r"
proof
  let ?c' = "c\<lparr>cursor_offset := cursor_offset c + length (wr v)\<rparr>"
  show *: "rd field c = (Inr v, ?c')"
    using assms by (simp add: rd_iff)
  show "cursor_ok ?c'" and "cursor_rest ?c' = r"
    using rd_consumes [OF assms(1) *] assms(3) by auto
qed

lemma rd_try_Inr:
  assumes "try_state (rd field c) go = Inr x" and "cursor_ok c"
  obtains v c' where "writable v" and "cursor_ok c'" and "cursor_rest c = wr v @ cursor_rest c'"
    and "go v c' = Inr x"
proof -
  obtain v c' where "rd field c = (Inr v, c')" "go v c' = Inr x"
    using assms(1) by (auto simp: try_state_def split: prod.splits sum.splits)
  with rd_consumes [OF assms(2)] show thesis by (intro that [of v c']) auto
qed

end

section \<open>The three kinds of field\<close>

lemma cursor_bounds:
  assumes "cursor_ok c"
  shows "length (cursor_bytes c) < cursor_offset c + n \<longleftrightarrow> length (cursor_rest c) < n"
    and "sub_slice (cursor_offset c) (cursor_offset c + n) (cursor_bytes c) = take n (cursor_rest c)"
  using assms by (auto simp: cursor_ok_def cursor_rest_def sub_slice_def)

lemma take_u64_iff:
  "take 8 r = u64_to_be_bytes v \<longleftrightarrow> 8 \<le> length r \<and> u64_from_be_bytes (take 8 r) = v" (is "?l \<longleftrightarrow> ?r")
proof
  assume l: ?l
  then have "length (take 8 r) = 8" by simp
  then have "8 \<le> length r" by simp
  with l show ?r by simp
next
  assume ?r
  with u64_bytes_roundtrip [of "take 8 r"] show ?l by auto
qed

lemma take_u16_iff:
  "take 2 r = u16_to_be_bytes v \<longleftrightarrow> 2 \<le> length r \<and> u16_from_be_bytes (take 2 r) = v" (is "?l \<longleftrightarrow> ?r")
proof
  assume l: ?l
  then have "length (take 2 r) = 2" by simp
  then have "2 \<le> length r" by simp
  with l show ?r by simp
next
  assume ?r
  with u16_bytes_roundtrip [of "take 2 r"] show ?l by auto
qed

interpretation u64_field: field_codec read_u64 u64_to_be_bytes "\<lambda>_. True"
  by unfold_locales (auto simp: read_u64_def Let_def cursor_bounds take_u64_iff)

interpretation u16_field: field_codec read_u16 u16_to_be_bytes "\<lambda>_. True"
  by unfold_locales
    (auto simp: read_u16_def Let_def cursor_bounds take_u16_iff simp del: add_2_eq_Suc')

definition string_field :: "string \<Rightarrow> bytes" where
  "string_field v = u16_to_be_bytes (of_nat (length v)) @ as_bytes v"

definition string_writable :: "string \<Rightarrow> bool" where
  "string_writable v \<longleftrightarrow> length v \<le> 65535 \<and> wf_str v"

lemma unat_string_len: "length v \<le> 65535 \<Longrightarrow> unat (of_nat (length v) :: u16) = length v"
  by (simp add: unat_of_nat take_bit_nat_def)

lemma read_string_Inr:
  assumes "cursor_ok c"
  shows "read_string field c = (Inr v, c') \<longleftrightarrow>
    string_writable v \<and> take (length (string_field v)) (cursor_rest c) = string_field v
    \<and> c' = c\<lparr>cursor_offset := cursor_offset c + length (string_field v)\<rparr>" (is "?l \<longleftrightarrow> ?r")
proof
  assume ?l
  then obtain n c1 where n: "read_u16 field c = (Inr n, c1)"
    and v: "from_utf8 (sub_slice (cursor_offset c1) (cursor_offset c1 + unat n) (cursor_bytes c1)) = Some v"
    and stop: "\<not> length (cursor_bytes c1) < cursor_offset c1 + unat n"
    and c': "c' = c1\<lparr>cursor_offset := cursor_offset c1 + unat n\<rparr>"
    by (auto simp: read_string_def Let_def split: prod.splits sum.splits if_splits option.splits)
  note c1 = u16_field.rd_consumes [OF assms n]
  have ok: "cursor_ok c1" using c1 by simp
  have rest: "cursor_rest c = u16_to_be_bytes n @ cursor_rest c1" using c1 by simp
  have bs: "as_bytes v = take (unat n) (cursor_rest c1)" "wf_str v"
    using from_utf8_SomeD [OF v] by (simp_all add: cursor_bounds [OF ok])
  have "unat n \<le> length (cursor_rest c1)"
    using stop by (simp add: cursor_bounds [OF ok])
  then have len: "length v = unat n"
    using arg_cong [OF bs(1), of length] by simp
  have "unat n \<le> 65535"
    using unsigned_less [of n, where ?'a = nat] by simp
  then have "string_writable v"
    using len bs(2) by (simp add: string_writable_def)
  moreover have field: "string_field v = u16_to_be_bytes n @ as_bytes v"
    by (simp add: string_field_def len)
  then have flen: "length (string_field v) = 2 + unat n"
    by (simp add: len)
  have "take (length (string_field v)) (cursor_rest c) = string_field v"
    unfolding flen unfolding rest field bs(1) by simp
  moreover have "c1 = c\<lparr>cursor_offset := cursor_offset c + 2\<rparr>"
    using n by (simp add: u16_field.rd_iff [OF assms])
  ultimately show ?r
    using c' unfolding flen by simp
next
  assume r: ?r
  let ?n = "of_nat (length v) :: u16"
  have len: "unat ?n = length v" and wf: "wf_str v"
    using r by (simp_all add: string_writable_def unat_string_len)
  have pre: "take (2 + length v) (cursor_rest c) = u16_to_be_bytes ?n @ as_bytes v"
    using r by (simp add: string_field_def)
  from arg_cong [OF pre, of length] have long: "2 + length v \<le> length (cursor_rest c)"
    by simp
  have t2: "take 2 (cursor_rest c) = u16_to_be_bytes ?n"
    using arg_cong [OF pre, of "take 2"] by (simp add: numeral_2_eq_2)
  have tv: "take (length v) (drop 2 (cursor_rest c)) = as_bytes v"
    using arg_cong [OF pre, of "drop 2"] by (simp add: drop_take)
  let ?c1 = "c\<lparr>cursor_offset := cursor_offset c + 2\<rparr>"
  have c1: "read_u16 field c = (Inr ?n, ?c1)"
    using t2 by (simp add: u16_field.rd_iff [OF assms])
  have ok: "cursor_ok ?c1" and rest: "cursor_rest ?c1 = drop 2 (cursor_rest c)"
    using long assms by (auto simp: cursor_ok_def cursor_rest_def add.commute)
  have "read_string field c = (Inr v, ?c1\<lparr>cursor_offset := cursor_offset ?c1 + length v\<rparr>)"
    using wf long tv c1
    by (simp add: read_string_def Let_def len cursor_bounds [OF ok, unfolded rest, simplified])
  with r show ?l by (simp add: string_field_def add.assoc)
qed

interpretation str_field: field_codec read_string string_field string_writable
  by unfold_locales (rule read_string_Inr)

section \<open>Encoding and decoding are inverse\<close>

lemma cursor_new_ok [simp]: "cursor_ok (cursor_new bs)" "cursor_rest (cursor_new bs) = bs"
  by (simp_all add: cursor_ok_def cursor_rest_def cursor_new_def)

lemma expect_end_try:
  assumes "cursor_ok c"
  shows "bind_result (expect_end c) go = Inr x \<longleftrightarrow> cursor_rest c = [] \<and> go () = Inr x"
  using assms by (auto simp: expect_end_def Let_def cursor_rest_def cursor_ok_def)

lemma write_string_try:
  "try_state (write_string bs field v) go = Inr x \<longleftrightarrow>
     length v \<le> 65535 \<and> go () (bs @ string_field v) = Inr x"
  by (auto simp: try_state_def write_string_def string_field_def)

lemma try_state_Inr [simp]: "try_state (Inr v, c) go = go v c"
  by (simp add: try_state_def)

lemma encode_open_iff:
  "encode_session_open_payload p = Inr bs \<longleftrightarrow>
     length (listen_host p) \<le> 65535 \<and> length (source_addr p) \<le> 65535
     \<and> bs = u64_to_be_bytes (open_rule_id p) @ string_field (listen_host p)
            @ u16_to_be_bytes (listen_port p) @ string_field (source_addr p)"
  by (auto simp: encode_session_open_payload_def write_string_try)

lemma encode_error_iff:
  "encode_session_error_payload p = Inr bs \<longleftrightarrow>
     length (error_code p) \<le> 65535 \<and> length (error_message p) \<le> 65535
     \<and> bs = u64_to_be_bytes (error_rule_id p) @ string_field (error_code p)
            @ string_field (error_message p)"
  by (auto simp: encode_session_error_payload_def write_string_try)

text \<open>
  The SESSION_OPEN payload codec is exact: a byte sequence decodes to a payload if and only
  if it is the encoding of that payload and its two strings are valid UTF-8.  So nothing that can be
  encoded is refused or changed on the way, and truncated, over-long, non-canonical or trailing input
  is never accepted.
\<close>
theorem session_open_payload_exact:
  "decode_session_open_payload bs = Inr p \<longleftrightarrow>
     encode_session_open_payload p = Inr bs \<and> wf_str (listen_host p) \<and> wf_str (source_addr p)"
    (is "?l \<longleftrightarrow> ?r")
proof
  assume ?l
  then show ?r
    unfolding decode_session_open_payload_def encode_open_iff
    by (auto elim!: u64_field.rd_try_Inr str_field.rd_try_Inr u16_field.rd_try_Inr
        simp: expect_end_try string_writable_def)
next
  assume ?r
  then have bs: "bs = u64_to_be_bytes (open_rule_id p) @ string_field (listen_host p)
      @ u16_to_be_bytes (listen_port p) @ string_field (source_addr p)"
    and host: "string_writable (listen_host p)" and src: "string_writable (source_addr p)"
    by (auto simp: encode_open_iff string_writable_def)
  obtain c1 where 1: "read_u64 ''rule_id'' (cursor_new bs) = (Inr (open_rule_id p), c1)" "cursor_ok c1"
    and r1: "cursor_rest c1 = string_field (listen_host p)
      @ u16_to_be_bytes (listen_port p) @ string_field (source_addr p)"
    using u64_field.rd_accepts [of "cursor_new bs" "open_rule_id p"] bs by auto
  obtain c2 where 2: "read_string ''listen_host'' c1 = (Inr (listen_host p), c2)" "cursor_ok c2"
    and r2: "cursor_rest c2 = u16_to_be_bytes (listen_port p) @ string_field (source_addr p)"
    using str_field.rd_accepts [OF 1(2) host r1] by blast
  obtain c3 where 3: "read_u16 ''listen_port'' c2 = (Inr (listen_port p), c3)" "cursor_ok c3"
    and r3: "cursor_rest c3 = string_field (source_addr p) @ []"
    using u16_field.rd_accepts [OF 2(2) _ r2] by auto
  obtain c4 where 4: "read_string ''source_addr'' c3 = (Inr (source_addr p), c4)" "cursor_ok c4"
    "cursor_rest c4 = []"
    using str_field.rd_accepts [OF 3(2) src r3] by blast
  show ?l
    by (simp add: decode_session_open_payload_def 1(1) 2(1) 3(1) 4 expect_end_try)
qed

text \<open>
  The SESSION_ERROR payload codec is exact in the same sense.
\<close>
theorem session_error_payload_exact:
  "decode_session_error_payload bs = Inr p \<longleftrightarrow>
     encode_session_error_payload p = Inr bs \<and> wf_str (error_code p) \<and> wf_str (error_message p)"
    (is "?l \<longleftrightarrow> ?r")
proof
  assume ?l
  then show ?r
    unfolding decode_session_error_payload_def encode_error_iff
    by (auto elim!: u64_field.rd_try_Inr str_field.rd_try_Inr
        simp: expect_end_try string_writable_def)
next
  assume ?r
  then have bs: "bs = u64_to_be_bytes (error_rule_id p) @ string_field (error_code p)
      @ string_field (error_message p)"
    and code: "string_writable (error_code p)" and msg: "string_writable (error_message p)"
    by (auto simp: encode_error_iff string_writable_def)
  obtain c1 where 1: "read_u64 ''rule_id'' (cursor_new bs) = (Inr (error_rule_id p), c1)" "cursor_ok c1"
    and r1: "cursor_rest c1 = string_field (error_code p) @ string_field (error_message p)"
    using u64_field.rd_accepts [of "cursor_new bs" "error_rule_id p"] bs by auto
  obtain c2 where 2: "read_string ''code'' c1 = (Inr (error_code p), c2)" "cursor_ok c2"
    and r2: "cursor_rest c2 = string_field (error_message p) @ []"
    using str_field.rd_accepts [OF 1(2) code r1] by auto
  obtain c3 where 3: "read_string ''message'' c2 = (Inr (error_message p), c3)" "cursor_ok c3"
    "cursor_rest c3 = []"
    using str_field.rd_accepts [OF 2(2) msg r2] by blast
  show ?l
    by (simp add: decode_session_error_payload_def 1(1) 2(1) 3 expect_end_try)
qed

lemma session_accept_payload_exact:
  "decode_session_accept_payload bs = Inr rule_id \<longleftrightarrow> bs = encode_session_accept_payload rule_id"
    (is "?l \<longleftrightarrow> ?r")
proof
  assume ?l
  then show ?r
    unfolding decode_session_accept_payload_def encode_session_accept_payload_def
    by (auto elim!: u64_field.rd_try_Inr simp: expect_end_try)
next
  assume ?r
  then obtain c1 where "read_u64 ''rule_id'' (cursor_new bs) = (Inr rule_id, c1)" "cursor_ok c1"
    "cursor_rest c1 = []"
    using u64_field.rd_accepts [of "cursor_new bs" rule_id "[]"]
    by (auto simp: encode_session_accept_payload_def)
  then show ?l by (simp add: decode_session_accept_payload_def expect_end_try)
qed

text \<open>What can be wrong with a payload: a field named in the source, or the bytes that are left.\<close>

lemma read_errors:
  "read_u64 field c = (Inl e, c') \<Longrightarrow> e = Truncated field"
  "read_u16 field c = (Inl e, c') \<Longrightarrow> e = Truncated field"
  "read_string field c = (Inl e, c') \<Longrightarrow> e = Truncated field \<or> e = InvalidUtf8 field"
  by (auto simp: read_string_def read_u64_def read_u16_def Let_def
      split: if_splits option.splits prod.splits sum.splits)

lemma read_keeps_bytes:
  "read_u64 field c = (Inr n, c') \<Longrightarrow> cursor_bytes c' = cursor_bytes c"
  "read_u16 field c = (Inr k, c') \<Longrightarrow> cursor_bytes c' = cursor_bytes c"
  "read_string field c = (Inr v, c') \<Longrightarrow> cursor_bytes c' = cursor_bytes c"
  by (auto simp: read_string_def read_u64_def read_u16_def Let_def
      split: if_splits option.splits prod.splits sum.splits)

lemma decode_open_errors:
  assumes "decode_session_open_payload bs = Inl e"
  shows "(\<exists>field \<in> {''rule_id'', ''listen_host'', ''listen_port'', ''source_addr''}.
            e = Truncated field \<or> e = InvalidUtf8 field)
         \<or> (\<exists>n. e = TrailingBytes n \<and> n \<le> length bs)"
  using assms unfolding decode_session_open_payload_def
  by (auto simp: try_state_def result_simps expect_end_def Let_def cursor_new_def
      dest!: read_errors read_keeps_bytes split: prod.splits sum.splits if_splits)

lemma length_show_nat: "n < 10 ^ Suc k \<Longrightarrow> length (show_nat n) \<le> Suc k"
proof (induction k arbitrary: n)
  case 0
  then show ?case by (simp add: show_nat.simps)
next
  case (Suc k)
  have "n div 10 < 10 ^ Suc k" using Suc.prems by (simp add: less_mult_imp_div_less)
  from Suc.IH [OF this] show ?case by (subst show_nat.simps) simp
qed

lemma decode_open_error_short:
  assumes "decode_session_open_payload bs = Inl e" and "length bs < 10 ^ 20"
  shows "length (show_session_payload_error e) \<le> 100"
  using decode_open_errors [OF assms(1)]
proof
  assume "\<exists>n. e = TrailingBytes n \<and> n \<le> length bs"
  then obtain n where n: "e = TrailingBytes n" "n < 10 ^ Suc 19" using assms(2) by force
  show ?thesis using length_show_nat [OF n(2)] by (simp add: n(1))
qed auto

end
