(* ===== verification/RustNet.thy ===== *)
theory RustNet
  imports RustStr
begin

text \<open>
  The parts of Rust's \<open>std::net\<close> that the sources use: \<open>IpAddr\<close>, and the parsers behind
  \<open>str::parse::<IpAddr>\<close> and \<open>str::parse::<SocketAddr>\<close>.  A parser takes the input that is left and
  returns a value with the rest, or \<open>None\<close> without consuming anything, as the standard library's
  \<open>read_atomically\<close> does.  IPv4 addresses are 32 bit words, IPv6 addresses 128 bit words.
\<close>

type_synonym u128 = "128 word"

datatype IpAddr = V4 u32 | V6 u128

section \<open>Numbers\<close>

definition digit_radix :: "nat \<Rightarrow> char \<Rightarrow> nat option" where
  "digit_radix radix c =
     (let n = of_char c;
          d = (if 48 \<le> n \<and> n \<le> 57 then Some (n - 48)
               else if 97 \<le> n \<and> n \<le> 122 then Some (n - 87)
               else if 65 \<le> n \<and> n \<le> 90 then Some (n - 55)
               else None)
      in case d of Some v \<Rightarrow> if v < radix then Some v else None | None \<Rightarrow> None)"

text \<open>
  The digits of a number with at most \<open>max_digits\<close> digits: the value and the number of digits read so
  far, and the rest.  One digit too many is a failure.
\<close>

fun read_digits :: "nat \<Rightarrow> nat \<Rightarrow> nat \<Rightarrow> nat \<Rightarrow> string \<Rightarrow> (nat \<times> nat \<times> string) option" where
  "read_digits radix max_digits acc count [] = Some (acc, count, [])"
| "read_digits radix max_digits acc count (c # cs) =
     (case digit_radix radix c of
        None \<Rightarrow> Some (acc, count, c # cs)
      | Some d \<Rightarrow>
          if Suc count > max_digits then None
          else read_digits radix max_digits (acc * radix + d) (Suc count) cs)"

definition read_number :: "nat \<Rightarrow> nat \<Rightarrow> bool \<Rightarrow> nat \<Rightarrow> string \<Rightarrow> (nat \<times> string) option" where
  "read_number radix max_digits allow_zero_prefix bound s =
     (case read_digits radix max_digits 0 0 s of
        None \<Rightarrow> None
      | Some (v, count, rest) \<Rightarrow>
          if count = 0 then None
          else if \<not> allow_zero_prefix \<and> (case s of c # _ \<Rightarrow> c = CHR ''0'' | [] \<Rightarrow> False) \<and> count > 1
          then None
          else if v \<le> bound then Some (v, rest) else None)"

text \<open>A number without a limit on its digits: arithmetic overflow of the target type is the failure.\<close>

fun read_digits_checked :: "nat \<Rightarrow> nat \<Rightarrow> nat \<Rightarrow> string \<Rightarrow> (nat \<times> nat \<times> string) option" where
  "read_digits_checked bound acc count [] = Some (acc, count, [])"
| "read_digits_checked bound acc count (c # cs) =
     (case digit_radix 10 c of
        None \<Rightarrow> Some (acc, count, c # cs)
      | Some d \<Rightarrow>
          if acc * 10 + d > bound then None
          else read_digits_checked bound (acc * 10 + d) (Suc count) cs)"

definition read_number_checked :: "nat \<Rightarrow> string \<Rightarrow> (nat \<times> string) option" where
  "read_number_checked bound s =
     (case read_digits_checked bound 0 0 s of
        None \<Rightarrow> None
      | Some (v, count, rest) \<Rightarrow> if count = 0 then None else Some (v, rest))"

fun read_given_char :: "char \<Rightarrow> string \<Rightarrow> string option" where
  "read_given_char d [] = None"
| "read_given_char d (c # cs) = (if c = d then Some cs else None)"

section \<open>IPv4\<close>

definition read_octet :: "string \<Rightarrow> (nat \<times> string) option" where
  "read_octet s = read_number 10 3 False 255 s"

definition read_dot_octet :: "string \<Rightarrow> (nat \<times> string) option" where
  "read_dot_octet s = Option.bind (read_given_char CHR ''.'' s) read_octet"

definition ipv4_of_octets :: "nat \<Rightarrow> nat \<Rightarrow> nat \<Rightarrow> nat \<Rightarrow> u32" where
  "ipv4_of_octets a b c d = of_nat (((a * 256 + b) * 256 + c) * 256 + d)"

definition read_ipv4_addr :: "string \<Rightarrow> (u32 \<times> string) option" where
  "read_ipv4_addr s =
     Option.bind (read_octet s) (\<lambda>(a, s1).
     Option.bind (read_dot_octet s1) (\<lambda>(b, s2).
     Option.bind (read_dot_octet s2) (\<lambda>(c, s3).
     Option.bind (read_dot_octet s3) (\<lambda>(d, s4).
     Some (ipv4_of_octets a b c d, s4)))))"

section \<open>IPv6\<close>

definition read_separated :: "nat \<Rightarrow> (string \<Rightarrow> ('a \<times> string) option) \<Rightarrow> string \<Rightarrow> ('a \<times> string) option" where
  "read_separated index inner s =
     (if index > 0 then Option.bind (read_given_char CHR '':'' s) inner else inner s)"

text \<open>
  \<open>read_groups i left s\<close>: the groups from index \<open>i\<close> on when \<open>left\<close> more fit, whether they end in an
  embedded IPv4 address, and the rest.
\<close>

fun read_groups :: "nat \<Rightarrow> nat \<Rightarrow> string \<Rightarrow> nat list \<times> bool \<times> string" where
  "read_groups i 0 s = ([], False, s)"
| "read_groups i (Suc left) s =
     (case (if left > 0 then read_separated i read_ipv4_addr s else None) of
        Some (a, rest) \<Rightarrow> ([unat a div 65536, unat a mod 65536], True, rest)
      | None \<Rightarrow>
          (case read_separated i (read_number 16 4 True 65535) s of
             None \<Rightarrow> ([], False, s)
           | Some (g, rest) \<Rightarrow>
               (case read_groups (Suc i) left rest of (gs, v4, rest') \<Rightarrow> (g # gs, v4, rest'))))"

definition ipv6_of_groups :: "nat list \<Rightarrow> u128" where
  "ipv6_of_groups gs = of_nat (foldl (\<lambda>a g. a * 65536 + g) 0 gs)"

definition read_ipv6_addr :: "string \<Rightarrow> (u128 \<times> string) option" where
  "read_ipv6_addr s =
     (case read_groups 0 8 s of
        (head, head_ipv4, s1) \<Rightarrow>
          if length head = 8 then Some (ipv6_of_groups head, s1)
          else if head_ipv4 then None
          else
            Option.bind (read_given_char CHR '':'' s1) (\<lambda>s2.
            Option.bind (read_given_char CHR '':'' s2) (\<lambda>s3.
              case read_groups 0 (8 - (length head + 1)) s3 of
                (tail, _, s4) \<Rightarrow>
                  Some (ipv6_of_groups
                          (head @ replicate (8 - length head - length tail) 0 @ tail), s4))))"

section \<open>Addresses\<close>

definition read_ip_addr :: "string \<Rightarrow> (IpAddr \<times> string) option" where
  "read_ip_addr s =
     (case read_ipv4_addr s of
        Some (a, rest) \<Rightarrow> Some (V4 a, rest)
      | None \<Rightarrow> map_option (\<lambda>(a, rest). (V6 a, rest)) (read_ipv6_addr s))"

definition parse_all :: "(string \<Rightarrow> ('a \<times> string) option) \<Rightarrow> string \<Rightarrow> 'a option" where
  "parse_all p s = (case p s of Some (v, []) \<Rightarrow> Some v | _ \<Rightarrow> None)"

definition parse_ip_addr :: "string \<Rightarrow> IpAddr option" where
  "parse_ip_addr s = parse_all read_ip_addr s"

definition read_port :: "string \<Rightarrow> (nat \<times> string) option" where
  "read_port s = Option.bind (read_given_char CHR '':'' s) (read_number_checked 65535)"

definition read_scope_id :: "string \<Rightarrow> (nat \<times> string) option" where
  "read_scope_id s = Option.bind (read_given_char CHR ''%'' s) (read_number_checked (2 ^ 32 - 1))"

definition read_socket_addr_v4 :: "string \<Rightarrow> ((IpAddr \<times> nat) \<times> string) option" where
  "read_socket_addr_v4 s =
     Option.bind (read_ipv4_addr s) (\<lambda>(a, s1).
     Option.bind (read_port s1) (\<lambda>(port, s2). Some ((V4 a, port), s2)))"

definition read_socket_addr_v6 :: "string \<Rightarrow> ((IpAddr \<times> nat) \<times> string) option" where
  "read_socket_addr_v6 s =
     Option.bind (read_given_char CHR ''['' s) (\<lambda>s1.
     Option.bind (read_ipv6_addr s1) (\<lambda>(a, s2).
     let s3 = (case read_scope_id s2 of Some (_, rest) \<Rightarrow> rest | None \<Rightarrow> s2) in
     Option.bind (read_given_char CHR '']'' s3) (\<lambda>s4.
     Option.bind (read_port s4) (\<lambda>(port, s5). Some ((V6 a, port), s5)))))"

definition parse_socket_addr :: "string \<Rightarrow> (IpAddr \<times> nat) option" where
  "parse_socket_addr s =
     parse_all (\<lambda>t. case read_socket_addr_v4 t of Some r \<Rightarrow> Some r | None \<Rightarrow> read_socket_addr_v6 t) s"

text \<open>\<open>Display\<close> of an IPv4 socket address.\<close>

definition show_ipv4 :: "u32 \<Rightarrow> string" where
  "show_ipv4 a =
     (let n = unat a in
      show_nat (n div 16777216) @ ''.'' @ show_nat (n div 65536 mod 256) @ ''.''
      @ show_nat (n div 256 mod 256) @ ''.'' @ show_nat (n mod 256))"

definition show_socket_addr_v4 :: "u32 \<Rightarrow> nat \<Rightarrow> string" where
  "show_socket_addr_v4 a port = show_ipv4 a @ '':'' @ show_nat port"

section \<open>Printing and parsing agree\<close>

text \<open>Input that does not go on with a digit.\<close>

definition no_digit :: "string \<Rightarrow> bool" where
  "no_digit s = (case s of [] \<Rightarrow> True | c # _ \<Rightarrow> digit_radix 10 c = None)"

lemma digit_radix_digit [simp]: "d < 10 \<Longrightarrow> digit_radix 10 (digit_char d) = Some d"
  by (simp add: digit_radix_def digit_char_def)

lemma digit_char_zero: "d < 10 \<Longrightarrow> digit_char d = CHR ''0'' \<longleftrightarrow> d = 0"
  by (simp add: digit_char_def of_char_eq_iff [where 'a = nat, symmetric] del: of_char_eq_iff)

lemma show_nat_hd:
  "0 < n \<Longrightarrow> hd (show_nat n) \<noteq> CHR ''0''" "show_nat n \<noteq> []"
  by (induction n rule: show_nat.induct) (auto simp: show_nat.simps digit_char_zero)

lemma length_show_nat_1: "length (show_nat n) = 1 \<longleftrightarrow> n < 10"
  using show_nat_hd(2) [of "n div 10"] by (subst show_nat.simps) (auto simp: neq_Nil_conv)

lemma read_digits_append:
  "count + length (show_nat n) \<le> m \<Longrightarrow>
     read_digits 10 m acc count (show_nat n @ rest) =
     read_digits 10 m (acc * 10 ^ length (show_nat n) + n) (count + length (show_nat n)) rest"
proof (induction n arbitrary: rest rule: show_nat.induct)
  case (1 n)
  show ?case
  proof (cases "n < 10")
    case True
    then show ?thesis using 1(2) by (simp add: show_nat.simps)
  next
    case False
    let ?k = "length (show_nat (n div 10))"
    have n: "show_nat n = show_nat (n div 10) @ [digit_char (n mod 10)]"
      using False by (subst show_nat.simps) simp
    have "read_digits 10 m acc count (show_nat n @ rest) =
        read_digits 10 m (acc * 10 ^ ?k + n div 10) (count + ?k) (digit_char (n mod 10) # rest)"
      using 1(1) [OF False, of "digit_char (n mod 10) # rest"] 1(2) by (simp add: n)
    also have "\<dots> = read_digits 10 m ((acc * 10 ^ ?k + n div 10) * 10 + n mod 10) (Suc (count + ?k)) rest"
      using 1(2) by (simp add: n)
    also have "(acc * 10 ^ ?k + n div 10) * 10 + n mod 10 = acc * 10 ^ Suc ?k + n"
      by (simp add: algebra_simps)
    finally show ?thesis by (simp add: n)
  qed
qed

lemma read_digits_stop: "no_digit rest \<Longrightarrow> read_digits 10 m acc count rest = Some (acc, count, rest)"
  by (cases rest) (auto simp: no_digit_def)

lemma length_show_nat_255: "n \<le> 255 \<Longrightarrow> length (show_nat n) \<le> 3"
  by (subst show_nat.simps, subst show_nat.simps, subst show_nat.simps) auto

lemma read_octet_show:
  assumes "n \<le> 255" and "no_digit rest"
  shows "read_octet (show_nat n @ rest) = Some (n, rest)"
proof -
  have "read_digits 10 3 0 0 (show_nat n @ rest) = Some (n, length (show_nat n), rest)"
    using read_digits_append [of 0 n 3 0 rest] length_show_nat_255 [OF assms(1)]
    by (simp add: read_digits_stop [OF assms(2)])
  moreover have "show_nat n = c # cs \<Longrightarrow> c = CHR ''0'' \<Longrightarrow> length (show_nat n) = 1" for c cs
    using show_nat_hd(1) [of n] length_show_nat_1 [of n] by (cases "n = 0") auto
  ultimately show ?thesis
    using assms(1) show_nat_hd(2) [of n]
    by (cases "show_nat n") (auto simp: read_octet_def read_number_def)
qed

lemma read_digits_checked_append:
  "acc * 10 ^ length (show_nat n) + n \<le> bound \<Longrightarrow>
     read_digits_checked bound acc count (show_nat n @ rest) =
     read_digits_checked bound (acc * 10 ^ length (show_nat n) + n) (count + length (show_nat n)) rest"
proof (induction n arbitrary: rest rule: show_nat.induct)
  case (1 n)
  show ?case
  proof (cases "n < 10")
    case True
    then show ?thesis using 1(2) by (simp add: show_nat.simps)
  next
    case False
    let ?k = "length (show_nat (n div 10))"
    have n: "show_nat n = show_nat (n div 10) @ [digit_char (n mod 10)]"
      using False by (subst show_nat.simps) simp
    have v: "(acc * 10 ^ ?k + n div 10) * 10 + n mod 10 = acc * 10 ^ Suc ?k + n"
      by (simp add: algebra_simps)
    then have le: "(acc * 10 ^ ?k + n div 10) * 10 + n mod 10 \<le> bound"
      using 1(2) by (simp add: n)
    have "x \<le> x * 10 + n mod 10" for x :: nat by simp
    from order.trans [OF this le] have "acc * 10 ^ ?k + n div 10 \<le> bound" .
    then have "read_digits_checked bound acc count (show_nat n @ rest) =
        read_digits_checked bound (acc * 10 ^ ?k + n div 10) (count + ?k) (digit_char (n mod 10) # rest)"
      using 1(1) [OF False] by (simp add: n)
    also have "\<dots> = read_digits_checked bound (acc * 10 ^ Suc ?k + n) (Suc (count + ?k)) rest"
      using le unfolding v [symmetric] by simp
    finally show ?thesis by (simp add: n)
  qed
qed

lemma read_port_show: "port \<le> 65535 \<Longrightarrow> read_port ('':'' @ show_nat port) = Some (port, [])"
  using read_digits_checked_append [of 0 port 65535 0 "[]"] show_nat_hd(2) [of port]
  by (simp add: read_port_def read_number_checked_def)

lemma no_digit_simps [simp]:
  "no_digit (CHR ''.'' # s)" "no_digit (CHR '':'' # s)" "no_digit []"
  by (simp_all add: no_digit_def digit_radix_def)

lemma ipv4_octets:
  "ipv4_of_octets (unat a div 16777216) (unat a div 65536 mod 256) (unat a div 256 mod 256)
     (unat a mod 256) = a"
proof -
  have "((n div 16777216 * 256 + n div 65536 mod 256) * 256 + n div 256 mod 256) * 256 + n mod 256 = n"
    for n :: nat
  proof -
    have "n div 16777216 = n div 256 div 256 div 256" "n div 65536 = n div 256 div 256"
      by (simp_all add: div_mult2_eq [symmetric])
    then show ?thesis by (simp only: div_mult_mod_eq)
  qed
  then show ?thesis by (simp add: ipv4_of_octets_def)
qed

lemma read_ipv4_show:
  assumes "no_digit rest"
  shows "read_ipv4_addr (show_ipv4 a @ rest) = Some (a, rest)"
proof -
  have "unat a div 16777216 \<le> 255"
    using unsigned_less [of a, where ?'a = nat] by simp
  moreover have "n mod 256 \<le> 255" for n :: nat
    by (simp add: less_Suc_eq_le [symmetric])
  ultimately show ?thesis
    using assms
    by (simp add: show_ipv4_def Let_def read_ipv4_addr_def read_dot_octet_def read_octet_show ipv4_octets)
qed

lemma parse_socket_addr_show_v4:
  "port \<le> 65535 \<Longrightarrow> parse_socket_addr (show_socket_addr_v4 a port) = Some (V4 a, port)"
  using read_ipv4_show [of "CHR '':'' # show_nat port" a] read_port_show [of port]
  by (simp add: parse_socket_addr_def parse_all_def read_socket_addr_v4_def show_socket_addr_v4_def)

end
