(* ===== verification/TunnelAccess.thy ===== *)
theory TunnelAccess
  imports RustNet
begin

unbundle bit_operations_syntax

text \<open>
  Rule preflight (\<open>src/src/tunnel_preflight.rs\<close>) and the source allowlist as the ingress listeners
  enforce it (the end of \<open>src/src/tunnel_runtime.rs\<close>).  Binding a TCP listener is the environment: an
  argument that gives the error text for an endpoint, or \<open>None\<close> when the bind succeeds.  Whether the
  build targets Linux is an argument too.
\<close>

section \<open>Preflight\<close>

record TunnelTcpRulePreflightInput =
  input_rule_id :: u64
  input_listen_address :: string
  input_listen_port :: u16
  input_target_host :: string
  input_target_port :: u16
  input_source_allowlist :: string

datatype TunnelPreflightIssueCode = UnsupportedOs | ListenBindFailed | InvalidTarget | InvalidAllowlist

record TunnelPreflightIssue =
  issue_rule_id :: u64
  issue_code :: TunnelPreflightIssueCode
  issue_message :: string

datatype TunnelPreflightSide = SideIngress | SideEgress

definition tcp_endpoint :: "string \<Rightarrow> u16 \<Rightarrow> string" where
  "tcp_endpoint host port =
     (let h = trim host in
      if CHR '':'' \<in> set h \<and> \<not> starts_with h ''[''
      then ''['' @ h @ '']:'' @ show_nat (unat port)
      else h @ '':'' @ show_nat (unat port))"

definition check_listener_bindable ::
  "(string \<Rightarrow> string option) \<Rightarrow> string \<Rightarrow> u16 \<Rightarrow> TunnelPreflightIssue option" where
  "check_listener_bindable bind listen_address listen_port =
     (let endpoint = tcp_endpoint listen_address listen_port in
      case bind endpoint of
        None \<Rightarrow> None
      | Some error \<Rightarrow>
          Some \<lparr>issue_rule_id = 0, issue_code = ListenBindFailed,
                issue_message = ''cannot bind listener '' @ endpoint @ '': '' @ error\<rparr>)"

definition allowlist_entry_is_valid :: "string \<Rightarrow> bool" where
  "allowlist_entry_is_valid entry =
     (if entry = ''*'' then True
      else case split_once CHR ''/'' entry of
        Some (network, prefix) \<Rightarrow>
          (case parse_ip_addr (trim network) of
             None \<Rightarrow> False
           | Some ip \<Rightarrow>
               (case parse_u8 (trim prefix) of
                  None \<Rightarrow> False
                | Some prefix_len \<Rightarrow>
                    (case ip of V4 _ \<Rightarrow> prefix_len \<le> 32 | V6 _ \<Rightarrow> prefix_len \<le> 128)))
      | None \<Rightarrow> parse_ip_addr entry \<noteq> None)"

definition allowlist_entries :: "string \<Rightarrow> string list" where
  "allowlist_entries allowlist =
     filter (\<lambda>entry. trim entry \<noteq> []) (split_char_or_ws CHR '','' [] allowlist)"

definition allowlist_is_valid :: "string \<Rightarrow> bool" where
  "allowlist_is_valid allowlist =
     (let al = trim allowlist in
      if al = [] then True else list_all allowlist_entry_is_valid (allowlist_entries al))"

definition unsupported_os_issue :: "u64 \<Rightarrow> TunnelPreflightIssue" where
  "unsupported_os_issue rule_id =
     \<lparr>issue_rule_id = rule_id, issue_code = UnsupportedOs,
      issue_message = ''tunnel forwarding is only supported on Linux''\<rparr>"

definition invalid_target_issue :: "u64 \<Rightarrow> TunnelPreflightIssue" where
  "invalid_target_issue rule_id =
     \<lparr>issue_rule_id = rule_id, issue_code = InvalidTarget,
      issue_message = ''target host and port are required''\<rparr>"

definition invalid_allowlist_issue :: "u64 \<Rightarrow> TunnelPreflightIssue" where
  "invalid_allowlist_issue rule_id =
     \<lparr>issue_rule_id = rule_id, issue_code = InvalidAllowlist,
      issue_message = ''source allowlist contains an invalid IP or CIDR entry''\<rparr>"

definition validate_tunnel_tcp_rule ::
  "(string \<Rightarrow> string option) \<Rightarrow> bool \<Rightarrow> TunnelTcpRulePreflightInput \<Rightarrow> TunnelPreflightIssue list" where
  "validate_tunnel_tcp_rule bind linux input =
     (if \<not> linux then [unsupported_os_issue (input_rule_id input)] else [])
     @ (if trim (input_target_host input) = [] \<or> input_target_port input = 0
        then [invalid_target_issue (input_rule_id input)] else [])
     @ (if \<not> allowlist_is_valid (input_source_allowlist input)
        then [invalid_allowlist_issue (input_rule_id input)] else [])
     @ (case check_listener_bindable bind (input_listen_address input) (input_listen_port input) of
          Some issue \<Rightarrow> [issue\<lparr>issue_rule_id := input_rule_id input\<rparr>]
        | None \<Rightarrow> [])"

definition validate_tunnel_tcp_rule_for_side_with_os ::
  "(string \<Rightarrow> string option) \<Rightarrow> TunnelTcpRulePreflightInput \<Rightarrow> TunnelPreflightSide \<Rightarrow> bool
   \<Rightarrow> TunnelPreflightIssue list" where
  "validate_tunnel_tcp_rule_for_side_with_os bind input side os_supported =
     (if \<not> os_supported then [unsupported_os_issue (input_rule_id input)] else [])
     @ (case side of
          SideIngress \<Rightarrow>
            (if \<not> allowlist_is_valid (input_source_allowlist input)
             then [invalid_allowlist_issue (input_rule_id input)] else [])
            @ (case check_listener_bindable bind (input_listen_address input)
                      (input_listen_port input) of
                 Some issue \<Rightarrow> [issue\<lparr>issue_rule_id := input_rule_id input\<rparr>]
               | None \<Rightarrow> [])
        | SideEgress \<Rightarrow>
            (if trim (input_target_host input) = [] \<or> input_target_port input = 0
             then [invalid_target_issue (input_rule_id input)] else []))"

definition validate_tunnel_tcp_rule_for_side ::
  "(string \<Rightarrow> string option) \<Rightarrow> bool \<Rightarrow> TunnelTcpRulePreflightInput \<Rightarrow> TunnelPreflightSide
   \<Rightarrow> TunnelPreflightIssue list" where
  "validate_tunnel_tcp_rule_for_side bind linux input side =
     validate_tunnel_tcp_rule_for_side_with_os bind input side linux"

fun tunnel_preflight_status :: "TunnelPreflightIssueCode \<Rightarrow> string" where
  "tunnel_preflight_status UnsupportedOs = ''unsupported_os''"
| "tunnel_preflight_status ListenBindFailed = ''listen_bind_failed''"
| "tunnel_preflight_status InvalidTarget = ''invalid_target''"
| "tunnel_preflight_status InvalidAllowlist = ''invalid_allowlist''"

section \<open>The allowlist at run time\<close>

definition prefix_mask_u32 :: "nat \<Rightarrow> u32" where
  "prefix_mask_u32 prefix_len = (if prefix_len = 0 then 0 else push_bit (32 - prefix_len) (- 1))"

definition prefix_mask_u128 :: "nat \<Rightarrow> u128" where
  "prefix_mask_u128 prefix_len = (if prefix_len = 0 then 0 else push_bit (128 - prefix_len) (- 1))"

fun ip_in_cidr :: "IpAddr \<Rightarrow> IpAddr \<Rightarrow> nat \<Rightarrow> bool" where
  "ip_in_cidr (V4 source) (V4 network) prefix_len =
     (if prefix_len \<le> 32
      then (source AND prefix_mask_u32 prefix_len) = (network AND prefix_mask_u32 prefix_len)
      else False)"
| "ip_in_cidr (V6 source) (V6 network) prefix_len =
     (if prefix_len \<le> 128
      then (source AND prefix_mask_u128 prefix_len) = (network AND prefix_mask_u128 prefix_len)
      else False)"
| "ip_in_cidr _ _ prefix_len = False"

definition source_ip_matches_entry :: "IpAddr \<Rightarrow> string \<Rightarrow> bool" where
  "source_ip_matches_entry source_ip entry =
     (if entry = ''*'' then True
      else case split_once CHR ''/'' entry of
        Some (network, prefix) \<Rightarrow>
          (case parse_ip_addr (trim network) of
             None \<Rightarrow> False
           | Some network_ip \<Rightarrow>
               (case parse_u8 (trim prefix) of
                  None \<Rightarrow> False
                | Some prefix_len \<Rightarrow> ip_in_cidr source_ip network_ip prefix_len))
      | None \<Rightarrow>
          (case parse_ip_addr entry of Some allowed_ip \<Rightarrow> allowed_ip = source_ip | None \<Rightarrow> False))"

definition parse_source_ip :: "string \<Rightarrow> IpAddr option" where
  "parse_source_ip source_addr =
     (let s = trim source_addr in
      case parse_socket_addr s of
        Some (ip, _) \<Rightarrow> Some ip
      | None \<Rightarrow> parse_ip_addr s)"

definition source_addr_allowed :: "string \<Rightarrow> string \<Rightarrow> bool" where
  "source_addr_allowed source_addr allowlist =
     (let al = trim allowlist in
      if al = [] then True
      else case parse_source_ip source_addr of
        None \<Rightarrow> False
      | Some source_ip \<Rightarrow>
          list_ex (\<lambda>entry. source_ip_matches_entry source_ip (trim entry)) (allowlist_entries al))"

section \<open>Properties\<close>

lemma masked_eq_iff:
  "a AND push_bit k (- 1) = b AND push_bit k (- 1) \<longleftrightarrow> drop_bit k a = drop_bit k b"
  for a b :: "'a::len word"
proof -
  have m: "x AND push_bit k (- 1) = push_bit k (drop_bit k x)" for x :: "'a word"
    by (rule bit_word_eqI) (auto simp: bit_simps)
  have "drop_bit k (push_bit k (drop_bit k x)) = drop_bit k x" for x :: "'a word"
    by (rule bit_word_eqI) (auto simp: bit_simps dest: bit_imp_le_length)
  then show ?thesis unfolding m by metis
qed

text \<open>
  A CIDR test compares exactly the leading \<open>prefix_len\<close> bits, for IPv4 and IPv6, at every
  prefix length including 0 and the full width, and never mixes the two families.
\<close>
theorem cidr_compares_prefix:
  "ip_in_cidr source network prefix_len \<longleftrightarrow>
     (case (source, network) of
        (V4 a, V4 b) \<Rightarrow> prefix_len \<le> 32 \<and> drop_bit (32 - prefix_len) a = drop_bit (32 - prefix_len) b
      | (V6 a, V6 b) \<Rightarrow> prefix_len \<le> 128 \<and> drop_bit (128 - prefix_len) a = drop_bit (128 - prefix_len) b
      | _ \<Rightarrow> False)"
  by (cases source; cases network)
    (auto simp: prefix_mask_u32_def prefix_mask_u128_def masked_eq_iff [simplified])

text \<open>
  Preflight and run time agree on allowlist entries: an entry passes preflight if and only
  if there is an address it admits.  So a refused entry never lets anyone in, and an accepted entry is
  never dead.
\<close>
theorem allowlist_entry_agreement:
  "allowlist_entry_is_valid entry \<longleftrightarrow> (\<exists>ip. source_ip_matches_entry ip entry)"
proof -
  have cidr: "(\<exists>ip. ip_in_cidr ip network n) \<longleftrightarrow>
      (case network of V4 _ \<Rightarrow> n \<le> 32 | V6 _ \<Rightarrow> n \<le> 128)" for network n
  proof -
    have "ip_in_cidr ip network n \<Longrightarrow> (case network of V4 _ \<Rightarrow> n \<le> 32 | V6 _ \<Rightarrow> n \<le> 128)" for ip
      by (cases ip; cases network) (auto split: if_splits)
    moreover have "(case network of V4 _ \<Rightarrow> n \<le> 32 | V6 _ \<Rightarrow> n \<le> 128) \<Longrightarrow> ip_in_cidr network network n"
      by (cases network) auto
    ultimately show ?thesis by blast
  qed
  show ?thesis
    by (auto simp: allowlist_entry_is_valid_def source_ip_matches_entry_def cidr
        split: option.splits prod.splits)
qed

lemma visible_show_nat: "list_all visible_ascii (show_nat n)"
proof (induction n rule: show_nat.induct)
  case (1 n)
  have "d < 10 \<Longrightarrow> visible_ascii (digit_char d)" for d
    by (simp add: visible_ascii_def digit_char_def)
  with 1 show ?case by (subst show_nat.simps) simp
qed

lemma visible_socket_addr: "list_all visible_ascii (show_socket_addr_v4 a port)"
  by (simp add: show_socket_addr_v4_def show_ipv4_def Let_def visible_show_nat)
    (simp add: visible_ascii_def)

lemma parse_source_ip_v4: "parse_source_ip (show_socket_addr_v4 a (unat (port :: u16))) = Some (V4 a)"
proof -
  have "unat port \<le> 65535"
    using unsigned_less [of port, where ?'a = nat] by simp
  then show ?thesis
    by (simp add: parse_source_ip_def trim_visible visible_socket_addr parse_socket_addr_show_v4)
qed

text \<open>
  For a connection from any IPv4 address and port, in the form in which the accepted
  peer address is printed, the listener's decision is the intended one: admit if the allowlist is blank,
  otherwise admit exactly when some entry covers the address.
\<close>
theorem allowlist_decision_v4:
  "source_addr_allowed (show_socket_addr_v4 a (unat (port :: u16))) allowlist \<longleftrightarrow>
     trim allowlist = []
     \<or> list_ex (\<lambda>entry. source_ip_matches_entry (V4 a) (trim entry)) (allowlist_entries (trim allowlist))"
  by (simp add: source_addr_allowed_def Let_def parse_source_ip_v4)

text \<open>
  Preflight of the two sides covers the preflight of the whole rule: a rule has no issue as
  a whole if and only if it has none as an ingress and none as an egress rule; and every issue names the
  rule that was checked.
\<close>
theorem preflight_sides_cover:
  "(validate_tunnel_tcp_rule bind linux input = [] \<longleftrightarrow>
      validate_tunnel_tcp_rule_for_side bind linux input SideIngress = []
      \<and> validate_tunnel_tcp_rule_for_side bind linux input SideEgress = [])
   \<and> list_all (\<lambda>issue. issue_rule_id issue = input_rule_id input)
       (validate_tunnel_tcp_rule bind linux input
        @ validate_tunnel_tcp_rule_for_side bind linux input side)"
  by (cases side)
    (auto simp: validate_tunnel_tcp_rule_def validate_tunnel_tcp_rule_for_side_def
      validate_tunnel_tcp_rule_for_side_with_os_def unsupported_os_issue_def invalid_target_issue_def
      invalid_allowlist_issue_def split: option.splits)

end
