(* ===== verification/TunnelCore.thy ===== *)
theory TunnelCore
  imports TunnelQueue TunnelSession TunnelAccess
begin

text \<open>
  The second half of \<open>src/src/tunnel_async_runtime.rs\<close>: \<open>AsyncTunnelCore\<close>, which owns the tunnel
  sessions, their reader and writer tasks and the ingress listeners.  The session map holds references
  to session objects that the tasks share, so the objects live in a store (a list) and the map holds
  their index.  The statistics of the core and of its outbound queue are one shared object, kept in the
  queue.  The asynchronous tasks are functions that do one step of the task; \<open>core_step\<close> interleaves
  them with the calls of the runtime.
\<close>

section \<open>State\<close>

record TunnelIngressListenerSpec =
  ingress_rule_id :: u64
  ingress_listen_address :: string
  ingress_listen_port :: u16
  ingress_source_allowlist :: string

text \<open>
  \<open>channel\<close> is the content of the bounded channel from \<open>to_tcp\<close> to the writer task, \<open>writing\<close> the
  payload the writer is writing to its socket, \<open>tasks_reader\<close> whether the reader's handle is stored.
\<close>

record AsyncTunnelSession =
  sess_id :: u64
  sess_rule_id :: u64
  sess_leg :: FrameLeg
  channel :: "bytes list"
  writing :: "bytes option"
  pending_bytes :: nat
  tasks_reader :: bool
  reader_running :: bool
  writer_running :: bool

record AsyncTunnelCore =
  limits :: TunnelRuntimeLimits
  outbound :: AsyncTunnelFrameQueue
  sessions :: "(u64 \<rightharpoonup> nat) mutex"
  session_objs :: "AsyncTunnelSession list"
  core_listeners :: "(u64 \<rightharpoonup> TunnelIngressListenerSpec) mutex"
  next_session_id :: u64

definition SESSION_CHANNEL_FRAMES :: nat where
  "SESSION_CHANNEL_FRAMES = 64"

definition core_new_internal ::
  "TunnelRuntimeLimits \<Rightarrow> TunnelFrameReadyNotifier option \<Rightarrow> AsyncTunnelCore" where
  "core_new_internal lim notifier =
     \<lparr>limits = lim,
      outbound = frame_queue_new_internal (max_outbound_frames lim) notifier runtime_stats_default,
      sessions = mutex_new Map.empty, session_objs = [], core_listeners = mutex_new Map.empty,
      next_session_id = 1\<rparr>"

definition core_new :: "TunnelRuntimeLimits \<Rightarrow> AsyncTunnelCore" where
  "core_new lim = core_new_internal lim None"

abbreviation core_stats :: "AsyncTunnelCore \<Rightarrow> TunnelRuntimeStats" where
  "core_stats c \<equiv> queue_stats (outbound c)"

definition upd_stats ::
  "(TunnelRuntimeStats \<Rightarrow> TunnelRuntimeStats) \<Rightarrow> AsyncTunnelCore \<Rightarrow> AsyncTunnelCore" where
  "upd_stats g c = c\<lparr>outbound := (outbound c)\<lparr>queue_stats := g (core_stats c)\<rparr>\<rparr>"

definition upd_session ::
  "nat \<Rightarrow> (AsyncTunnelSession \<Rightarrow> AsyncTunnelSession) \<Rightarrow> AsyncTunnelCore \<Rightarrow> AsyncTunnelCore" where
  "upd_session i g c = c\<lparr>session_objs := (session_objs c)[i := g (session_objs c ! i)]\<rparr>"

definition core_push ::
  "Instant \<Rightarrow> KtpFrame \<Rightarrow> AsyncTunnelCore \<Rightarrow> (TunnelRuntimeError + unit) \<times> AsyncTunnelCore" where
  "core_push now f c =
     (case try_push now f (outbound c) of (r, q) \<Rightarrow> (r, c\<lparr>outbound := q\<rparr>))"

definition core_stats_snapshot :: "AsyncTunnelCore \<Rightarrow> TunnelRuntimeStatsSnapshot" where
  "core_stats_snapshot c = stats_snapshot (core_stats c)"

section \<open>Opening sessions\<close>

definition ensure_agent_session_capacity :: "AsyncTunnelCore \<Rightarrow> TunnelRuntimeError + unit" where
  "ensure_agent_session_capacity c =
     (if snap_active_sessions (core_stats_snapshot c) \<ge> max_sessions_per_agent (limits c)
      then Inl (session_limit ''agent tunnel session limit reached'')
      else Inr ())"

text \<open>\<open>AsyncTunnelSession::new\<close> for a session whose tasks are not yet running.\<close>

definition session_new :: "u64 \<Rightarrow> u64 \<Rightarrow> FrameLeg \<Rightarrow> AsyncTunnelSession" where
  "session_new sid rule_id l =
     \<lparr>sess_id = sid, sess_rule_id = rule_id, sess_leg = l, channel = [], writing = None,
      pending_bytes = 0, tasks_reader = False, reader_running = False, writer_running = False\<rparr>"

text \<open>Storing a new session under its id and counting it.\<close>

definition register_session ::
  "u64 \<Rightarrow> u64 \<Rightarrow> FrameLeg \<Rightarrow> AsyncTunnelCore \<Rightarrow> (TunnelRuntimeError + nat) \<times> AsyncTunnelCore" where
  "register_session sid rule_id l c =
     (let m = sessions c; i = length (session_objs c) in
      if poisoned m then (Inl (runtime_unavailable ''session map is unavailable''), c)
      else
        (Inr i,
         upd_stats (session_opened rule_id)
           (c\<lparr>sessions := m\<lparr>guarded := (guarded m)(sid \<mapsto> i)\<rparr>,
              session_objs := session_objs c @ [session_new sid rule_id l]\<rparr>)))"

text \<open>Spawning the reader and the writer and storing the reader's handle.\<close>

definition spawn_session_tasks :: "nat \<Rightarrow> AsyncTunnelCore \<Rightarrow> AsyncTunnelCore" where
  "spawn_session_tasks i =
     upd_session i (\<lambda>s. s\<lparr>reader_running := True, writer_running := True, tasks_reader := True\<rparr>)"

datatype dial_result = Dialed | DialTimedOut | DialFailed string

definition dial_target :: "string \<Rightarrow> u16 \<Rightarrow> string" where
  "dial_target target_host target_port = trim target_host @ '':'' @ show_nat (unat target_port)"

definition open_egress_finish ::
  "u64 \<Rightarrow> u64 \<Rightarrow> AsyncTunnelCore \<Rightarrow> (TunnelRuntimeError + KtpFrame list) \<times> AsyncTunnelCore" where
  "open_egress_finish sid rule_id c =
     (case register_session sid rule_id LegEgress c of
        (Inl e, c1) \<Rightarrow> (Inl e, c1)
      | (Inr i, c1) \<Rightarrow>
          (Inr [\<lparr>frame_type = SessionAccept, leg = LegEgress, flags = 0, session_id = sid,
                 payload = encode_session_accept_payload rule_id\<rparr>],
           spawn_session_tasks i c1))"

definition open_egress_session ::
  "(string \<Rightarrow> dial_result) \<Rightarrow> u64 \<Rightarrow> u64 \<Rightarrow> string \<Rightarrow> u16 \<Rightarrow> AsyncTunnelCore
   \<Rightarrow> (TunnelRuntimeError + KtpFrame list) \<times> AsyncTunnelCore" where
  "open_egress_session dial sid rule_id target_host target_port c =
     (case ensure_agent_session_capacity c of
        Inl e \<Rightarrow> (Inl e, c)
      | Inr _ \<Rightarrow>
          (case dial (dial_target target_host target_port) of
             DialTimedOut \<Rightarrow> (Inl (target_connect_failed ''target dial timed out''), c)
           | DialFailed error \<Rightarrow> (Inl (target_connect_failed error), c)
           | Dialed \<Rightarrow> open_egress_finish sid rule_id c))"

definition attach_ingress_finish ::
  "Instant \<Rightarrow> u64 \<Rightarrow> u64 \<Rightarrow> string \<Rightarrow> u16 \<Rightarrow> string \<Rightarrow> AsyncTunnelCore
   \<Rightarrow> (TunnelRuntimeError + unit) \<times> AsyncTunnelCore" where
  "attach_ingress_finish now sid rule_id host port source c =
     (case register_session sid rule_id LegIngress c of
        (Inl e, c1) \<Rightarrow> (Inl e, c1)
      | (Inr i, c1) \<Rightarrow>
          (case encode_session_open_payload
                  \<lparr>open_rule_id = rule_id, listen_host = host, listen_port = port,
                   source_addr = source\<rparr> of
             Inl e \<Rightarrow> (Inl (runtime_unavailable (show_session_payload_error e)), c1)
           | Inr p \<Rightarrow>
               (case core_push now
                       \<lparr>frame_type = SessionOpen, leg = LegIngress, flags = 0, session_id = sid,
                        payload = p\<rparr> c1 of
                  (Inl e, c2) \<Rightarrow> (Inl e, c2)
                | (Inr _, c2) \<Rightarrow> (Inr (), spawn_session_tasks i c2))))"

definition attach_ingress_stream ::
  "Instant \<Rightarrow> u64 \<Rightarrow> u64 \<Rightarrow> string \<Rightarrow> u16 \<Rightarrow> string \<Rightarrow> AsyncTunnelCore
   \<Rightarrow> (TunnelRuntimeError + unit) \<times> AsyncTunnelCore" where
  "attach_ingress_stream now sid rule_id host port source c =
     (case ensure_agent_session_capacity c of
        Inl e \<Rightarrow> (Inl e, c)
      | Inr _ \<Rightarrow> attach_ingress_finish now sid rule_id host port source c)"

section \<open>Listeners\<close>

definition listener_endpoint :: "TunnelIngressListenerSpec \<Rightarrow> string" where
  "listener_endpoint spec =
     trim (ingress_listen_address spec) @ '':'' @ show_nat (unat (ingress_listen_port spec))"

definition start_ingress_listener ::
  "(string \<Rightarrow> string option) \<Rightarrow> TunnelIngressListenerSpec \<Rightarrow> AsyncTunnelCore
   \<Rightarrow> (TunnelRuntimeError + unit) \<times> AsyncTunnelCore" where
  "start_ingress_listener bind spec c =
     (case bind (listener_endpoint spec) of
        Some error \<Rightarrow> (Inl (listen_bind_failed error), c)
      | None \<Rightarrow>
          let m = core_listeners c in
          if poisoned m then (Inl (runtime_unavailable ''listener map is unavailable''), c)
          else (Inr (), c\<lparr>core_listeners :=
                  m\<lparr>guarded := (guarded m)(ingress_rule_id spec \<mapsto> spec)\<rparr>\<rparr>))"

definition stop_ingress_listener ::
  "u64 \<Rightarrow> AsyncTunnelCore \<Rightarrow> (TunnelRuntimeError + unit) \<times> AsyncTunnelCore" where
  "stop_ingress_listener rule_id c =
     (let m = core_listeners c in
      if poisoned m then (Inl (runtime_unavailable ''listener map is unavailable''), c)
      else (Inr (), c\<lparr>core_listeners := m\<lparr>guarded := (guarded m)(rule_id := None)\<rparr>\<rparr>))"

text \<open>The body of a listener's accept loop for one connection from \<open>peer\<close>.\<close>

definition accept_connection ::
  "Instant \<Rightarrow> TunnelIngressListenerSpec \<Rightarrow> string \<Rightarrow> AsyncTunnelCore \<Rightarrow> AsyncTunnelCore" where
  "accept_connection now spec peer c =
     (if \<not> source_addr_allowed peer (ingress_source_allowlist spec) then c
      else
        let sid = next_session_id c in
        snd (attach_ingress_stream now sid (ingress_rule_id spec) (ingress_listen_address spec)
               (ingress_listen_port spec) peer (c\<lparr>next_session_id := sid + 1\<rparr>)))"

section \<open>Data\<close>

definition reserve_pending_bytes ::
  "nat \<Rightarrow> nat \<Rightarrow> AsyncTunnelSession \<Rightarrow> (TunnelRuntimeError + unit) \<times> AsyncTunnelSession" where
  "reserve_pending_bytes n limit s =
     (let nxt = pending_bytes s + n in
      if nxt > usize_max
      then (Inl (session_pending_bytes_limit ''session pending byte counter overflowed''), s)
      else if nxt > limit
      then (Inl (session_pending_bytes_limit
                   (''session pending bytes would exceed limit '' @ show_nat limit)), s)
      else (Inr (), s\<lparr>pending_bytes := nxt\<rparr>))"

definition release_pending_bytes :: "nat \<Rightarrow> AsyncTunnelSession \<Rightarrow> AsyncTunnelSession" where
  "release_pending_bytes n s = s\<lparr>pending_bytes := pending_bytes s - n\<rparr>"

text \<open>\<open>try_send\<close> fails when the channel is full and when the writer has gone.\<close>

definition handle_session_data ::
  "u64 \<Rightarrow> bytes \<Rightarrow> AsyncTunnelCore \<Rightarrow> (TunnelRuntimeError + unit) \<times> AsyncTunnelCore" where
  "handle_session_data sid data c =
     (if poisoned (sessions c) then (Inl (runtime_unavailable ''session map is unavailable''), c)
      else case guarded (sessions c) sid of
        None \<Rightarrow> (Inl (runtime_unavailable ''session not found''), c)
      | Some i \<Rightarrow>
          (case reserve_pending_bytes (length data) (max_session_pending_bytes (limits c))
                  (session_objs c ! i) of
             (Inl e, _) \<Rightarrow> (Inl e, c)
           | (Inr _, s) \<Rightarrow>
               if writer_running s \<and> length (channel s) < SESSION_CHANNEL_FRAMES
               then (Inr (), upd_session i (\<lambda>_. s\<lparr>channel := channel s @ [data]\<rparr>) c)
               else (Inl backpressure_limit,
                     upd_session i (\<lambda>_. release_pending_bytes (length data) s) c)))"

text \<open>
  The writer task: receive a payload and count it, write it, release its bytes.  When the write fails
  the task ends and the channel is dropped.
\<close>

definition writer_recv :: "nat \<Rightarrow> AsyncTunnelCore \<Rightarrow> AsyncTunnelCore" where
  "writer_recv i c =
     (let s = session_objs c ! i in
      case channel s of
        [] \<Rightarrow> c
      | p # ps \<Rightarrow>
          if writer_running s \<and> writing s = None
          then upd_stats (stats_bytes_in (sess_rule_id s) (of_nat (length p)))
                 (upd_session i (\<lambda>_. s\<lparr>channel := ps, writing := Some p\<rparr>) c)
          else c)"

definition writer_done :: "nat \<Rightarrow> bool \<Rightarrow> AsyncTunnelCore \<Rightarrow> AsyncTunnelCore" where
  "writer_done i ok c =
     (let s = session_objs c ! i in
      case writing s of
        None \<Rightarrow> c
      | Some p \<Rightarrow>
          upd_session i (\<lambda>_.
            let s' = release_pending_bytes (length p) (s\<lparr>writing := None\<rparr>) in
            if ok then s' else s'\<lparr>writer_running := False, channel := []\<rparr>) c)"

datatype tcp_read = TcpRead bytes | TcpReadError

text \<open>The end of a reader task: the session is removed, and counted as closed if it was still there.\<close>

definition reader_end :: "nat \<Rightarrow> AsyncTunnelCore \<Rightarrow> AsyncTunnelCore" where
  "reader_end i c =
     (let s = session_objs c ! i; m = sessions c;
          stop = upd_session i (\<lambda>s. s\<lparr>reader_running := False\<rparr>)
      in
      if poisoned m then stop c
      else case guarded m (sess_id s) of
        None \<Rightarrow> stop c
      | Some _ \<Rightarrow>
          upd_stats (session_closed (sess_rule_id s))
            (stop (c\<lparr>sessions := m\<lparr>guarded := (guarded m)(sess_id s := None)\<rparr>\<rparr>)))"

definition reader_step :: "nat \<Rightarrow> Instant \<Rightarrow> tcp_read \<Rightarrow> AsyncTunnelCore \<Rightarrow> AsyncTunnelCore" where
  "reader_step i now r c =
     (let s = session_objs c ! i in
      if \<not> reader_running s then c
      else case r of
        TcpReadError \<Rightarrow> reader_end i c
      | TcpRead data \<Rightarrow>
          if data = []
          then reader_end i (snd (core_push now
                 \<lparr>frame_type = SessionClose, leg = sess_leg s, flags = 0, session_id = sess_id s,
                  payload = []\<rparr> c))
          else snd (core_push now
                 \<lparr>frame_type = SessionData, leg = sess_leg s, flags = 0, session_id = sess_id s,
                  payload = data\<rparr>
                 (upd_stats (stats_bytes_out (sess_rule_id s) (of_nat (length data))) c)))"

section \<open>Taking frames\<close>

definition core_next_frame :: "Instant \<Rightarrow> AsyncTunnelCore \<Rightarrow> KtpFrame option \<times> AsyncTunnelCore" where
  "core_next_frame now c =
     (case queue_pop now (outbound c) of (f, q) \<Rightarrow> (f, c\<lparr>outbound := q\<rparr>))"

definition core_next_frames ::
  "Instant \<Rightarrow> nat \<Rightarrow> AsyncTunnelCore \<Rightarrow> KtpFrame list \<times> AsyncTunnelCore" where
  "core_next_frames now max_frames c =
     (case drain now max_frames (outbound c) of (fs, q) \<Rightarrow> (fs, c\<lparr>outbound := q\<rparr>))"

definition core_next_frames_after_wait ::
  "Instant \<Rightarrow> nat \<Rightarrow> Duration \<Rightarrow> (AsyncTunnelFrameQueue \<Rightarrow> AsyncTunnelFrameQueue) \<Rightarrow> AsyncTunnelCore
   \<Rightarrow> KtpFrame list \<times> AsyncTunnelCore" where
  "core_next_frames_after_wait now max_frames timeout meanwhile c =
     (case drain_after_wait now max_frames timeout meanwhile (outbound c) of
        (fs, q) \<Rightarrow> (fs, c\<lparr>outbound := q\<rparr>))"

definition effective_outbound_batch_frames :: "nat \<Rightarrow> AsyncTunnelCore \<Rightarrow> nat" where
  "effective_outbound_batch_frames configured c =
     (let st = core_stats_snapshot c in
      effective_batch_frames_with_tuning (relay_batch_policy (limits c)) configured
        (snap_active_sessions st) (snap_recent_outbound_queue_dwell st)
        (relay_batch_tuning (limits c)))"

section \<open>Closing\<close>

definition abort_reader :: "AsyncTunnelSession \<Rightarrow> AsyncTunnelSession" where
  "abort_reader s = (if tasks_reader s then s\<lparr>tasks_reader := False, reader_running := False\<rparr> else s)"

definition close_session ::
  "u64 \<Rightarrow> AsyncTunnelCore \<Rightarrow> (TunnelRuntimeError + unit) \<times> AsyncTunnelCore" where
  "close_session sid c =
     (let m = sessions c in
      if poisoned m then (Inl (runtime_unavailable ''session map is unavailable''), c)
      else case guarded m sid of
        None \<Rightarrow> (Inl (runtime_unavailable ''session not found''), c)
      | Some i \<Rightarrow>
          let c1 = upd_session i abort_reader
                     (c\<lparr>sessions := m\<lparr>guarded := (guarded m)(sid := None)\<rparr>\<rparr>);
              c2 = c1\<lparr>outbound := snd (remove_session_frames sid (outbound c1))\<rparr>
          in (Inr (), upd_stats (session_closed (sess_rule_id (session_objs c ! i))) c2))"

text \<open>The sessions in the map, by their index in the store.\<close>

definition live_indices :: "AsyncTunnelCore \<Rightarrow> nat list" where
  "live_indices c =
     filter (\<lambda>i. guarded (sessions c) (sess_id (session_objs c ! i)) = Some i)
       [0..<length (session_objs c)]"

definition close_one :: "nat \<Rightarrow> AsyncTunnelCore \<Rightarrow> AsyncTunnelCore" where
  "close_one i c =
     upd_stats (session_closed (sess_rule_id (session_objs c ! i))) (upd_session i abort_reader c)"

definition close_all_sessions :: "AsyncTunnelCore \<Rightarrow> (TunnelRuntimeError + unit) \<times> AsyncTunnelCore" where
  "close_all_sessions c =
     (let m = sessions c in
      if poisoned m then (Inl (runtime_unavailable ''session map is unavailable''), c)
      else
        let c1 = fold close_one (live_indices c) (c\<lparr>sessions := m\<lparr>guarded := Map.empty\<rparr>\<rparr>)
        in (Inr (), c1\<lparr>outbound := snd (queue_clear (outbound c1))\<rparr>))"

section \<open>Session accounting\<close>

text \<open>
  What the core relies on from the statistics: counters that agree with a map from open sessions to
  their rules keep agreeing when a new session is counted as opened and when an open one is counted as
  closed.
\<close>

locale session_accounting =
  fixes opened :: "'r \<Rightarrow> 's \<Rightarrow> 's"
    and closed :: "'r \<Rightarrow> 's \<Rightarrow> 's"
    and agrees :: "'s \<Rightarrow> ('k \<rightharpoonup> 'r) \<Rightarrow> bool"
    and bound :: nat
  assumes agrees_opened: "agrees st S \<Longrightarrow> S k = None \<Longrightarrow> card (dom S) < bound \<Longrightarrow>
      agrees (opened r st) (S(k \<mapsto> r))"
    and agrees_closed: "agrees st S \<Longrightarrow> S k = Some r \<Longrightarrow> agrees (closed r st) (S(k := None))"
begin

lemma agrees_close_many:
  "agrees st S \<Longrightarrow> distinct ks \<Longrightarrow> set ks \<subseteq> dom S \<Longrightarrow>
     agrees (fold (\<lambda>k. closed (the (S k))) ks st) (S |` (- set ks))"
proof (induction ks arbitrary: st S)
  case Nil
  then show ?case by simp
next
  case (Cons k ks)
  obtain r where r: "S k = Some r" using Cons.prems(3) by auto
  let ?S = "S(k := None)"
  have "agrees (closed r st) ?S"
    using agrees_closed [OF Cons.prems(1) r] .
  moreover have "set ks \<subseteq> dom ?S" "distinct ks"
    using Cons.prems(2,3) by auto
  ultimately have "agrees (fold (\<lambda>k. closed (the (?S k))) ks (closed r st)) (?S |` (- set ks))"
    using Cons.IH by blast
  moreover have "fold (\<lambda>k. closed (the (?S k))) ks x = fold (\<lambda>k. closed (the (S k))) ks x" for x
    using Cons.prems(2) by (intro fold_cong) auto
  moreover have "?S |` (- set ks) = S |` (- set (k # ks))"
    by (auto simp: restrict_map_def)
  ultimately show ?case by (simp add: r)
qed

end

definition stats_agree :: "TunnelRuntimeStats \<Rightarrow> (u64 \<rightharpoonup> u64) \<Rightarrow> bool" where
  "stats_agree st S \<longleftrightarrow>
     finite (dom S) \<and> unat (active_sessions st) = card (dom S)
     \<and> \<not> poisoned (rule_session_counts st)
     \<and> (\<forall>r. unat (count_of r (guarded (rule_session_counts st))) = card {k. S k = Some r})"

lemma unat_plus_one: "unat x < 2 ^ 64 - 1 \<Longrightarrow> unat (x + 1) = Suc (unat x)" for x :: u64
  by (subst unat_word_ariths) simp

lemma unat_minus_one: "0 < unat x \<Longrightarrow> unat (saturating_sub_u64 x 1) = unat x - 1" for x :: u64
  by (auto simp: saturating_sub_u64_def unat_sub_if_size word_less_nat_alt)

lemma card_rule_le: "finite (dom S) \<Longrightarrow> card {k. S k = Some r} \<le> card (dom S)"
  by (rule card_mono) auto

interpretation acct: session_accounting session_opened session_closed stats_agree "2 ^ 64 - 1"
proof (unfold_locales, goal_cases)
  case (1 st S k r)
  let ?m = "guarded (rule_session_counts st)"
  have fin: "finite (dom S)" and cnt: "\<And>q. unat (count_of q ?m) = card {x. S x = Some q}"
    using 1(1) by (auto simp: stats_agree_def)
  have "unat (count_of r ?m) < 2 ^ 64 - 1"
    using cnt card_rule_le [OF fin, of r] 1(3) by simp
  moreover have "{x. (S(k \<mapsto> r)) x = Some r} = insert k {x. S x = Some r}" by auto
  moreover have "finite {x. S x = Some r}"
    by (rule finite_subset [OF _ fin]) auto
  moreover have "k \<notin> {x. S x = Some r}" using 1(2) by simp
  moreover have "q \<noteq> r \<Longrightarrow> {x. (S(k \<mapsto> r)) x = Some q} = {x. S x = Some q}" for q
    using 1(2) by auto
  ultimately have "unat (count_of q (?m(r \<mapsto> count_of r ?m + 1))) = card {x. (S(k \<mapsto> r)) x = Some q}" for q
    using cnt unat_plus_one [of "count_of r ?m"] by (cases "q = r") (auto simp: count_of_def)
  moreover have "unat (active_sessions st + 1) = card (dom (S(k \<mapsto> r)))"
    using 1 fin unat_plus_one [of "active_sessions st"]
    by (auto simp: stats_agree_def domIff)
  ultimately show ?case
    using 1(1) by (simp add: stats_agree_def session_opened_def Let_def)
next
  case (2 st S k r)
  let ?m = "guarded (rule_session_counts st)"
  have fin: "finite (dom S)" and cnt: "\<And>q. unat (count_of q ?m) = card {x. S x = Some q}"
    using 2(1) by (auto simp: stats_agree_def)
  have finr: "finite {x. S x = Some r}"
    by (rule finite_subset [OF _ fin]) auto
  have k: "k \<in> {x. S x = Some r}" "k \<in> dom S" using 2(2) by auto
  have "{x. (S(k := None)) x = Some r} = {x. S x = Some r} - {k}" by auto
  moreover have "q \<noteq> r \<Longrightarrow> {x. (S(k := None)) x = Some q} = {x. S x = Some q}" for q
    using 2(2) by auto
  moreover have "0 < unat (count_of r ?m)"
    using cnt k(1) finr by (auto simp: card_gt_0_iff)
  ultimately have "unat (count_of q (?m(r \<mapsto> saturating_sub_u64 (count_of r ?m) 1))) =
      card {x. (S(k := None)) x = Some q}" for q
    using cnt unat_minus_one [of "count_of r ?m"] k(1) finr
    by (cases "q = r") (auto simp: count_of_def)
  moreover have "0 < unat (active_sessions st)"
    using 2(1) k(2) fin by (auto simp: stats_agree_def card_gt_0_iff)
  then have "unat (saturating_sub_u64 (active_sessions st) 1) = card (dom (S(k := None)))"
    using 2(1) k(2) fin unat_minus_one [of "active_sessions st"] by (simp add: stats_agree_def)
  ultimately show ?case
    using 2(1) by (simp add: stats_agree_def session_closed_def Let_def)
qed

section \<open>Interleaved steps\<close>

text \<open>
  A state is the core and the number of openings in flight: calls that have passed the capacity check
  and have not yet stored their session (\<open>open_egress_session\<close> is then dialling).  At most
  \<open>threads\<close> of them run at a time.  Between any two steps any task may do its own.  A session id that
  is opened is not in use.
\<close>

inductive core_step :: "nat \<Rightarrow> AsyncTunnelCore \<times> nat \<Rightarrow> AsyncTunnelCore \<times> nat \<Rightarrow> bool"
  for threads :: nat where
  check: "ensure_agent_session_capacity c = Inr () \<Longrightarrow> k < threads \<Longrightarrow>
    core_step threads (c, k) (c, Suc k)"
| dial_failed: "core_step threads (c, Suc k) (c, k)"
| egress: "guarded (sessions c) sid = None \<Longrightarrow>
    core_step threads (c, Suc k) (snd (open_egress_finish sid rule_id c), k)"
| ingress: "guarded (sessions c) sid = None \<Longrightarrow>
    core_step threads (c, Suc k) (snd (attach_ingress_finish now sid rule_id host port source c), k)"
| data: "core_step threads (c, k) (snd (handle_session_data sid bs c), k)"
| recv: "i < length (session_objs c) \<Longrightarrow> core_step threads (c, k) (writer_recv i c, k)"
| written: "i < length (session_objs c) \<Longrightarrow> core_step threads (c, k) (writer_done i ok c, k)"
| read: "i < length (session_objs c) \<Longrightarrow> core_step threads (c, k) (reader_step i now r c, k)"
| frames: "core_step threads (c, k) (snd (core_next_frames now n c), k)"
| close: "core_step threads (c, k) (snd (close_session sid c), k)"
| close_all: "core_step threads (c, k) (snd (close_all_sessions c), k)"

inductive core_reaches :: "nat \<Rightarrow> AsyncTunnelCore \<times> nat \<Rightarrow> AsyncTunnelCore \<times> nat \<Rightarrow> bool"
  for threads :: nat where
  refl: "core_reaches threads x x"
| step: "core_reaches threads x y \<Longrightarrow> core_step threads y z \<Longrightarrow> core_reaches threads x z"

section \<open>The invariant\<close>

definition rule_map :: "AsyncTunnelCore \<Rightarrow> u64 \<rightharpoonup> u64" where
  "rule_map c = (\<lambda>sid. map_option (\<lambda>i. sess_rule_id (session_objs c ! i)) (guarded (sessions c) sid))"

text \<open>The bytes a session holds for its TCP connection.\<close>

definition held_bytes :: "AsyncTunnelSession \<Rightarrow> nat" where
  "held_bytes s =
     sum_list (map length (channel s)) + (case writing s of None \<Rightarrow> 0 | Some p \<Rightarrow> length p)"

definition session_ok :: "TunnelRuntimeLimits \<Rightarrow> AsyncTunnelSession \<Rightarrow> bool" where
  "session_ok lim s \<longleftrightarrow>
     pending_bytes s \<le> max_session_pending_bytes lim \<and> length (channel s) \<le> SESSION_CHANNEL_FRAMES
     \<and> (if writer_running s then pending_bytes s = held_bytes s else channel s = [] \<and> writing s = None)"

definition store_ok :: "AsyncTunnelCore \<Rightarrow> bool" where
  "store_ok c \<longleftrightarrow>
     \<not> poisoned (sessions c)
     \<and> (\<forall>sid i. guarded (sessions c) sid = Some i \<longrightarrow>
          i < length (session_objs c) \<and> sess_id (session_objs c ! i) = sid)
     \<and> (\<forall>i < length (session_objs c). reader_running (session_objs c ! i) \<longrightarrow>
          tasks_reader (session_objs c ! i)
          \<and> guarded (sessions c) (sess_id (session_objs c ! i)) = Some i)"

definition queue_ok :: "AsyncTunnelCore \<Rightarrow> bool" where
  "queue_ok c \<longleftrightarrow>
     queue_usable (outbound c) \<and> queue_capacity (outbound c) = max_outbound_frames (limits c)
     \<and> length (queued_frames (outbound c)) \<le> max_outbound_frames (limits c)"

definition core_inv :: "TunnelRuntimeLimits \<Rightarrow> nat \<Rightarrow> AsyncTunnelCore \<times> nat \<Rightarrow> bool" where
  "core_inv lim threads x \<longleftrightarrow>
     (case x of (c, k) \<Rightarrow>
        limits c = lim \<and> store_ok c \<and> queue_ok c \<and> stats_agree (core_stats c) (rule_map c)
        \<and> (\<forall>i < length (session_objs c). session_ok lim (session_objs c ! i))
        \<and> k \<le> threads
        \<and> card (dom (guarded (sessions c))) + k \<le> max_sessions_per_agent lim - 1 + threads)"

lemma dom_rule_map [simp]: "dom (rule_map c) = dom (guarded (sessions c))"
  by (auto simp: rule_map_def)

lemma upd_stats_simps [simp]:
  "limits (upd_stats g c) = limits c" "sessions (upd_stats g c) = sessions c"
  "session_objs (upd_stats g c) = session_objs c" "core_stats (upd_stats g c) = g (core_stats c)"
  "store_ok (upd_stats g c) = store_ok c" "queue_ok (upd_stats g c) = queue_ok c"
  "rule_map (upd_stats g c) = rule_map c"
  by (simp_all add: upd_stats_def store_ok_def queue_ok_def queue_usable_def queued_frames_def
      rule_map_def)

lemma upd_session_simps [simp]:
  "limits (upd_session i g c) = limits c" "sessions (upd_session i g c) = sessions c"
  "outbound (upd_session i g c) = outbound c" "queue_ok (upd_session i g c) = queue_ok c"
  "length (session_objs (upd_session i g c)) = length (session_objs c)"
  by (simp_all add: upd_session_def queue_ok_def)

lemma nth_upd_session:
  "j < length (session_objs c) \<Longrightarrow> session_objs (upd_session i g c) ! j =
     (if j = i then g (session_objs c ! i) else session_objs c ! j)"
  by (auto simp: upd_session_def nth_list_update)

lemma core_push_simps:
  assumes "core_push now f c = (r, c')"
  shows "limits c' = limits c" "sessions c' = sessions c" "session_objs c' = session_objs c"
    "core_stats c' = core_stats c" "queue_ok c \<Longrightarrow> queue_ok c'"
proof -
  obtain q where q: "try_push now f (outbound c) = (r, q)" and c': "c' = c\<lparr>outbound := q\<rparr>"
    using assms by (auto simp: core_push_def split: prod.splits)
  show "limits c' = limits c" "sessions c' = sessions c" "session_objs c' = session_objs c"
    by (simp_all add: c')
  show "core_stats c' = core_stats c"
    using q by (auto simp: c' try_push_def Let_def split: if_splits)
  show "queue_ok c'" if "queue_ok c"
    using that q
    by (auto simp: c' queue_ok_def try_push_def Let_def queued_frames_def queue_usable_def
        split: if_splits)
qed

lemma core_next_frames_simps:
  assumes "core_next_frames now n c = (fs, c')" and "queue_ok c"
  shows "limits c' = limits c" "sessions c' = sessions c" "session_objs c' = session_objs c"
    "queue_ok c'"
proof -
  obtain q where q: "drain now n (outbound c) = (fs, q)" and c': "c' = c\<lparr>outbound := q\<rparr>"
    using assms(1) by (auto simp: core_next_frames_def split: prod.splits)
  show "limits c' = limits c" "sessions c' = sessions c" "session_objs c' = session_objs c"
    by (simp_all add: c')
  show "queue_ok c'"
    using assms(2) frame_queue.tk_front [of "outbound c" now n] q by (auto simp: c' queue_ok_def)
qed

section \<open>The invariant is preserved\<close>

lemma stats_agree_cong:
  "active_sessions st' = active_sessions st \<Longrightarrow> rule_session_counts st' = rule_session_counts st \<Longrightarrow>
     stats_agree st' S = stats_agree st S"
  by (simp add: stats_agree_def)

lemma stats_agree_bytes [simp]:
  "stats_agree (stats_bytes_in r n st) S = stats_agree st S"
  "stats_agree (stats_bytes_out r n st) S = stats_agree st S"
  by (simp_all add: stats_agree_def stats_bytes_in_def stats_bytes_out_def)

lemma stats_agree_dwell:
  "into_frames_with_dwell now xs q = (fs, q') \<Longrightarrow>
     stats_agree (queue_stats q') S = stats_agree (queue_stats q) S"
proof (induction xs arbitrary: q fs)
  case (Cons x xs)
  obtain fs' where "into_frames_with_dwell now xs (snd (into_frame_with_dwell now x q)) = (fs', q')"
    using Cons.prems by (auto split: prod.splits)
  from Cons.IH [OF this] show ?case
    by (simp add: into_frame_with_dwell_def record_outbound_queue_dwell_def Let_def stats_agree_def)
qed simp

lemma stats_agree_drain:
  assumes "drain now n q = (fs, q')"
  shows "stats_agree (queue_stats q') S = stats_agree (queue_stats q) S"
proof (cases "n = 0 \<or> poisoned (queue_frames q)")
  case True
  then show ?thesis using assms by (auto simp: drain_def Let_def split: if_splits)
next
  case False
  let ?m = "queue_frames q" and ?n = "min n (length (guarded (queue_frames q)))"
  have "into_frames_with_dwell now (take ?n (guarded ?m))
      (q\<lparr>queue_frames := ?m\<lparr>guarded := drop ?n (guarded ?m)\<rparr>\<rparr>) = (fs, q')"
    using assms False by (simp add: drain_def Let_def)
  from stats_agree_dwell [OF this] show ?thesis by simp
qed

lemma core_inv_push:
  assumes "core_inv lim threads (c, k)"
  shows "core_inv lim threads (snd (core_push now f c), k)"
proof (cases "core_push now f c")
  case (Pair r c')
  note s = core_push_simps [OF Pair]
  have "rule_map c' = rule_map c" "store_ok c' = store_ok c"
    by (simp_all add: rule_map_def store_ok_def s)
  with assms s Pair show ?thesis by (simp add: core_inv_def)
qed

lemma core_inv_upd_session:
  assumes "core_inv lim threads (c, k)" and "i < length (session_objs c)"
    and "sess_id (g (session_objs c ! i)) = sess_id (session_objs c ! i)"
    and "sess_rule_id (g (session_objs c ! i)) = sess_rule_id (session_objs c ! i)"
    and "reader_running (g (session_objs c ! i)) \<longrightarrow>
      tasks_reader (g (session_objs c ! i))
      \<and> guarded (sessions c) (sess_id (session_objs c ! i)) = Some i"
    and "session_ok lim (g (session_objs c ! i))"
  shows "core_inv lim threads (upd_session i g c, k)"
proof -
  have "store_ok c" using assms(1) by (simp add: core_inv_def)
  then have "store_ok (upd_session i g c)"
    using assms(3,5) by (auto simp: store_ok_def nth_upd_session)
  moreover have "rule_map (upd_session i g c) = rule_map c"
    using \<open>store_ok c\<close> assms(4)
    by (auto simp: rule_map_def store_ok_def nth_upd_session fun_eq_iff intro!: map_option_cong)
  ultimately show ?thesis
    using assms(1,6) by (simp add: core_inv_def nth_upd_session)
qed

lemma core_inv_upd_stats:
  assumes "core_inv lim threads (c, k)"
    and "stats_agree (g (core_stats c)) (rule_map c) = stats_agree (core_stats c) (rule_map c)"
  shows "core_inv lim threads (upd_stats g c, k)"
  using assms by (simp add: core_inv_def)

lemma core_inv_register:
  assumes "core_inv lim threads (c, Suc k)" and "guarded (sessions c) sid = None"
    and "max_sessions_per_agent lim - 1 + threads < 2 ^ 64 - 1"
    and "register_session sid rule_id l c = (r, c1)"
  shows "r = Inr (length (session_objs c)) \<and> core_inv lim threads (c1, k)
    \<and> length (session_objs c) < length (session_objs c1)
    \<and> session_objs c1 ! length (session_objs c) = session_new sid rule_id l
    \<and> guarded (sessions c1) sid = Some (length (session_objs c))"
proof -
  let ?i = "length (session_objs c)" and ?s = "session_new sid rule_id l"
  let ?d = "c\<lparr>sessions := (sessions c)\<lparr>guarded := (guarded (sessions c))(sid \<mapsto> ?i)\<rparr>,
      session_objs := session_objs c @ [?s]\<rparr>"
  have st: "store_ok c" and ag: "stats_agree (core_stats c) (rule_map c)"
    using assms(1) by (simp_all add: core_inv_def)
  then have r: "r = Inr ?i" and c1: "c1 = upd_stats (session_opened rule_id) ?d"
    using assms(4) by (auto simp: register_session_def Let_def store_ok_def)
  have fin: "finite (dom (guarded (sessions c)))"
    using ag by (simp add: stats_agree_def)
  have new: "card (dom (guarded (sessions ?d))) = Suc (card (dom (guarded (sessions c))))"
    using assms(2) fin by (simp add: domIff)
  have "guarded (sessions c) x = Some i \<Longrightarrow> i < ?i" for x i
    using st by (auto simp: store_ok_def)
  then have rm: "rule_map ?d = (rule_map c)(sid \<mapsto> rule_id)"
    by (auto simp: rule_map_def fun_eq_iff nth_append session_new_def intro!: map_option_cong)
  have "stats_agree (session_opened rule_id (core_stats c)) ((rule_map c)(sid \<mapsto> rule_id))"
  proof (rule acct.agrees_opened [OF ag])
    show "rule_map c sid = None" by (simp add: rule_map_def assms(2))
    show "card (dom (rule_map c)) < 2 ^ 64 - 1"
      using assms(1,3) by (simp add: core_inv_def)
  qed
  moreover have "store_ok ?d"
    using st assms(2) by (auto simp: store_ok_def nth_append session_new_def less_Suc_eq)
  moreover have "session_ok lim ?s"
    by (simp add: session_ok_def session_new_def)
  moreover have "queue_ok ?d = queue_ok c" by (simp add: queue_ok_def)
  ultimately have "core_inv lim threads (c1, k)"
    using assms(1) new unfolding c1
    by (auto simp: core_inv_def rm nth_append less_Suc_eq simp del: fun_upd_apply)
  with r c1 show ?thesis by simp
qed

lemma core_inv_spawn:
  assumes "core_inv lim threads (c, k)" and "i < length (session_objs c)"
    and "session_objs c ! i = session_new sid rule_id l" and "guarded (sessions c) sid = Some i"
  shows "core_inv lim threads (spawn_session_tasks i c, k)"
  unfolding spawn_session_tasks_def using assms
  by (intro core_inv_upd_session) (auto simp: session_new_def session_ok_def held_bytes_def)

lemma core_inv_remove:
  assumes "core_inv lim threads (c, k)" and "guarded (sessions c) sid = Some i"
    and "\<And>s. sess_id (g s) = sess_id s" and "\<And>s. sess_rule_id (g s) = sess_rule_id s"
    and "\<not> reader_running (g (session_objs c ! i))" and "session_ok lim (g (session_objs c ! i))"
  shows "core_inv lim threads
    (upd_stats (session_closed (sess_rule_id (session_objs c ! i)))
      (upd_session i g (c\<lparr>sessions := (sessions c)\<lparr>guarded := (guarded (sessions c))(sid := None)\<rparr>\<rparr>)), k)"
proof -
  let ?c0 = "c\<lparr>sessions := (sessions c)\<lparr>guarded := (guarded (sessions c))(sid := None)\<rparr>\<rparr>"
  let ?d = "upd_session i g ?c0"
  have st: "store_ok c" and ag: "stats_agree (core_stats c) (rule_map c)"
    using assms(1) by (simp_all add: core_inv_def)
  then have i: "i < length (session_objs c)" "sess_id (session_objs c ! i) = sid"
    using assms(2) by (auto simp: store_ok_def)
  have others: "guarded (sessions c) x = Some j \<Longrightarrow> x \<noteq> sid \<Longrightarrow> j \<noteq> i" for x j
    using st i by (auto simp: store_ok_def)
  have rm: "rule_map ?d = (rule_map c)(sid := None)"
    using st assms(4)
    by (auto simp: rule_map_def fun_eq_iff store_ok_def nth_upd_session intro!: map_option_cong)
  have "stats_agree (session_closed (sess_rule_id (session_objs c ! i)) (core_stats c))
      ((rule_map c)(sid := None))"
    by (rule acct.agrees_closed [OF ag]) (simp add: rule_map_def assms(2))
  moreover have "store_ok ?d"
    unfolding store_ok_def
  proof (intro conjI allI impI)
    show "\<not> poisoned (sessions ?d)" using st by (simp add: store_ok_def)
  next
    fix x j assume "guarded (sessions ?d) x = Some j"
    then have x: "x \<noteq> sid" "guarded (sessions c) x = Some j"
      by (simp_all split: if_splits)
    then have j: "j < length (session_objs c)" "sess_id (session_objs c ! j) = x"
      using st by (simp_all add: store_ok_def)
    then show "j < length (session_objs ?d)" by simp
    show "sess_id (session_objs ?d ! j) = x"
      using j others [OF x(2,1)] by (simp add: nth_upd_session)
  next
    fix j assume j: "j < length (session_objs ?d)" "reader_running (session_objs ?d ! j)"
    then have ji: "j \<noteq> i" "reader_running (session_objs c ! j)"
      using assms(5) by (auto simp: nth_upd_session split: if_splits)
    then have run: "tasks_reader (session_objs c ! j)"
      "guarded (sessions c) (sess_id (session_objs c ! j)) = Some j"
      using st j(1) by (simp_all add: store_ok_def)
    then show "tasks_reader (session_objs ?d ! j)"
      using j(1) ji by (simp add: nth_upd_session)
    show "guarded (sessions ?d) (sess_id (session_objs ?d ! j)) = Some j"
      using run(2) assms(2) j(1) ji by (auto simp: nth_upd_session)
  qed
  moreover have "card (dom (guarded (sessions c)) - {sid}) \<le> card (dom (guarded (sessions c)))"
    using ag by (intro card_mono) (auto simp: stats_agree_def)
  moreover have "queue_ok ?c0 = queue_ok c" by (simp add: queue_ok_def)
  ultimately show ?thesis
    using assms(1,6) by (auto simp: core_inv_def rm nth_upd_session simp del: fun_upd_apply)
qed

lemma core_inv_egress:
  assumes "core_inv lim threads (c, Suc k)" and "guarded (sessions c) sid = None"
    and "max_sessions_per_agent lim - 1 + threads < 2 ^ 64 - 1"
  shows "core_inv lim threads (snd (open_egress_finish sid rule_id c), k)"
proof -
  obtain r c1 where reg: "register_session sid rule_id LegEgress c = (r, c1)" by fastforce
  from core_inv_register [OF assms reg] core_inv_spawn [of lim threads c1 k] show ?thesis
    by (auto simp: open_egress_finish_def reg)
qed

lemma core_inv_ingress:
  assumes "core_inv lim threads (c, Suc k)" and "guarded (sessions c) sid = None"
    and "max_sessions_per_agent lim - 1 + threads < 2 ^ 64 - 1"
  shows "core_inv lim threads (snd (attach_ingress_finish now sid rule_id host port source c), k)"
proof -
  obtain r c1 where reg: "register_session sid rule_id LegIngress c = (r, c1)" by fastforce
  let ?i = "length (session_objs c)"
  note r = core_inv_register [OF assms reg]
  have "core_inv lim threads (c2, k) \<and> core_inv lim threads (spawn_session_tasks ?i c2, k)"
    if push: "core_push now f c1 = (x, c2)" for f x c2
  proof -
    have inv: "core_inv lim threads (c2, k)"
      using core_inv_push [of lim threads c1 k now f] r push by simp
    note s = core_push_simps [OF push]
    have "core_inv lim threads (spawn_session_tasks ?i c2, k)"
      by (rule core_inv_spawn [OF inv, of _ sid rule_id LegIngress]) (use r s in simp_all)
    with inv show ?thesis by simp
  qed
  then show ?thesis
    using r by (auto simp: attach_ingress_finish_def reg split: sum.split prod.split)
qed

lemma store_ok_index:
  "core_inv lim threads (c, k) \<Longrightarrow> guarded (sessions c) sid = Some i \<Longrightarrow> i < length (session_objs c)"
  by (simp add: core_inv_def store_ok_def)

lemma core_inv_session:
  "core_inv lim threads (c, k) \<Longrightarrow> i < length (session_objs c) \<Longrightarrow> session_ok lim (session_objs c ! i)"
  by (simp add: core_inv_def)

lemma core_inv_reader:
  "core_inv lim threads (c, k) \<Longrightarrow> i < length (session_objs c) \<Longrightarrow> reader_running (session_objs c ! i) \<Longrightarrow>
     tasks_reader (session_objs c ! i) \<and> guarded (sessions c) (sess_id (session_objs c ! i)) = Some i"
  by (simp add: core_inv_def store_ok_def)

lemma core_inv_data:
  assumes inv: "core_inv lim threads (c, k)"
  shows "core_inv lim threads (snd (handle_session_data sid bs c), k)"
proof (cases "guarded (sessions c) sid")
  case None
  then show ?thesis using inv by (simp add: handle_session_data_def)
next
  case (Some i)
  note i = store_ok_index [OF inv Some]
  let ?s = "session_objs c ! i"
  have lim: "limits c = lim" using inv by (simp add: core_inv_def)
  have ok: "session_ok lim ?s" and rd: "reader_running ?s \<longrightarrow> tasks_reader ?s
      \<and> guarded (sessions c) (sess_id ?s) = Some i"
    using core_inv_session [OF inv i] core_inv_reader [OF inv i] by blast+
  show ?thesis
  proof (cases "reserve_pending_bytes (length bs) (max_session_pending_bytes (limits c)) ?s")
    case (Pair r s)
    show ?thesis
    proof (cases r)
      case (Inl e)
      with Pair Some inv show ?thesis by (simp add: handle_session_data_def)
    next
      case (Inr u)
      then have s: "s = ?s\<lparr>pending_bytes := pending_bytes ?s + length bs\<rparr>"
        and le: "pending_bytes ?s + length bs \<le> max_session_pending_bytes lim"
        using Pair lim by (auto simp: reserve_pending_bytes_def Let_def split: if_splits)
      have "core_inv lim threads (upd_session i (\<lambda>_. s\<lparr>channel := channel s @ [bs]\<rparr>) c, k)"
        if "writer_running s \<and> length (channel s) < SESSION_CHANNEL_FRAMES"
        using inv i ok rd le that
        by (intro core_inv_upd_session) (auto simp: s session_ok_def held_bytes_def)
      moreover have "core_inv lim threads
          (upd_session i (\<lambda>_. release_pending_bytes (length bs) s) c, k)"
        using inv i ok rd by (intro core_inv_upd_session) (auto simp: s release_pending_bytes_def)
      ultimately show ?thesis
        using Inr Pair Some inv by (simp add: handle_session_data_def)
    qed
  qed
qed

lemma core_inv_recv:
  assumes inv: "core_inv lim threads (c, k)" and i: "i < length (session_objs c)"
  shows "core_inv lim threads (writer_recv i c, k)"
proof (cases "channel (session_objs c ! i)")
  case Nil
  then show ?thesis using inv by (simp add: writer_recv_def)
next
  case (Cons p ps)
  let ?s = "session_objs c ! i"
  have "core_inv lim threads (upd_session i (\<lambda>_. ?s\<lparr>channel := ps, writing := Some p\<rparr>) c, k)"
    if "writer_running ?s \<and> writing ?s = None"
    using inv i core_inv_session [OF inv i] core_inv_reader [OF inv i] that Cons
    by (intro core_inv_upd_session) (auto simp: session_ok_def held_bytes_def)
  then show ?thesis
    using inv Cons by (auto simp: writer_recv_def Let_def intro!: core_inv_upd_stats)
qed

lemma core_inv_written:
  assumes inv: "core_inv lim threads (c, k)" and i: "i < length (session_objs c)"
  shows "core_inv lim threads (writer_done i ok c, k)"
proof (cases "writing (session_objs c ! i)")
  case None
  then show ?thesis using inv by (simp add: writer_done_def)
next
  case (Some p)
  let ?s = "session_objs c ! i"
  have run: "writer_running ?s"
    using core_inv_session [OF inv i] Some by (auto simp: session_ok_def split: if_splits)
  show ?thesis
    unfolding writer_done_def Let_def Some option.case
    using inv i core_inv_session [OF inv i] core_inv_reader [OF inv i] Some run
    by (intro core_inv_upd_session)
      (auto simp: session_ok_def held_bytes_def release_pending_bytes_def Let_def)
qed

lemma core_inv_reader_end:
  assumes inv: "core_inv lim threads (c, k)" and i: "i < length (session_objs c)"
    and run: "reader_running (session_objs c ! i)"
  shows "core_inv lim threads (reader_end i c, k)"
proof -
  let ?s = "session_objs c ! i" and ?g = "\<lambda>s :: AsyncTunnelSession. s\<lparr>reader_running := False\<rparr>"
  have sid: "guarded (sessions c) (sess_id ?s) = Some i" and np: "\<not> poisoned (sessions c)"
    using core_inv_reader [OF inv i run] inv by (simp_all add: core_inv_def store_ok_def)
  have "session_ok lim (?g ?s)"
    using core_inv_session [OF inv i] by (simp add: session_ok_def held_bytes_def)
  then have "core_inv lim threads (upd_stats (session_closed (sess_rule_id ?s))
      (upd_session i ?g (c\<lparr>sessions := (sessions c)\<lparr>guarded :=
        (guarded (sessions c))(sess_id ?s := None)\<rparr>\<rparr>)), k)"
    by (intro core_inv_remove [OF inv sid]) simp_all
  then show ?thesis
    using sid np by (simp add: reader_end_def Let_def)
qed

lemma core_inv_read:
  assumes inv: "core_inv lim threads (c, k)" and i: "i < length (session_objs c)"
  shows "core_inv lim threads (reader_step i now r c, k)"
proof (cases "reader_running (session_objs c ! i)")
  case False
  then show ?thesis using inv by (simp add: reader_step_def)
next
  case True
  have push_end: "core_inv lim threads (reader_end i (snd (core_push now f c)), k)" for f
  proof (cases "core_push now f c")
    case (Pair x c1)
    note s = core_push_simps [OF Pair]
    show ?thesis
      using core_inv_push [OF inv, of now f] i True
      by (simp add: Pair) (rule core_inv_reader_end, simp_all add: s)
  qed
  have "core_inv lim threads (snd (core_push now f (upd_stats (stats_bytes_out q n) c)), k)" for f q n
    using inv by (intro core_inv_push core_inv_upd_stats) simp_all
  with push_end core_inv_reader_end [OF inv i True] True show ?thesis
    by (cases r) (simp_all add: reader_step_def Let_def)
qed

lemma core_inv_frames:
  assumes "core_inv lim threads (c, k)"
  shows "core_inv lim threads (snd (core_next_frames now n c), k)"
proof (cases "core_next_frames now n c")
  case (Pair fs c')
  have q: "queue_ok c" using assms by (simp add: core_inv_def)
  note s = core_next_frames_simps [OF Pair q]
  have "drain now n (outbound c) = (fs, outbound c')"
    using Pair by (auto simp: core_next_frames_def split: prod.splits)
  from stats_agree_drain [OF this] have "stats_agree (core_stats c') S = stats_agree (core_stats c) S"
    for S .
  moreover have "rule_map c' = rule_map c" "store_ok c' = store_ok c"
    by (simp_all add: rule_map_def store_ok_def s)
  ultimately show ?thesis using assms s Pair by (simp add: core_inv_def)
qed

lemma queue_ok_outbound:
  assumes "queue_ok c" and "queue_usable q" and "queue_capacity q = queue_capacity (outbound c)"
    and "length (queued_frames q) \<le> length (queued_frames (outbound c))"
  shows "queue_ok (c\<lparr>outbound := q\<rparr>)"
  using assms by (simp add: queue_ok_def)

lemma core_inv_outbound:
  assumes "core_inv lim threads (c, k)" and "queue_usable q"
    and "queue_capacity q = queue_capacity (outbound c)" and "queue_stats q = core_stats c"
    and "length (queued_frames q) \<le> length (queued_frames (outbound c))"
  shows "core_inv lim threads (c\<lparr>outbound := q\<rparr>, k)"
proof -
  have "queue_ok (c\<lparr>outbound := q\<rparr>)"
    using assms by (intro queue_ok_outbound) (simp_all add: core_inv_def)
  moreover have "rule_map (c\<lparr>outbound := q\<rparr>) = rule_map c"
    "store_ok (c\<lparr>outbound := q\<rparr>) = store_ok c"
    by (simp_all add: rule_map_def store_ok_def)
  ultimately show ?thesis using assms(1,4) by (simp add: core_inv_def)
qed

lemma abort_reader_simps [simp]:
  "sess_id (abort_reader s) = sess_id s" "sess_rule_id (abort_reader s) = sess_rule_id s"
  "session_ok lim (abort_reader s) = session_ok lim s"
  "reader_running (abort_reader s) = (reader_running s \<and> \<not> tasks_reader s)"
  by (auto simp: abort_reader_def session_ok_def held_bytes_def)

lemma core_inv_close:
  assumes inv: "core_inv lim threads (c, k)"
  shows "core_inv lim threads (snd (close_session sid c), k)"
proof (cases "guarded (sessions c) sid")
  case None
  then show ?thesis using inv by (simp add: close_session_def Let_def)
next
  case (Some i)
  note i = store_ok_index [OF inv Some]
  let ?rule = "sess_rule_id (session_objs c ! i)"
  let ?c1 = "upd_session i abort_reader
    (c\<lparr>sessions := (sessions c)\<lparr>guarded := (guarded (sessions c))(sid := None)\<rparr>\<rparr>)"
  let ?q = "snd (remove_session_frames sid (outbound c))"
  have np: "\<not> poisoned (sessions c)" and qu: "queue_usable (outbound c)"
    using inv by (simp_all add: core_inv_def store_ok_def queue_ok_def)
  have "core_inv lim threads (upd_stats (session_closed ?rule) ?c1, k)" (is "core_inv _ _ (?c2, _)")
    using core_inv_session [OF inv i] core_inv_reader [OF inv i]
    by (intro core_inv_remove [OF inv Some]) auto
  moreover have "queue_usable ?q" "queue_capacity ?q = queue_capacity (outbound c)"
    "queue_stats ?q = core_stats c" "length (queued_frames ?q) \<le> length (queued_frames (outbound c))"
    using qu by (auto simp: remove_session_frames_def Let_def queue_usable_def queued_frames_def)
  ultimately have "core_inv lim threads
      (?c2\<lparr>outbound := ?q\<lparr>queue_stats := session_closed ?rule (core_stats c)\<rparr>\<rparr>, k)"
    by (intro core_inv_outbound)
      (simp_all add: upd_stats_def queue_usable_def queued_frames_def)
  moreover have "snd (close_session sid c) =
      ?c2\<lparr>outbound := ?q\<lparr>queue_stats := session_closed ?rule (core_stats c)\<rparr>\<rparr>"
    using Some np \<open>queue_stats ?q = core_stats c\<close>
    by (simp add: close_session_def Let_def upd_stats_def)
  ultimately show ?thesis by simp
qed

lemma fold_close_one:
  assumes "distinct is" and "set is \<subseteq> {..<length (session_objs c)}"
  shows "limits (fold close_one is c) = limits c \<and> sessions (fold close_one is c) = sessions c
    \<and> queue_frames (outbound (fold close_one is c)) = queue_frames (outbound c)
    \<and> queue_capacity (outbound (fold close_one is c)) = queue_capacity (outbound c)
    \<and> length (session_objs (fold close_one is c)) = length (session_objs c)
    \<and> core_stats (fold close_one is c) =
       fold (\<lambda>i. session_closed (sess_rule_id (session_objs c ! i))) is (core_stats c)
    \<and> (\<forall>j < length (session_objs c). session_objs (fold close_one is c) ! j =
       (if j \<in> set is then abort_reader (session_objs c ! j) else session_objs c ! j))"
  using assms
proof (induction "is" arbitrary: c)
  case Nil
  then show ?case by simp
next
  case (Cons i "is")
  let ?c = "close_one i c"
  have len: "length (session_objs ?c) = length (session_objs c)"
    by (simp add: close_one_def)
  have nth: "session_objs ?c ! j = (if j = i then abort_reader (session_objs c ! i)
      else session_objs c ! j)" if "j < length (session_objs c)" for j
    using that by (simp add: close_one_def nth_upd_session)
  have f: "limits ?c = limits c" "sessions ?c = sessions c"
    "queue_frames (outbound ?c) = queue_frames (outbound c)"
    "queue_capacity (outbound ?c) = queue_capacity (outbound c)"
    "core_stats ?c = session_closed (sess_rule_id (session_objs c ! i)) (core_stats c)"
    by (simp_all add: close_one_def upd_stats_def)
  have "fold (\<lambda>j. session_closed (sess_rule_id (session_objs ?c ! j))) is st =
      fold (\<lambda>j. session_closed (sess_rule_id (session_objs c ! j))) is st" for st
    using Cons.prems nth by (intro fold_cong) auto
  moreover have "distinct is" "set is \<subseteq> {..<length (session_objs ?c)}" "i \<notin> set is"
    using Cons.prems len by auto
  ultimately show ?case
    using Cons.IH [of ?c] f len nth by auto
qed

lemma live_indices_props:
  assumes "store_ok c"
  shows "distinct (live_indices c)" "set (live_indices c) \<subseteq> {..<length (session_objs c)}"
    "distinct (map (\<lambda>i. sess_id (session_objs c ! i)) (live_indices c))"
    "(\<lambda>i. sess_id (session_objs c ! i)) ` set (live_indices c) = dom (guarded (sessions c))"
proof -
  let ?id = "\<lambda>i. sess_id (session_objs c ! i)"
  have mem: "i \<in> set (live_indices c) \<longleftrightarrow>
      i < length (session_objs c) \<and> guarded (sessions c) (?id i) = Some i" for i
    by (auto simp: live_indices_def)
  show d: "distinct (live_indices c)" by (simp add: live_indices_def)
  show "set (live_indices c) \<subseteq> {..<length (session_objs c)}" using mem by blast
  have "inj_on ?id (set (live_indices c))"
    by (rule inj_onI) (metis mem option.inject)
  with d show "distinct (map ?id (live_indices c))" by (simp add: distinct_map)
  have "sid \<in> ?id ` set (live_indices c)" if "guarded (sessions c) sid = Some i" for sid i
    using assms that mem [of i] by (auto simp: store_ok_def image_iff)
  moreover have "?id i \<in> dom (guarded (sessions c))" if "i \<in> set (live_indices c)" for i
    using that mem by blast
  ultimately show "?id ` set (live_indices c) = dom (guarded (sessions c))" by auto
qed

text \<open>Closing every live session brings the counters to those of no session at all.\<close>

lemma stats_agree_close_all:
  assumes "store_ok c" and "stats_agree (core_stats c) (rule_map c)"
  shows "stats_agree (fold (\<lambda>i. session_closed (sess_rule_id (session_objs c ! i))) (live_indices c)
    (core_stats c)) Map.empty"
proof -
  let ?ks = "map (\<lambda>i. sess_id (session_objs c ! i)) (live_indices c)"
  note l = live_indices_props [OF assms(1)]
  have "stats_agree (fold (\<lambda>k. session_closed (the (rule_map c k))) ?ks (core_stats c))
      (rule_map c |` (- set ?ks))"
    using l by (intro acct.agrees_close_many [OF assms(2)]) simp_all
  moreover have "rule_map c |` (- set ?ks) = Map.empty"
    using l(4) by (auto simp: restrict_map_def fun_eq_iff rule_map_def domIff)
  moreover have "fold (\<lambda>k. session_closed (the (rule_map c k))) ?ks st =
      fold (\<lambda>i. session_closed (sess_rule_id (session_objs c ! i))) (live_indices c) st" for st
    unfolding fold_map
    by (intro fold_cong) (auto simp: rule_map_def live_indices_def comp_def)
  ultimately show ?thesis by simp
qed

lemma core_inv_close_all:
  assumes inv: "core_inv lim threads (c, k)"
  shows "core_inv lim threads (snd (close_all_sessions c), k)"
proof -
  let ?c0 = "c\<lparr>sessions := (sessions c)\<lparr>guarded := Map.empty\<rparr>\<rparr>"
  let ?c1 = "fold close_one (live_indices c) ?c0"
  let ?c2 = "?c1\<lparr>outbound := snd (queue_clear (outbound ?c1))\<rparr>"
  have st: "store_ok c" and ag: "stats_agree (core_stats c) (rule_map c)" and qo: "queue_ok c"
    and lim: "limits c = lim" and k: "k \<le> threads"
    using inv by (simp_all add: core_inv_def)
  then have np: "\<not> poisoned (sessions c)" by (simp add: store_ok_def)
  note l = live_indices_props [OF st]
  have f: "limits ?c1 = lim" "sessions ?c1 = sessions ?c0"
    "queue_frames (outbound ?c1) = queue_frames (outbound c)"
    "queue_capacity (outbound ?c1) = queue_capacity (outbound c)"
    "length (session_objs ?c1) = length (session_objs c)"
    "core_stats ?c1 = fold (\<lambda>i. session_closed (sess_rule_id (session_objs c ! i)))
       (live_indices c) (core_stats c)"
    and objs: "\<forall>j < length (session_objs c). session_objs ?c1 ! j =
       (if j \<in> set (live_indices c) then abort_reader (session_objs c ! j) else session_objs c ! j)"
    using fold_close_one [of "live_indices c" ?c0] l(1,2) lim by simp_all
  have q: "queue_usable (outbound c)" "queue_capacity (outbound c) = max_outbound_frames lim"
    using qo lim by (simp_all add: queue_ok_def)
  have "\<not> reader_running (session_objs ?c1 ! j)" if "j < length (session_objs c)" for j
    using that objs core_inv_reader [OF inv that] by (auto simp: live_indices_def)
  then have "store_ok ?c2"
    using np by (simp add: store_ok_def f)
  moreover have "rule_map ?c2 = Map.empty"
    by (simp add: rule_map_def f fun_eq_iff)
  moreover have "queue_stats (snd (queue_clear (outbound ?c1))) = core_stats ?c1"
    by (simp add: queue_clear_def Let_def)
  moreover have "queue_ok ?c2"
    using q by (simp add: queue_ok_def f queue_clear_def Let_def queue_usable_def queued_frames_def)
  moreover have "session_ok lim (session_objs ?c2 ! j)" if "j < length (session_objs c)" for j
    using that objs core_inv_session [OF inv that] by simp
  ultimately have "core_inv lim threads (?c2, k)"
    using stats_agree_close_all [OF st ag] k by (simp add: core_inv_def f)
  then show ?thesis using np by (simp add: close_all_sessions_def Let_def)
qed

lemma core_inv_check:
  assumes "core_inv lim threads (c, k)" and "ensure_agent_session_capacity c = Inr ()"
    and "k < threads"
  shows "core_inv lim threads (c, Suc k)"
  using assms
  by (auto simp: core_inv_def ensure_agent_session_capacity_def core_stats_snapshot_def
      stats_snapshot_def Let_def stats_agree_def split: if_splits)

lemma core_inv_step:
  assumes "core_step threads x y" and "core_inv lim threads x"
    and "max_sessions_per_agent lim - 1 + threads < 2 ^ 64 - 1"
  shows "core_inv lim threads y"
  using assms
proof (cases rule: core_step.cases)
  case (dial_failed c k)
  with assms(2) show ?thesis by (simp add: core_inv_def)
qed (use assms(2,3) in \<open>auto intro: core_inv_check core_inv_egress core_inv_ingress core_inv_data
      core_inv_recv core_inv_written core_inv_read core_inv_frames core_inv_close
      core_inv_close_all simp del: One_nat_def\<close>)

lemma core_inv_init: "core_inv lim threads (core_new lim, 0)"
  by (simp add: core_inv_def core_new_def core_new_internal_def store_ok_def queue_ok_def
      queue_usable_def queued_frames_def frame_queue_new_internal_def mutex_new_def
      stats_agree_def rule_map_def runtime_stats_default_def count_of_def)

lemma core_inv_reachable:
  assumes "core_reaches threads (core_new lim, 0) x"
    and "max_sessions_per_agent lim - 1 + threads < 2 ^ 64 - 1"
  shows "core_inv lim threads x"
  using assms
  by (induction "(core_new lim, 0 :: nat)" x rule: core_reaches.induct)
    (auto intro: core_inv_init core_inv_step)

section \<open>Properties of the session core\<close>


definition sample_core :: AsyncTunnelCore where
  "sample_core = snd (open_egress_finish 5 7 (core_new runtime_limits_default))"

lemma sample_core_reachable: "core_reaches 1 (core_new runtime_limits_default, 0) (sample_core, 0)"
proof -
  let ?c = "core_new runtime_limits_default"
  have "core_step 1 (?c, 0) (?c, Suc 0)"
    by (rule core_step.check)
      (simp_all add: ensure_agent_session_capacity_def core_stats_snapshot_def stats_snapshot_def
        core_new_def core_new_internal_def frame_queue_new_internal_def runtime_stats_default_def
        runtime_limits_default_def Let_def)
  moreover have "core_step 1 (?c, Suc 0) (sample_core, 0)"
    unfolding sample_core_def
    by (rule core_step.egress) (simp add: core_new_def core_new_internal_def mutex_new_def)
  ultimately show ?thesis
    by (meson core_reaches.refl core_reaches.step)
qed

lemma sample_core_sessions: "guarded (sessions sample_core) = [5 \<mapsto> 0]"
  by (simp add: sample_core_def open_egress_finish_def register_session_def core_new_def
      core_new_internal_def mutex_new_def Let_def spawn_session_tasks_def)


text \<open>
  Claim C11.  Memory is bounded under every interleaving: a session holds at most
  \<open>max_session_pending_bytes\<close> bytes for its TCP connection, in a channel of at most 64 payloads, and as
  long as its writer runs the pending counter is exactly the bytes it holds; the outbound queue never
  exceeds \<open>max_outbound_frames\<close>.
\<close>
theorem session_memory_bounded:
  assumes "core_reaches threads (core_new lim, 0) (c, k)"
    and "max_sessions_per_agent lim - 1 + threads < 2 ^ 64 - 1"
  shows "(\<forall>s \<in> set (session_objs c).
       held_bytes s \<le> max_session_pending_bytes lim \<and> length (channel s) \<le> SESSION_CHANNEL_FRAMES
       \<and> (writer_running s \<longrightarrow> pending_bytes s = held_bytes s))
    \<and> length (queued_frames (outbound c)) \<le> max_outbound_frames lim"
proof -
  have inv: "core_inv lim threads (c, k)" using core_inv_reachable [OF assms] .
  have ok: "session_ok lim s" if "s \<in> set (session_objs c)" for s
    using inv that by (auto simp: core_inv_def in_set_conv_nth)
  have "held_bytes s \<le> max_session_pending_bytes lim \<and> length (channel s) \<le> SESSION_CHANNEL_FRAMES
      \<and> (writer_running s \<longrightarrow> pending_bytes s = held_bytes s)" if "s \<in> set (session_objs c)" for s
    using ok [OF that] by (cases "writer_running s") (simp_all add: session_ok_def held_bytes_def)
  then show ?thesis
    using inv by (auto simp: core_inv_def queue_ok_def)
qed

theorem session_memory_bounded_witness:
  "core_reaches 1 (core_new runtime_limits_default, 0) (sample_core, 0)
   \<and> session_objs sample_core \<noteq> []
   \<and> held_bytes (hd (session_objs sample_core)) \<le> 4194304"
proof -
  have "session_objs sample_core \<noteq> []"
    by (simp add: sample_core_def open_egress_finish_def register_session_def core_new_def
        core_new_internal_def mutex_new_def Let_def spawn_session_tasks_def upd_session_def)
  with session_memory_bounded [OF sample_core_reachable] sample_core_reachable show ?thesis
    using hd_in_set [of "session_objs sample_core"] by (simp add: runtime_limits_default_def)
qed

text \<open>
  After a successful \<open>close_session\<close> the session is gone: it is not in the map, its reader
  has stopped, no frame of it is left in the outbound queue, and frames of other sessions are kept in
  order.
\<close>
theorem close_session_complete:
  assumes "core_inv lim threads (c, k)" and "close_session sid c = (Inr (), c')"
  shows "guarded (sessions c') = (guarded (sessions c))(sid := None)
    \<and> (\<forall>i. guarded (sessions c) sid = Some i \<longrightarrow> \<not> reader_running (session_objs c' ! i))
    \<and> queued_frames (outbound c') =
        filter (\<lambda>f. session_id f \<noteq> sid) (queued_frames (outbound c))"
proof -
  have np: "\<not> poisoned (sessions c)" and qu: "\<not> poisoned (queue_frames (outbound c))"
    using assms(1) by (simp_all add: core_inv_def store_ok_def queue_ok_def queue_usable_def)
  obtain i where i: "guarded (sessions c) sid = Some i"
    using assms(2) np by (auto simp: close_session_def Let_def split: option.splits)
  note len = store_ok_index [OF assms(1) i]
  have c': "c' = snd (close_session sid c)" using assms(2) by simp
  have "\<not> reader_running (session_objs c' ! i)"
    using core_inv_reader [OF assms(1) len] i np len
    by (auto simp: c' close_session_def Let_def nth_upd_session)
  moreover have "queued_frames (outbound c') =
      filter (\<lambda>f. session_id f \<noteq> sid) (queued_frames (outbound c))"
    using i np qu
    by (simp add: c' close_session_def Let_def upd_stats_def queued_frames_def
        remove_session_frames_def filter_map comp_def)
  moreover have "guarded (sessions c') = (guarded (sessions c))(sid := None)"
    using i np by (simp add: c' close_session_def Let_def)
  ultimately show ?thesis using i by simp
qed

theorem close_session_complete_witness:
  "\<exists>c'. close_session 5 sample_core = (Inr (), c') \<and> guarded (sessions c') = Map.empty
     \<and> \<not> reader_running (session_objs c' ! 0)"
proof -
  have inv: "core_inv runtime_limits_default 1 (sample_core, 0)"
    using core_inv_reachable [OF sample_core_reachable] by (simp add: runtime_limits_default_def)
  then have "\<not> poisoned (sessions sample_core)"
    by (simp add: core_inv_def store_ok_def)
  then obtain c' where c': "close_session 5 sample_core = (Inr (), c')"
    by (simp add: close_session_def Let_def sample_core_sessions)
  with close_session_complete [OF inv c'] show ?thesis by (simp add: sample_core_sessions)
qed

text \<open>
  Claim C13.  What a full outbound queue does to a session's data: bytes read from the TCP connection
  are counted as sent, but no frame carries them, the queue stays as it was, and the reader runs on.
\<close>
theorem reader_drops_when_full:
  assumes "queue_ok c" and "reader_running (session_objs c ! i)" and "data \<noteq> []"
    and "length (queued_frames (outbound c)) = max_outbound_frames (limits c)"
  shows "queued_frames (outbound (reader_step i now (TcpRead data) c)) = queued_frames (outbound c)
    \<and> stat_bytes_out (core_stats (reader_step i now (TcpRead data) c))
        = stat_bytes_out (core_stats c) + of_nat (length data)
    \<and> session_objs (reader_step i now (TcpRead data) c) = session_objs c
    \<and> sessions (reader_step i now (TcpRead data) c) = sessions c"
  using assms
  by (simp add: reader_step_def Let_def core_push_def try_push_def upd_stats_def queue_ok_def
      queue_usable_def queued_frames_def stats_bytes_out_def)

definition full_core :: AsyncTunnelCore where
  "full_core =
     (let lim = runtime_limits_default\<lparr>max_outbound_frames := 0\<rparr> in
      snd (open_egress_finish 5 7 (core_new lim)))"

lemmas core_eval = open_egress_finish_def register_session_def core_new_def core_new_internal_def
  mutex_new_def Let_def spawn_session_tasks_def upd_session_def upd_stats_def session_new_def
  frame_queue_new_internal_def session_opened_def

theorem reader_drops_when_full_witness:
  "queued_frames (outbound (reader_step 0 9 (TcpRead [1, 2, 3]) full_core)) = []
   \<and> stat_bytes_out (core_stats (reader_step 0 9 (TcpRead [1, 2, 3]) full_core)) = 3"
  using reader_drops_when_full [of full_core 0 "[1, 2, 3]" 9]
  by (simp add: full_core_def core_eval queue_ok_def queue_usable_def queued_frames_def
      runtime_stats_default_def)

text \<open>
  Claim C14.  An ingress connection whose \<open>SessionOpen\<close> frame finds the outbound queue full is refused,
  but it stays behind: the session is in the map and counted as active, with no reader that could ever
  remove it.
\<close>
theorem attach_failure_leaks:
  assumes "core_inv lim threads (c, Suc k)" and "guarded (sessions c) sid = None"
    and "max_sessions_per_agent lim - 1 + threads < 2 ^ 64 - 1"
    and "length (queued_frames (outbound c)) = max_outbound_frames lim"
    and "attach_ingress_finish now sid rule_id host port source c = (r, c')"
  shows "isl r
    \<and> guarded (sessions c') = (guarded (sessions c))(sid \<mapsto> length (session_objs c))
    \<and> unat (active_sessions (core_stats c')) = Suc (unat (active_sessions (core_stats c)))
    \<and> \<not> reader_running (session_objs c' ! length (session_objs c))"
proof -
  obtain r1 c1 where reg: "register_session sid rule_id LegIngress c = (r1, c1)" by fastforce
  note reg' = core_inv_register [OF assms(1-3) reg]
  have np: "\<not> poisoned (sessions c)" and lim: "limits c = lim" and qk: "queue_ok c"
    using assms(1) by (simp_all add: core_inv_def store_ok_def)
  have c1: "guarded (sessions c1) = (guarded (sessions c))(sid \<mapsto> length (session_objs c))"
    "queued_frames (outbound c1) = queued_frames (outbound c)" "limits c1 = limits c"
    using reg np by (auto simp: register_session_def Let_def upd_stats_def queued_frames_def)
  have full: "\<exists>e. core_push now f c1 = (Inl e, c1)" for f
    using reg' assms(4) arg_cong [OF c1(2), of length] c1(3) lim
    by (auto simp: core_push_def try_push_def Let_def core_inv_def queue_ok_def queue_usable_def
        queued_frames_def)
  have res: "isl r \<and> c' = c1"
  proof (cases "encode_session_open_payload \<lparr>open_rule_id = rule_id, listen_host = host,
      listen_port = port, source_addr = source\<rparr>")
    case (Inl e)
    then show ?thesis using assms(5) reg reg' by (auto simp: attach_ingress_finish_def)
  next
    case (Inr p)
    with full [of "\<lparr>frame_type = SessionOpen, leg = LegIngress, flags = 0, session_id = sid,
        payload = p\<rparr>"] assms(5) reg reg'
    show ?thesis by (auto simp: attach_ingress_finish_def)
  qed
  have "unat (active_sessions (core_stats c')) = card (dom (guarded (sessions c1)))"
    "unat (active_sessions (core_stats c)) = card (dom (guarded (sessions c)))"
    "finite (dom (guarded (sessions c)))"
    using reg' assms(1) res by (simp_all add: core_inv_def stats_agree_def)
  then show ?thesis
    using res reg' c1 assms(2) by (simp add: session_new_def domIff)
qed

theorem attach_failure_leaks_witness:
  "let lim = runtime_limits_default\<lparr>max_outbound_frames := 0\<rparr>;
       x = attach_ingress_finish 9 5 7 ''0.0.0.0'' 80 ''10.0.0.1:99'' (core_new lim)
   in isl (fst x) \<and> unat (active_sessions (core_stats (snd x))) = 1"
proof -
  let ?lim = "runtime_limits_default\<lparr>max_outbound_frames := 0\<rparr>"
  let ?x = "attach_ingress_finish 9 5 7 ''0.0.0.0'' 80 ''10.0.0.1:99'' (core_new ?lim)"
  have "ensure_agent_session_capacity (core_new ?lim) = Inr ()"
    by (simp add: ensure_agent_session_capacity_def core_stats_snapshot_def stats_snapshot_def
        core_eval runtime_stats_default_def runtime_limits_default_def)
  then have "core_inv ?lim 1 (core_new ?lim, Suc 0)"
    using core_inv_check [OF core_inv_init [of ?lim 1]] by simp
  moreover have "guarded (sessions (core_new ?lim)) 5 = None"
    "length (queued_frames (outbound (core_new ?lim))) = max_outbound_frames ?lim"
    "active_sessions (core_stats (core_new ?lim)) = 0"
    by (simp_all add: core_eval queued_frames_def runtime_stats_default_def)
  ultimately show ?thesis
    using attach_failure_leaks [of ?lim 1 "core_new ?lim" 0 5 9 7 "''0.0.0.0''" 80
        "''10.0.0.1:99''" "fst ?x" "snd ?x"]
    by (simp add: runtime_limits_default_def)
qed

text \<open>
  The endpoint the runtime binds is the one the preflight probed except for an IPv6
  literal without brackets, where the preflight adds brackets and the runtime does not.
\<close>
theorem listener_endpoint_agreement:
  "listener_endpoint spec \<noteq> tcp_endpoint (ingress_listen_address spec) (ingress_listen_port spec)
   \<longleftrightarrow> CHR '':'' \<in> set (trim (ingress_listen_address spec))
       \<and> \<not> starts_with (trim (ingress_listen_address spec)) ''[''"
proof -
  have "length (''['' @ h @ '']:'' @ p) \<noteq> length (h @ '':'' @ p)" for h p :: string by simp
  then have "h @ '':'' @ p \<noteq> ''['' @ h @ '']:'' @ p" for h p :: string by metis
  then show ?thesis by (simp add: listener_endpoint_def tcp_endpoint_def Let_def)
qed

end
