(* ===== verification/TunnelRuntime.thy ===== *)
theory TunnelRuntime
  imports TunnelReady TunnelCore "HOL-Library.Product_Lexorder" "HOL-Library.List_Lexorder"
    "HOL-Library.Char_ord"
begin

text \<open>
  The tunnel runtime, \<open>tunnel_runtime.rs\<close>: the rule state shared by the control and the data channel,
  the plan of listeners, the readiness report with its preflight and listener health, and
  \<open>TunnelTcpRuntime\<close>, which keeps the listeners of the session core in step with the plan and answers
  the frames of the server.  Binding a socket and dialling a target are parameters.
\<close>

section \<open>Listener specifications and rules\<close>

record TunnelTcpListenerSpec =
  spec_rule_id :: u64
  spec_name :: string
  spec_listen_address :: string
  spec_listen_port :: u16
  spec_target_host :: string
  spec_target_port :: u16
  spec_source_allowlist :: string
  spec_max_concurrent_sessions :: u32

definition listener_spec_for_rule :: "SelectedTunnelRule \<Rightarrow> TunnelTcpListenerSpec" where
  "listener_spec_for_rule rule =
     \<lparr>spec_rule_id = sel_id rule, spec_name = trim (sel_name rule),
      spec_listen_address = trim (sel_listen_address rule), spec_listen_port = sel_listen_port rule,
      spec_target_host = trim (sel_target_host rule), spec_target_port = sel_target_port rule,
      spec_source_allowlist = trim (sel_source_allowlist rule),
      spec_max_concurrent_sessions = sel_max_concurrent_sessions rule\<rparr>"

definition same_listener_endpoint :: "TunnelTcpListenerSpec \<Rightarrow> TunnelTcpListenerSpec \<Rightarrow> bool" where
  "same_listener_endpoint a b \<longleftrightarrow>
     trim (spec_listen_address a) = trim (spec_listen_address b)
     \<and> spec_listen_port a = spec_listen_port b
     \<and> trim (spec_source_allowlist a) = trim (spec_source_allowlist b)"

definition same_listener_identity :: "TunnelTcpListenerSpec \<Rightarrow> TunnelTcpListenerSpec \<Rightarrow> bool" where
  "same_listener_identity a b \<longleftrightarrow> spec_rule_id a = spec_rule_id b \<and> same_listener_endpoint a b"

definition normalize_data_transport_filter :: "string \<Rightarrow> string" where
  "normalize_data_transport_filter transport =
     (if eq_ignore_ascii_case (trim transport) TUNNEL_DATA_TRANSPORT_KTP_TCP
      then TUNNEL_DATA_TRANSPORT_KTP_TCP else TUNNEL_DATA_TRANSPORT_WEBSOCKET)"

definition rule_uses_data_transport :: "SelectedTunnelRule \<Rightarrow> string \<Rightarrow> bool" where
  "rule_uses_data_transport rule transport \<longleftrightarrow>
     eq_ignore_ascii_case (trim (data_transport rule)) (trim transport)"

definition build_tcp_listener_plan_for_data_transport ::
  "SelectedTunnelRule list \<Rightarrow> string \<Rightarrow> TunnelTcpListenerSpec list" where
  "build_tcp_listener_plan_for_data_transport rules transport =
     (let transport = normalize_data_transport_filter transport in
      sort_key spec_rule_id (map listener_spec_for_rule
        (filter (\<lambda>rule. sel_enabled rule
             \<and> eq_ignore_ascii_case (trim (sel_protocol rule)) ''tcp''
             \<and> rule_uses_data_transport rule transport
             \<and> trim (sel_role rule) \<in> {''ingress'', ''both''}) rules)))"

definition build_tcp_listener_plan :: "SelectedTunnelRule list \<Rightarrow> TunnelTcpListenerSpec list" where
  "build_tcp_listener_plan rules =
     build_tcp_listener_plan_for_data_transport rules TUNNEL_DATA_TRANSPORT_WEBSOCKET"

section \<open>Listener health\<close>

datatype TunnelListenerHealthStatus = Running | StartFailed | Stopped | RuntimeError

fun ready_status :: "TunnelListenerHealthStatus \<Rightarrow> string" where
  "ready_status Running = ''listener_running''"
| "ready_status StartFailed = ''listener_start_failed''"
| "ready_status Stopped = ''listener_stopped''"
| "ready_status RuntimeError = ''listener_runtime_error''"

record TunnelListenerHealth =
  health_spec :: TunnelTcpListenerSpec
  health_status :: TunnelListenerHealthStatus
  health_error :: string

definition health_running :: "TunnelTcpListenerSpec \<Rightarrow> TunnelListenerHealth" where
  "health_running spec = \<lparr>health_spec = spec, health_status = Running, health_error = []\<rparr>"

definition health_failure ::
  "TunnelTcpListenerSpec \<Rightarrow> TunnelListenerHealthStatus \<Rightarrow> string \<Rightarrow> TunnelListenerHealth" where
  "health_failure spec status error =
     \<lparr>health_spec = spec, health_status = status, health_error = trim error\<rparr>"

definition sort_listener_health :: "TunnelListenerHealth list \<Rightarrow> TunnelListenerHealth list" where
  "sort_listener_health =
     sort_key (\<lambda>h. (spec_rule_id (health_spec h), spec_listen_address (health_spec h),
                    spec_listen_port (health_spec h), spec_source_allowlist (health_spec h)))"

definition retain_listener_health_for_specs ::
  "TunnelTcpListenerSpec list \<Rightarrow> TunnelListenerHealth list \<Rightarrow> TunnelListenerHealth list" where
  "retain_listener_health_for_specs specs health =
     filter (\<lambda>h. list_ex (\<lambda>spec. same_listener_identity (health_spec h) spec) specs) health"

section \<open>The shared rule state\<close>

record TunnelRuleSharedState =
  state_revision :: string
  state_rules :: "SelectedTunnelRule list"
  active_listeners :: "TunnelTcpListenerSpec list"
  listener_health :: "TunnelListenerHealth list"

type_synonym SharedTunnelRuleState = "TunnelRuleSharedState mutex"

definition rule_state_new :: SharedTunnelRuleState where
  "rule_state_new = mutex_new \<lparr>state_revision = [], state_rules = [], active_listeners = [], listener_health = []\<rparr>"

text \<open>Every method locks, and does nothing when the lock is poisoned.\<close>

definition with_lock :: "('a \<Rightarrow> 'a) \<Rightarrow> 'a mutex \<Rightarrow> 'a mutex" where
  "with_lock g m = (if poisoned m then m else m\<lparr>guarded := g (guarded m)\<rparr>)"

definition snapshot_rules :: "SharedTunnelRuleState \<Rightarrow> SelectedTunnelRule list" where
  "snapshot_rules m = (if poisoned m then [] else state_rules (guarded m))"

definition tcp_listener_plan_for_data_transport ::
  "SharedTunnelRuleState \<Rightarrow> string \<Rightarrow> TunnelTcpListenerSpec list" where
  "tcp_listener_plan_for_data_transport m transport =
     build_tcp_listener_plan_for_data_transport (snapshot_rules m) transport"

definition set_listener_health ::
  "TunnelListenerHealth \<Rightarrow> SharedTunnelRuleState \<Rightarrow> SharedTunnelRuleState" where
  "set_listener_health health = with_lock (\<lambda>st.
     st\<lparr>listener_health := sort_listener_health
          (filter (\<lambda>h. \<not> same_listener_identity (health_spec h) (health_spec health)) (listener_health st)
           @ [health])\<rparr>)"

definition set_listener_running ::
  "TunnelTcpListenerSpec \<Rightarrow> SharedTunnelRuleState \<Rightarrow> SharedTunnelRuleState" where
  "set_listener_running spec = set_listener_health (health_running spec)"

definition set_listener_start_failed ::
  "TunnelTcpListenerSpec \<Rightarrow> string \<Rightarrow> SharedTunnelRuleState \<Rightarrow> SharedTunnelRuleState" where
  "set_listener_start_failed spec error = set_listener_health (health_failure spec StartFailed error)"

definition set_listener_stopped ::
  "TunnelTcpListenerSpec \<Rightarrow> string \<Rightarrow> SharedTunnelRuleState \<Rightarrow> SharedTunnelRuleState" where
  "set_listener_stopped spec error = set_listener_health (health_failure spec Stopped error)"

definition set_listener_runtime_error ::
  "TunnelTcpListenerSpec \<Rightarrow> string \<Rightarrow> SharedTunnelRuleState \<Rightarrow> SharedTunnelRuleState" where
  "set_listener_runtime_error spec error = set_listener_health (health_failure spec RuntimeError error)"

definition state_retain_listener_health ::
  "TunnelTcpListenerSpec list \<Rightarrow> SharedTunnelRuleState \<Rightarrow> SharedTunnelRuleState" where
  "state_retain_listener_health specs = with_lock (\<lambda>st.
     st\<lparr>listener_health := retain_listener_health_for_specs specs (listener_health st)\<rparr>)"

fun add_missing_health ::
  "TunnelTcpListenerSpec list \<Rightarrow> TunnelListenerHealth list \<Rightarrow> TunnelListenerHealth list" where
  "add_missing_health [] health = health"
| "add_missing_health (l # ls) health =
     add_missing_health ls
       (if list_ex (\<lambda>h. same_listener_identity (health_spec h) l) health then health
        else health @ [health_running l])"

definition set_active_tcp_listeners ::
  "TunnelTcpListenerSpec list \<Rightarrow> SharedTunnelRuleState \<Rightarrow> SharedTunnelRuleState" where
  "set_active_tcp_listeners listeners = with_lock (\<lambda>st.
     let listeners = sort_key spec_rule_id listeners;
         kept = filter (\<lambda>h. health_status h \<noteq> Running
                    \<or> list_ex (\<lambda>l. same_listener_identity (health_spec h) l) listeners) (listener_health st)
     in st\<lparr>active_listeners := listeners,
           listener_health := sort_listener_health (add_missing_health listeners kept)\<rparr>)"

definition update_rules ::
  "string \<Rightarrow> SelectedTunnelRule list \<Rightarrow> SharedTunnelRuleState \<Rightarrow> SharedTunnelRuleState" where
  "update_rules rev_text new_rules = with_lock (\<lambda>st.
     let plan = build_tcp_listener_plan new_rules in
     st\<lparr>state_revision := trim rev_text, state_rules := new_rules,
        active_listeners := filter (\<lambda>l. list_ex (\<lambda>spec. same_listener_identity l spec) plan)
                              (active_listeners st),
        listener_health := retain_listener_health_for_specs plan (listener_health st)\<rparr>)"

section \<open>The readiness report\<close>

definition push_failure_once ::
  "u64 \<Rightarrow> string \<Rightarrow> string \<Rightarrow> TunnelDataReadyState \<Rightarrow> TunnelDataReadyState" where
  "push_failure_once rid status error ready =
     (let f = \<lparr>failure_rule_id = rid, failure_status = status, failure_error = error\<rparr> in
      if f \<in> set (failed_rules ready) then ready
      else ready\<lparr>failed_rules := failed_rules ready @ [f]\<rparr>)"

definition push_listener_failure_once ::
  "u64 \<Rightarrow> string \<Rightarrow> string \<Rightarrow> TunnelDataReadyState \<Rightarrow> TunnelDataReadyState" where
  "push_listener_failure_once rid status error ready = push_failure_once rid status (trim error) ready"

definition push_preflight_failure_once ::
  "TunnelPreflightIssue \<Rightarrow> TunnelDataReadyState \<Rightarrow> TunnelDataReadyState" where
  "push_preflight_failure_once issue ready =
     push_failure_once (issue_rule_id issue) (tunnel_preflight_status (issue_code issue))
       (issue_message issue) ready"

definition push_unsupported_data_transport_failure_once ::
  "SelectedTunnelRule \<Rightarrow> TunnelDataReadyState \<Rightarrow> TunnelDataReadyState" where
  "push_unsupported_data_transport_failure_once rule ready =
     push_failure_once (sel_id rule) ''unsupported_data_transport''
       (''data transport '' @ data_transport rule @ '' is not handled by websocket tunnel data runtime'')
       ready"

definition tcp_target_addr :: "string \<Rightarrow> u16 \<Rightarrow> string" where
  "tcp_target_addr host port =
     (let h = trim host in
      if CHR '':'' \<in> set h \<and> \<not> starts_with h ''[''
      then ''['' @ h @ '']:'' @ show_nat (unat port)
      else h @ '':'' @ show_nat (unat port))"

definition push_listener_health_failure ::
  "SelectedTunnelRule \<Rightarrow> TunnelTcpListenerSpec list \<Rightarrow> TunnelListenerHealth list
   \<Rightarrow> TunnelDataReadyState \<Rightarrow> bool \<times> TunnelDataReadyState" where
  "push_listener_health_failure rule active health ready =
     (let expected = listener_spec_for_rule rule;
          is_active = list_ex (\<lambda>l. same_listener_identity l expected) active;
          not_running = push_listener_failure_once (sel_id rule) (ready_status Stopped)
            (''listener is not running on ''
             @ tcp_target_addr (spec_listen_address expected) (spec_listen_port expected))
      in case List.find (\<lambda>h. same_listener_identity (health_spec h) expected) health of
           Some h \<Rightarrow>
             if health_status h = Running \<and> is_active then (False, ready)
             else if health_status h = Running then (True, not_running ready)
             else (True, push_listener_failure_once (sel_id rule) (ready_status (health_status h))
                     (let error = trim (health_error h)
                      in if error = [] then ''listener is not running'' else error) ready)
         | None \<Rightarrow> (True, not_running ready))"

definition filter_runtime_owned_listener_bind_failure ::
  "SelectedTunnelRule \<Rightarrow> TunnelPreflightSide \<Rightarrow> TunnelPreflightIssue list \<Rightarrow> TunnelTcpListenerSpec list
   \<Rightarrow> TunnelPreflightIssue list" where
  "filter_runtime_owned_listener_bind_failure rule side issues active =
     (if side \<noteq> SideIngress
         \<or> \<not> list_ex (\<lambda>l. same_listener_identity l (listener_spec_for_rule rule)) active
      then issues
      else filter (\<lambda>issue. issue_code issue \<noteq> ListenBindFailed) issues)"

definition preflight_input :: "SelectedTunnelRule \<Rightarrow> TunnelTcpRulePreflightInput" where
  "preflight_input rule =
     \<lparr>input_rule_id = sel_id rule, input_listen_address = sel_listen_address rule,
      input_listen_port = sel_listen_port rule, input_target_host = sel_target_host rule,
      input_target_port = sel_target_port rule, input_source_allowlist = sel_source_allowlist rule\<rparr>"

definition apply_ready_side ::
  "(string \<Rightarrow> string option) \<Rightarrow> bool \<Rightarrow> SelectedTunnelRule \<Rightarrow> TunnelPreflightSide
   \<Rightarrow> TunnelTcpListenerSpec list \<Rightarrow> TunnelListenerHealth list
   \<Rightarrow> TunnelDataReadyState \<Rightarrow> TunnelDataReadyState" where
  "apply_ready_side bind linux rule side active health ready =
     (let issues = filter_runtime_owned_listener_bind_failure rule side
            (validate_tunnel_tcp_rule_for_side bind linux (preflight_input rule) side) active;
          has_unsupported_os = list_ex (\<lambda>issue. issue_code issue = UnsupportedOs) issues;
          (blocked, ready) =
            (if side = SideIngress \<and> \<not> has_unsupported_os
             then push_listener_health_failure rule active health ready else (False, ready));
          ready = fold push_preflight_failure_once issues ready
      in if blocked \<or> issues \<noteq> [] then ready
         else case side of
           SideIngress \<Rightarrow> push_ingress (sel_id rule) ready
         | SideEgress \<Rightarrow> push_egress (sel_id rule) ready)"

definition apply_ready_rule ::
  "(string \<Rightarrow> string option) \<Rightarrow> bool \<Rightarrow> TunnelTcpListenerSpec list \<Rightarrow> TunnelListenerHealth list \<Rightarrow> string
   \<Rightarrow> SelectedTunnelRule \<Rightarrow> TunnelDataReadyState \<Rightarrow> TunnelDataReadyState" where
  "apply_ready_rule bind linux active health transport rule ready =
     (let side = (\<lambda>s. apply_ready_side bind linux rule s active health);
          role = to_ascii_lowercase (trim (sel_role rule))
      in
      if \<not> sel_enabled rule \<or> to_ascii_lowercase (trim (sel_protocol rule)) \<noteq> ''tcp'' then ready
      else if \<not> rule_uses_data_transport rule transport then
        (if transport = TUNNEL_DATA_TRANSPORT_WEBSOCKET
         then push_unsupported_data_transport_failure_once rule ready else ready)
      else if role = ''ingress'' then side SideIngress ready
      else if role = ''egress'' then side SideEgress ready
      else if role = ''both'' then side SideEgress (side SideIngress ready)
      else ready)"

definition build_tunnel_ready_state_with_listener_health_for_data_transport ::
  "(string \<Rightarrow> string option) \<Rightarrow> bool \<Rightarrow> string \<Rightarrow> SelectedTunnelRule list \<Rightarrow> TunnelTcpListenerSpec list
   \<Rightarrow> TunnelListenerHealth list \<Rightarrow> string \<Rightarrow> TunnelDataReadyState" where
  "build_tunnel_ready_state_with_listener_health_for_data_transport bind linux rev_text rs active health transport =
     (let transport = normalize_data_transport_filter transport in
      sort_rule_ids (fold (apply_ready_rule bind linux active health transport) rs (ready_empty rev_text)))"

definition build_tunnel_ready_state ::
  "(string \<Rightarrow> string option) \<Rightarrow> bool \<Rightarrow> string \<Rightarrow> SelectedTunnelRule list \<Rightarrow> TunnelDataReadyState" where
  "build_tunnel_ready_state bind linux rev_text rs =
     build_tunnel_ready_state_with_listener_health_for_data_transport bind linux rev_text rs [] []
       TUNNEL_DATA_TRANSPORT_WEBSOCKET"

definition current_ready_for_data_transport ::
  "(string \<Rightarrow> string option) \<Rightarrow> bool \<Rightarrow> SharedTunnelRuleState \<Rightarrow> string \<Rightarrow> TunnelDataReadyState" where
  "current_ready_for_data_transport bind linux m transport =
     (if poisoned m
      then build_tunnel_ready_state_with_listener_health_for_data_transport bind linux [] [] [] [] transport
      else let st = guarded m in
        build_tunnel_ready_state_with_listener_health_for_data_transport bind linux (state_revision st)
          (state_rules st) (active_listeners st) (listener_health st) transport)"

section \<open>The runtime\<close>

text \<open>
  \<open>rt_listeners\<close> is the map of running listeners.  The order in which its values are visited does not
  matter, because every use sorts them by rule.  \<open>rt_events\<close> is what the listener event channel holds.
\<close>

record TunnelTcpRuntime =
  rt_rule_state :: SharedTunnelRuleState
  rt_data_transport :: string
  rt_core :: AsyncTunnelCore
  rt_listeners :: "(u64 \<times> TunnelTcpListenerSpec) list"
  rt_events :: "TunnelTcpListenerSpec list"

definition runtime_new_internal ::
  "SharedTunnelRuleState \<Rightarrow> TunnelRuntimeLimits \<Rightarrow> string \<Rightarrow> TunnelFrameReadyNotifier option \<Rightarrow> TunnelTcpRuntime" where
  "runtime_new_internal rule_state lim transport notifier =
     \<lparr>rt_rule_state = rule_state, rt_data_transport = normalize_data_transport_filter transport,
      rt_core = core_new_internal lim notifier, rt_listeners = [], rt_events = []\<rparr>"

definition tunnel_async_listener_spec :: "TunnelTcpListenerSpec \<Rightarrow> TunnelIngressListenerSpec" where
  "tunnel_async_listener_spec spec =
     \<lparr>ingress_rule_id = spec_rule_id spec, ingress_listen_address = spec_listen_address spec,
      ingress_listen_port = spec_listen_port spec, ingress_source_allowlist = spec_source_allowlist spec\<rparr>"

definition sync_active_listener_snapshot :: "TunnelTcpRuntime \<Rightarrow> TunnelTcpRuntime" where
  "sync_active_listener_snapshot rt =
     rt\<lparr>rt_rule_state := set_active_tcp_listeners (map snd (rt_listeners rt)) (rt_rule_state rt)\<rparr>"

definition stop_listener :: "u64 \<Rightarrow> TunnelTcpRuntime \<Rightarrow> TunnelTcpRuntime" where
  "stop_listener rid rt =
     rt\<lparr>rt_core := snd (stop_ingress_listener rid (rt_core rt)),
        rt_listeners := filter (\<lambda>(r, _). r \<noteq> rid) (rt_listeners rt)\<rparr>"

fun drain_events ::
  "TunnelTcpListenerSpec list \<Rightarrow> TunnelTcpRuntime \<Rightarrow> TunnelTcpListenerSpec list \<times> TunnelTcpRuntime" where
  "drain_events [] rt = ([], rt)"
| "drain_events (ev # evs) rt =
     (case map_of (rt_listeners rt) (spec_rule_id ev) of
        Some spec \<Rightarrow>
          if same_listener_identity spec ev
          then (case drain_events evs (stop_listener (spec_rule_id ev) rt) of
                  (terminal, rt) \<Rightarrow> (ev # terminal, rt))
          else drain_events evs rt
      | None \<Rightarrow> drain_events evs rt)"

definition drain_listener_runtime_events ::
  "TunnelTcpRuntime \<Rightarrow> TunnelTcpListenerSpec list \<times> TunnelTcpRuntime" where
  "drain_listener_runtime_events rt =
     (case drain_events (rt_events rt) (rt\<lparr>rt_events := []\<rparr>) of
        (terminal, rt) \<Rightarrow>
          (terminal, if terminal \<noteq> [] then sync_active_listener_snapshot rt else rt))"

definition should_keep :: "TunnelTcpListenerSpec list \<Rightarrow> u64 \<times> TunnelTcpListenerSpec \<Rightarrow> bool" where
  "should_keep plan = (\<lambda>(rid, spec).
     (case List.find (\<lambda>p. spec_rule_id p = rid) plan of
        Some p \<Rightarrow> same_listener_endpoint p spec
      | None \<Rightarrow> False))"

definition retain_listener ::
  "TunnelTcpListenerSpec list \<Rightarrow> u64 \<times> TunnelTcpListenerSpec \<Rightarrow> TunnelTcpRuntime \<Rightarrow> TunnelTcpRuntime" where
  "retain_listener plan x rt = (if should_keep plan x then rt else stop_listener (fst x) rt)"

definition retain_planned :: "TunnelTcpListenerSpec list \<Rightarrow> TunnelTcpRuntime \<Rightarrow> TunnelTcpRuntime" where
  "retain_planned plan rt = fold (retain_listener plan) (rt_listeners rt) rt"

definition start_planned ::
  "(TunnelTcpRuntime \<Rightarrow> string \<Rightarrow> string option) \<Rightarrow> TunnelTcpListenerSpec list \<Rightarrow> TunnelTcpListenerSpec
   \<Rightarrow> TunnelTcpRuntime \<Rightarrow> TunnelTcpRuntime" where
  "start_planned bind terminal spec rt =
     (if map_of (rt_listeners rt) (spec_rule_id spec) \<noteq> None then rt
      else if list_ex (\<lambda>t. same_listener_identity t spec) terminal then rt
      else case start_ingress_listener (bind rt) (tunnel_async_listener_spec spec) (rt_core rt) of
        (Inr _, core) \<Rightarrow>
          rt\<lparr>rt_core := core, rt_rule_state := set_listener_running spec (rt_rule_state rt),
             rt_listeners := rt_listeners rt @ [(spec_rule_id spec, spec)]\<rparr>
      | (Inl error, core) \<Rightarrow>
          rt\<lparr>rt_core := core, rt_rule_state :=
               set_listener_start_failed spec (runtime_message error) (rt_rule_state rt)\<rparr>)"

definition refresh_listeners ::
  "(TunnelTcpRuntime \<Rightarrow> string \<Rightarrow> string option) \<Rightarrow> TunnelTcpRuntime \<Rightarrow> TunnelTcpRuntime" where
  "refresh_listeners bind rt =
     (case drain_listener_runtime_events rt of
        (terminal, rt) \<Rightarrow>
          let plan = tcp_listener_plan_for_data_transport (rt_rule_state rt) (rt_data_transport rt);
              rt = rt\<lparr>rt_rule_state := state_retain_listener_health plan (rt_rule_state rt)\<rparr>;
              rt = sync_active_listener_snapshot (retain_planned plan rt)
          in sync_active_listener_snapshot (fold (start_planned bind terminal) plan rt))"

definition active_session_count :: "TunnelTcpRuntime \<Rightarrow> nat" where
  "active_session_count rt = snap_active_sessions (core_stats_snapshot (rt_core rt))"

section \<open>Frames of the server\<close>

definition runtime_error_to_transport :: "TunnelRuntimeError \<Rightarrow> TransportError" where
  "runtime_error_to_transport e = RequestFailed (show_runtime_error e)"

definition split_runtime_error_message :: "string \<Rightarrow> string \<times> string" where
  "split_runtime_error_message message =
     (case split_once_str '': '' message of Some (code, detail) \<Rightarrow> (code, detail) | None \<Rightarrow> (message, message))"

definition session_error_frame ::
  "u64 \<Rightarrow> FrameLeg \<Rightarrow> u64 \<Rightarrow> string \<Rightarrow> string \<Rightarrow> TransportError + KtpFrame" where
  "session_error_frame sid l rid code message =
     map_err (\<lambda>e. RequestFailed (show_session_payload_error e))
       (bind_result (encode_session_error_payload
          \<lparr>error_rule_id = rid, error_code = code, error_message = message\<rparr>)
        (\<lambda>p. Inr \<lparr>frame_type = SessionError, leg = l, flags = 0, session_id = sid, payload = p\<rparr>))"

definition find_egress_rule :: "TunnelTcpRuntime \<Rightarrow> u64 \<Rightarrow> SelectedTunnelRule option" where
  "find_egress_rule rt rid =
     List.find (\<lambda>rule. sel_id rule = rid \<and> sel_enabled rule
          \<and> eq_ignore_ascii_case (trim (sel_protocol rule)) ''tcp''
          \<and> rule_uses_data_transport rule (rt_data_transport rt)
          \<and> trim (sel_role rule) \<in> {''egress'', ''both''})
       (snapshot_rules (rt_rule_state rt))"

text \<open>One error frame as the answer, unless even that cannot be encoded.\<close>

definition answer_error ::
  "u64 \<Rightarrow> u64 \<Rightarrow> string \<Rightarrow> string \<Rightarrow> TransportError + KtpFrame list" where
  "answer_error sid rid code message =
     bind_result (session_error_frame sid LegEgress rid code message) (\<lambda>f. Inr [f])"

definition handle_egress_open ::
  "(string \<Rightarrow> dial_result) \<Rightarrow> KtpFrame \<Rightarrow> TunnelTcpRuntime
   \<Rightarrow> (TransportError + KtpFrame list) \<times> TunnelTcpRuntime" where
  "handle_egress_open dial frame rt =
     (case decode_session_open_payload (payload frame) of
        Inl error \<Rightarrow>
          (answer_error (session_id frame) 0 ''protocol_error'' (show_session_payload_error error), rt)
      | Inr opened \<Rightarrow>
          (case find_egress_rule rt (open_rule_id opened) of
             None \<Rightarrow>
               (answer_error (session_id frame) (open_rule_id opened) ''runtime_unavailable''
                  ''egress rule is not ready'', rt)
           | Some rule \<Rightarrow>
               (case open_egress_session dial (session_id frame) (sel_id rule) (sel_target_host rule)
                       (sel_target_port rule) (rt_core rt) of
                  (Inr frames, core) \<Rightarrow> (Inr frames, rt\<lparr>rt_core := core\<rparr>)
                | (Inl error, core) \<Rightarrow>
                    (case split_runtime_error_message (show_runtime_error error) of
                       (code, detail) \<Rightarrow>
                         (answer_error (session_id frame) (sel_id rule) code detail,
                          rt\<lparr>rt_core := core\<rparr>)))))"

definition handle_server_frame ::
  "(string \<Rightarrow> dial_result) \<Rightarrow> KtpFrame \<Rightarrow> TunnelTcpRuntime
   \<Rightarrow> (TransportError + KtpFrame list) \<times> TunnelTcpRuntime" where
  "handle_server_frame dial frame rt =
     (if frame_type frame = SessionOpen \<and> leg frame = LegEgress then handle_egress_open dial frame rt
      else if frame_type frame = SessionData then
        (case handle_session_data (session_id frame) (payload frame) (rt_core rt) of
           (Inl error, core) \<Rightarrow>
             (if runtime_code error \<noteq> ''runtime_unavailable''
              then Inl (runtime_error_to_transport error) else Inr [], rt\<lparr>rt_core := core\<rparr>)
         | (Inr _, core) \<Rightarrow> (Inr [], rt\<lparr>rt_core := core\<rparr>))
      else if frame_type frame \<in> {SessionClose, SessionError} then
        (Inr [], rt\<lparr>rt_core := snd (close_session (session_id frame) (rt_core rt))\<rparr>)
      else (Inr [], rt))"

definition runtime_close_all_sessions ::
  "TunnelTcpRuntime \<Rightarrow> (TransportError + unit) \<times> TunnelTcpRuntime" where
  "runtime_close_all_sessions rt =
     (case close_all_sessions (rt_core rt) of
        (r, core) \<Rightarrow> (map_err runtime_error_to_transport r, rt\<lparr>rt_core := core\<rparr>))"

definition next_client_frames :: "Instant \<Rightarrow> nat \<Rightarrow> TunnelTcpRuntime \<Rightarrow> KtpFrame list \<times> TunnelTcpRuntime" where
  "next_client_frames now max_frames rt =
     (case core_next_frames now max_frames (rt_core rt) of (fs, core) \<Rightarrow> (fs, rt\<lparr>rt_core := core\<rparr>))"

definition next_client_frames_after_wait ::
  "Instant \<Rightarrow> nat \<Rightarrow> Duration \<Rightarrow> (AsyncTunnelFrameQueue \<Rightarrow> AsyncTunnelFrameQueue) \<Rightarrow> TunnelTcpRuntime
   \<Rightarrow> KtpFrame list \<times> TunnelTcpRuntime" where
  "next_client_frames_after_wait now max_frames timeout meanwhile rt =
     (case core_next_frames_after_wait now max_frames timeout meanwhile (rt_core rt) of
        (fs, core) \<Rightarrow> (fs, rt\<lparr>rt_core := core\<rparr>))"

definition client_frame_batch_limit :: "nat \<Rightarrow> TunnelTcpRuntime \<Rightarrow> nat" where
  "client_frame_batch_limit requested rt = effective_outbound_batch_frames requested (rt_core rt)"

definition tunnel_data_client_frame_wait_timeout :: "TunnelTcpRuntime \<Rightarrow> Duration option" where
  "tunnel_data_client_frame_wait_timeout rt =
     (if rt_data_transport rt = TUNNEL_DATA_TRANSPORT_KTP_TCP then Some (100 * 1000) else None)"

definition tunnel_data_socket_idle_timeout :: "TunnelTcpRuntime \<Rightarrow> Duration option" where
  "tunnel_data_socket_idle_timeout rt =
     (if rt_data_transport rt = TUNNEL_DATA_TRANSPORT_KTP_TCP then Some (from_millis 10) else None)"

section \<open>Lemmas on listener identities and the shared state\<close>

lemma same_identity_refl [simp]: "same_listener_identity a a"
  by (simp add: same_listener_identity_def same_listener_endpoint_def)

lemma same_identity_sym: "same_listener_identity a b \<longleftrightarrow> same_listener_identity b a"
  by (auto simp: same_listener_identity_def same_listener_endpoint_def)

lemma same_identity_trans:
  "same_listener_identity a b \<Longrightarrow> same_listener_identity b c \<Longrightarrow> same_listener_identity a c"
  by (simp add: same_listener_identity_def same_listener_endpoint_def)

lemma same_identity_id: "same_listener_identity a b \<Longrightarrow> spec_rule_id a = spec_rule_id b"
  by (simp add: same_listener_identity_def)

lemma with_lock_simps [simp]:
  "poisoned (with_lock g m) = poisoned m"
  "\<not> poisoned m \<Longrightarrow> guarded (with_lock g m) = g (guarded m)"
  by (simp_all add: with_lock_def)

lemma set_listener_health_simps [simp]:
  assumes "\<not> poisoned m"
  shows "\<not> poisoned (set_listener_health h m)"
    "state_rules (guarded (set_listener_health h m)) = state_rules (guarded m)"
    "active_listeners (guarded (set_listener_health h m)) = active_listeners (guarded m)"
    "set (listener_health (guarded (set_listener_health h m))) =
       insert h {g \<in> set (listener_health (guarded m)).
                   \<not> same_listener_identity (health_spec g) (health_spec h)}"
  using assms by (auto simp: set_listener_health_def sort_listener_health_def)

lemma add_missing_health_keeps: "set health \<subseteq> set (add_missing_health ls health)"
  by (induction ls arbitrary: health) fastforce+

lemma set_active_simps [simp]:
  assumes "\<not> poisoned m"
  shows "\<not> poisoned (set_active_tcp_listeners ls m)"
    "state_rules (guarded (set_active_tcp_listeners ls m)) = state_rules (guarded m)"
    "active_listeners (guarded (set_active_tcp_listeners ls m)) = sort_key spec_rule_id ls"
  using assms by (simp_all add: set_active_tcp_listeners_def Let_def)

lemma set_active_keeps_failures:
  assumes "\<not> poisoned m" and "h \<in> set (listener_health (guarded m))" and "health_status h \<noteq> Running"
  shows "h \<in> set (listener_health (guarded (set_active_tcp_listeners ls m)))"
  using assms add_missing_health_keeps
  by (fastforce simp: set_active_tcp_listeners_def Let_def sort_listener_health_def)

section \<open>Listeners in step with the core\<close>

text \<open>
  The runtime's map has one entry per rule, under the rule of its specification, and the core listens for
  exactly these rules with their addresses and allowlists.
\<close>

definition rt_ok :: "TunnelTcpRuntime \<Rightarrow> bool" where
  "rt_ok rt \<longleftrightarrow>
     distinct (map fst (rt_listeners rt))
     \<and> (\<forall>(rid, spec) \<in> set (rt_listeners rt). spec_rule_id spec = rid)
     \<and> \<not> poisoned (core_listeners (rt_core rt))
     \<and> (\<forall>rid. guarded (core_listeners (rt_core rt)) rid
               = map_option tunnel_async_listener_spec (map_of (rt_listeners rt) rid))"

lemma map_of_drop_key: "map_of (filter (\<lambda>(r, _). r \<noteq> rid) xs) = (map_of xs)(rid := None)"
  by (induction xs) (auto simp: fun_eq_iff)

lemma rt_ok_rule_state [simp]: "rt_ok (rt\<lparr>rt_rule_state := m\<rparr>) = rt_ok rt"
  by (simp add: rt_ok_def)

lemma sync_simps [simp]:
  "rt_ok (sync_active_listener_snapshot rt) = rt_ok rt"
  "rt_listeners (sync_active_listener_snapshot rt) = rt_listeners rt"
  "rt_core (sync_active_listener_snapshot rt) = rt_core rt"
  "rt_data_transport (sync_active_listener_snapshot rt) = rt_data_transport rt"
  by (simp_all add: sync_active_listener_snapshot_def)

lemma stop_listener_simps [simp]:
  "rt_rule_state (stop_listener rid rt) = rt_rule_state rt"
  "rt_data_transport (stop_listener rid rt) = rt_data_transport rt"
  "rt_listeners (stop_listener rid rt) = filter (\<lambda>(r, _). r \<noteq> rid) (rt_listeners rt)"
  by (simp_all add: stop_listener_def)

lemma rt_ok_stop: "rt_ok rt \<Longrightarrow> rt_ok (stop_listener rid rt)"
  by (auto simp: rt_ok_def stop_listener_def stop_ingress_listener_def Let_def map_of_drop_key
      distinct_map_filter)

lemma retain_fold:
  "rt_ok rt \<Longrightarrow> rt' = fold (retain_listener plan) xs rt \<Longrightarrow>
   rt_ok rt' \<and> rt_rule_state rt' = rt_rule_state rt \<and> rt_data_transport rt' = rt_data_transport rt
   \<and> rt_listeners rt' =
       filter (\<lambda>(r, _). \<forall>x \<in> set xs. should_keep plan x \<or> r \<noteq> fst x) (rt_listeners rt)"
proof (induction xs arbitrary: rt)
  case (Cons x xs)
  then show ?case
    by (cases "should_keep plan x") (auto simp: retain_listener_def rt_ok_stop intro!: filter_cong)
qed simp

lemma retain_planned_props:
  assumes "rt_ok rt"
  shows "rt_ok (retain_planned plan rt)" "rt_rule_state (retain_planned plan rt) = rt_rule_state rt"
    "rt_data_transport (retain_planned plan rt) = rt_data_transport rt"
    "rt_listeners (retain_planned plan rt) = filter (should_keep plan) (rt_listeners rt)"
proof -
  note r = retain_fold [OF assms, of "retain_planned plan rt" plan "rt_listeners rt"]
  show "rt_ok (retain_planned plan rt)" "rt_rule_state (retain_planned plan rt) = rt_rule_state rt"
    "rt_data_transport (retain_planned plan rt) = rt_data_transport rt"
    using r by (simp_all add: retain_planned_def)
  have "(\<forall>x \<in> set (rt_listeners rt). should_keep plan x \<or> fst y \<noteq> fst x) \<longleftrightarrow> should_keep plan y"
    if "y \<in> set (rt_listeners rt)" for y
    using that assms by (auto simp: rt_ok_def distinct_map dest: inj_onD)
  then have "filter (\<lambda>(r, _). \<forall>x \<in> set (rt_listeners rt). should_keep plan x \<or> r \<noteq> fst x) (rt_listeners rt)
      = filter (should_keep plan) (rt_listeners rt)"
    by (intro filter_cong) (simp_all add: case_prod_beta)
  then show "rt_listeners (retain_planned plan rt) = filter (should_keep plan) (rt_listeners rt)"
    using r by (simp add: retain_planned_def)
qed

text \<open>One planned listener is started, or its failure is recorded.\<close>

lemma start_planned_cases:
  assumes "rt_ok rt"
  obtains (skip) "start_planned bind terminal spec rt = rt"
      and "spec_rule_id spec \<in> fst ` set (rt_listeners rt) \<or> terminal \<noteq> []"
    | (started) "spec_rule_id spec \<notin> fst ` set (rt_listeners rt)"
      and "start_planned bind terminal spec rt =
        rt\<lparr>rt_core := rt_core rt\<lparr>core_listeners := (core_listeners (rt_core rt))
               \<lparr>guarded := (guarded (core_listeners (rt_core rt)))
                  (spec_rule_id spec \<mapsto> tunnel_async_listener_spec spec)\<rparr>\<rparr>,
           rt_rule_state := set_listener_running spec (rt_rule_state rt),
           rt_listeners := rt_listeners rt @ [(spec_rule_id spec, spec)]\<rparr>"
    | (failed) error where "start_planned bind terminal spec rt =
        rt\<lparr>rt_rule_state := set_listener_start_failed spec error (rt_rule_state rt)\<rparr>"
proof (cases "spec_rule_id spec \<in> fst ` set (rt_listeners rt) \<or> list_ex (\<lambda>t. same_listener_identity t spec) terminal")
  case True
  then have "start_planned bind terminal spec rt = rt"
    by (auto simp: start_planned_def map_of_eq_None_iff)
  with True show ?thesis by (intro skip) auto
next
  case False
  then have none: "map_of (rt_listeners rt) (spec_rule_id spec) = None"
    by (simp add: map_of_eq_None_iff)
  show ?thesis
  proof (cases "bind rt (listener_endpoint (tunnel_async_listener_spec spec))")
    case None
    then show ?thesis
      using False none assms
      by (intro started) (simp_all add: start_planned_def start_ingress_listener_def Let_def rt_ok_def
          tunnel_async_listener_spec_def)
  next
    case (Some error)
    then show ?thesis
      using False none
      by (intro failed [of error]) (simp add: start_planned_def start_ingress_listener_def
          listen_bind_failed_def)
  qed
qed

lemma rt_ok_started:
  assumes "rt_ok rt" and "spec_rule_id spec \<notin> fst ` set (rt_listeners rt)"
  shows "rt_ok (rt\<lparr>rt_core := rt_core rt\<lparr>core_listeners := (core_listeners (rt_core rt))
               \<lparr>guarded := (guarded (core_listeners (rt_core rt)))
                  (spec_rule_id spec \<mapsto> tunnel_async_listener_spec spec)\<rparr>\<rparr>,
           rt_rule_state := m, rt_listeners := rt_listeners rt @ [(spec_rule_id spec, spec)]\<rparr>)"
proof -
  have none: "map_of (rt_listeners rt) (spec_rule_id spec) = None"
    using assms(2) by (simp add: map_of_eq_None_iff)
  have "map_of (rt_listeners rt @ [(spec_rule_id spec, spec)]) = (map_of (rt_listeners rt))(spec_rule_id spec \<mapsto> spec)"
    using none by (auto simp: map_add_def fun_eq_iff split: option.splits)
  with assms show ?thesis by (auto simp: rt_ok_def simp del: map_of_append)
qed

lemma start_planned_props:
  assumes "rt_ok rt" and "\<not> poisoned (rt_rule_state rt)" and "rt' = start_planned bind terminal spec rt"
  shows "rt_ok rt'" "\<not> poisoned (rt_rule_state rt')"
    "state_rules (guarded (rt_rule_state rt')) = state_rules (guarded (rt_rule_state rt))"
    "set (rt_listeners rt) \<subseteq> set (rt_listeners rt')"
    "set (rt_listeners rt') \<subseteq> insert (spec_rule_id spec, spec) (set (rt_listeners rt))"
    "h \<in> set (listener_health (guarded (rt_rule_state rt))) \<Longrightarrow>
       spec_rule_id (health_spec h) \<noteq> spec_rule_id spec \<Longrightarrow>
       h \<in> set (listener_health (guarded (rt_rule_state rt')))"
  using assms(2,3) rt_ok_started [OF assms(1)] assms(1)
  by (cases rule: start_planned_cases [OF assms(1), of bind terminal spec];
      auto simp: set_listener_running_def set_listener_start_failed_def health_running_def
        health_failure_def same_listener_identity_def)+

text \<open>What has become of a planned listener.\<close>

definition settled :: "TunnelTcpRuntime \<Rightarrow> TunnelTcpListenerSpec \<Rightarrow> bool" where
  "settled rt spec \<longleftrightarrow>
     spec_rule_id spec \<in> fst ` set (rt_listeners rt)
     \<or> (\<exists>h \<in> set (listener_health (guarded (rt_rule_state rt))).
           health_status h = StartFailed \<and> health_spec h = spec)"

lemma start_planned_settles:
  assumes "rt_ok rt" and "\<not> poisoned (rt_rule_state rt)"
  shows "settled (start_planned bind [] spec rt) spec"
  using assms(2)
  by (cases rule: start_planned_cases [OF assms(1), of bind "[]" spec])
    (auto simp: settled_def set_listener_start_failed_def health_failure_def)

lemma start_all_props:
  assumes "rt_ok rt" and "\<not> poisoned (rt_rule_state rt)" and "distinct (map spec_rule_id plan)"
    and "rt' = fold (start_planned bind []) plan rt"
  shows "rt_ok rt' \<and> \<not> poisoned (rt_rule_state rt')
    \<and> state_rules (guarded (rt_rule_state rt')) = state_rules (guarded (rt_rule_state rt))
    \<and> set (rt_listeners rt) \<subseteq> set (rt_listeners rt')
    \<and> set (rt_listeners rt') \<subseteq> set (rt_listeners rt) \<union> (\<lambda>s. (spec_rule_id s, s)) ` set plan
    \<and> (\<forall>spec \<in> set plan. settled rt' spec)
    \<and> (\<forall>spec. settled rt spec \<longrightarrow> spec_rule_id spec \<notin> spec_rule_id ` set plan \<longrightarrow> settled rt' spec)"
  using assms
proof (induction plan arbitrary: rt)
  case (Cons p plan)
  let ?r = "start_planned bind [] p rt"
  note p = start_planned_props [OF Cons.prems(1,2) HOL.refl, where bind = bind and terminal = "[]" and spec = p]
  have keep: "settled ?r spec" if "settled rt spec" "spec_rule_id spec \<noteq> spec_rule_id p" for spec
    using that p(4,6) unfolding settled_def by (metis image_mono subsetD)
  have "distinct (map spec_rule_id plan)" "rt' = fold (start_planned bind []) plan ?r"
    using Cons.prems(3,4) by simp_all
  note IH = Cons.IH [OF p(1,2) this]
  have "spec_rule_id p \<notin> spec_rule_id ` set plan" using Cons.prems(3) by simp
  then have "settled rt' p" using IH start_planned_settles [OF Cons.prems(1,2)] by blast
  then show ?case using IH p(3,4,5) keep by auto
qed simp

lemma find_distinct:
  "distinct (map f xs) \<Longrightarrow> x \<in> set xs \<Longrightarrow> List.find (\<lambda>y. f y = f x) xs = Some x"
  by (induction xs) (auto simp: rev_image_eqI)

lemma should_keep_identity:
  assumes "should_keep plan (rid, spec)" and "spec_rule_id spec = rid"
  shows "\<exists>p \<in> set plan. same_listener_identity spec p"
proof -
  obtain p where p: "List.find (\<lambda>p. spec_rule_id p = rid) plan = Some p" "same_listener_endpoint p spec"
    using assms(1) by (auto simp: should_keep_def split: option.splits)
  then have "p \<in> set plan" "spec_rule_id p = rid" by (auto simp: find_Some_iff)
  with p assms(2) show ?thesis
    by (auto simp: same_listener_identity_def same_listener_endpoint_def intro!: bexI [of _ p])
qed

lemma plan_distinct:
  assumes "distinct (map sel_id rs)"
  shows "distinct (map spec_rule_id (build_tcp_listener_plan_for_data_transport rs transport))"
proof -
  let ?ps = "filter (\<lambda>rule. sel_enabled rule \<and> eq_ignore_ascii_case (trim (sel_protocol rule)) ''tcp''
      \<and> rule_uses_data_transport rule (normalize_data_transport_filter transport)
      \<and> trim (sel_role rule) \<in> {''ingress'', ''both''}) rs"
  have "distinct (map spec_rule_id (map listener_spec_for_rule ?ps))"
    using assms by (simp add: comp_def listener_spec_for_rule_def distinct_map_filter)
  then show ?thesis
    unfolding build_tcp_listener_plan_for_data_transport_def Let_def
    by (simp only: distinct_map distinct_sort set_sort)
qed

lemma refresh_unfold:
  assumes "rt_events rt = []"
    and "plan = tcp_listener_plan_for_data_transport (rt_rule_state rt) (rt_data_transport rt)"
  shows "refresh_listeners bind rt =
    sync_active_listener_snapshot (fold (start_planned bind []) plan
      (sync_active_listener_snapshot (retain_planned plan
        (rt\<lparr>rt_rule_state := state_retain_listener_health plan (rt_rule_state rt)\<rparr>))))"
proof -
  have "rt\<lparr>rt_events := []\<rparr> = rt" using assms(1) by (cases rt) simp
  then have "drain_listener_runtime_events rt = ([], rt)"
    using assms(1) by (simp add: drain_listener_runtime_events_def)
  then show ?thesis by (simp add: refresh_listeners_def Let_def assms(2))
qed

text \<open>The runtime before the last synchronisation of a refresh.\<close>

lemma refresh_started:
  assumes "rt_ok rt" and "\<not> poisoned (rt_rule_state rt)" and "rt_events rt = []"
    and "distinct (map sel_id (state_rules (guarded (rt_rule_state rt))))"
    and "plan = tcp_listener_plan_for_data_transport (rt_rule_state rt) (rt_data_transport rt)"
  obtains rt2 where "refresh_listeners bind rt = sync_active_listener_snapshot rt2" and "rt_ok rt2"
    and "\<not> poisoned (rt_rule_state rt2)"
    and "state_rules (guarded (rt_rule_state rt2)) = state_rules (guarded (rt_rule_state rt))"
    and "\<And>spec. spec \<in> set plan \<Longrightarrow> settled rt2 spec" and "distinct (map spec_rule_id plan)"
    and "\<And>rid l. (rid, l) \<in> set (rt_listeners rt2) \<Longrightarrow>
           spec_rule_id l = rid \<and> (\<exists>spec \<in> set plan. same_listener_identity l spec)"
proof -
  define rt0 where "rt0 = rt\<lparr>rt_rule_state := state_retain_listener_health plan (rt_rule_state rt)\<rparr>"
  define rt1 where "rt1 = sync_active_listener_snapshot (retain_planned plan rt0)"
  define rt2 where "rt2 = fold (start_planned bind []) plan rt1"
  have ok0: "rt_ok rt0" using assms(1) by (simp add: rt0_def)
  note keep = retain_planned_props [OF ok0, of plan]
  have ok1: "rt_ok rt1" using keep(1) by (simp add: rt1_def)
  have np1: "\<not> poisoned (rt_rule_state rt1)"
      and rules1: "state_rules (guarded (rt_rule_state rt1)) = state_rules (guarded (rt_rule_state rt))"
    using keep(2) assms(2)
    by (simp_all add: rt1_def rt0_def sync_active_listener_snapshot_def state_retain_listener_health_def)
  have dist: "distinct (map spec_rule_id plan)"
    using assms(2,4,5) plan_distinct
    by (simp add: tcp_listener_plan_for_data_transport_def snapshot_rules_def)
  note start = start_all_props [OF ok1 np1 dist rt2_def]
  have "spec_rule_id l = rid \<and> (\<exists>spec \<in> set plan. same_listener_identity l spec)"
    if l: "(rid, l) \<in> set (rt_listeners rt2)" for rid l
  proof -
    have id: "spec_rule_id l = rid" using start l by (auto simp: rt_ok_def)
    have "should_keep plan (rid, l) \<or> l \<in> set plan" using start l keep(4) by (auto simp: rt1_def)
    then show ?thesis using should_keep_identity [OF _ id] id same_identity_refl by blast
  qed
  then show ?thesis
    using that [of rt2] refresh_unfold [OF assms(3,5), of bind] start dist rules1
    by (simp add: rt0_def rt1_def rt2_def)
qed


definition sample_rule :: SelectedTunnelRule where
  "sample_rule =
     \<lparr>sel_id = 7, sel_name = ''web'', sel_enabled = True, sel_protocol = ''tcp'', sel_role = ''both'',
      sel_ingress_group = [], sel_listen_address = ''0.0.0.0'', sel_listen_port = 80, sel_egress_group = [],
      sel_target_host = ''h'', sel_target_port = 90, sel_source_allowlist = [],
      sel_max_concurrent_sessions = 0, sel_last_revision = 0, sel_data_transport = ''ktp_tcp''\<rparr>"

definition sample_runtime :: TunnelTcpRuntime where
  "sample_runtime = runtime_new_internal (update_rules ''r1'' [sample_rule] rule_state_new)
     runtime_limits_default ''ktp_tcp'' None"

lemma sample_runtime_ok:
  "rt_ok sample_runtime" "\<not> poisoned (rt_rule_state sample_runtime)" "rt_events sample_runtime = []"
  "state_rules (guarded (rt_rule_state sample_runtime)) = [sample_rule]"
  by (simp_all add: sample_runtime_def runtime_new_internal_def rt_ok_def core_new_internal_def
      mutex_new_def update_rules_def rule_state_new_def Let_def)

lemma sample_plan:
  "tcp_listener_plan_for_data_transport (rt_rule_state sample_runtime) (rt_data_transport sample_runtime)
     = [listener_spec_for_rule sample_rule]"
proof -
  have "build_tcp_listener_plan_for_data_transport [sample_rule] (normalize_data_transport_filter ''ktp_tcp'')
      = [listener_spec_for_rule sample_rule]"
    by code_simp
  then show ?thesis
    using sample_runtime_ok(2,4)
    by (simp add: tcp_listener_plan_for_data_transport_def snapshot_rules_def)
      (simp add: sample_runtime_def runtime_new_internal_def)
qed


section \<open>The readiness report is right\<close>

definition failed_ids :: "TunnelDataReadyState \<Rightarrow> u64 set" where
  "failed_ids ready = failure_rule_id ` set (failed_rules ready)"

lemma push_side_simps [simp]:
  "ingress_rule_ids (push_ingress rid ready) = ingress_rule_ids ready @ [rid]"
  "egress_rule_ids (push_ingress rid ready) = egress_rule_ids ready"
  "ingress_rule_ids (push_egress rid ready) = ingress_rule_ids ready"
  "egress_rule_ids (push_egress rid ready) = egress_rule_ids ready @ [rid]"
  "failed_ids (push_ingress rid ready) = failed_ids ready"
  "failed_ids (push_egress rid ready) = failed_ids ready"
  by (simp_all add: push_ingress_def push_egress_def failed_ids_def)

lemma push_failure_once_simps [simp]:
  "ingress_rule_ids (push_failure_once rid status error ready) = ingress_rule_ids ready"
  "egress_rule_ids (push_failure_once rid status error ready) = egress_rule_ids ready"
  "failed_ids (push_failure_once rid status error ready)
     = insert rid (failed_ids ready)"
  by (auto simp: push_failure_once_def failed_ids_def Let_def rev_image_eqI)

lemma fold_preflight_failures:
  "ingress_rule_ids (fold push_preflight_failure_once issues ready) = ingress_rule_ids ready"
  "egress_rule_ids (fold push_preflight_failure_once issues ready) = egress_rule_ids ready"
  "failed_ids (fold push_preflight_failure_once issues ready)
     = issue_rule_id ` set issues \<union> failed_ids ready"
  by (induction issues arbitrary: ready) (auto simp: push_preflight_failure_once_def)

lemma listener_health_failure_simps:
  assumes "push_listener_health_failure rule active health ready = (b, ready')"
  shows "ingress_rule_ids ready' = ingress_rule_ids ready" "egress_rule_ids ready' = egress_rule_ids ready"
    "failed_ids ready' =
       (if b then {sel_id rule} else {}) \<union> failed_ids ready"
    "\<not> b \<Longrightarrow> \<exists>l \<in> set active. same_listener_identity l (listener_spec_for_rule rule)"
  using assms
  by (auto simp: push_listener_health_failure_def push_listener_failure_once_def Let_def list_ex_iff
      split: option.splits if_splits)

text \<open>Whether a rule is reported as served on a side.\<close>

definition side_issues where
  "side_issues bind linux rule side active =
     filter_runtime_owned_listener_bind_failure rule side
       (validate_tunnel_tcp_rule_for_side bind linux (preflight_input rule) side) active"

definition side_ready where
  "side_ready bind linux rule side active health \<longleftrightarrow>
     side_issues bind linux rule side active = []
     \<and> (side = SideIngress \<longrightarrow> \<not> fst (push_listener_health_failure rule active health (ready_empty [])))"

lemma listener_health_blocked:
  "fst (push_listener_health_failure rule active health ready) =
   fst (push_listener_health_failure rule active health ready')"
  by (simp add: push_listener_health_failure_def Let_def split: option.splits)

lemma side_issues_rule: "issue \<in> set (side_issues bind linux rule side active) \<Longrightarrow> issue_rule_id issue = sel_id rule"
  by (auto simp: side_issues_def filter_runtime_owned_listener_bind_failure_def preflight_input_def
      validate_tunnel_tcp_rule_for_side_def validate_tunnel_tcp_rule_for_side_with_os_def
      unsupported_os_issue_def invalid_allowlist_issue_def invalid_target_issue_def
      split: if_splits TunnelPreflightSide.splits option.splits)

lemma apply_ready_side_props:
  fixes bind linux rule side active health ready
  defines "ready' \<equiv> apply_ready_side bind linux rule side active health ready"
    and "ok \<equiv> side_ready bind linux rule side active health"
  shows "ingress_rule_ids ready' = ingress_rule_ids ready @ (if ok \<and> side = SideIngress then [sel_id rule] else [])"
    "egress_rule_ids ready' = egress_rule_ids ready @ (if ok \<and> side = SideEgress then [sel_id rule] else [])"
    "failed_ids ready' = (if ok then {} else {sel_id rule}) \<union> failed_ids ready"
proof -
  let ?issues = "side_issues bind linux rule side active"
  let ?os = "list_ex (\<lambda>issue. issue_code issue = UnsupportedOs) ?issues"
  obtain b r where br: "(if side = SideIngress \<and> \<not> ?os then push_listener_health_failure rule active health ready
      else (False, ready)) = (b, r)" by fastforce
  have r: "ingress_rule_ids r = ingress_rule_ids ready" "egress_rule_ids r = egress_rule_ids ready"
      "failed_ids r = (if b then {sel_id rule} else {}) \<union> failed_ids ready"
    using br listener_health_failure_simps [of rule active health ready b r] by (auto split: if_splits)
  have ok: "ok \<longleftrightarrow> \<not> b \<and> ?issues = []"
    using br listener_health_blocked [of rule active health ready "ready_empty []"]
    by (auto simp: ok_def side_ready_def split: if_splits)
  have ids: "issue_rule_id ` set ?issues = (if ?issues = [] then {} else {sel_id rule})"
    using side_issues_rule [of _ bind linux rule side active] by (cases ?issues) auto
  let ?f = "fold push_preflight_failure_once ?issues r"
  have ready': "ready' = (if b \<or> ?issues \<noteq> [] then ?f
      else case side of SideIngress \<Rightarrow> push_ingress (sel_id rule) ?f | SideEgress \<Rightarrow> push_egress (sel_id rule) ?f)"
    using br by (simp add: ready'_def apply_ready_side_def Let_def side_issues_def [symmetric])
  define f where "f = ?f"
  have f: "ingress_rule_ids f = ingress_rule_ids ready" "egress_rule_ids f = egress_rule_ids ready"
      "failed_ids f = (if ok then {} else {sel_id rule}) \<union> failed_ids ready"
    unfolding f_def fold_preflight_failures r ids ok by simp_all
  have "ready' = (if ok then case side of SideIngress \<Rightarrow> push_ingress (sel_id rule) f
      | SideEgress \<Rightarrow> push_egress (sel_id rule) f else f)"
    unfolding ready' ok f_def by (cases b; cases "?issues = []") simp_all
  with f show "ingress_rule_ids ready' = ingress_rule_ids ready @ (if ok \<and> side = SideIngress then [sel_id rule] else [])"
    "egress_rule_ids ready' = egress_rule_ids ready @ (if ok \<and> side = SideEgress then [sel_id rule] else [])"
    "failed_ids ready' = (if ok then {} else {sel_id rule}) \<union> failed_ids ready"
    by (simp_all split: TunnelPreflightSide.splits)
qed

text \<open>The rules a report is about, and the sides of a rule.\<close>

definition rule_counts :: "string \<Rightarrow> SelectedTunnelRule \<Rightarrow> bool" where
  "rule_counts transport rule \<longleftrightarrow>
     sel_enabled rule \<and> eq_ignore_ascii_case (trim (sel_protocol rule)) ''tcp''
     \<and> rule_uses_data_transport rule transport"

definition has_side :: "TunnelPreflightSide \<Rightarrow> SelectedTunnelRule \<Rightarrow> bool" where
  "has_side side rule \<longleftrightarrow>
     to_ascii_lowercase (trim (sel_role rule))
       \<in> {''both'', case side of SideIngress \<Rightarrow> ''ingress'' | SideEgress \<Rightarrow> ''egress''}"

definition side_ids :: "TunnelPreflightSide \<Rightarrow> TunnelDataReadyState \<Rightarrow> u64 set" where
  "side_ids side ready =
     (case side of SideIngress \<Rightarrow> set (ingress_rule_ids ready) | SideEgress \<Rightarrow> set (egress_rule_ids ready))"

lemma side_ids_apply [simp]:
  "side_ids s (apply_ready_side bind linux rule side active health ready) =
     (if s = side \<and> side_ready bind linux rule side active health then {sel_id rule} else {})
     \<union> side_ids s ready"
  by (cases s; cases side) (simp_all add: side_ids_def apply_ready_side_props)

lemma apply_ready_rule_props:
  fixes bind linux active health transport rule ready
  defines "ready' \<equiv> apply_ready_rule bind linux active health transport rule ready"
  shows "side_ids s ready' =
      (if rule_counts transport rule \<and> has_side s rule \<and> side_ready bind linux rule s active health
       then {sel_id rule} else {}) \<union> side_ids s ready"
    "failed_ids ready \<subseteq> failed_ids ready'"
    "rule_counts transport rule \<Longrightarrow> has_side s rule \<Longrightarrow>
       \<not> side_ready bind linux rule s active health \<Longrightarrow> sel_id rule \<in> failed_ids ready'"
proof -
  have low: "to_ascii_lowercase ''tcp'' = ''tcp''" by code_simp
  have "side_ids s (push_unsupported_data_transport_failure_once rule ready) = side_ids s ready"
    by (cases s) (simp_all add: side_ids_def push_unsupported_data_transport_failure_once_def)
  then show "side_ids s ready' =
      (if rule_counts transport rule \<and> has_side s rule \<and> side_ready bind linux rule s active health
       then {sel_id rule} else {}) \<union> side_ids s ready"
    by (cases s) (auto simp: ready'_def apply_ready_rule_def rule_counts_def has_side_def Let_def low
        eq_ignore_ascii_case_def)
  show "failed_ids ready \<subseteq> failed_ids ready'"
    by (auto simp: ready'_def apply_ready_rule_def Let_def apply_ready_side_props
        push_unsupported_data_transport_failure_once_def)
  show "sel_id rule \<in> failed_ids ready'" if "rule_counts transport rule" "has_side s rule"
      "\<not> side_ready bind linux rule s active health"
    using that by (cases s) (auto simp: ready'_def apply_ready_rule_def rule_counts_def has_side_def Let_def low
        eq_ignore_ascii_case_def apply_ready_side_props)
qed

lemma fold_ready_rules:
  fixes bind linux active health transport rs ready
  defines "ready' \<equiv> fold (apply_ready_rule bind linux active health transport) rs ready"
  shows "side_ids s ready' =
      sel_id ` {rule \<in> set rs. rule_counts transport rule \<and> has_side s rule
                  \<and> side_ready bind linux rule s active health} \<union> side_ids s ready
    \<and> sel_id ` {rule \<in> set rs. rule_counts transport rule \<and> has_side s rule
                  \<and> \<not> side_ready bind linux rule s active health} \<union> failed_ids ready
        \<subseteq> failed_ids ready'"
  unfolding ready'_def
proof (induction rs arbitrary: ready)
  case (Cons rule rs)
  note p = apply_ready_rule_props [where bind = bind and linux = linux and active = active and health = health
      and transport = transport and rule = rule and ready = ready]
  show ?case
  proof
    show "side_ids s (fold (apply_ready_rule bind linux active health transport) (rule # rs) ready) =
      sel_id ` {r \<in> set (rule # rs). rule_counts transport r \<and> has_side s r
                  \<and> side_ready bind linux r s active health} \<union> side_ids s ready"
      using Cons.IH [of "apply_ready_rule bind linux active health transport rule ready"] p(1) by auto
  next
    show "sel_id ` {r \<in> set (rule # rs). rule_counts transport r \<and> has_side s r
                  \<and> \<not> side_ready bind linux r s active health} \<union> failed_ids ready
        \<subseteq> failed_ids (fold (apply_ready_rule bind linux active health transport) (rule # rs) ready)"
      using Cons.IH [of "apply_ready_rule bind linux active health transport rule ready"] p(2,3) by auto
  qed
qed simp

lemma side_ids_sort [simp]:
  "side_ids s (sort_rule_ids ready) = side_ids s ready" "failed_ids (sort_rule_ids ready) = failed_ids ready"
  by (cases s; simp add: side_ids_def sort_rule_ids_def failed_ids_def)+

lemma current_ready_sides:
  assumes "\<not> poisoned m" and "normalize_data_transport_filter transport = t"
    and "ready = current_ready_for_data_transport bind linux m transport"
  shows "side_ids s ready =
      sel_id ` {rule \<in> set (state_rules (guarded m)). rule_counts t rule \<and> has_side s rule
        \<and> side_ready bind linux rule s (active_listeners (guarded m)) (listener_health (guarded m))}"
    "sel_id ` {rule \<in> set (state_rules (guarded m)). rule_counts t rule \<and> has_side s rule
        \<and> \<not> side_ready bind linux rule s (active_listeners (guarded m)) (listener_health (guarded m))}
      \<subseteq> failed_ids ready"
proof -
  note f = fold_ready_rules [of s bind linux "active_listeners (guarded m)" "listener_health (guarded m)" t
      "state_rules (guarded m)" "ready_empty (state_revision (guarded m))"]
  have e: "side_ids s (ready_empty (state_revision (guarded m))) = {}"
    by (cases s) (simp_all add: side_ids_def ready_empty_def)
  have ready: "ready = sort_rule_ids (fold (apply_ready_rule bind linux (active_listeners (guarded m))
      (listener_health (guarded m)) t) (state_rules (guarded m)) (ready_empty (state_revision (guarded m))))"
    using assms by (simp add: current_ready_for_data_transport_def Let_def
        build_tunnel_ready_state_with_listener_health_for_data_transport_def)
  show "side_ids s ready =
      sel_id ` {rule \<in> set (state_rules (guarded m)). rule_counts t rule \<and> has_side s rule
        \<and> side_ready bind linux rule s (active_listeners (guarded m)) (listener_health (guarded m))}"
    "sel_id ` {rule \<in> set (state_rules (guarded m)). rule_counts t rule \<and> has_side s rule
        \<and> \<not> side_ready bind linux rule s (active_listeners (guarded m)) (listener_health (guarded m))}
      \<subseteq> failed_ids ready"
    using f e unfolding ready by simp_all
qed

lemma side_ready_ingress_active:
  "side_ready bind linux rule SideIngress active health \<Longrightarrow>
   \<exists>l \<in> set active. same_listener_identity l (listener_spec_for_rule rule)"
  using listener_health_failure_simps(4) [of rule active health "ready_empty []" False]
  by (force simp: side_ready_def prod_eq_iff)

lemma active_listener_in_core:
  assumes "rt_ok rt" and "l \<in> set (map snd (rt_listeners rt))"
  shows "guarded (core_listeners (rt_core rt)) (spec_rule_id l) = Some (tunnel_async_listener_spec l)"
proof -
  obtain rid where l: "(rid, l) \<in> set (rt_listeners rt)" using assms(2) by auto
  then have "map_of (rt_listeners rt) rid = Some l" "spec_rule_id l = rid"
    using assms(1) by (auto simp: rt_ok_def)
  then show ?thesis using assms(1) by (simp add: rt_ok_def)
qed



section \<open>Rule synchronisation on a KTP agent\<close>

lemma transports_differ: "rule_uses_data_transport rule TUNNEL_DATA_TRANSPORT_KTP_TCP \<Longrightarrow>
    \<not> rule_uses_data_transport rule TUNNEL_DATA_TRANSPORT_WEBSOCKET"
proof -
  have "to_ascii_lowercase (trim TUNNEL_DATA_TRANSPORT_KTP_TCP)
      \<noteq> to_ascii_lowercase (trim TUNNEL_DATA_TRANSPORT_WEBSOCKET)" by code_simp
  then show "rule_uses_data_transport rule TUNNEL_DATA_TRANSPORT_KTP_TCP \<Longrightarrow> ?thesis"
    by (simp add: rule_uses_data_transport_def eq_ignore_ascii_case_def)
qed



section \<open>Opening egress sessions\<close>

text \<open>The code an opening is refused with, if it is.\<close>

definition open_verdict :: "(string \<Rightarrow> dial_result) \<Rightarrow> KtpFrame \<Rightarrow> TunnelTcpRuntime \<Rightarrow> string option" where
  "open_verdict dial frame rt =
     (case decode_session_open_payload (payload frame) of
        Inl _ \<Rightarrow> Some ''protocol_error''
      | Inr opened \<Rightarrow>
          (case find_egress_rule rt (open_rule_id opened) of
             None \<Rightarrow> Some ''runtime_unavailable''
           | Some rule \<Rightarrow>
               if max_sessions_per_agent (limits (rt_core rt)) \<le> active_session_count rt
               then Some ''session_limit''
               else if dial (dial_target (sel_target_host rule) (sel_target_port rule)) \<noteq> Dialed
               then Some ''target_connect_failed''
               else None))"

lemma split_shown_error:
  "\<exists>detail. split_runtime_error_message (show_runtime_error (target_connect_failed message))
       = (''target_connect_failed'', detail) \<and> length detail \<le> max 30 (length message)"
  "\<exists>detail. split_runtime_error_message (show_runtime_error (session_limit ''agent tunnel session limit reached''))
       = (''session_limit'', detail) \<and> length detail \<le> 100"
proof -
  show "\<exists>detail. split_runtime_error_message (show_runtime_error (target_connect_failed message))
       = (''target_connect_failed'', detail) \<and> length detail \<le> max 30 (length message)"
    by (cases "trim message = []")
      (simp_all add: split_runtime_error_message_def show_runtime_error_def target_connect_failed_def)
  have "split_runtime_error_message (show_runtime_error (session_limit ''agent tunnel session limit reached''))
      = (''session_limit'', ''agent tunnel session limit reached'')" by code_simp
  then show "\<exists>detail. split_runtime_error_message (show_runtime_error (session_limit ''agent tunnel session limit reached''))
       = (''session_limit'', detail) \<and> length detail \<le> 100" by simp
qed

lemma answer_error_short:
  assumes "length code \<le> 100" and "length message < 2 ^ 16"
  shows "\<exists>p. answer_error sid rid code message =
      Inr [\<lparr>frame_type = SessionError, leg = LegEgress, flags = 0, session_id = sid, payload = p\<rparr>]
    \<and> encode_session_error_payload \<lparr>error_rule_id = rid, error_code = code, error_message = message\<rparr> = Inr p"
proof -
  obtain p where "encode_session_error_payload \<lparr>error_rule_id = rid, error_code = code, error_message = message\<rparr> = Inr p"
    using assms by (simp add: encode_error_iff)
  then show ?thesis by (simp add: answer_error_def session_error_frame_def)
qed

lemma open_egress_refused:
  assumes "\<not> poisoned (sessions c)" and "\<forall>t e. dial t = DialFailed e \<longrightarrow> length e < 2 ^ 16"
    and "open_egress_session dial sid rid host port c = (Inl error, c')"
  shows "c' = c \<and> (\<exists>code detail. split_runtime_error_message (show_runtime_error error) = (code, detail)
      \<and> length code \<le> 100 \<and> length detail < 2 ^ 16
      \<and> code = (if max_sessions_per_agent (limits c) \<le> snap_active_sessions (core_stats_snapshot c)
                then ''session_limit'' else ''target_connect_failed'')
      \<and> (dial (dial_target host port) = Dialed \<longrightarrow> code = ''session_limit''))"
proof (cases "max_sessions_per_agent (limits c) \<le> snap_active_sessions (core_stats_snapshot c)")
  case True
  with assms(3) split_shown_error(2) show ?thesis
    by (force simp: open_egress_session_def ensure_agent_session_capacity_def)
next
  case False
  have finish: "open_egress_finish sid rid c \<noteq> (Inl error, c')"
    using assms(1) by (simp add: open_egress_finish_def register_session_def Let_def)
  consider "error = target_connect_failed ''target dial timed out''" "c' = c" "dial (dial_target host port) \<noteq> Dialed"
    | e where "error = target_connect_failed e" "c' = c" "length e < 2 ^ 16" "dial (dial_target host port) \<noteq> Dialed"
    using assms(2,3) False finish
    by (auto simp: open_egress_session_def ensure_agent_session_capacity_def split: dial_result.splits)
  then show ?thesis
    using False split_shown_error(1) [of "''target dial timed out''"] split_shown_error(1)
    by cases (fastforce, force)
qed

text \<open>
  Claim C20.  Every request to open an egress session is answered by exactly one frame for that session:
  an acceptance when the payload is valid, the rule is served, the session limit is not reached and the
  target can be dialled, and then the session is in the core; otherwise an error frame with the code of
  the first condition that fails, and the runtime is as it was.
\<close>
theorem egress_open_answered:
  assumes "frame_type frame = SessionOpen" and "leg frame = LegEgress"
    and "length (payload frame) \<le> KTP_MAX_PAYLOAD_LEN" and "\<not> poisoned (sessions (rt_core rt))"
    and "\<forall>t e. dial t = DialFailed e \<longrightarrow> length e < 2 ^ 16"
    and "handle_server_frame dial frame rt = (res, rt')"
  shows "\<exists>f. res = Inr [f] \<and> session_id f = session_id frame \<and> leg f = LegEgress
    \<and> (case open_verdict dial frame rt of
         Some code \<Rightarrow> frame_type f = SessionError \<and> rt' = rt
           \<and> (\<exists>rid detail. encode_session_error_payload
                  \<lparr>error_rule_id = rid, error_code = code, error_message = detail\<rparr> = Inr (payload f))
       | None \<Rightarrow> frame_type f = SessionAccept
           \<and> (\<exists>rid. payload f = encode_session_accept_payload rid
                \<and> (\<exists>i. guarded (sessions (rt_core rt')) (session_id frame) = Some i
                        \<and> sess_rule_id (session_objs (rt_core rt') ! i) = rid)))"
proof -
  have h: "handle_egress_open dial frame rt = (res, rt')"
    using assms(1,2,6) by (simp add: handle_server_frame_def)
  show ?thesis
  proof (cases "decode_session_open_payload (payload frame)")
    case (Inl e)
    have "length (payload frame) < 10 ^ 20" using assms(3) by (simp add: KTP_MAX_PAYLOAD_LEN_def)
    then have "length (show_session_payload_error e) < 2 ^ 16"
      using decode_open_error_short [OF Inl] by simp
    then show ?thesis
      using h Inl answer_error_short [of "''protocol_error''" "show_session_payload_error e" "session_id frame" 0]
      by (force simp: handle_egress_open_def open_verdict_def)
  next
    case opened: (Inr opened)
    show ?thesis
    proof (cases "find_egress_rule rt (open_rule_id opened)")
      case None
      then show ?thesis
        using h opened answer_error_short [of "''runtime_unavailable''" "''egress rule is not ready''"
            "session_id frame" "open_rule_id opened"]
        by (force simp: handle_egress_open_def open_verdict_def)
    next
      case (Some rule)
      let ?o = "open_egress_session dial (session_id frame) (sel_id rule) (sel_target_host rule)
          (sel_target_port rule) (rt_core rt)"
      show ?thesis
      proof (cases "fst ?o")
        case (Inl error)
        then obtain c' where o: "?o = (Inl error, c')" by (metis prod.collapse)
        from open_egress_refused [OF assms(4,5) o] obtain code detail where
          "c' = rt_core rt" "split_runtime_error_message (show_runtime_error error) = (code, detail)"
          "length code \<le> 100" "length detail < 2 ^ 16"
          "code = (if max_sessions_per_agent (limits (rt_core rt)) \<le> active_session_count rt
                then ''session_limit'' else ''target_connect_failed'')"
          "dial (dial_target (sel_target_host rule) (sel_target_port rule)) = Dialed \<longrightarrow> code = ''session_limit''"
          unfolding active_session_count_def by blast
        moreover from this(5,6) have "open_verdict dial frame rt = Some code"
          using opened Some by (auto simp: open_verdict_def split: if_splits)
        ultimately show ?thesis
          using h opened Some o answer_error_short [of code detail "session_id frame" "sel_id rule"]
          by (force simp: handle_egress_open_def)
      next
        case (Inr frames)
        then obtain c' where o: "?o = (Inr frames, c')" by (metis prod.collapse)
        then have fin: "open_egress_finish (session_id frame) (sel_id rule) (rt_core rt) = (Inr frames, c')"
            and v: "open_verdict dial frame rt = None"
          using opened Some
          by (auto simp: open_verdict_def open_egress_session_def active_session_count_def
              ensure_agent_session_capacity_def split: if_splits dial_result.splits)
        have "rt' = rt\<lparr>rt_core := c'\<rparr>" "res = Inr frames"
          using h opened Some o by (simp_all add: handle_egress_open_def)
        then show ?thesis
          using fin v assms(4)
          by (auto simp: open_egress_finish_def register_session_def Let_def spawn_session_tasks_def
              upd_session_def upd_stats_def session_new_def)
      qed
    qed
  qed
qed

theorem egress_open_answered_witness:
  "\<exists>f. fst (handle_server_frame (\<lambda>_. Dialed)
        \<lparr>frame_type = SessionOpen, leg = LegEgress, flags = 0, session_id = 5,
         payload = [0, 0, 0, 0, 0, 0, 0, 7, 0, 1, 104, 0, 80, 0, 1, 115]\<rparr> sample_runtime) = Inr [f]
     \<and> frame_type f = SessionAccept \<and> session_id f = 5"
proof -
  let ?frame = "\<lparr>frame_type = SessionOpen, leg = LegEgress, flags = 0, session_id = 5,
      payload = [0, 0, 0, 0, 0, 0, 0, 7, 0, 1, 104, 0, 80, 0, 1, 115]\<rparr> :: KtpFrame"
  have decoded: "decode_session_open_payload [0, 0, 0, 0, 0, 0, 0, 7, 0, 1, 104, 0, 80, 0, 1, 115]
      = Inr \<lparr>open_rule_id = 7, listen_host = ''h'', listen_port = 80, source_addr = ''s''\<rparr>"
    by code_simp
  have "normalize_data_transport_filter ''ktp_tcp'' = ''ktp_tcp''" by code_simp
  then have t: "rt_data_transport sample_runtime = ''ktp_tcp''"
    by (simp add: sample_runtime_def runtime_new_internal_def)
  have "eq_ignore_ascii_case (trim (sel_protocol sample_rule)) ''tcp''"
    "rule_uses_data_transport sample_rule ''ktp_tcp''" "trim (sel_role sample_rule) = ''both''"
    by code_simp+
  then have rule: "find_egress_rule sample_runtime 7 = Some sample_rule"
    using sample_runtime_ok(2,4)
    by (simp add: find_egress_rule_def snapshot_rules_def t) (simp add: sample_rule_def)
  have core: "rt_core sample_runtime = core_new_internal runtime_limits_default None"
    by (simp add: sample_runtime_def runtime_new_internal_def)
  then have "open_verdict (\<lambda>_. Dialed) ?frame sample_runtime = None"
    by (simp add: open_verdict_def decoded rule active_session_count_def core_stats_snapshot_def
        core_new_internal_def runtime_limits_default_def frame_queue_new_internal_def
        stats_snapshot_def runtime_stats_default_def Let_def)
  moreover have "length (payload ?frame) \<le> KTP_MAX_PAYLOAD_LEN" "\<not> poisoned (sessions (rt_core sample_runtime))"
    by (simp_all add: KTP_MAX_PAYLOAD_LEN_def core core_new_internal_def mutex_new_def)
  ultimately show ?thesis
    using egress_open_answered [of ?frame sample_runtime "\<lambda>_. Dialed"
        "fst (handle_server_frame (\<lambda>_. Dialed) ?frame sample_runtime)"
        "snd (handle_server_frame (\<lambda>_. Dialed) ?frame sample_runtime)"]
    by auto
qed

end
