(* ===== verification/TunnelDiagnostics.thy ===== *)
theory TunnelDiagnostics
  imports TunnelQueue
begin

text \<open>
  The diagnostics of a data session (\<open>tunnel_data.rs\<close>): the statistics of written batches, the shared
  counters with the histogram of runtime waits, their snapshot and the log line.  The counters are
  relaxed atomics; \<open>fetch_add\<close> wraps around.  The fields of the counters have the prefix \<open>dg_\<close>, those of
  the snapshot \<open>ds_\<close>.
\<close>

section \<open>Definitions\<close>

definition RUNTIME_WAIT_ELAPSED_MICROS_BUCKETS :: "u64 list" where
  "RUNTIME_WAIT_ELAPSED_MICROS_BUCKETS =
     [10, 25, 50, 100, 250, 500, 1000, 2500, 5000, 10000, 25000, 50000, 100000, 250000, 500000,
      1000000, - 1]"

definition TUNNEL_DATA_FRAME_BATCH_LIMIT :: nat where
  "TUNNEL_DATA_FRAME_BATCH_LIMIT = 64"

record TunnelDataDiagnosticsInner =
  dg_runtime_wait_attempts :: u64
  dg_runtime_wait_hits :: u64
  dg_runtime_wait_elapsed_micros_total :: u64
  dg_runtime_wait_elapsed_micros_max :: u64
  dg_runtime_wait_elapsed_micros_buckets :: "u64 list"
  dg_outbound_runtime_frames :: u64
  dg_outbound_queue_dwell_frames :: u64
  dg_outbound_queue_dwell_micros_total :: u64
  dg_outbound_queue_dwell_micros_max :: u64
  dg_outbound_queue_dwell_p50_micros :: u64
  dg_outbound_queue_dwell_p95_micros :: u64
  dg_outbound_queue_dwell_p99_micros :: u64
  dg_recent_outbound_queue_dwell_frames :: u64
  dg_recent_outbound_queue_dwell_micros_total :: u64
  dg_recent_outbound_queue_dwell_micros_max :: u64
  dg_recent_outbound_queue_dwell_p50_micros :: u64
  dg_recent_outbound_queue_dwell_p95_micros :: u64
  dg_recent_outbound_queue_dwell_p99_micros :: u64
  dg_socket_idle_reads :: u64
  dg_socket_idle_empty_reads :: u64
  dg_socket_read_batches :: u64
  dg_socket_read_frames :: u64
  dg_socket_read_max_batch_frames :: u64
  dg_socket_write_batches :: u64
  dg_socket_write_frames :: u64
  dg_socket_write_max_batch_frames :: u64
  dg_socket_write_batch_limit_max :: u64
  dg_socket_write_batch_limit_min :: u64
  dg_socket_write_batch_limit_last :: u64

record TunnelDataDiagnosticsSnapshot =
  ds_runtime_wait_attempts :: u64
  ds_runtime_wait_hits :: u64
  ds_runtime_wait_elapsed_micros_total :: u64
  ds_runtime_wait_elapsed_micros_max :: u64
  ds_runtime_wait_elapsed_p50_micros :: u64
  ds_runtime_wait_elapsed_p95_micros :: u64
  ds_runtime_wait_elapsed_p99_micros :: u64
  ds_outbound_runtime_frames :: u64
  ds_outbound_queue_dwell_frames :: u64
  ds_outbound_queue_dwell_micros_total :: u64
  ds_outbound_queue_dwell_micros_max :: u64
  ds_outbound_queue_dwell_p50_micros :: u64
  ds_outbound_queue_dwell_p95_micros :: u64
  ds_outbound_queue_dwell_p99_micros :: u64
  ds_recent_outbound_queue_dwell_frames :: u64
  ds_recent_outbound_queue_dwell_micros_total :: u64
  ds_recent_outbound_queue_dwell_micros_max :: u64
  ds_recent_outbound_queue_dwell_p50_micros :: u64
  ds_recent_outbound_queue_dwell_p95_micros :: u64
  ds_recent_outbound_queue_dwell_p99_micros :: u64
  ds_socket_idle_reads :: u64
  ds_socket_idle_empty_reads :: u64
  ds_socket_read_batches :: u64
  ds_socket_read_frames :: u64
  ds_socket_read_max_batch_frames :: u64
  ds_socket_write_batches :: u64
  ds_socket_write_frames :: u64
  ds_socket_write_max_batch_frames :: u64
  ds_socket_write_batch_limit_max :: u64
  ds_socket_write_batch_limit_min :: u64
  ds_socket_write_batch_limit_last :: u64

record TunnelDataWriteBatchStats =
  batches :: nat
  batch_frames :: nat
  max_batch_frames :: nat
  max_batch_limit :: nat
  min_batch_limit :: nat
  last_batch_limit :: nat

definition write_stats_default :: TunnelDataWriteBatchStats where
  "write_stats_default =
     \<lparr>batches = 0, batch_frames = 0, max_batch_frames = 0, max_batch_limit = 0, min_batch_limit = 0,
      last_batch_limit = 0\<rparr>"

definition record_batch_limit :: "nat \<Rightarrow> TunnelDataWriteBatchStats \<Rightarrow> TunnelDataWriteBatchStats" where
  "record_batch_limit max_frames st =
     (let max_frames = max max_frames 1 in
      st\<lparr>max_batch_limit := max (max_batch_limit st) max_frames,
         min_batch_limit := (if min_batch_limit st = 0 then max_frames
                             else min (min_batch_limit st) max_frames),
         last_batch_limit := max_frames\<rparr>)"

definition record_batch :: "nat \<Rightarrow> TunnelDataWriteBatchStats \<Rightarrow> TunnelDataWriteBatchStats" where
  "record_batch frame_count st =
     (if frame_count = 0 then st
      else st\<lparr>batches := batches st + 1, batch_frames := batch_frames st + frame_count,
              max_batch_frames := max (max_batch_frames st) frame_count\<rparr>)"

definition merge_stats ::
  "TunnelDataWriteBatchStats \<Rightarrow> TunnelDataWriteBatchStats \<Rightarrow> TunnelDataWriteBatchStats" where
  "merge_stats st other =
     \<lparr>batches = batches st + batches other, batch_frames = batch_frames st + batch_frames other,
      max_batch_frames = max (max_batch_frames st) (max_batch_frames other),
      max_batch_limit = max (max_batch_limit st) (max_batch_limit other),
      min_batch_limit =
        (if min_batch_limit st = 0 then min_batch_limit other
         else if min_batch_limit other = 0 then min_batch_limit st
         else min (min_batch_limit st) (min_batch_limit other)),
      last_batch_limit =
        (if last_batch_limit other > 0 then last_batch_limit other else last_batch_limit st)\<rparr>"

definition diagnostics_new :: TunnelDataDiagnosticsInner where
  "diagnostics_new =
     \<lparr>dg_runtime_wait_attempts = 0, dg_runtime_wait_hits = 0,
      dg_runtime_wait_elapsed_micros_total = 0, dg_runtime_wait_elapsed_micros_max = 0,
      dg_runtime_wait_elapsed_micros_buckets = replicate (length RUNTIME_WAIT_ELAPSED_MICROS_BUCKETS) 0,
      dg_outbound_runtime_frames = 0, dg_outbound_queue_dwell_frames = 0,
      dg_outbound_queue_dwell_micros_total = 0, dg_outbound_queue_dwell_micros_max = 0,
      dg_outbound_queue_dwell_p50_micros = 0, dg_outbound_queue_dwell_p95_micros = 0,
      dg_outbound_queue_dwell_p99_micros = 0, dg_recent_outbound_queue_dwell_frames = 0,
      dg_recent_outbound_queue_dwell_micros_total = 0, dg_recent_outbound_queue_dwell_micros_max = 0,
      dg_recent_outbound_queue_dwell_p50_micros = 0, dg_recent_outbound_queue_dwell_p95_micros = 0,
      dg_recent_outbound_queue_dwell_p99_micros = 0, dg_socket_idle_reads = 0,
      dg_socket_idle_empty_reads = 0, dg_socket_read_batches = 0, dg_socket_read_frames = 0,
      dg_socket_read_max_batch_frames = 0, dg_socket_write_batches = 0, dg_socket_write_frames = 0,
      dg_socket_write_max_batch_frames = 0, dg_socket_write_batch_limit_max = 0,
      dg_socket_write_batch_limit_min = 0, dg_socket_write_batch_limit_last = 0\<rparr>"

definition runtime_wait_elapsed_bucket_index :: "u64 \<Rightarrow> nat" where
  "runtime_wait_elapsed_bucket_index elapsed_micros =
     (case position_from 0 (\<lambda>bucket. elapsed_micros \<le> bucket) RUNTIME_WAIT_ELAPSED_MICROS_BUCKETS of
        Some i \<Rightarrow> i
      | None \<Rightarrow> length RUNTIME_WAIT_ELAPSED_MICROS_BUCKETS - 1)"

text \<open>The loop of the percentile over the buckets that are left.\<close>

fun wait_percentile_loop :: "nat \<Rightarrow> u64 \<Rightarrow> u64 \<Rightarrow> u64 list \<Rightarrow> u64" where
  "wait_percentile_loop index cumulative rank [] =
     RUNTIME_WAIT_ELAPSED_MICROS_BUCKETS ! (length RUNTIME_WAIT_ELAPSED_MICROS_BUCKETS - 1)"
| "wait_percentile_loop index cumulative rank (count # counts) =
     (let cumulative' = saturating_add_u64 cumulative count in
      if cumulative' \<ge> rank then RUNTIME_WAIT_ELAPSED_MICROS_BUCKETS ! index
      else wait_percentile_loop (Suc index) cumulative' rank counts)"

definition runtime_wait_elapsed_percentile :: "u64 list \<Rightarrow> u64 \<Rightarrow> u64 \<Rightarrow> u64" where
  "runtime_wait_elapsed_percentile buckets tot percentile =
     (if tot = 0 then 0
      else
        let rank = max (saturating_add_u64 (tot * percentile) 99 div 100) 1
        in wait_percentile_loop 0 0 rank buckets)"

text \<open>
  The loop of \<open>update_atomic_min_nonzero\<close> ends when the stored value is the minimum of the candidate and
  what was there, where zero stands for no value.
\<close>

definition update_atomic_min_nonzero :: "u64 \<Rightarrow> u64 \<Rightarrow> u64" where
  "update_atomic_min_nonzero current candidate =
     (if candidate = 0 then current
      else if current = 0 then candidate else min current candidate)"

definition diagnostics_snapshot :: "TunnelDataDiagnosticsInner \<Rightarrow> TunnelDataDiagnosticsSnapshot" where
  "diagnostics_snapshot d =
     (let tot = dg_runtime_wait_attempts d; buckets = dg_runtime_wait_elapsed_micros_buckets d in
      \<lparr>ds_runtime_wait_attempts = dg_runtime_wait_attempts d,
       ds_runtime_wait_hits = dg_runtime_wait_hits d,
       ds_runtime_wait_elapsed_micros_total = dg_runtime_wait_elapsed_micros_total d,
       ds_runtime_wait_elapsed_micros_max = dg_runtime_wait_elapsed_micros_max d,
       ds_runtime_wait_elapsed_p50_micros = runtime_wait_elapsed_percentile buckets tot 50,
       ds_runtime_wait_elapsed_p95_micros = runtime_wait_elapsed_percentile buckets tot 95,
       ds_runtime_wait_elapsed_p99_micros = runtime_wait_elapsed_percentile buckets tot 99,
       ds_outbound_runtime_frames = dg_outbound_runtime_frames d,
       ds_outbound_queue_dwell_frames = dg_outbound_queue_dwell_frames d,
       ds_outbound_queue_dwell_micros_total = dg_outbound_queue_dwell_micros_total d,
       ds_outbound_queue_dwell_micros_max = dg_outbound_queue_dwell_micros_max d,
       ds_outbound_queue_dwell_p50_micros = dg_outbound_queue_dwell_p50_micros d,
       ds_outbound_queue_dwell_p95_micros = dg_outbound_queue_dwell_p95_micros d,
       ds_outbound_queue_dwell_p99_micros = dg_outbound_queue_dwell_p99_micros d,
       ds_recent_outbound_queue_dwell_frames = dg_recent_outbound_queue_dwell_frames d,
       ds_recent_outbound_queue_dwell_micros_total = dg_recent_outbound_queue_dwell_micros_total d,
       ds_recent_outbound_queue_dwell_micros_max = dg_recent_outbound_queue_dwell_micros_max d,
       ds_recent_outbound_queue_dwell_p50_micros = dg_recent_outbound_queue_dwell_p50_micros d,
       ds_recent_outbound_queue_dwell_p95_micros = dg_recent_outbound_queue_dwell_p95_micros d,
       ds_recent_outbound_queue_dwell_p99_micros = dg_recent_outbound_queue_dwell_p99_micros d,
       ds_socket_idle_reads = dg_socket_idle_reads d,
       ds_socket_idle_empty_reads = dg_socket_idle_empty_reads d,
       ds_socket_read_batches = dg_socket_read_batches d,
       ds_socket_read_frames = dg_socket_read_frames d,
       ds_socket_read_max_batch_frames = dg_socket_read_max_batch_frames d,
       ds_socket_write_batches = dg_socket_write_batches d,
       ds_socket_write_frames = dg_socket_write_frames d,
       ds_socket_write_max_batch_frames = dg_socket_write_max_batch_frames d,
       ds_socket_write_batch_limit_max = dg_socket_write_batch_limit_max d,
       ds_socket_write_batch_limit_min = dg_socket_write_batch_limit_min d,
       ds_socket_write_batch_limit_last = dg_socket_write_batch_limit_last d\<rparr>)"

definition record_outbound_runtime_frames ::
  "nat \<Rightarrow> TunnelDataDiagnosticsInner \<Rightarrow> TunnelDataDiagnosticsInner" where
  "record_outbound_runtime_frames count d =
     d\<lparr>dg_outbound_runtime_frames := dg_outbound_runtime_frames d + of_nat count\<rparr>"

definition record_runtime_wait ::
  "Duration \<Rightarrow> nat \<Rightarrow> TunnelDataDiagnosticsInner \<Rightarrow> TunnelDataDiagnosticsInner" where
  "record_runtime_wait wait frame_count d =
     (let elapsed_micros = of_nat (min (as_micros wait) (2 ^ 64 - 1));
          i = runtime_wait_elapsed_bucket_index elapsed_micros;
          buckets = dg_runtime_wait_elapsed_micros_buckets d
      in
      d\<lparr>dg_runtime_wait_attempts := dg_runtime_wait_attempts d + 1,
        dg_runtime_wait_hits := dg_runtime_wait_hits d + (if frame_count > 0 then 1 else 0),
        dg_runtime_wait_elapsed_micros_total := dg_runtime_wait_elapsed_micros_total d + elapsed_micros,
        dg_runtime_wait_elapsed_micros_max :=
          update_atomic_max (dg_runtime_wait_elapsed_micros_max d) elapsed_micros,
        dg_runtime_wait_elapsed_micros_buckets := buckets[i := buckets ! i + 1]\<rparr>)"

definition record_outbound_queue_dwell_snapshot ::
  "TunnelQueueDwellStatsSnapshot option \<Rightarrow> TunnelDataDiagnosticsInner \<Rightarrow> TunnelDataDiagnosticsInner" where
  "record_outbound_queue_dwell_snapshot snapshot d =
     (case snapshot of
        None \<Rightarrow> d
      | Some s \<Rightarrow>
          d\<lparr>dg_outbound_queue_dwell_frames := snap_frames s,
            dg_outbound_queue_dwell_micros_total := snap_micros_total s,
            dg_outbound_queue_dwell_micros_max := snap_micros_max s,
            dg_outbound_queue_dwell_p50_micros := p50_micros s,
            dg_outbound_queue_dwell_p95_micros := p95_micros s,
            dg_outbound_queue_dwell_p99_micros := p99_micros s\<rparr>)"

definition record_recent_outbound_queue_dwell_snapshot ::
  "TunnelQueueDwellStatsSnapshot option \<Rightarrow> TunnelDataDiagnosticsInner \<Rightarrow> TunnelDataDiagnosticsInner" where
  "record_recent_outbound_queue_dwell_snapshot snapshot d =
     (case snapshot of
        None \<Rightarrow> d
      | Some s \<Rightarrow>
          d\<lparr>dg_recent_outbound_queue_dwell_frames := snap_frames s,
            dg_recent_outbound_queue_dwell_micros_total := snap_micros_total s,
            dg_recent_outbound_queue_dwell_micros_max := snap_micros_max s,
            dg_recent_outbound_queue_dwell_p50_micros := p50_micros s,
            dg_recent_outbound_queue_dwell_p95_micros := p95_micros s,
            dg_recent_outbound_queue_dwell_p99_micros := p99_micros s\<rparr>)"

definition record_socket_idle_read :: "TunnelDataDiagnosticsInner \<Rightarrow> TunnelDataDiagnosticsInner" where
  "record_socket_idle_read d = d\<lparr>dg_socket_idle_reads := dg_socket_idle_reads d + 1\<rparr>"

definition record_socket_idle_empty_read :: "TunnelDataDiagnosticsInner \<Rightarrow> TunnelDataDiagnosticsInner" where
  "record_socket_idle_empty_read d = d\<lparr>dg_socket_idle_empty_reads := dg_socket_idle_empty_reads d + 1\<rparr>"

definition record_socket_read_batch ::
  "nat \<Rightarrow> TunnelDataDiagnosticsInner \<Rightarrow> TunnelDataDiagnosticsInner" where
  "record_socket_read_batch frame_count d =
     (if frame_count = 0 then d
      else
        d\<lparr>dg_socket_read_batches := dg_socket_read_batches d + 1,
          dg_socket_read_frames := dg_socket_read_frames d + of_nat frame_count,
          dg_socket_read_max_batch_frames :=
            update_atomic_max (dg_socket_read_max_batch_frames d) (of_nat frame_count)\<rparr>)"

definition record_socket_write_batches ::
  "TunnelDataWriteBatchStats \<Rightarrow> TunnelDataDiagnosticsInner \<Rightarrow> TunnelDataDiagnosticsInner" where
  "record_socket_write_batches st d =
     (let d = d\<lparr>dg_socket_write_batch_limit_max :=
                  update_atomic_max (dg_socket_write_batch_limit_max d) (of_nat (max_batch_limit st)),
                dg_socket_write_batch_limit_min :=
                  update_atomic_min_nonzero (dg_socket_write_batch_limit_min d)
                    (of_nat (min_batch_limit st)),
                dg_socket_write_batch_limit_last :=
                  (if last_batch_limit st > 0 then of_nat (last_batch_limit st)
                   else dg_socket_write_batch_limit_last d)\<rparr>
      in
      if batch_frames st = 0 \<or> batches st = 0 then d
      else
        d\<lparr>dg_socket_write_batches := dg_socket_write_batches d + of_nat (batches st),
          dg_socket_write_frames := dg_socket_write_frames d + of_nat (batch_frames st),
          dg_socket_write_max_batch_frames :=
            update_atomic_max (dg_socket_write_max_batch_frames d) (of_nat (max_batch_frames st))\<rparr>)"

definition has_activity :: "TunnelDataDiagnosticsSnapshot \<Rightarrow> bool" where
  "has_activity s \<longleftrightarrow>
     ds_runtime_wait_attempts s > 0 \<or> ds_runtime_wait_hits s > 0 \<or> ds_outbound_runtime_frames s > 0
     \<or> ds_outbound_queue_dwell_frames s > 0 \<or> ds_recent_outbound_queue_dwell_frames s > 0
     \<or> ds_socket_idle_reads s > 0 \<or> ds_socket_idle_empty_reads s > 0 \<or> ds_socket_read_batches s > 0
     \<or> ds_socket_read_frames s > 0 \<or> ds_socket_write_batches s > 0 \<or> ds_socket_write_frames s > 0"

text \<open>The fields of the log line in their order.\<close>

definition diagnostics_fields :: "TunnelDataDiagnosticsSnapshot \<Rightarrow> (string \<times> u64) list" where
  "diagnostics_fields s =
     [(''runtime_wait_attempts'', ds_runtime_wait_attempts s),
      (''runtime_wait_hits'', ds_runtime_wait_hits s),
      (''runtime_wait_elapsed_micros_total'', ds_runtime_wait_elapsed_micros_total s),
      (''runtime_wait_elapsed_micros_max'', ds_runtime_wait_elapsed_micros_max s),
      (''runtime_wait_elapsed_p50_micros'', ds_runtime_wait_elapsed_p50_micros s),
      (''runtime_wait_elapsed_p95_micros'', ds_runtime_wait_elapsed_p95_micros s),
      (''runtime_wait_elapsed_p99_micros'', ds_runtime_wait_elapsed_p99_micros s),
      (''outbound_runtime_frames'', ds_outbound_runtime_frames s),
      (''outbound_queue_dwell_frames'', ds_outbound_queue_dwell_frames s),
      (''outbound_queue_dwell_micros_total'', ds_outbound_queue_dwell_micros_total s),
      (''outbound_queue_dwell_micros_max'', ds_outbound_queue_dwell_micros_max s),
      (''outbound_queue_dwell_p50_micros'', ds_outbound_queue_dwell_p50_micros s),
      (''outbound_queue_dwell_p95_micros'', ds_outbound_queue_dwell_p95_micros s),
      (''outbound_queue_dwell_p99_micros'', ds_outbound_queue_dwell_p99_micros s),
      (''recent_outbound_queue_dwell_frames'', ds_recent_outbound_queue_dwell_frames s),
      (''recent_outbound_queue_dwell_micros_total'', ds_recent_outbound_queue_dwell_micros_total s),
      (''recent_outbound_queue_dwell_micros_max'', ds_recent_outbound_queue_dwell_micros_max s),
      (''recent_outbound_queue_dwell_p50_micros'', ds_recent_outbound_queue_dwell_p50_micros s),
      (''recent_outbound_queue_dwell_p95_micros'', ds_recent_outbound_queue_dwell_p95_micros s),
      (''recent_outbound_queue_dwell_p99_micros'', ds_recent_outbound_queue_dwell_p99_micros s),
      (''socket_idle_reads'', ds_socket_idle_reads s),
      (''socket_idle_empty_reads'', ds_socket_idle_empty_reads s),
      (''socket_read_batches'', ds_socket_read_batches s),
      (''socket_read_frames'', ds_socket_read_frames s),
      (''socket_read_max_batch_frames'', ds_socket_read_max_batch_frames s),
      (''socket_write_batches'', ds_socket_write_batches s),
      (''socket_write_frames'', ds_socket_write_frames s),
      (''socket_write_max_batch_frames'', ds_socket_write_max_batch_frames s),
      (''socket_write_batch_limit_max'', ds_socket_write_batch_limit_max s),
      (''socket_write_batch_limit_min'', ds_socket_write_batch_limit_min s),
      (''socket_write_batch_limit_last'', ds_socket_write_batch_limit_last s)]"

definition show_field :: "string \<times> u64 \<Rightarrow> string" where
  "show_field = (\<lambda>(name, value). name @ ''='' @ show_nat (unat value))"

definition tunnel_data_diagnostics_line :: "TunnelDataDiagnosticsSnapshot \<Rightarrow> string" where
  "tunnel_data_diagnostics_line s =
     ''tunnel data diagnostics: '' @ join_str '' '' (map show_field (diagnostics_fields s))"

section \<open>The histogram of waits\<close>

lemma wait_buckets [simp]: "RUNTIME_WAIT_ELAPSED_MICROS_BUCKETS = OUTBOUND_QUEUE_DWELL_MICROS_BUCKETS"
  by (simp add: RUNTIME_WAIT_ELAPSED_MICROS_BUCKETS_def OUTBOUND_QUEUE_DWELL_MICROS_BUCKETS_def)

lemma wait_bucket_index [simp]: "runtime_wait_elapsed_bucket_index = outbound_queue_dwell_bucket_index"
  unfolding fun_eq_iff runtime_wait_elapsed_bucket_index_def outbound_queue_dwell_bucket_index_def wait_buckets
  by simp

text \<open>
  The percentile of the waits is that of the dwell times with the last bucket bound in place of the
  maximum.
\<close>

lemma wait_percentile_loop:
  "i + length bs \<le> 17 \<Longrightarrow> wait_percentile_loop i cum rank bs = percentile_loop i cum rank (bucket_bound 16) bs"
  by (induction bs arbitrary: i cum) (auto simp: Let_def)

lemma wait_percentile:
  "length bs = 17 \<Longrightarrow>
   runtime_wait_elapsed_percentile bs tot p = outbound_queue_dwell_percentile bs tot p (bucket_bound 16)"
  by (simp add: runtime_wait_elapsed_percentile_def outbound_queue_dwell_percentile_def percentile_rank_def
      wait_percentile_loop)

definition wait_micros :: "Duration \<Rightarrow> u64" where
  "wait_micros wait = of_nat (min (as_micros wait) (2 ^ 64 - 1))"

abbreviation record_waits ::
  "(Duration \<times> nat) list \<Rightarrow> TunnelDataDiagnosticsInner \<Rightarrow> TunnelDataDiagnosticsInner" where
  "record_waits \<equiv> fold (\<lambda>(wait, n). record_runtime_wait wait n)"

lemma record_waits_histogram:
  assumes "length (dg_runtime_wait_elapsed_micros_buckets d) = 17"
  shows "let bs = dg_runtime_wait_elapsed_micros_buckets (record_waits ws d) in
    length bs = 17
    \<and> (\<forall>i<17. bs ! i = dg_runtime_wait_elapsed_micros_buckets d ! i
                       + of_nat (in_bucket i (map (wait_micros \<circ> fst) ws)))"
  using assms
proof (induction ws arbitrary: d)
  case Nil
  then show ?case by (simp add: in_bucket_def Let_def)
next
  case (Cons w ws)
  obtain wait n where w: "w = (wait, n)" by fastforce
  let ?d = "record_runtime_wait wait n d"
  have "length (dg_runtime_wait_elapsed_micros_buckets ?d) = 17"
    using Cons.prems by (simp add: record_runtime_wait_def Let_def)
  from Cons.IH [OF this] show ?case
    using Cons.prems
    by (auto simp: w record_runtime_wait_def Let_def in_bucket_def wait_micros_def nth_list_update)
qed

lemma record_waits_counts:
  "dg_runtime_wait_attempts (record_waits ws d) = dg_runtime_wait_attempts d + of_nat (length ws)"
  "dg_runtime_wait_hits (record_waits ws d)
     = dg_runtime_wait_hits d + of_nat (length (filter (\<lambda>(_, n). n > 0) ws))"
  "dg_runtime_wait_elapsed_micros_total (record_waits ws d)
     = dg_runtime_wait_elapsed_micros_total d + sum_list (map (wait_micros \<circ> fst) ws)"
  "dg_runtime_wait_elapsed_micros_max (record_waits ws d)
     = fold max (map (wait_micros \<circ> fst) ws) (dg_runtime_wait_elapsed_micros_max d)"
  by (induction ws arbitrary: d)
    (auto simp: record_runtime_wait_def Let_def wait_micros_def update_atomic_max_def max_def not_less
      intro: arg_cong2 [where f = "fold max"])

text \<open>
  The wait diagnostics describe the waits that happened: after any sequence of recorded waits,
  fewer than \<open>2 ^ 63 / 100\<close>, the snapshot has their number, the number of those that ended with frames,
  their total (wrapping) and maximal time in microseconds, and its 50th, 95th and 99th percentile are the
  bucketed nearest-rank percentiles of their times.
\<close>
theorem wait_diagnostics_right:
  assumes "ws \<noteq> []" and "100 * length ws < 2 ^ 63"
    and "s = diagnostics_snapshot (fold (\<lambda>(wait, n). record_runtime_wait wait n) ws diagnostics_new)"
    and "xs = map (\<lambda>(wait, n). of_nat (min (as_micros wait) (2 ^ 64 - 1))) ws"
  shows "unat (ds_runtime_wait_attempts s) = length ws
    \<and> unat (ds_runtime_wait_hits s) = length (filter (\<lambda>(_, n). n > 0) ws)
    \<and> ds_runtime_wait_elapsed_micros_total s = sum_list xs
    \<and> ds_runtime_wait_elapsed_micros_max s = Max (set xs)
    \<and> is_percentile xs 50 (ds_runtime_wait_elapsed_p50_micros s)
    \<and> is_percentile xs 95 (ds_runtime_wait_elapsed_p95_micros s)
    \<and> is_percentile xs 99 (ds_runtime_wait_elapsed_p99_micros s)"
proof -
  have xs: "xs = map (wait_micros \<circ> fst) ws"
    unfolding assms(4) by (auto simp: wait_micros_def)
  let ?d = "record_waits ws diagnostics_new"
  let ?bs = "dg_runtime_wait_elapsed_micros_buckets ?d"
  have bs: "length ?bs = 17" "\<forall>i<17. ?bs ! i = of_nat (in_bucket i xs)"
    using record_waits_histogram [of diagnostics_new ws]
    by (simp_all add: diagnostics_new_def Let_def xs)
  have small: "length (filter P ws) < 2 ^ 64" for P
    using le_less_trans [OF length_filter_le [of P ws], of "2 ^ 64"] assms(2) by simp
  have att: "dg_runtime_wait_attempts ?d = of_nat (length xs)"
    by (simp add: record_waits_counts diagnostics_new_def xs)
  have "is_percentile xs p (runtime_wait_elapsed_percentile ?bs (of_nat (length xs)) (of_nat p))"
    if "0 < p" "p \<le> 100" for p
    using percentile_correct_gen [OF bs, of "bucket_bound 16"] that assms(1,2) bucket_bound_last
    by (simp add: wait_percentile [OF bs(1)] xs)
  from this [of 50] this [of 95] this [of 99] show ?thesis
    using small [of "\<lambda>_. True"] small Max.set_eq_fold [of 0 xs] Max_insert [of "set xs" "0 :: u64"] assms(1)
    by (simp add: assms(3) diagnostics_snapshot_def Let_def att)
      (simp add: record_waits_counts diagnostics_new_def xs unat_of_nat take_bit_nat_def max_def)
qed

theorem wait_diagnostics_right_witness:
  "\<exists>s. s = diagnostics_snapshot (fold (\<lambda>(wait, n). record_runtime_wait wait n)
            [(30000, 0), (700000, 2), (12000, 1)] diagnostics_new)
     \<and> unat (ds_runtime_wait_attempts s) = 3 \<and> unat (ds_runtime_wait_hits s) = 2
     \<and> is_percentile [30, 700, 12] 50 (ds_runtime_wait_elapsed_p50_micros s)"
  using wait_diagnostics_right [of "[(30000, 0), (700000, 2), (12000, 1)]" _ "[30, 700, 12]"]
  by (simp add: as_micros_def)

end
