(* ===== verification/KtpCodec.thy ===== *)
theory KtpCodec
  imports KtpFrame
begin

text \<open>
  The incremental decoders of \<open>src/src/ktp_transport.rs\<close> keep unread bytes in a vector with a read
  offset and compact it lazily.  This theory has the cursor buffer (record \<open>cursor_buf\<close>, extended by
  both codecs), the plain stream codec \<open>KtpStreamCodec\<close>, and the interface \<open>stream_decoder\<close>: what a
  codec promises about \<open>push\<close> and \<open>next_frame\<close>, and, proved once from it, that any way of cutting the
  byte stream into chunks yields the same frames.
\<close>

section \<open>The cursor buffer\<close>

definition KTP_CODEC_COMPACT_MIN_PREFIX :: nat where
  "KTP_CODEC_COMPACT_MIN_PREFIX = 64 * 1024"

record cursor_buf =
  buffer :: bytes
  read_offset :: nat
  max_buffer_len :: nat

definition unread :: "'z cursor_buf_scheme \<Rightarrow> bytes" where
  "unread c = drop (read_offset c) (buffer c)"

definition unread_len :: "'z cursor_buf_scheme \<Rightarrow> nat" where
  "unread_len c = length (buffer c) - read_offset c"

definition compact :: "'z cursor_buf_scheme \<Rightarrow> 'z cursor_buf_scheme" where
  "compact c =
     (if read_offset c = 0 then c
      else c\<lparr>buffer := drop (read_offset c) (buffer c), read_offset := 0\<rparr>)"

definition compact_if_needed_for_push ::
  "nat \<Rightarrow> 'z cursor_buf_scheme \<Rightarrow> 'z cursor_buf_scheme" where
  "compact_if_needed_for_push incoming_len c =
     (if read_offset c > 0
         \<and> saturating_add_usize (length (buffer c)) incoming_len > max_buffer_len c
      then compact c else c)"

definition compact_after_consume :: "'z cursor_buf_scheme \<Rightarrow> 'z cursor_buf_scheme" where
  "compact_after_consume c =
     (if read_offset c = 0 then c
      else if read_offset c = length (buffer c) then c\<lparr>buffer := [], read_offset := 0\<rparr>
      else if read_offset c \<ge> KTP_CODEC_COMPACT_MIN_PREFIX
              \<and> saturating_mul_usize (read_offset c) 2 \<ge> length (buffer c)
      then compact c else c)"

definition consume :: "nat \<Rightarrow> 'z cursor_buf_scheme \<Rightarrow> 'z cursor_buf_scheme" where
  "consume len c = compact_after_consume (c\<lparr>read_offset := read_offset c + len\<rparr>)"

text \<open>
  \<open>push_bytes\<close> is the body of both codecs' \<open>push\<close>: \<open>Inl\<close> carries the attempted and the permitted
  length, which each codec wraps into its own error.
\<close>

definition push_bytes ::
  "bytes \<Rightarrow> 'z cursor_buf_scheme \<Rightarrow> (nat \<times> nat + unit) \<times> 'z cursor_buf_scheme" where
  "push_bytes chunk c =
     (let attempted = saturating_add_usize (unread_len c) (length chunk) in
      if attempted > max_buffer_len c then (Inl (attempted, max_buffer_len c), c)
      else
        let c' = compact_if_needed_for_push (length chunk) c
        in (Inr (), c'\<lparr>buffer := buffer c' @ chunk\<rparr>))"

text \<open>
  The buffer invariant: the offset is inside the vector and the vector never holds more than the
  limit, read bytes included.  The limit itself is below the largest \<open>usize\<close>, so the saturating
  additions are exact.
\<close>

definition cursor_inv :: "'z cursor_buf_scheme \<Rightarrow> bool" where
  "cursor_inv c \<longleftrightarrow>
     read_offset c \<le> length (buffer c)
     \<and> length (buffer c) \<le> max_buffer_len c
     \<and> max_buffer_len c < usize_max"

named_theorems cursor_simps "the abstract view of the cursor buffer"

lemmas saturating_defs = saturating_add_usize_def saturating_mul_usize_def

lemma length_unread [cursor_simps]: "length (unread c) = unread_len c"
  by (simp add: unread_def unread_len_def)

lemma unread_compact [simp, cursor_simps]: "unread (compact c) = unread c"
  by (simp add: compact_def unread_def)

lemma max_buffer_len_compact [simp]: "max_buffer_len (compact c) = max_buffer_len c"
  by (simp add: compact_def)

lemma more_compact [simp]: "cursor_buf.more (compact c) = cursor_buf.more c"
  by (simp add: compact_def)

lemma read_offset_compact [simp]: "read_offset (compact c) = 0"
  by (simp add: compact_def)

lemma unread_compact_after_consume [simp, cursor_simps]:
  "unread (compact_after_consume c) = unread c"
  by (simp add: compact_after_consume_def) (simp add: unread_def)

lemma compact_after_consume_frame [simp]:
  "max_buffer_len (compact_after_consume c) = max_buffer_len c"
  "cursor_buf.more (compact_after_consume c) = cursor_buf.more c"
  by (simp_all add: compact_after_consume_def)

lemma compact_for_push_frame [simp]:
  "unread (compact_if_needed_for_push n c) = unread c"
  "max_buffer_len (compact_if_needed_for_push n c) = max_buffer_len c"
  "cursor_buf.more (compact_if_needed_for_push n c) = cursor_buf.more c"
  by (simp_all add: compact_if_needed_for_push_def)

lemma consume_frame [simp]:
  "unread (consume n c) = drop n (unread c)"
  "max_buffer_len (consume n c) = max_buffer_len c"
  "cursor_buf.more (consume n c) = cursor_buf.more c"
  by (simp_all add: consume_def) (simp add: unread_def add.commute)

lemma cursor_inv_compact: "cursor_inv c \<Longrightarrow> cursor_inv (compact c)"
  by (auto simp: cursor_inv_def compact_def)

lemma cursor_inv_compact_after_consume: "cursor_inv c \<Longrightarrow> cursor_inv (compact_after_consume c)"
  by (auto simp: compact_after_consume_def cursor_inv_compact) (auto simp: cursor_inv_def)

lemma cursor_inv_consume:
  "cursor_inv c \<Longrightarrow> n \<le> length (unread c) \<Longrightarrow> cursor_inv (consume n c)"
  unfolding consume_def
  by (rule cursor_inv_compact_after_consume) (auto simp: cursor_inv_def unread_def)

lemma unread_bound: "cursor_inv c \<Longrightarrow> length (unread c) \<le> max_buffer_len c"
  by (auto simp: cursor_inv_def unread_def)

lemma attempted_exact:
  assumes "cursor_inv c"
  shows "saturating_add_usize (unread_len c) n > max_buffer_len c
    \<longleftrightarrow> length (unread c) + n > max_buffer_len c"
  using assms by (auto simp: cursor_inv_def saturating_add_usize_def length_unread min_def)

lemma unread_append:
  "read_offset c \<le> length (buffer c)
    \<Longrightarrow> unread (c\<lparr>buffer := buffer c @ xs\<rparr>) = unread c @ xs"
  by (simp add: unread_def)

lemma push_bytes_accept:
  assumes inv: "cursor_inv c" and fits: "length (unread c) + length chunk \<le> max_buffer_len c"
  obtains c' where "push_bytes chunk c = (Inr (), c')" and "unread c' = unread c @ chunk"
    and "cursor_inv c'" and "max_buffer_len c' = max_buffer_len c"
    and "cursor_buf.more c' = cursor_buf.more c"
proof
  let ?d = "compact_if_needed_for_push (length chunk) c"
  let ?c' = "?d\<lparr>buffer := buffer ?d @ chunk\<rparr>"
  have off: "read_offset ?d \<le> length (buffer ?d)"
    using inv by (auto simp: compact_if_needed_for_push_def compact_def cursor_inv_def)
  show "push_bytes chunk c = (Inr (), ?c')"
    using inv fits attempted_exact [OF inv, of "length chunk"]
    by (simp add: push_bytes_def Let_def linorder_not_less)
  show "unread ?c' = unread c @ chunk"
    using unread_append [OF off, of chunk] by simp
  have "length (buffer ?d) + length chunk \<le> max_buffer_len c"
    using inv fits
    by (auto simp: compact_if_needed_for_push_def compact_def cursor_inv_def unread_def
        saturating_add_usize_def)
  with off inv show "cursor_inv ?c'"
    by (simp add: cursor_inv_def)
  show "max_buffer_len ?c' = max_buffer_len c" and "cursor_buf.more ?c' = cursor_buf.more c"
    by simp_all
qed

lemma push_bytes_reject:
  assumes "cursor_inv c" and "length (unread c) + length chunk > max_buffer_len c"
  shows "push_bytes chunk c =
    (Inl (saturating_add_usize (unread_len c) (length chunk), max_buffer_len c), c)"
  using assms attempted_exact [of c "length chunk"] by (simp add: push_bytes_def Let_def)

section \<open>The plain stream codec\<close>

datatype KtpStreamCodecError = StreamKtp KtpError | StreamBufferLimit nat nat

record KtpStreamCodec = cursor_buf +
  max_payload_len :: nat

definition stream_codec_new :: "nat \<Rightarrow> nat \<Rightarrow> KtpStreamCodec" where
  "stream_codec_new mpl mbl =
     \<lparr>buffer = [], read_offset = 0, max_buffer_len = mbl,
      max_payload_len = min mpl KTP_MAX_PAYLOAD_LEN\<rparr>"

definition stream_push :: "bytes \<Rightarrow> KtpStreamCodec \<Rightarrow> (KtpStreamCodecError + unit) \<times> KtpStreamCodec" where
  "stream_push chunk c =
     (case push_bytes chunk c of
        (Inl (attempted, limit), c') \<Rightarrow> (Inl (StreamBufferLimit attempted limit), c')
      | (Inr _, c') \<Rightarrow> (Inr (), c'))"

definition stream_next_frame ::
  "KtpStreamCodec \<Rightarrow> (KtpStreamCodecError + KtpFrame option) \<times> KtpStreamCodec" where
  "stream_next_frame c =
     (let u = unread c in
      if length u < KTP_HEADER_LEN then (Inr None, c)
      else
        let header_error =
              (case decode_frame (take KTP_HEADER_LEN u) (max_payload_len c) of
                 Inl e \<Rightarrow> if e \<noteq> TruncatedPayload then Some e else None
               | Inr _ \<Rightarrow> None)
        in
        case header_error of
          Some e \<Rightarrow> (Inl (StreamKtp e), c)
        | None \<Rightarrow>
            let payload_len = unat (u32_from_be_bytes (sub_slice 16 20 u)) in
            if payload_len > max_payload_len c then (Inl (StreamKtp (PayloadTooLarge payload_len)), c)
            else
              let frame_len = KTP_HEADER_LEN + payload_len in
              if frame_len > max_buffer_len c
              then (Inl (StreamBufferLimit frame_len (max_buffer_len c)), c)
              else if length u < frame_len then (Inr None, c)
              else
                (case decode_frame (take frame_len u) (max_payload_len c) of
                   Inl e \<Rightarrow> (Inl (StreamKtp e), c)
                 | Inr f \<Rightarrow> (Inr (Some f), consume frame_len c)))"

section \<open>Polling a decoder and reading from a socket\<close>

text \<open>
  \<open>poll_frames\<close> is the loop of the record codec's \<open>next_frames_into\<close> over any \<open>next_frame\<close>: at most
  \<open>n\<close> more frames are appended to the output vector.  \<open>recv_frame\<close> is the loop of
  \<open>KtpEncryptedStream::next_frame\<close>: ask the codec, and while it has no frame, read the next chunk
  from the socket and push it.  The socket's future is the list of its read results; an empty read is
  the end of the stream, and a result of \<open>None\<close> means that the call is still waiting when the list
  is used up.
\<close>

fun poll_frames ::
  "('s \<Rightarrow> ('e + 'f option) \<times> 's) \<Rightarrow> nat \<Rightarrow> 'f list \<Rightarrow> 's \<Rightarrow> ('e + nat) \<times> 'f list \<times> 's" where
  "poll_frames nxt 0 frames s = (Inr (length frames), frames, s)"
| "poll_frames nxt (Suc n) frames s =
     (case nxt s of
        (Inl e, s') \<Rightarrow> (Inl e, frames, s')
      | (Inr None, s') \<Rightarrow> (Inr (length frames), frames, s')
      | (Inr (Some f), s') \<Rightarrow> poll_frames nxt n (frames @ [f]) s')"

datatype 'io read_result = ReadBytes bytes | ReadFailed 'io

datatype ('io, 'e) KtpTcpTransportError = TcpIo 'io | TcpCrypto 'e | TcpClosed

fun recv_frame ::
  "('s \<Rightarrow> ('e + 'f option) \<times> 's) \<Rightarrow> (bytes \<Rightarrow> 's \<Rightarrow> ('e + unit) \<times> 's)
   \<Rightarrow> 'io read_result list \<Rightarrow> 's
   \<Rightarrow> (('io, 'e) KtpTcpTransportError + 'f) option \<times> 's \<times> 'io read_result list" where
  "recv_frame nxt psh reads s =
     (case nxt s of
        (Inl e, s') \<Rightarrow> (Some (Inl (TcpCrypto e)), s', reads)
      | (Inr (Some f), s') \<Rightarrow> (Some (Inr f), s', reads)
      | (Inr None, s') \<Rightarrow>
          (case reads of
             [] \<Rightarrow> (None, s', [])
           | ReadFailed io # rest \<Rightarrow> (Some (Inl (TcpIo io)), s', rest)
           | ReadBytes chunk # rest \<Rightarrow>
               if chunk = [] then (Some (Inl TcpClosed), s', rest)
               else
                 (case psh chunk s' of
                    (Inl e, s'') \<Rightarrow> (Some (Inl (TcpCrypto e)), s'', rest)
                  | (Inr _, s'') \<Rightarrow> recv_frame nxt psh rest s'')))"

declare recv_frame.simps [simp del]

text \<open>Receiving a given number of frames, one call after the other, stopping at the first failure.\<close>

fun recv_frames ::
  "('s \<Rightarrow> ('e + 'f option) \<times> 's) \<Rightarrow> (bytes \<Rightarrow> 's \<Rightarrow> ('e + unit) \<times> 's)
   \<Rightarrow> nat \<Rightarrow> 'io read_result list \<Rightarrow> 's
   \<Rightarrow> (('io, 'e) KtpTcpTransportError + 'f list) option \<times> 's \<times> 'io read_result list" where
  "recv_frames nxt psh 0 reads s = (Some (Inr []), s, reads)"
| "recv_frames nxt psh (Suc n) reads s =
     (case recv_frame nxt psh reads s of
        (None, s', reads') \<Rightarrow> (None, s', reads')
      | (Some (Inl e), s', reads') \<Rightarrow> (Some (Inl e), s', reads')
      | (Some (Inr f), s', reads') \<Rightarrow>
          (case recv_frames nxt psh n reads' s' of
             (Some (Inr fs), s'', reads'') \<Rightarrow> (Some (Inr (f # fs)), s'', reads'')
           | other \<Rightarrow> other))"

fun read_bytes :: "'io read_result list \<Rightarrow> bytes" where
  "read_bytes [] = []"
| "read_bytes (ReadBytes b # rs) = b @ read_bytes rs"
| "read_bytes (ReadFailed io # rs) = read_bytes rs"

text \<open>Reads that all deliver between 1 and \<open>limit\<close> bytes.\<close>

fun data_reads :: "nat \<Rightarrow> 'io read_result list \<Rightarrow> bool" where
  "data_reads limit [] = True"
| "data_reads limit (ReadBytes b # rs) = (b \<noteq> [] \<and> length b \<le> limit \<and> data_reads limit rs)"
| "data_reads limit (ReadFailed io # rs) = False"

section \<open>The interface of a decoder\<close>

text \<open>
  What a codec promises.  \<open>pending\<close> is the abstract state: the bytes pushed and not yet decoded.
  \<open>ctx\<close> is what the wire image of the next frame depends on (nothing that changes for the plain
  codec, the sequence number for the record codec), \<open>adv\<close> its change per frame.
\<close>

locale stream_decoder =
  fixes nxt :: "'s \<Rightarrow> ('e + 'f option) \<times> 's"
    and psh :: "bytes \<Rightarrow> 's \<Rightarrow> ('e + unit) \<times> 's"
    and pending :: "'s \<Rightarrow> bytes"
    and room :: "'s \<Rightarrow> nat"
    and inv :: "'s \<Rightarrow> bool"
    and ctx :: "'s \<Rightarrow> 'k"
    and adv :: "'k \<Rightarrow> 'k"
    and wire :: "'k \<Rightarrow> 'f \<Rightarrow> bytes"
    and admissible :: "'k \<Rightarrow> 'f \<Rightarrow> bool"
  assumes nxt_frame:
    "inv s \<Longrightarrow> admissible (ctx s) f \<Longrightarrow> pending s = wire (ctx s) f @ r
     \<Longrightarrow> \<exists>s'. nxt s = (Inr (Some f), s') \<and> inv s' \<and> pending s' = r
          \<and> ctx s' = adv (ctx s) \<and> room s' = room s"
    and nxt_short:
    "inv s \<Longrightarrow> admissible (ctx s) f \<Longrightarrow> pending s @ r = wire (ctx s) f \<Longrightarrow> r \<noteq> []
     \<Longrightarrow> nxt s = (Inr None, s)"
    and nxt_empty: "inv s \<Longrightarrow> pending s = [] \<Longrightarrow> nxt s = (Inr None, s)"
    and psh_fits:
    "inv s \<Longrightarrow> length (pending s) + length c \<le> room s
     \<Longrightarrow> \<exists>s'. psh c s = (Inr (), s') \<and> inv s' \<and> pending s' = pending s @ c
          \<and> ctx s' = ctx s \<and> room s' = room s"
begin

fun wires :: "'k \<Rightarrow> 'f list \<Rightarrow> bytes" where
  "wires k [] = []"
| "wires k (f # fs) = wire k f @ wires (adv k) fs"

text \<open>Every frame of the list is admissible and leaves room for one more read of \<open>limit\<close> bytes.\<close>

fun receivable :: "nat \<Rightarrow> nat \<Rightarrow> 'k \<Rightarrow> 'f list \<Rightarrow> bool" where
  "receivable limit cap k [] = True"
| "receivable limit cap k (f # fs) =
     (admissible k f \<and> length (wire k f) + limit \<le> Suc cap \<and> receivable limit cap (adv k) fs)"

lemma recv_one:
  assumes "inv s" and "admissible (ctx s) f" and "length (wire (ctx s) f) + limit \<le> Suc (room s)"
    and "data_reads limit reads" and "pending s @ read_bytes reads = wire (ctx s) f @ rest"
  shows "\<exists>s' reads'. recv_frame nxt psh reads s = (Some (Inr f), s', reads')
    \<and> inv s' \<and> ctx s' = adv (ctx s) \<and> room s' = room s
    \<and> data_reads limit reads' \<and> pending s' @ read_bytes reads' = rest"
  using assms
proof (induction reads arbitrary: s rule: read_bytes.induct)
  case 1
  then have "pending s = wire (ctx s) f @ rest" by simp
  then obtain s' where "nxt s = (Inr (Some f), s')" "inv s'" "pending s' = rest"
    "ctx s' = adv (ctx s)" "room s' = room s"
    using nxt_frame 1 by blast
  then show ?case by (simp add: recv_frame.simps)
next
  case (2 b rs)
  show ?case
  proof (cases "length (wire (ctx s) f) \<le> length (pending s)")
    case True
    then obtain r where r: "pending s = wire (ctx s) f @ r"
      using 2 by (metis append_eq_append_conv_if append_eq_conv_conj)
    then obtain s' where "nxt s = (Inr (Some f), s')" "inv s'" "pending s' = r"
      "ctx s' = adv (ctx s)" "room s' = room s"
      using nxt_frame 2 by blast
    with 2 r show ?thesis by (simp add: recv_frame.simps)
  next
    case False
    then obtain r where r: "pending s @ r = wire (ctx s) f" and "r \<noteq> []"
      using 2 by (metis append_Nil2 append_eq_append_conv_if append_take_drop_id nle_le)
    then have none: "nxt s = (Inr None, s)"
      using nxt_short 2 by blast
    have "length (pending s) + length b \<le> room s"
      using False 2 by simp
    then obtain s' where s': "psh b s = (Inr (), s')" "inv s'" "pending s' = pending s @ b"
      "ctx s' = ctx s" "room s' = room s"
      using psh_fits 2 by blast
    have "recv_frame nxt psh (ReadBytes b # rs) s = recv_frame nxt psh rs s'"
      using none s' 2 by (subst recv_frame.simps) simp
    with "2.IH" [of s'] s' 2 show ?thesis by simp
  qed
next
  case (3 io rs)
  then show ?case by simp
qed

theorem recv_all:
  assumes "inv s" and "receivable limit (room s) (ctx s) fs"
    and "data_reads limit reads" and "pending s @ read_bytes reads = wires (ctx s) fs @ rest"
  shows "\<exists>s' reads'. recv_frames nxt psh (length fs) reads s = (Some (Inr fs), s', reads')
    \<and> inv s' \<and> pending s' @ read_bytes reads' = rest"
  using assms
proof (induction fs arbitrary: s reads)
  case Nil
  then show ?case by simp
next
  case (Cons f fs)
  from Cons.prems obtain s' reads' where
    one: "recv_frame nxt psh reads s = (Some (Inr f), s', reads')" and s': "inv s'"
    "ctx s' = adv (ctx s)" "room s' = room s" "data_reads limit reads'"
    "pending s' @ read_bytes reads' = wires (adv (ctx s)) fs @ rest"
    using recv_one [of s f limit reads "wires (adv (ctx s)) fs @ rest"] by auto
  with Cons.prems Cons.IH [of s' reads'] show ?case by auto
qed

text \<open>
  The state of a receiver to which the frames \<open>fs\<close> are still to be delivered: what is pending and what
  \<open>rest\<close> will bring is exactly their image.
\<close>

definition awaits :: "nat \<Rightarrow> bytes \<Rightarrow> 'f list \<Rightarrow> 's \<Rightarrow> bool" where
  "awaits limit rest fs s \<longleftrightarrow>
     inv s \<and> receivable limit (room s) (ctx s) fs \<and> pending s @ rest = wires (ctx s) fs"

lemma nxt_awaits:
  assumes "awaits limit rest fs s"
  shows "(\<exists>f fs' s'. fs = f # fs' \<and> nxt s = (Inr (Some f), s') \<and> room s' = room s \<and> awaits limit rest fs' s')
    \<or> nxt s = (Inr None, s) \<and> (rest \<noteq> [] \<longrightarrow> length (pending s) + limit \<le> room s)"
proof (cases fs)
  case Nil
  with assms nxt_empty [of s] show ?thesis by (simp add: awaits_def)
next
  case (Cons f fs')
  have a: "inv s" "admissible (ctx s) f" "length (wire (ctx s) f) + limit \<le> Suc (room s)"
    "receivable limit (room s) (adv (ctx s)) fs'" "pending s @ rest = wire (ctx s) f @ wires (adv (ctx s)) fs'"
    using assms by (simp_all add: awaits_def Cons)
  show ?thesis
  proof (cases "length (wire (ctx s) f) \<le> length (pending s)")
    case True
    then obtain r where r: "pending s = wire (ctx s) f @ r"
      using a(5) by (metis append_eq_append_conv_if append_eq_conv_conj)
    then obtain s' where "nxt s = (Inr (Some f), s')" "inv s'" "pending s' = r"
      "ctx s' = adv (ctx s)" "room s' = room s"
      using nxt_frame [OF a(1,2)] by blast
    with a r Cons show ?thesis by (simp add: awaits_def)
  next
    case False
    then obtain r where "pending s @ r = wire (ctx s) f" and "r \<noteq> []"
      using a(5) by (metis append_Nil2 append_eq_append_conv_if append_take_drop_id nle_le)
    from nxt_short [OF a(1,2) this] a(3) False show ?thesis by simp
  qed
qed

lemma poll_awaits:
  assumes "awaits limit rest fs s"
  shows "\<exists>gs fs' s'. poll_frames nxt n acc s = (Inr (length acc + length gs), acc @ gs, s')
    \<and> fs = gs @ fs' \<and> length gs \<le> n \<and> awaits limit rest fs' s'
    \<and> (n > 0 \<and> gs = [] \<and> rest \<noteq> [] \<longrightarrow> length (pending s') + limit \<le> room s')"
  using assms
proof (induction n arbitrary: acc fs s)
  case 0
  then show ?case by auto
next
  case (Suc n)
  from nxt_awaits [OF Suc.prems] show ?case
  proof (elim disjE exE conjE)
    fix f fs' s'
    assume f: "fs = f # fs'" "nxt s = (Inr (Some f), s')" "awaits limit rest fs' s'"
    from Suc.IH [OF f(3), of "acc @ [f]"] obtain gs fs'' s'' where
      "poll_frames nxt n (acc @ [f]) s' = (Inr (length acc + length (f # gs)), acc @ f # gs, s'')"
      "fs' = gs @ fs''" "length gs \<le> n" "awaits limit rest fs'' s''"
      by auto
    with f show ?thesis
      by (intro exI [of _ "f # gs"] exI [of _ fs''] exI [of _ s'']) simp
  next
    assume "nxt s = (Inr None, s)" "rest \<noteq> [] \<longrightarrow> length (pending s) + limit \<le> room s"
    with Suc.prems show ?thesis by (intro exI [of _ "[]"] exI [of _ fs] exI [of _ s]) simp
  qed
qed

lemma psh_awaits:
  assumes "awaits limit (b @ rest) fs s" and "length (pending s) + limit \<le> room s" and "length b \<le> limit"
  obtains s' where "psh b s = (Inr (), s')" and "awaits limit rest fs s'"
  using assms psh_fits [of s b] by (auto simp: awaits_def)

end

section \<open>The plain codec implements the interface\<close>

definition stream_admissible :: "nat \<times> nat \<Rightarrow> KtpFrame \<Rightarrow> bool" where
  "stream_admissible k f \<longleftrightarrow>
     wf_frame f \<and> length (payload f) \<le> fst k \<and> KTP_HEADER_LEN + length (payload f) \<le> snd k"

definition stream_ctx :: "KtpStreamCodec \<Rightarrow> nat \<times> nat" where
  "stream_ctx c = (max_payload_len c, max_buffer_len c)"

lemma max_payload_len_consume [simp]:
  "max_payload_len (consume n c) = max_payload_len (c :: KtpStreamCodec)"
  by (simp add: consume_def compact_after_consume_def compact_def)

lemma max_payload_len_push:
  "push_bytes chunk c = (r, c') \<Longrightarrow> max_payload_len c' = max_payload_len (c :: KtpStreamCodec)"
  by (auto simp: push_bytes_def Let_def compact_if_needed_for_push_def compact_def split: if_splits)

text \<open>What \<open>next_frame\<close> finds once the whole header of an admissible frame is there.\<close>

lemma stream_header_ok:
  assumes "wf_frame f" and "length (payload f) \<le> max_payload_len c"
    and "unread c = frame_header f @ t"
  shows "stream_next_frame c =
    (if KTP_HEADER_LEN + length (payload f) > max_buffer_len c
     then (Inl (StreamBufferLimit (KTP_HEADER_LEN + length (payload f)) (max_buffer_len c)), c)
     else if length t < length (payload f) then (Inr None, c)
     else (case decode_frame (frame_header f @ take (length (payload f)) t) (max_payload_len c) of
             Inl e \<Rightarrow> (Inl (StreamKtp e), c)
           | Inr g \<Rightarrow> (Inr (Some g), consume (KTP_HEADER_LEN + length (payload f)) c)))"
proof -
  have len: "unat (of_nat (length (payload f)) :: u32) = length (payload f)"
    using assms(1) by (simp add: unat_payload_len wf_frame_payload)
  have "length (unread c) = KTP_HEADER_LEN + length t"
    by (simp add: assms(3))
  moreover have "take KTP_HEADER_LEN (unread c) = frame_header f"
    by (simp add: assms(3))
  moreover have "u32_from_be_bytes (sub_slice 16 20 (unread c)) = of_nat (length (payload f))"
    by (simp add: assms(3) header_fields)
  moreover have "take (KTP_HEADER_LEN + length (payload f)) (unread c) =
      frame_header f @ take (length (payload f)) t"
    by (simp add: assms(3))
  ultimately show ?thesis
    using decode_frame_header [OF assms(1,2)] assms(2)
    by (simp add: stream_next_frame_def Let_def len)
qed

lemma stream_nxt_frame:
  assumes "stream_admissible (stream_ctx c) f" and "unread c = frame_wire f @ r"
  shows "stream_next_frame c = (Inr (Some f), consume (length (frame_wire f)) c)"
  using assms stream_header_ok [of f c "payload f @ r"]
    decode_frame_wire [of f "max_payload_len c" "[]"]
  by (simp add: stream_admissible_def stream_ctx_def frame_wire_def linorder_not_less)

lemma stream_nxt_short:
  assumes "stream_admissible (stream_ctx c) f" and "unread c @ r = frame_wire f" and "r \<noteq> []"
  shows "stream_next_frame c = (Inr None, c)"
proof (cases "length (unread c) < KTP_HEADER_LEN")
  case True
  then show ?thesis by (simp add: stream_next_frame_def)
next
  case False
  then obtain t where t: "unread c = frame_header f @ t" and "t @ r = payload f"
    using assms(2) append_eq_longer [of "frame_header f" "payload f" "unread c" r]
    unfolding frame_wire_def by (metis length_frame_header linorder_not_less)
  then have "length t + length r = length (payload f)"
    by (metis length_append)
  then have "length t < length (payload f)"
    using assms(3) by (cases r) auto
  with assms(1) stream_header_ok [OF _ _ t] show ?thesis
    by (simp add: stream_admissible_def stream_ctx_def)
qed

interpretation plain: stream_decoder stream_next_frame stream_push unread max_buffer_len cursor_inv
  stream_ctx id "\<lambda>_. frame_wire" stream_admissible
proof (unfold_locales, goal_cases)
  case (1 s f r)
  then have "length (frame_wire f) \<le> length (unread s)" by simp
  with 1 stream_nxt_frame [OF 1(2,3)] show ?case
    by (simp add: cursor_inv_consume stream_ctx_def)
next
  case (2 s f r)
  then show ?case by (intro stream_nxt_short)
next
  case (3 s)
  then show ?case by (simp add: stream_next_frame_def KTP_HEADER_LEN_def)
next
  case (4 s c)
  obtain s' where "push_bytes c s = (Inr (), s')" "unread s' = unread s @ c"
    "cursor_inv s'" "max_buffer_len s' = max_buffer_len s"
    using push_bytes_accept [OF 4] by blast
  then show ?case
    by (simp add: stream_push_def stream_ctx_def max_payload_len_push)
qed

section \<open>Properties of the plain codec\<close>

lemma stream_next_frame_cases:
  obtains (error) e where "stream_next_frame c = (Inl e, c)"
  | (wait) "stream_next_frame c = (Inr None, c)"
  | (frame) f where "stream_next_frame c = (Inr (Some f), consume (length (frame_wire f)) c)"
      and "wf_frame f" and "length (payload f) \<le> max_payload_len c"
      and "unread c = frame_wire f @ drop (length (frame_wire f)) (unread c)"
proof (cases "stream_next_frame c")
  case (Pair r c')
  let ?n = "KTP_HEADER_LEN + unat (u32_from_be_bytes (sub_slice 16 20 (unread c)))"
  have "(\<exists>e. stream_next_frame c = (Inl e, c)) \<or> stream_next_frame c = (Inr None, c)
    \<or> (\<exists>f. stream_next_frame c = (Inr (Some f), consume ?n c) \<and> ?n \<le> length (unread c)
         \<and> decode_frame (take ?n (unread c)) (max_payload_len c) = Inr f)"
    unfolding stream_next_frame_def Let_def
    by (auto split: option.split sum.split)
  then consider "\<exists>e. stream_next_frame c = (Inl e, c)" | "stream_next_frame c = (Inr None, c)"
    | f where "stream_next_frame c = (Inr (Some f), consume ?n c)" "?n \<le> length (unread c)"
        "decode_frame (take ?n (unread c)) (max_payload_len c) = Inr f"
    by blast
  then show thesis
  proof cases
    case 1
    then obtain e where "stream_next_frame c = (Inl e, c)" ..
    then show thesis by (rule error)
  next
    case 2
    then show thesis by (rule wait)
  next
    case 3
    note d = decode_frame_Inr [OF 3(3)]
    have "unat (u32_from_be_bytes (sub_slice 16 20 (unread c))) = length (payload f)"
    proof -
      have "sub_slice 16 20 (unread c) = sub_slice 16 20 (take ?n (unread c))"
        by (simp add: sub_slice_take KTP_HEADER_LEN_def)
      also have "u32_from_be_bytes \<dots> = of_nat (length (payload f))"
        by (subst d(3)) (simp add: frame_wire_def header_fields)
      finally show ?thesis
        using d(1) by (simp add: unat_payload_len wf_frame_payload)
    qed
    then have n: "?n = length (frame_wire f)" by (simp add: length_frame_wire)
    have "take ?n (unread c) = frame_wire f"
      using d(3) 3(2) by (simp add: n length_frame_wire)
    then have "unread c = frame_wire f @ drop (length (frame_wire f)) (unread c)"
      using append_take_drop_id [of ?n "unread c"] by (simp only: n)
    with 3(1) d(1,2) show thesis
      by (intro frame) (simp_all only: n)
  qed
qed

text \<open>A client's use of the codec: any interleaving of pushes and polls, with what was accepted.\<close>

datatype codec_op = OpPush bytes | OpNext

fun stream_run :: "codec_op list \<Rightarrow> KtpStreamCodec \<Rightarrow> bytes \<times> KtpFrame list \<times> KtpStreamCodec" where
  "stream_run [] c = ([], [], c)"
| "stream_run (OpPush chunk # ops) c =
     (case stream_push chunk c of
        (Inl _, c') \<Rightarrow> stream_run ops c'
      | (Inr _, c') \<Rightarrow>
          (case stream_run ops c' of (acc, fs, c'') \<Rightarrow> (chunk @ acc, fs, c'')))"
| "stream_run (OpNext # ops) c =
     (case stream_next_frame c of
        (Inr (Some f), c') \<Rightarrow> (case stream_run ops c' of (acc, fs, c'') \<Rightarrow> (acc, f # fs, c''))
      | (_, c') \<Rightarrow> stream_run ops c')"

lemma stream_push_cases:
  assumes "cursor_inv c"
  obtains (full) e where "stream_push chunk c = (Inl e, c)"
  | (fits) c' where "stream_push chunk c = (Inr (), c')" and "unread c' = unread c @ chunk"
      and "cursor_inv c'" and "stream_ctx c' = stream_ctx c"
proof (cases "length (unread c) + length chunk \<le> max_buffer_len c")
  case True
  then show thesis using plain.psh_fits [OF assms] fits by blast
next
  case False
  then show thesis
    using push_bytes_reject [OF assms, of chunk] by (intro full) (simp add: stream_push_def)
qed

lemma stream_run_conserves:
  assumes "cursor_inv c" and "stream_run ops c = (acc, fs, c')"
  shows "unread c @ acc = concat (map frame_wire fs) @ unread c' \<and> cursor_inv c'
    \<and> stream_ctx c' = stream_ctx c
    \<and> list_all (\<lambda>f. wf_frame f \<and> length (payload f) \<le> max_payload_len c) fs"
  using assms
proof (induction ops c arbitrary: acc fs rule: stream_run.induct)
  case (1 c)
  then show ?case by simp
next
  case (2 chunk ops c)
  from 2(3) show ?case
  proof (cases rule: stream_push_cases [of c chunk])
    case (full e)
    with 2 show ?thesis by simp
  next
    case (fits d)
    obtain acc' where acc': "stream_run ops d = (acc', fs, c')" "acc = chunk @ acc'"
      using 2(4) fits(1) by (auto split: prod.splits)
    with 2(2) [OF fits(1) [symmetric] _ fits(3) acc'(1)] fits show ?thesis
      by (simp add: stream_ctx_def)
  qed
next
  case (3 ops c)
  show ?case
  proof (cases rule: stream_next_frame_cases [of c])
    case (error e)
    with 3 show ?thesis by simp
  next
    case wait
    with 3 show ?thesis by simp
  next
    case (frame f)
    let ?d = "consume (length (frame_wire f)) c"
    have inv: "cursor_inv ?d"
      using 3(4) frame(4) by (metis cursor_inv_consume length_append le_add1)
    obtain fs' where fs': "stream_run ops ?d = (acc, fs', c')" "fs = f # fs'"
      using 3(5) frame(1) by (auto split: prod.splits)
    have "unread c @ acc = frame_wire f @ unread ?d @ acc"
      using frame(4) by (metis append.assoc consume_frame(1))
    with 3(3) [OF frame(1) [symmetric] refl refl inv fs'(1)] fs'(2) frame(2,3) show ?thesis
      by (simp add: stream_ctx_def)
  qed
qed

lemma cursor_inv_stream_new: "mbl < usize_max \<Longrightarrow> cursor_inv (stream_codec_new mpl mbl)"
  by (simp add: cursor_inv_def stream_codec_new_def)

text \<open>
  Claim C6.  Whatever a client pushes and polls, in any order and with any errors in between, the
  codec neither loses, invents nor reorders a byte: the accepted chunks are the encodings of the
  frames it returned followed by the bytes still unread.  The vector, already read bytes included,
  never exceeds the configured limit, and every frame returned is well-formed and within the
  payload limit.
\<close>
theorem stream_codec_conserves:
  assumes "mbl < usize_max" and "stream_run ops (stream_codec_new mpl mbl) = (acc, fs, c)"
  shows "acc = concat (map frame_wire fs) @ unread c \<and> length (buffer c) \<le> mbl
    \<and> (\<forall>f\<in>set fs. wf_frame f \<and> length (payload f) \<le> min mpl KTP_MAX_PAYLOAD_LEN)"
  using stream_run_conserves [OF cursor_inv_stream_new [OF assms(1)] assms(2)]
  by (auto simp: stream_codec_new_def unread_def stream_ctx_def cursor_inv_def list_all_iff)

lemmas codec_eval = stream_push_def push_bytes_def saturating_defs usize_max_def unread_len_def
  unread_def compact_if_needed_for_push_def Let_def stream_next_frame_def consume_def
  compact_after_consume_def compact_def KTP_CODEC_COMPACT_MIN_PREFIX_def ktp_const_defs
  decode_frame_def sub_slice_def frame_type_from_u8_def frame_leg_from_u8_def bind_result_def
  validate_frame_def is_connection_level_def u64_from_be_bytes_def u32_from_be_bytes_def be_val_def

definition sample_ops :: "codec_op list" where
  "sample_ops =
     [OpPush (take 10 (frame_wire sample_frame)), OpNext, OpPush (replicate 300 0),
      OpPush (drop 10 (frame_wire sample_frame) @ [75]), OpNext, OpNext]"

lemma sample_wire:
  "frame_wire sample_frame =
     [75, 84, 80, 49, 1, 18, 1, 3, 0, 0, 0, 0, 0, 0, 1, 2, 0, 0, 0, 3, 0, 0, 0, 0, 1, 2, 255]"
  by code_simp

lemma sample_run:
  "stream_run sample_ops (stream_codec_new 64 128) =
     (frame_wire sample_frame @ [75], [sample_frame],
      \<lparr>buffer = frame_wire sample_frame @ [75], read_offset = 27, max_buffer_len = 128,
       max_payload_len = 64\<rparr>)"
  by (simp add: sample_ops_def sample_wire stream_codec_new_def codec_eval)
    (simp add: sample_frame_def)

theorem stream_codec_conserves_witness:
  "case stream_run sample_ops (stream_codec_new 64 128) of (acc, fs, c) \<Rightarrow>
     fs = [sample_frame] \<and> acc = concat (map frame_wire fs) @ unread c \<and> length (buffer c) \<le> 128"
  using stream_codec_conserves [OF _ sample_run] by (simp add: sample_run usize_max_def)

text \<open>
  Claim C7.  What one poll does depends on the unread bytes alone, not on the offset or on when the
  vector was compacted.  If they begin with an admissible frame, that frame is returned and exactly
  its bytes are consumed; if they are a proper prefix of one, the codec waits; an error leaves the
  codec as it was.
\<close>
theorem stream_next_frame_spec:
  assumes "cursor_inv c"
  shows "(\<forall>f r. stream_admissible (stream_ctx c) f \<and> unread c = frame_wire f @ r \<longrightarrow>
      (\<exists>c'. stream_next_frame c = (Inr (Some f), c') \<and> unread c' = r \<and> cursor_inv c'))
    \<and> (\<forall>f r. stream_admissible (stream_ctx c) f \<and> unread c @ r = frame_wire f \<and> r \<noteq> [] \<longrightarrow>
      stream_next_frame c = (Inr None, c))
    \<and> (\<forall>e c'. stream_next_frame c = (Inl e, c') \<longrightarrow> c' = c)"
proof (intro conjI allI impI)
  fix f r assume "stream_admissible (stream_ctx c) f \<and> unread c = frame_wire f @ r"
  then show "\<exists>c'. stream_next_frame c = (Inr (Some f), c') \<and> unread c' = r \<and> cursor_inv c'"
    using plain.nxt_frame [OF assms] by blast
next
  fix f r assume "stream_admissible (stream_ctx c) f \<and> unread c @ r = frame_wire f \<and> r \<noteq> []"
  then show "stream_next_frame c = (Inr None, c)"
    using stream_nxt_short by blast
next
  fix e c' assume "stream_next_frame c = (Inl e, c')"
  then show "c' = c" by (cases rule: stream_next_frame_cases [of c]) auto
qed

definition sample_codec :: KtpStreamCodec where
  "sample_codec =
     \<lparr>buffer = [7, 7] @ frame_wire sample_frame @ [75], read_offset = 2, max_buffer_len = 128,
      max_payload_len = 64\<rparr>"

theorem stream_next_frame_spec_witness:
  "\<exists>c'. stream_next_frame sample_codec = (Inr (Some sample_frame), c') \<and> unread c' = [75]"
proof -
  have "cursor_inv sample_codec" "unread sample_codec = frame_wire sample_frame @ [75]"
    "stream_admissible (stream_ctx sample_codec) sample_frame"
    using wf_sample_frame
    by (simp_all add: cursor_inv_def sample_codec_def unread_def length_frame_wire usize_max_def
        stream_admissible_def stream_ctx_def KTP_HEADER_LEN_def)
  then show ?thesis using stream_next_frame_spec [of sample_codec] by blast
qed

end
