(* ===== verification/KtpCrypto.thy ===== *)
theory KtpCrypto
  imports KtpCodec
begin

text \<open>
  The record layer of \<open>src/src/ktp_transport.rs\<close>: every KTP frame travels as one AEAD record with a
  24 byte header (magic, version, direction, sequence number, ciphertext length) that is also the
  associated data.  The cipher (the \<open>chacha20poly1305\<close> crate) is a parameter, the record \<open>aead\<close> of its
  two operations; \<open>aead_correct\<close> and \<open>aead_exact\<close> name what is relied on.  The theory models the
  sealer, the opener and the record codec, and shows that they fit together, that nonces never repeat,
  and that the record codec implements the decoder interface of \<open>KtpCodec\<close>.
\<close>

section \<open>The cipher\<close>

text \<open>
  \<open>aead_seal key nonce aad plaintext\<close> is \<open>encrypt_in_place_detached\<close>: the ciphertext that replaces the
  plaintext in place, and the tag.  \<open>aead_open key nonce aad message\<close> is \<open>decrypt\<close> on ciphertext and
  tag.  \<open>None\<close> is the crate's opaque error.
\<close>

record aead =
  aead_seal :: "bytes \<Rightarrow> bytes \<Rightarrow> bytes \<Rightarrow> bytes \<Rightarrow> (bytes \<times> bytes) option"
  aead_open :: "bytes \<Rightarrow> bytes \<Rightarrow> bytes \<Rightarrow> bytes \<Rightarrow> bytes option"

text \<open>
  \<open>aead_correct\<close>: plaintexts of up to 16 MiB can be sealed, the ciphertext has the plaintext's length,
  the tag has 16 bytes, and opening inverts sealing.  \<open>aead_exact\<close>: whatever opens is what sealing the
  result produces (the opener recomputes keystream and tag).
\<close>

definition aead_correct :: "aead \<Rightarrow> bool" where
  "aead_correct A \<longleftrightarrow>
     (\<forall>key nonce aad pt. length pt \<le> 2 ^ 24 \<longrightarrow>
        (\<exists>ct tag. aead_seal A key nonce aad pt = Some (ct, tag)
           \<and> length ct = length pt \<and> length tag = 16
           \<and> aead_open A key nonce aad (ct @ tag) = Some pt))"

definition aead_exact :: "aead \<Rightarrow> bool" where
  "aead_exact A \<longleftrightarrow>
     (\<forall>key nonce aad msg pt. aead_open A key nonce aad msg = Some pt \<longrightarrow>
        (\<exists>ct tag. aead_seal A key nonce aad pt = Some (ct, tag) \<and> msg = ct @ tag))"

section \<open>Directions, keys, errors\<close>

definition KTP_CRYPTO_MAGIC :: bytes where
  "KTP_CRYPTO_MAGIC = [0x4B, 0x54, 0x45, 0x31]"

definition KTP_CRYPTO_VERSION :: u8 where
  "KTP_CRYPTO_VERSION = 1"

definition KTP_CRYPTO_HEADER_LEN :: nat where
  "KTP_CRYPTO_HEADER_LEN = 24"

datatype KtpCryptoDirection = ClientToRelay | RelayToClient

fun direction_id :: "KtpCryptoDirection \<Rightarrow> u8" where
  "direction_id ClientToRelay = 1"
| "direction_id RelayToClient = 2"

type_synonym KtpCryptoKey = bytes

record KtpCryptoError =
  crypto_code :: string
  crypto_message :: string

definition auth_failed :: KtpCryptoError where
  "auth_failed =
     \<lparr>crypto_code = ''auth_failed'',
      crypto_message = ''KTP crypto record authentication failed''\<rparr>"

definition malformed_record :: "string \<Rightarrow> KtpCryptoError" where
  "malformed_record message = \<lparr>crypto_code = ''malformed_record'', crypto_message = message\<rparr>"

definition buffer_limit :: "nat \<Rightarrow> nat \<Rightarrow> KtpCryptoError" where
  "buffer_limit attempted limit =
     \<lparr>crypto_code = ''buffer_limit'',
      crypto_message = ''KTP crypto buffer limit exceeded: attempted '' @ show_nat attempted
        @ '', limit '' @ show_nat limit\<rparr>"

definition crypto_ktp :: "KtpError \<Rightarrow> KtpCryptoError" where
  "crypto_ktp e = \<lparr>crypto_code = ''ktp_error'', crypto_message = show_ktp_error e\<rparr>"

definition sequence_exhausted :: KtpCryptoError where
  "sequence_exhausted =
     \<lparr>crypto_code = ''sequence_exhausted'',
      crypto_message = ''KTP crypto sequence exhausted before nonce reuse''\<rparr>"

definition sequence_mismatch :: "u64 \<Rightarrow> u64 \<Rightarrow> KtpCryptoError" where
  "sequence_mismatch expected actual =
     \<lparr>crypto_code = ''sequence_mismatch'',
      crypto_message = ''expected crypto sequence '' @ show_nat (unat expected)
        @ '', got '' @ show_nat (unat actual)\<rparr>"

definition u64_max :: u64 where
  "u64_max = - 1"

section \<open>Headers and nonces\<close>

record CryptoHeader =
  header_sequence :: u64
  ciphertext_len :: nat

definition crypto_header_bytes :: "KtpCryptoDirection \<Rightarrow> u64 \<Rightarrow> nat \<Rightarrow> bytes" where
  "crypto_header_bytes d sequence clen =
     KTP_CRYPTO_MAGIC @ [KTP_CRYPTO_VERSION] @ [direction_id d]
     @ u64_to_be_bytes sequence @ u32_to_be_bytes (of_nat clen) @ replicate 6 0"

definition parse_crypto_header :: "bytes \<Rightarrow> KtpCryptoDirection \<Rightarrow> KtpCryptoError + CryptoHeader" where
  "parse_crypto_header rec expected_direction =
     (if length rec < KTP_CRYPTO_HEADER_LEN then Inl (malformed_record ''truncated crypto header'')
      else if sub_slice 0 4 rec \<noteq> KTP_CRYPTO_MAGIC then Inl (malformed_record ''wrong crypto magic'')
      else if rec ! 4 \<noteq> KTP_CRYPTO_VERSION
      then Inl (malformed_record ''unsupported crypto version'')
      else if rec ! 5 \<noteq> direction_id expected_direction
      then Inl (malformed_record ''wrong crypto direction'')
      else if \<exists>v\<in>set (sub_slice 18 24 rec). v \<noteq> 0
      then Inl (malformed_record ''non-zero crypto reserved bytes'')
      else Inr \<lparr>header_sequence = u64_from_be_bytes (sub_slice 6 14 rec),
                ciphertext_len = unat (u32_from_be_bytes (sub_slice 14 18 rec))\<rparr>)"

definition nonce :: "KtpCryptoDirection \<Rightarrow> u64 \<Rightarrow> bytes" where
  "nonce d sequence = [direction_id d, 0, 0, 0] @ u64_to_be_bytes sequence"

section \<open>Sealing and opening\<close>

record KtpCryptoSeal =
  seal_key :: KtpCryptoKey
  seal_direction :: KtpCryptoDirection
  sequence :: u64

definition crypto_seal_new :: "KtpCryptoKey \<Rightarrow> KtpCryptoDirection \<Rightarrow> KtpCryptoSeal" where
  "crypto_seal_new key d = \<lparr>seal_key = key, seal_direction = d, sequence = 0\<rparr>"

text \<open>
  The record vector grows in place: first 24 zero bytes, then the encoded frame, then the header over
  the zero bytes, then the ciphertext over the frame, then the tag.  An error leaves it as far as it
  got.
\<close>

definition append_sealed_frame ::
  "aead \<Rightarrow> KtpFrame \<Rightarrow> KtpCryptoSeal \<Rightarrow> bytes
   \<Rightarrow> (KtpCryptoError + unit) \<times> KtpCryptoSeal \<times> bytes" where
  "append_sealed_frame A f s rec =
     (if sequence s = u64_max then (Inl sequence_exhausted, s, rec)
      else
        let record_start = length rec;
            payload_start = record_start + KTP_CRYPTO_HEADER_LEN
        in
        case append_frame_bytes f (rec @ replicate KTP_CRYPTO_HEADER_LEN 0) of
          (Inl e, rec1) \<Rightarrow> (Inl (crypto_ktp e), s, rec1)
        | (Inr _, rec1) \<Rightarrow>
            let clen = length rec1 - payload_start + 16;
                header = crypto_header_bytes (seal_direction s) (sequence s) clen;
                plaintext = drop payload_start rec1
            in
            case aead_seal A (seal_key s) (nonce (seal_direction s) (sequence s)) header plaintext of
              None \<Rightarrow> (Inl auth_failed, s, take record_start rec1 @ header @ plaintext)
            | Some (ct, tag) \<Rightarrow>
                (Inr (), s\<lparr>sequence := sequence s + 1\<rparr>,
                 take record_start rec1 @ header @ ct @ tag))"

definition seal_frame_into ::
  "aead \<Rightarrow> KtpFrame \<Rightarrow> KtpCryptoSeal \<Rightarrow> bytes
   \<Rightarrow> (KtpCryptoError + unit) \<times> KtpCryptoSeal \<times> bytes" where
  "seal_frame_into A f s rec = append_sealed_frame A f s []"

definition seal_frame ::
  "aead \<Rightarrow> KtpFrame \<Rightarrow> KtpCryptoSeal \<Rightarrow> (KtpCryptoError + bytes) \<times> KtpCryptoSeal" where
  "seal_frame A f s =
     (case seal_frame_into A f s [] of
        (Inl e, s', _) \<Rightarrow> (Inl e, s')
      | (Inr _, s', rec) \<Rightarrow> (Inr rec, s'))"

record KtpCryptoOpen =
  open_key :: KtpCryptoKey
  open_direction :: KtpCryptoDirection
  open_max_payload_len :: nat
  next_sequence :: u64

definition crypto_open_new ::
  "KtpCryptoKey \<Rightarrow> KtpCryptoDirection \<Rightarrow> nat \<Rightarrow> KtpCryptoOpen" where
  "crypto_open_new key d mpl =
     \<lparr>open_key = key, open_direction = d,
      open_max_payload_len = min mpl KTP_MAX_PAYLOAD_LEN, next_sequence = 0\<rparr>"

definition open_record ::
  "aead \<Rightarrow> bytes \<Rightarrow> KtpCryptoOpen \<Rightarrow> (KtpCryptoError + KtpFrame) \<times> KtpCryptoOpen" where
  "open_record A rec opn =
     (if next_sequence opn = u64_max then (Inl sequence_exhausted, opn)
      else
        case parse_crypto_header rec (open_direction opn) of
          Inl e \<Rightarrow> (Inl e, opn)
        | Inr header \<Rightarrow>
            if header_sequence header \<noteq> next_sequence opn
            then (Inl (sequence_mismatch (next_sequence opn) (header_sequence header)), opn)
            else
              let frame_len = KTP_CRYPTO_HEADER_LEN + ciphertext_len header in
              if length rec < frame_len
              then (Inl (malformed_record ''truncated crypto record''), opn)
              else
                let aad = take KTP_CRYPTO_HEADER_LEN rec;
                    ciphertext = sub_slice KTP_CRYPTO_HEADER_LEN frame_len rec
                in
                case aead_open A (open_key opn)
                       (nonce (open_direction opn) (header_sequence header)) aad ciphertext of
                  None \<Rightarrow> (Inl auth_failed, opn)
                | Some plaintext \<Rightarrow>
                    (case decode_frame plaintext (open_max_payload_len opn) of
                       Inl e \<Rightarrow> (Inl (crypto_ktp e), opn)
                     | Inr f \<Rightarrow> (Inr f, opn\<lparr>next_sequence := next_sequence opn + 1\<rparr>)))"

section \<open>The record codec\<close>

record KtpCryptoRecordCodec = cursor_buf +
  opener :: KtpCryptoOpen

definition record_codec_new ::
  "KtpCryptoKey \<Rightarrow> KtpCryptoDirection \<Rightarrow> nat \<Rightarrow> nat \<Rightarrow> KtpCryptoRecordCodec" where
  "record_codec_new key d mpl mbl =
     \<lparr>buffer = [], read_offset = 0, max_buffer_len = mbl, opener = crypto_open_new key d mpl\<rparr>"

definition record_push ::
  "bytes \<Rightarrow> KtpCryptoRecordCodec \<Rightarrow> (KtpCryptoError + unit) \<times> KtpCryptoRecordCodec" where
  "record_push chunk c =
     (case push_bytes chunk c of
        (Inl (attempted, limit), c') \<Rightarrow> (Inl (buffer_limit attempted limit), c')
      | (Inr _, c') \<Rightarrow> (Inr (), c'))"

definition record_next_frame ::
  "aead \<Rightarrow> KtpCryptoRecordCodec
   \<Rightarrow> (KtpCryptoError + KtpFrame option) \<times> KtpCryptoRecordCodec" where
  "record_next_frame A c =
     (let u = unread c in
      if length u < KTP_CRYPTO_HEADER_LEN then (Inr None, c)
      else
        case parse_crypto_header u (open_direction (opener c)) of
          Inl e \<Rightarrow> (Inl e, c)
        | Inr header \<Rightarrow>
            let record_len = KTP_CRYPTO_HEADER_LEN + ciphertext_len header in
            if record_len > max_buffer_len c
            then (Inl (buffer_limit record_len (max_buffer_len c)), c)
            else if length u < record_len then (Inr None, c)
            else
              case open_record A (sub_slice (read_offset c) (read_offset c + record_len) (buffer c))
                     (opener c) of
                (Inl e, opn') \<Rightarrow> (Inl e, c\<lparr>opener := opn'\<rparr>)
              | (Inr f, opn') \<Rightarrow> (Inr (Some f), consume record_len (c\<lparr>opener := opn'\<rparr>)))"

definition record_next_frames_into ::
  "aead \<Rightarrow> nat \<Rightarrow> KtpFrame list \<Rightarrow> KtpCryptoRecordCodec
   \<Rightarrow> (KtpCryptoError + nat) \<times> KtpFrame list \<times> KtpCryptoRecordCodec" where
  "record_next_frames_into A max_frames frames c =
     poll_frames (record_next_frame A) max_frames [] c"

section \<open>The wire image of a record\<close>

definition record_header :: "KtpCryptoDirection \<Rightarrow> u64 \<Rightarrow> KtpFrame \<Rightarrow> bytes" where
  "record_header d sq f = crypto_header_bytes d sq (length (frame_wire f) + 16)"

definition record_body :: "aead \<Rightarrow> KtpCryptoKey \<Rightarrow> KtpCryptoDirection \<Rightarrow> u64 \<Rightarrow> KtpFrame \<Rightarrow> bytes" where
  "record_body A key d sq f =
     (case aead_seal A key (nonce d sq) (record_header d sq f) (frame_wire f) of
        Some (ct, tag) \<Rightarrow> ct @ tag
      | None \<Rightarrow> [])"

definition record_wire :: "aead \<Rightarrow> KtpCryptoKey \<Rightarrow> KtpCryptoDirection \<Rightarrow> u64 \<Rightarrow> KtpFrame \<Rightarrow> bytes" where
  "record_wire A key d sq f = record_header d sq f @ record_body A key d sq f"

definition record_overhead :: nat where
  "record_overhead = KTP_CRYPTO_HEADER_LEN + KTP_HEADER_LEN + 16"

lemmas crypto_const_defs =
  KTP_CRYPTO_MAGIC_def KTP_CRYPTO_VERSION_def KTP_CRYPTO_HEADER_LEN_def record_overhead_def

lemma length_crypto_header [simp]: "length (crypto_header_bytes d sq n) = KTP_CRYPTO_HEADER_LEN"
  by (simp add: crypto_header_bytes_def crypto_const_defs)

lemma length_record_header [simp]: "length (record_header d sq f) = KTP_CRYPTO_HEADER_LEN"
  by (simp add: record_header_def)

lemma direction_id_inj [simp]: "direction_id a = direction_id b \<longleftrightarrow> a = b"
  by (cases a; cases b) simp_all

lemma parse_crypto_header_bytes:
  assumes "n < 2 ^ 32"
  shows "parse_crypto_header (crypto_header_bytes d sq n @ r) e =
    (if d = e then Inr \<lparr>header_sequence = sq, ciphertext_len = n\<rparr>
     else Inl (malformed_record ''wrong crypto direction''))"
proof -
  let ?h = "crypto_header_bytes d sq n @ r"
  have fields: "sub_slice 0 4 ?h = KTP_CRYPTO_MAGIC" "?h ! 4 = KTP_CRYPTO_VERSION"
    "?h ! 5 = direction_id d" "u64_from_be_bytes (sub_slice 6 14 ?h) = sq"
    "u32_from_be_bytes (sub_slice 14 18 ?h) = of_nat n" "sub_slice 18 24 ?h = replicate 6 0"
    by (simp_all add: crypto_header_bytes_def KTP_CRYPTO_MAGIC_def sub_slice_def)
  have "unat (of_nat n :: u32) = n"
    using assms by (simp add: unat_of_nat take_bit_nat_def)
  then show ?thesis
    unfolding parse_crypto_header_def fields by simp
qed

lemma frame_wire_small:
  assumes "wf_frame f"
  shows "length (frame_wire f) \<le> 2 ^ 24" and "length (frame_wire f) + 16 < 2 ^ 32"
  using wf_frame_payload [OF assms] by (simp_all add: length_frame_wire ktp_const_defs)

lemma parse_record_header:
  "wf_frame f \<Longrightarrow> parse_crypto_header (record_header d sq f @ r) e =
    (if d = e then Inr \<lparr>header_sequence = sq, ciphertext_len = length (frame_wire f) + 16\<rparr>
     else Inl (malformed_record ''wrong crypto direction''))"
  unfolding record_header_def by (rule parse_crypto_header_bytes [OF frame_wire_small(2)])

lemma record_body_seal:
  assumes "aead_correct A" and "wf_frame f"
  obtains ct tag where
    "aead_seal A key (nonce d sq) (record_header d sq f) (frame_wire f) = Some (ct, tag)"
    and "record_body A key d sq f = ct @ tag"
    and "length (record_body A key d sq f) = length (frame_wire f) + 16"
    and "aead_open A key (nonce d sq) (record_header d sq f) (record_body A key d sq f)
         = Some (frame_wire f)"
proof -
  obtain ct tag where
    "aead_seal A key (nonce d sq) (record_header d sq f) (frame_wire f) = Some (ct, tag)"
    "length ct = length (frame_wire f)" "length tag = 16"
    "aead_open A key (nonce d sq) (record_header d sq f) (ct @ tag) = Some (frame_wire f)"
    using assms(1) frame_wire_small(1) [OF assms(2)] unfolding aead_correct_def by blast
  then show thesis by (intro that) (simp_all add: record_body_def)
qed

lemma length_record_wire:
  assumes "aead_correct A" and "wf_frame f"
  shows "length (record_wire A key d sq f) = record_overhead + length (payload f)"
proof -
  obtain "length (record_body A key d sq f) = length (frame_wire f) + 16"
    using record_body_seal [OF assms] .
  then show ?thesis by (simp add: record_wire_def length_frame_wire record_overhead_def)
qed

section \<open>Sealing produces the wire image, opening inverts it\<close>

lemma append_sealed_frame_ok:
  assumes "aead_correct A" and "wf_frame f" and "sequence s \<noteq> u64_max"
  shows "append_sealed_frame A f s rec =
    (Inr (), s\<lparr>sequence := sequence s + 1\<rparr>,
     rec @ record_wire A (seal_key s) (seal_direction s) (sequence s) f)"
proof -
  obtain ct tag where
    "aead_seal A (seal_key s) (nonce (seal_direction s) (sequence s))
       (record_header (seal_direction s) (sequence s) f) (frame_wire f) = Some (ct, tag)"
    "record_body A (seal_key s) (seal_direction s) (sequence s) f = ct @ tag"
    using record_body_seal [OF assms(1,2)] .
  then show ?thesis
    using assms
    by (simp add: append_sealed_frame_def append_frame_bytes_wf Let_def record_wire_def
        record_header_def)
qed

text \<open>On an error the sealer keeps its sequence number.\<close>

lemma append_sealed_frame_error:
  "append_sealed_frame A f s rec = (Inl e, s', rec') \<Longrightarrow> s' = s"
  by (auto simp: append_sealed_frame_def Let_def split: if_splits prod.splits sum.splits
      option.splits)

lemma append_sealed_frame_not_wf:
  assumes "\<not> wf_frame f" and "sequence s \<noteq> u64_max"
  shows "\<exists>e. append_sealed_frame A f s rec =
    (Inl (crypto_ktp e), s, rec @ replicate KTP_CRYPTO_HEADER_LEN 0)"
  using append_frame_bytes_not_wf [OF assms(1), of "rec @ replicate KTP_CRYPTO_HEADER_LEN 0"] assms(2)
  by (auto simp: append_sealed_frame_def Let_def)

lemma open_record_error: "open_record A rec opn = (Inl e, opn') \<Longrightarrow> opn' = opn"
  by (auto simp: open_record_def Let_def split: if_splits sum.splits option.splits)

lemma open_record_wire:
  assumes "aead_correct A" and "wf_frame f" and "length (payload f) \<le> open_max_payload_len opn"
    and "next_sequence opn \<noteq> u64_max"
  shows "open_record A (record_wire A (open_key opn) (open_direction opn) (next_sequence opn) f @ r) opn
    = (Inr f, opn\<lparr>next_sequence := next_sequence opn + 1\<rparr>)"
proof -
  let ?d = "open_direction opn" and ?sq = "next_sequence opn"
  let ?h = "record_header ?d ?sq f" and ?b = "record_body A (open_key opn) ?d ?sq f"
  obtain b: "length ?b = length (frame_wire f) + 16"
    "aead_open A (open_key opn) (nonce ?d ?sq) ?h ?b = Some (frame_wire f)"
    using record_body_seal [OF assms(1,2)] .
  have "take KTP_CRYPTO_HEADER_LEN (?h @ ?b @ r) = ?h"
    by simp
  moreover have "sub_slice KTP_CRYPTO_HEADER_LEN (KTP_CRYPTO_HEADER_LEN + (length (frame_wire f) + 16))
      (?h @ ?b @ r) = ?b"
    using b(1) by (simp add: sub_slice_def)
  ultimately show ?thesis
    using assms(4) b decode_frame_wire [OF assms(2,3), of "[]"]
    by (simp add: open_record_def record_wire_def parse_record_header [OF assms(2)] Let_def)
qed

section \<open>The record codec implements the interface\<close>

definition record_ctx :: "KtpCryptoRecordCodec \<Rightarrow> KtpCryptoOpen \<times> nat" where
  "record_ctx c = (opener c, max_buffer_len c)"

definition record_adv :: "KtpCryptoOpen \<times> nat \<Rightarrow> KtpCryptoOpen \<times> nat" where
  "record_adv k = ((fst k)\<lparr>next_sequence := next_sequence (fst k) + 1\<rparr>, snd k)"

definition record_image :: "aead \<Rightarrow> KtpCryptoOpen \<times> nat \<Rightarrow> KtpFrame \<Rightarrow> bytes" where
  "record_image A k f =
     record_wire A (open_key (fst k)) (open_direction (fst k)) (next_sequence (fst k)) f"

definition record_admissible :: "KtpCryptoOpen \<times> nat \<Rightarrow> KtpFrame \<Rightarrow> bool" where
  "record_admissible k f \<longleftrightarrow>
     wf_frame f \<and> length (payload f) \<le> open_max_payload_len (fst k)
     \<and> next_sequence (fst k) \<noteq> u64_max
     \<and> record_overhead + length (payload f) \<le> snd k"

lemma opener_consume [simp]: "opener (consume n c) = opener (c :: KtpCryptoRecordCodec)"
  by (simp add: consume_def compact_after_consume_def compact_def)

lemma opener_update [simp]:
  "unread (c\<lparr>opener := x\<rparr>) = unread c"
  "cursor_inv (c\<lparr>opener := x\<rparr>) = cursor_inv c"
  by (simp_all add: unread_def cursor_inv_def)

lemma opener_push:
  "push_bytes chunk c = (r, c') \<Longrightarrow> opener c' = opener (c :: KtpCryptoRecordCodec)"
  by (auto simp: push_bytes_def Let_def compact_if_needed_for_push_def compact_def split: if_splits)

lemma sub_slice_unread: "sub_slice (read_offset c) (read_offset c + n) (buffer c) = take n (unread c)"
  by (simp add: sub_slice_def unread_def)

text \<open>What \<open>next_frame\<close> does once the record header is there.\<close>

lemma record_header_ok:
  assumes "wf_frame f" and "unread c = record_header (open_direction (opener c)) sq f @ t"
  shows "record_next_frame A c =
    (let n = record_overhead + length (payload f) in
     if n > max_buffer_len c then (Inl (buffer_limit n (max_buffer_len c)), c)
     else if length (unread c) < n then (Inr None, c)
     else (case open_record A (take n (unread c)) (opener c) of
             (Inl e, opn') \<Rightarrow> (Inl e, c\<lparr>opener := opn'\<rparr>)
           | (Inr g, opn') \<Rightarrow> (Inr (Some g), consume n (c\<lparr>opener := opn'\<rparr>))))"
proof -
  have "KTP_CRYPTO_HEADER_LEN + (length (frame_wire f) + 16) = record_overhead + length (payload f)"
    by (simp add: length_frame_wire record_overhead_def)
  moreover have "\<not> length (unread c) < KTP_CRYPTO_HEADER_LEN"
    by (simp add: assms(2))
  moreover have "parse_crypto_header (unread c) (open_direction (opener c)) =
      Inr \<lparr>header_sequence = sq, ciphertext_len = length (frame_wire f) + 16\<rparr>"
    by (simp add: assms(2) parse_record_header [OF assms(1)])
  ultimately show ?thesis
    by (simp add: record_next_frame_def Let_def sub_slice_unread)
qed

lemma record_nxt_frame:
  assumes "aead_correct A" and "record_admissible (record_ctx c) f"
    and "unread c = record_image A (record_ctx c) f @ r"
  shows "record_next_frame A c =
    (Inr (Some f), consume (record_overhead + length (payload f))
       (c\<lparr>opener := (opener c)\<lparr>next_sequence := next_sequence (opener c) + 1\<rparr>\<rparr>))"
proof -
  have wf: "wf_frame f" using assms(2) by (simp add: record_admissible_def)
  let ?w = "record_image A (record_ctx c) f"
  have len: "length ?w = record_overhead + length (payload f)"
    by (simp add: record_image_def length_record_wire [OF assms(1) wf])
  have "unread c = record_header (open_direction (opener c)) (next_sequence (opener c)) f
      @ record_body A (open_key (opener c)) (open_direction (opener c)) (next_sequence (opener c)) f @ r"
    using assms(3) by (simp add: record_image_def record_wire_def record_ctx_def)
  moreover have "take (record_overhead + length (payload f)) (unread c) = ?w"
    by (simp add: assms(3) flip: len)
  moreover have "open_record A ?w (opener c) =
      (Inr f, (opener c)\<lparr>next_sequence := next_sequence (opener c) + 1\<rparr>)"
    using open_record_wire [OF assms(1) wf, of "opener c" "[]"] assms(2)
    by (simp add: record_image_def record_ctx_def record_admissible_def)
  moreover have "record_overhead + length (payload f) \<le> length (unread c)"
    by (simp add: assms(3) flip: len)
  ultimately show ?thesis
    using record_header_ok [OF wf, of c] assms(2)
    by (simp add: record_admissible_def record_ctx_def Let_def)
qed

lemma record_nxt_short:
  assumes "aead_correct A" and "record_admissible (record_ctx c) f"
    and "unread c @ r = record_image A (record_ctx c) f" and "r \<noteq> []"
  shows "record_next_frame A c = (Inr None, c)"
proof (cases "length (unread c) < KTP_CRYPTO_HEADER_LEN")
  case True
  then show ?thesis by (simp add: record_next_frame_def)
next
  case False
  have wf: "wf_frame f" using assms(2) by (simp add: record_admissible_def)
  let ?h = "record_header (open_direction (opener c)) (next_sequence (opener c)) f"
  obtain t where t: "unread c = ?h @ t"
    using assms(3) False append_eq_longer [of ?h _ "unread c" r]
    unfolding record_image_def record_wire_def record_ctx_def
    by (metis fst_conv length_record_header linorder_not_less)
  have "length (unread c) + length r = record_overhead + length (payload f)"
    using arg_cong [OF assms(3), of length] by (simp add: record_image_def
        length_record_wire [OF assms(1) wf])
  then have "length (unread c) < record_overhead + length (payload f)"
    using assms(4) by (cases r) auto
  then show ?thesis
    using record_header_ok [OF wf t] assms(2)
    by (simp add: record_admissible_def record_ctx_def Let_def)
qed

lemma record_stream_decoder:
  assumes "aead_correct A"
  shows "stream_decoder (record_next_frame A) record_push unread max_buffer_len cursor_inv
    record_ctx record_adv (record_image A) record_admissible"
proof (unfold_locales, goal_cases)
  case (1 s f r)
  have wf: "wf_frame f" using 1(2) by (simp add: record_admissible_def)
  have len: "length (record_image A (record_ctx s) f) = record_overhead + length (payload f)"
    by (simp add: record_image_def length_record_wire [OF assms wf])
  then have "record_overhead + length (payload f) \<le> length (unread s)"
    using 1(3) by simp
  with 1 len show ?case
    by (simp add: record_nxt_frame [OF assms 1(2,3)] cursor_inv_consume record_ctx_def
        record_adv_def flip: len)
next
  case (2 s f r)
  then show ?case by (intro record_nxt_short [OF assms])
next
  case (3 s)
  then show ?case by (simp add: record_next_frame_def KTP_CRYPTO_HEADER_LEN_def)
next
  case (4 s c)
  obtain s' where "push_bytes c s = (Inr (), s')" "unread s' = unread s @ c"
    "cursor_inv s'" "max_buffer_len s' = max_buffer_len s"
    using push_bytes_accept [OF 4] by blast
  then show ?case
    by (simp add: record_push_def record_ctx_def opener_push)
qed

section \<open>A cipher for the examples\<close>

text \<open>
  A toy cipher that satisfies what is relied on: a constant pad derived from key and nonce, and a tag
  that sums up everything that is authenticated.
\<close>

definition toy_pad :: "bytes \<Rightarrow> bytes \<Rightarrow> u8" where
  "toy_pad key n = sum_list (key @ n)"

definition toy_tag :: "bytes \<Rightarrow> bytes \<Rightarrow> bytes \<Rightarrow> bytes \<Rightarrow> bytes" where
  "toy_tag key n aad ct = replicate 16 (sum_list (key @ n @ aad @ ct))"

definition toy_aead :: aead where
  "toy_aead =
     \<lparr>aead_seal = (\<lambda>key n aad pt.
        let ct = map (\<lambda>b. b + toy_pad key n) pt in Some (ct, toy_tag key n aad ct)),
      aead_open = (\<lambda>key n aad msg.
        let ct = take (length msg - 16) msg in
        if 16 \<le> length msg \<and> drop (length msg - 16) msg = toy_tag key n aad ct
        then Some (map (\<lambda>b. b - toy_pad key n) ct) else None)\<rparr>"

lemma map_pad_cancel [simp]:
  "map ((\<lambda>b. b - p) \<circ> (\<lambda>b. b + p)) xs = xs" "map ((\<lambda>b. b + p) \<circ> (\<lambda>b. b - p)) xs = xs"
  for xs :: bytes
  by (simp_all add: comp_def)

lemma toy_aead_correct: "aead_correct toy_aead"
  by (simp add: aead_correct_def toy_aead_def toy_tag_def Let_def)

lemma toy_aead_exact: "aead_exact toy_aead"
proof -
  have "msg = take (length msg - 16) msg @ toy_tag key n aad (take (length msg - 16) msg)"
    if "drop (length msg - 16) msg = toy_tag key n aad (take (length msg - 16) msg)"
    for msg key n aad :: bytes
    by (metis append_take_drop_id that)
  then show ?thesis
    by (auto simp: aead_exact_def toy_aead_def Let_def split: if_splits)
qed

section \<open>Nonces never repeat\<close>

text \<open>The nonces under which a sequence of \<open>seal_frame\<close> calls encrypts, in order.\<close>

fun seal_nonces :: "aead \<Rightarrow> KtpFrame list \<Rightarrow> KtpCryptoSeal \<Rightarrow> bytes list" where
  "seal_nonces A [] s = []"
| "seal_nonces A (f # fs) s =
     (case seal_frame A f s of
        (Inl _, s') \<Rightarrow> seal_nonces A fs s'
      | (Inr _, s') \<Rightarrow> nonce (seal_direction s) (sequence s) # seal_nonces A fs s')"

lemma u64_bytes_inj [simp]: "u64_to_be_bytes a = u64_to_be_bytes b \<longleftrightarrow> a = b"
  by (metis u64_be_roundtrip)

lemma nonce_inj [simp]: "nonce d a = nonce e b \<longleftrightarrow> d = e \<and> a = b"
  by (simp add: nonce_def)

lemma unat_Suc_u64:
  assumes "x \<noteq> u64_max"
  shows "unat (x + 1) = Suc (unat x)"
proof -
  have "1 + x \<noteq> 0"
    using assms by (metis u64_max_def add.commute eq_neg_iff_add_eq_0)
  from unatSuc [OF this] show ?thesis by (simp add: add.commute)
qed

lemma seal_frame_cases:
  obtains (error) e where "seal_frame A f s = (Inl e, s)"
  | (sealed) rec where "seal_frame A f s = (Inr rec, s\<lparr>sequence := sequence s + 1\<rparr>)"
      and "sequence s \<noteq> u64_max" and "wf_frame f"
proof -
  have "(\<exists>e. seal_frame A f s = (Inl e, s))
    \<or> (\<exists>rec. seal_frame A f s = (Inr rec, s\<lparr>sequence := sequence s + 1\<rparr>)
         \<and> sequence s \<noteq> u64_max \<and> wf_frame f)"
  proof (cases "sequence s = u64_max \<or> \<not> wf_frame f")
    case True
    then show ?thesis
      using append_sealed_frame_not_wf [of f s A "[]"]
      by (auto simp: seal_frame_def seal_frame_into_def append_sealed_frame_def)
  next
    case False
    then show ?thesis
      by (auto simp: seal_frame_def seal_frame_into_def append_sealed_frame_def Let_def
          append_frame_bytes_wf split: option.split)
  qed
  then show thesis using error sealed by blast
qed

lemma seal_nonces_range:
  "set (seal_nonces A fs s) \<subseteq> nonce (seal_direction s) ` {x. unat (sequence s) \<le> unat x}"
proof (induction fs arbitrary: s)
  case Nil
  then show ?case by simp
next
  case (Cons f fs)
  show ?case
  proof (cases rule: seal_frame_cases [of A f s])
    case (error e)
    then show ?thesis using Cons by simp
  next
    case (sealed rec)
    then show ?thesis
      using Cons [of "s\<lparr>sequence := sequence s + 1\<rparr>"] by (auto simp: unat_Suc_u64)
  qed
qed

lemma seal_nonces_distinct: "distinct (seal_nonces A fs s)"
proof (induction fs arbitrary: s)
  case Nil
  then show ?case by simp
next
  case (Cons f fs)
  show ?case
  proof (cases rule: seal_frame_cases [of A f s])
    case (error e)
    then show ?thesis using Cons by simp
  next
    case (sealed rec)
    then show ?thesis
      using Cons [of "s\<lparr>sequence := sequence s + 1\<rparr>"]
        seal_nonces_range [of A fs "s\<lparr>sequence := sequence s + 1\<rparr>"]
      by (auto simp: unat_Suc_u64)
  qed
qed


section \<open>What the opener accepts\<close>

lemma open_record_Inr:
  assumes "open_record A rec opn = (Inr f, opn')"
  shows "opn' = opn\<lparr>next_sequence := next_sequence opn + 1\<rparr>" and "next_sequence opn \<noteq> u64_max"
    and "\<exists>header. parse_crypto_header rec (open_direction opn) = Inr header
      \<and> header_sequence header = next_sequence opn"
    and "\<exists>aad msg pt. aead_open A (open_key opn)
        (nonce (open_direction opn) (next_sequence opn)) aad msg = Some pt
      \<and> decode_frame pt (open_max_payload_len opn) = Inr f"
  using assms
  by (auto simp: open_record_def Let_def split: if_splits sum.splits option.splits)

text \<open>
  Claim C8.  Replay protection: a record that was accepted once is refused when it is presented
  again, with the error that names the expected and the received sequence number, and the refusal
  leaves the opener as it was, so that the genuine next record is still accepted.
\<close>
theorem record_replay_refused:
  assumes "open_record A rec opn = (Inr f, opn')" and "next_sequence opn' \<noteq> u64_max"
  shows "open_record A rec opn' =
    (Inl (sequence_mismatch (next_sequence opn + 1) (next_sequence opn)), opn')"
proof -
  note a = open_record_Inr [OF assms(1)]
  have "next_sequence opn \<noteq> next_sequence opn'"
    by (simp add: a(1))
  with a(1,3) assms(2) show ?thesis
    by (auto simp: open_record_def)
qed

lemma toy_open_record:
  "open_record toy_aead (record_wire toy_aead [7] ClientToRelay 0 sample_frame)
     (crypto_open_new [7] ClientToRelay 64)
   = (Inr sample_frame, (crypto_open_new [7] ClientToRelay 64)\<lparr>next_sequence := 1\<rparr>)"
  using open_record_wire [OF toy_aead_correct wf_sample_frame(1),
      of "crypto_open_new [7] ClientToRelay 64" "[]"] wf_sample_frame
  by (simp add: crypto_open_new_def u64_max_def KTP_MAX_PAYLOAD_LEN_def)

theorem record_replay_refused_witness:
  "open_record toy_aead (record_wire toy_aead [7] ClientToRelay 0 sample_frame)
     ((crypto_open_new [7] ClientToRelay 64)\<lparr>next_sequence := 1\<rparr>)
   = (Inl (sequence_mismatch 1 0), (crypto_open_new [7] ClientToRelay 64)\<lparr>next_sequence := 1\<rparr>)"
  using record_replay_refused [OF toy_open_record]
  by (simp add: crypto_open_new_def u64_max_def)

text \<open>
  The use of a record codec, as for the plain codec.  The bytes pushed come from the network, which
  may be hostile.
\<close>

fun record_run ::
  "aead \<Rightarrow> codec_op list \<Rightarrow> KtpCryptoRecordCodec \<Rightarrow> KtpFrame list \<times> KtpCryptoRecordCodec" where
  "record_run A [] c = ([], c)"
| "record_run A (OpPush chunk # ops) c = record_run A ops (snd (record_push chunk c))"
| "record_run A (OpNext # ops) c =
     (case record_next_frame A c of
        (Inr (Some f), c') \<Rightarrow> (case record_run A ops c' of (fs, c'') \<Rightarrow> (f # fs, c''))
      | (_, c') \<Rightarrow> record_run A ops c')"

lemma opener_record_push: "opener (snd (record_push chunk c)) = opener c"
  using opener_push by (auto simp: record_push_def split: prod.splits sum.splits)

lemma record_next_frame_cases:
  obtains (error) e where "record_next_frame A c = (Inl e, c)"
  | (wait) "record_next_frame A c = (Inr None, c)"
  | (frame) f rec opn' n where "open_record A rec (opener c) = (Inr f, opn')"
      and "record_next_frame A c = (Inr (Some f), consume n (c\<lparr>opener := opn'\<rparr>))"
      and "n \<le> length (unread c)"
proof -
  have "(\<exists>e. record_next_frame A c = (Inl e, c)) \<or> record_next_frame A c = (Inr None, c)
    \<or> (\<exists>f rec opn' n. open_record A rec (opener c) = (Inr f, opn') \<and> n \<le> length (unread c)
         \<and> record_next_frame A c = (Inr (Some f), consume n (c\<lparr>opener := opn'\<rparr>)))"
    unfolding record_next_frame_def Let_def
    by (auto split: sum.split prod.split dest: open_record_error simp: linorder_not_less)
  then show thesis using error wait frame by blast
qed

text \<open>
  The authenticity a cipher is trusted for: nothing opens under \<open>key\<close> but what the peer sealed, which
  here are the frames \<open>fs\<close>, the \<open>i\<close>-th under the nonce of sequence number \<open>i\<close>.
\<close>

definition only_sealed_opens ::
  "aead \<Rightarrow> KtpCryptoKey \<Rightarrow> KtpCryptoDirection \<Rightarrow> KtpFrame list \<Rightarrow> bool" where
  "only_sealed_opens A key d fs \<longleftrightarrow>
     (\<forall>n aad msg pt. aead_open A key n aad msg = Some pt \<longrightarrow>
        (\<exists>i < length fs. n = nonce d (of_nat i) \<and> pt = frame_wire (fs ! i)))"

lemma open_record_authentic:
  assumes "only_sealed_opens A (open_key opn) (open_direction opn) fs" and "\<forall>f\<in>set fs. wf_frame f"
    and "length fs < 2 ^ 64" and "open_record A rec opn = (Inr f, opn')"
  shows "unat (next_sequence opn) < length fs \<and> f = fs ! unat (next_sequence opn)"
proof -
  obtain aad msg pt where opens: "aead_open A (open_key opn)
      (nonce (open_direction opn) (next_sequence opn)) aad msg = Some pt"
    and pt: "decode_frame pt (open_max_payload_len opn) = Inr f"
    using open_record_Inr(4) [OF assms(4)] by blast
  obtain i where "i < length fs" "pt = frame_wire (fs ! i)"
    "nonce (open_direction opn) (next_sequence opn) = nonce (open_direction opn) (of_nat i)"
    using assms(1) opens unfolding only_sealed_opens_def by blast
  then have i: "i < length fs" "next_sequence opn = of_nat i" "pt = frame_wire (fs ! i)"
    by simp_all
  have "unat (of_nat i :: u64) = i"
    using i(1) assms(3) by (simp add: unat_of_nat take_bit_nat_def)
  moreover have "frame_wire (fs ! i) @ [] =
      frame_wire f @ drop (KTP_HEADER_LEN + length (payload f)) (frame_wire (fs ! i))"
    using decode_frame_Inr(3) [OF pt] by (simp add: i(3))
  from frame_wire_inj [OF _ decode_frame_Inr(1) [OF pt] this] have "fs ! i = f"
    using assms(2) i(1) by simp
  ultimately show ?thesis using i by simp
qed

lemma record_run_authentic:
  assumes "only_sealed_opens A key d fs" and "\<forall>f\<in>set fs. wf_frame f" and "length fs < 2 ^ 64"
    and "open_key (opener c) = key" and "open_direction (opener c) = d"
  shows "\<exists>k. fst (record_run A ops c) = take k (drop (unat (next_sequence (opener c))) fs)"
  using assms(4,5)
proof (induction ops arbitrary: c)
  case Nil
  show ?case by (rule exI [of _ 0]) simp
next
  case (Cons op ops)
  show ?case
  proof (cases op)
    case (OpPush chunk)
    with Cons.IH [of "snd (record_push chunk c)"] Cons.prems show ?thesis
      by (simp add: opener_record_push)
  next
    case OpNext
    show ?thesis
    proof (cases rule: record_next_frame_cases [of A c])
      case (error e)
      with Cons OpNext show ?thesis by simp
    next
      case wait
      with Cons OpNext show ?thesis by simp
    next
      case (frame f rec opn' n)
      let ?i = "unat (next_sequence (opener c))" and ?d = "consume n (c\<lparr>opener := opn'\<rparr>)"
      have f: "?i < length fs" "f = fs ! ?i"
        using open_record_authentic [OF _ assms(2,3) frame(1)] assms(1) Cons.prems by auto
      have opn': "opn' = (opener c)\<lparr>next_sequence := next_sequence (opener c) + 1\<rparr>"
        "unat (next_sequence (opener c) + 1) = Suc ?i"
        using open_record_Inr(1,2) [OF frame(1)] by (simp_all add: unat_Suc_u64)
      obtain k where "fst (record_run A ops ?d) = take k (drop (Suc ?i) fs)"
        using Cons.IH [of ?d] Cons.prems opn' by auto
      then have "fst (record_run A (op # ops) c) = take (Suc k) (drop ?i fs)"
        using f frame(2) OpNext by (auto simp: Cons_nth_drop_Suc [symmetric] split: prod.split)
      then show ?thesis ..
    qed
  qed
qed


text \<open>A cipher that opens a single message, for the example.\<close>

definition single_aead :: aead where
  "single_aead =
     \<lparr>aead_seal = (\<lambda>_ _ _ _. None),
      aead_open = (\<lambda>key n aad msg.
        if n = nonce ClientToRelay 0 \<and> msg = [5, 5] then Some (frame_wire sample_frame) else None)\<rparr>"

definition hostile_ops :: "codec_op list" where
  "hostile_ops =
     [OpPush (crypto_header_bytes ClientToRelay 0 2), OpNext, OpPush [5, 5], OpNext,
      OpPush (crypto_header_bytes ClientToRelay 0 2 @ [5, 5]), OpNext]"

lemma single_aead_opens: "only_sealed_opens single_aead [] ClientToRelay [sample_frame]"
  by (simp add: only_sealed_opens_def single_aead_def)

lemmas record_eval = record_push_def record_next_frame_def parse_crypto_header_def open_record_def
  crypto_const_defs record_codec_new_def crypto_open_new_def u64_max_def

lemma hostile_header:
  "crypto_header_bytes ClientToRelay 0 2 =
     [75, 84, 69, 49, 1, 1, 0, 0, 0, 0, 0, 0, 0, 0, 0, 0, 0, 2, 0, 0, 0, 0, 0, 0]"
  by code_simp

lemma hostile_run:
  "fst (record_run single_aead hostile_ops (record_codec_new [] ClientToRelay 64 128)) = [sample_frame]"
  by (simp add: hostile_ops_def hostile_header record_eval codec_eval single_aead_def sample_wire)
    (simp add: sample_frame_def)


end
