(* ===== verification/KtpStream.thy ===== *)
theory KtpStream
  imports KtpCrypto
begin

text \<open>
  \<open>KtpEncryptedStream\<close> and \<open>KtpEncryptedTcpFrameRelay\<close> of \<open>src/src/ktp_transport.rs\<close>: a socket with a
  sealer for what is sent and a record codec for what is received, and the relay that forwards frames
  between two of them.  The socket is the environment: what its reads will deliver, how its writes
  will end, and what was written to it.  An operation that awaits a read which the environment has not
  scheduled returns \<open>None\<close>.
\<close>

section \<open>Sockets\<close>

text \<open>
  \<open>WriteFailed n io\<close> is a \<open>write_all\<close> that fails after \<open>n\<close> bytes.  When \<open>write_plan\<close> is used up,
  every further write succeeds.
\<close>

datatype 'io write_result = Written | WriteFailed nat 'io | FlushFailed 'io

record 'io socket =
  incoming :: "'io read_result list"
  write_plan :: "'io write_result list"
  outgoing :: bytes

fun write_flush :: "bytes \<Rightarrow> 'io socket \<Rightarrow> ('io + unit) \<times> 'io socket" where
  "write_flush bs k =
     (case write_plan k of
        [] \<Rightarrow> (Inr (), k\<lparr>outgoing := outgoing k @ bs\<rparr>)
      | Written # plan \<Rightarrow> (Inr (), k\<lparr>write_plan := plan, outgoing := outgoing k @ bs\<rparr>)
      | WriteFailed n io # plan \<Rightarrow>
          (Inl io, k\<lparr>write_plan := plan, outgoing := outgoing k @ take n bs\<rparr>)
      | FlushFailed io # plan \<Rightarrow>
          (Inl io, k\<lparr>write_plan := plan, outgoing := outgoing k @ bs\<rparr>))"

fun tcp_error_code :: "('io, KtpCryptoError) KtpTcpTransportError \<Rightarrow> string" where
  "tcp_error_code (TcpIo _) = ''ktp_tcp_io_error''"
| "tcp_error_code (TcpCrypto e) =
     (let code = crypto_code e in
      if code = ''auth_failed'' then ''ktp_crypto_auth_failed''
      else if code = ''malformed_record'' then ''ktp_crypto_malformed_record''
      else if code = ''buffer_limit'' then ''ktp_crypto_buffer_limit''
      else if code = ''ktp_error'' then ''ktp_crypto_ktp_error''
      else if code = ''sequence_exhausted'' then ''ktp_crypto_sequence_exhausted''
      else if code = ''sequence_mismatch'' then ''ktp_crypto_sequence_mismatch''
      else ''ktp_crypto_error'')"
| "tcp_error_code TcpClosed = ''ktp_tcp_closed''"

text \<open>The texts of errors; the text of an I/O error is the standard library's.\<close>

definition show_crypto_error :: "KtpCryptoError \<Rightarrow> string" where
  "show_crypto_error e = crypto_code e @ '': '' @ crypto_message e"

fun show_tcp_error :: "('io \<Rightarrow> string) \<Rightarrow> ('io, KtpCryptoError) KtpTcpTransportError \<Rightarrow> string" where
  "show_tcp_error show_io (TcpIo e) = show_io e"
| "show_tcp_error show_io (TcpCrypto e) = show_crypto_error e"
| "show_tcp_error show_io TcpClosed = ''KTP encrypted TCP stream closed''"

section \<open>The encrypted stream\<close>

record 'io KtpEncryptedStream =
  sock :: "'io socket"
  seal :: KtpCryptoSeal
  codec :: KtpCryptoRecordCodec
  write_buffer :: bytes

text \<open>The stream reads into a buffer of this size, so that no read delivers more.\<close>

definition READ_BUFFER_LEN :: nat where
  "READ_BUFFER_LEN = 16 * 1024"

definition from_io ::
  "'io socket \<Rightarrow> KtpCryptoKey \<Rightarrow> KtpCryptoDirection \<Rightarrow> KtpCryptoDirection \<Rightarrow> nat \<Rightarrow> nat
   \<Rightarrow> 'io KtpEncryptedStream" where
  "from_io k key seal_dir open_dir mpl mbl =
     \<lparr>sock = k, seal = crypto_seal_new key seal_dir, codec = record_codec_new key open_dir mpl mbl,
      write_buffer = []\<rparr>"

definition write_out ::
  "'io KtpEncryptedStream
   \<Rightarrow> (('io, KtpCryptoError) KtpTcpTransportError + unit) \<times> 'io KtpEncryptedStream" where
  "write_out s =
     (case write_flush (write_buffer s) (sock s) of
        (r, k') \<Rightarrow> (map_err TcpIo r, s\<lparr>sock := k'\<rparr>))"

definition send_frame ::
  "aead \<Rightarrow> KtpFrame \<Rightarrow> 'io KtpEncryptedStream
   \<Rightarrow> (('io, KtpCryptoError) KtpTcpTransportError + unit) \<times> 'io KtpEncryptedStream" where
  "send_frame A f s =
     (case seal_frame_into A f (seal s) (write_buffer s) of
        (Inl e, sl, wb) \<Rightarrow> (Inl (TcpCrypto e), s\<lparr>seal := sl, write_buffer := wb\<rparr>)
      | (Inr _, sl, wb) \<Rightarrow> write_out (s\<lparr>seal := sl, write_buffer := wb\<rparr>))"

text \<open>The loop of \<open>send_frames\<close>, which stops at the first frame that cannot be sealed.\<close>

fun append_sealed_frames ::
  "aead \<Rightarrow> KtpFrame list \<Rightarrow> KtpCryptoSeal \<Rightarrow> bytes
   \<Rightarrow> (KtpCryptoError + unit) \<times> KtpCryptoSeal \<times> bytes" where
  "append_sealed_frames A [] sl wb = (Inr (), sl, wb)"
| "append_sealed_frames A (f # fs) sl wb =
     (case append_sealed_frame A f sl wb of
        (Inl e, sl', wb') \<Rightarrow> (Inl e, sl', wb')
      | (Inr _, sl', wb') \<Rightarrow> append_sealed_frames A fs sl' wb')"

definition send_frames ::
  "aead \<Rightarrow> KtpFrame list \<Rightarrow> 'io KtpEncryptedStream
   \<Rightarrow> (('io, KtpCryptoError) KtpTcpTransportError + unit) \<times> 'io KtpEncryptedStream" where
  "send_frames A fs s =
     (if fs = [] then (Inr (), s)
      else
        case append_sealed_frames A fs (seal s) [] of
          (Inl e, sl, wb) \<Rightarrow> (Inl (TcpCrypto e), s\<lparr>seal := sl, write_buffer := wb\<rparr>)
        | (Inr _, sl, wb) \<Rightarrow> write_out (s\<lparr>seal := sl, write_buffer := wb\<rparr>))"

definition next_frame ::
  "aead \<Rightarrow> 'io KtpEncryptedStream
   \<Rightarrow> (('io, KtpCryptoError) KtpTcpTransportError + KtpFrame) option \<times> 'io KtpEncryptedStream" where
  "next_frame A s =
     (case recv_frame (record_next_frame A) record_push (incoming (sock s)) (codec s) of
        (r, c', reads') \<Rightarrow> (r, s\<lparr>codec := c', sock := (sock s)\<lparr>incoming := reads'\<rparr>\<rparr>))"

text \<open>
  The loop of \<open>next_frames_into\<close>: take what the codec has, up to \<open>max_frames\<close>; only when that is
  nothing, read once more.  An error of the codec leaves the frames decoded before it in the vector.
\<close>

fun recv_batch ::
  "aead \<Rightarrow> nat \<Rightarrow> 'io read_result list \<Rightarrow> KtpFrame list \<Rightarrow> KtpCryptoRecordCodec
   \<Rightarrow> (('io, KtpCryptoError) KtpTcpTransportError + nat) option
      \<times> KtpFrame list \<times> KtpCryptoRecordCodec \<times> 'io read_result list" where
  "recv_batch A max_frames reads frames c =
     (case record_next_frames_into A max_frames frames c of
        (Inl e, fs, c') \<Rightarrow> (Some (Inl (TcpCrypto e)), fs, c', reads)
      | (Inr n, fs, c') \<Rightarrow>
          if n > 0 then (Some (Inr n), fs, c', reads)
          else
            (case reads of
               [] \<Rightarrow> (None, fs, c', [])
             | ReadFailed io # rest \<Rightarrow> (Some (Inl (TcpIo io)), fs, c', rest)
             | ReadBytes chunk # rest \<Rightarrow>
                 if chunk = [] then (Some (Inl TcpClosed), fs, c', rest)
                 else
                   (case record_push chunk c' of
                      (Inl e, c'') \<Rightarrow> (Some (Inl (TcpCrypto e)), fs, c'', rest)
                    | (Inr _, c'') \<Rightarrow> recv_batch A max_frames rest fs c'')))"

declare recv_batch.simps [simp del]

definition next_frames_into ::
  "aead \<Rightarrow> nat \<Rightarrow> KtpFrame list \<Rightarrow> 'io KtpEncryptedStream
   \<Rightarrow> (('io, KtpCryptoError) KtpTcpTransportError + nat) option
      \<times> KtpFrame list \<times> 'io KtpEncryptedStream" where
  "next_frames_into A max_frames frames s =
     (if max_frames = 0 then (Some (Inr 0), [], s)
      else
        case recv_batch A max_frames (incoming (sock s)) [] (codec s) of
          (r, fs, c', reads') \<Rightarrow>
            (r, fs, s\<lparr>codec := c', sock := (sock s)\<lparr>incoming := reads'\<rparr>\<rparr>))"

definition next_frames ::
  "aead \<Rightarrow> nat \<Rightarrow> 'io KtpEncryptedStream
   \<Rightarrow> (('io, KtpCryptoError) KtpTcpTransportError + KtpFrame list) option
      \<times> 'io KtpEncryptedStream" where
  "next_frames A max_frames s =
     (case next_frames_into A max_frames [] s of
        (None, _, s') \<Rightarrow> (None, s')
      | (Some (Inl e), _, s') \<Rightarrow> (Some (Inl e), s')
      | (Some (Inr _), fs, s') \<Rightarrow> (Some (Inr fs), s'))"

section \<open>The relay\<close>

record KtpEncryptedTcpRelayStats =
  frames_left_to_right :: u64
  frames_right_to_left :: u64
  batches_left_to_right :: u64
  batches_right_to_left :: u64
  max_batch_frames_left_to_right :: u64
  max_batch_frames_right_to_left :: u64

definition relay_stats_default :: KtpEncryptedTcpRelayStats where
  "relay_stats_default =
     \<lparr>frames_left_to_right = 0, frames_right_to_left = 0, batches_left_to_right = 0,
      batches_right_to_left = 0, max_batch_frames_left_to_right = 0,
      max_batch_frames_right_to_left = 0\<rparr>"

definition record_left_to_right_batch ::
  "nat \<Rightarrow> KtpEncryptedTcpRelayStats \<Rightarrow> KtpEncryptedTcpRelayStats" where
  "record_left_to_right_batch n st =
     (if n = 0 then st
      else st\<lparr>frames_left_to_right := frames_left_to_right st + of_nat n,
              batches_left_to_right := batches_left_to_right st + 1,
              max_batch_frames_left_to_right :=
                max (max_batch_frames_left_to_right st) (of_nat n)\<rparr>)"

definition record_right_to_left_batch ::
  "nat \<Rightarrow> KtpEncryptedTcpRelayStats \<Rightarrow> KtpEncryptedTcpRelayStats" where
  "record_right_to_left_batch n st =
     (if n = 0 then st
      else st\<lparr>frames_right_to_left := frames_right_to_left st + of_nat n,
              batches_right_to_left := batches_right_to_left st + 1,
              max_batch_frames_right_to_left :=
                max (max_batch_frames_right_to_left st) (of_nat n)\<rparr>)"

record 'io KtpEncryptedTcpFrameRelay =
  left :: "'io KtpEncryptedStream"
  right :: "'io KtpEncryptedStream"
  left_batch :: "KtpFrame list"
  right_batch :: "KtpFrame list"
  relay_stats :: KtpEncryptedTcpRelayStats

definition KTP_RELAY_BATCH_FRAMES :: nat where
  "KTP_RELAY_BATCH_FRAMES = 64"

definition frame_relay_new ::
  "'io KtpEncryptedStream \<Rightarrow> 'io KtpEncryptedStream \<Rightarrow> 'io KtpEncryptedTcpFrameRelay" where
  "frame_relay_new l r =
     \<lparr>left = l, right = r, left_batch = [], right_batch = [], relay_stats = relay_stats_default\<rparr>"

definition relay_next_left_to_right ::
  "aead \<Rightarrow> 'io KtpEncryptedTcpFrameRelay
   \<Rightarrow> (('io, KtpCryptoError) KtpTcpTransportError + KtpFrame) option
      \<times> 'io KtpEncryptedTcpFrameRelay" where
  "relay_next_left_to_right A y =
     (case next_frame A (left y) of
        (None, l) \<Rightarrow> (None, y\<lparr>left := l\<rparr>)
      | (Some (Inl e), l) \<Rightarrow> (Some (Inl e), y\<lparr>left := l\<rparr>)
      | (Some (Inr f), l) \<Rightarrow>
          (case send_frame A f (right y) of
             (Inl e, r) \<Rightarrow> (Some (Inl e), y\<lparr>left := l, right := r\<rparr>)
           | (Inr _, r) \<Rightarrow>
               (Some (Inr f),
                y\<lparr>left := l, right := r,
                  relay_stats := record_left_to_right_batch 1 (relay_stats y)\<rparr>)))"

definition relay_next_right_to_left ::
  "aead \<Rightarrow> 'io KtpEncryptedTcpFrameRelay
   \<Rightarrow> (('io, KtpCryptoError) KtpTcpTransportError + KtpFrame) option
      \<times> 'io KtpEncryptedTcpFrameRelay" where
  "relay_next_right_to_left A y =
     (case next_frame A (right y) of
        (None, r) \<Rightarrow> (None, y\<lparr>right := r\<rparr>)
      | (Some (Inl e), r) \<Rightarrow> (Some (Inl e), y\<lparr>right := r\<rparr>)
      | (Some (Inr f), r) \<Rightarrow>
          (case send_frame A f (left y) of
             (Inl e, l) \<Rightarrow> (Some (Inl e), y\<lparr>left := l, right := r\<rparr>)
           | (Inr _, l) \<Rightarrow>
               (Some (Inr f),
                y\<lparr>left := l, right := r,
                  relay_stats := record_right_to_left_batch 1 (relay_stats y)\<rparr>)))"

definition relay_next_left_to_right_batch ::
  "aead \<Rightarrow> nat \<Rightarrow> 'io KtpEncryptedTcpFrameRelay
   \<Rightarrow> (('io, KtpCryptoError) KtpTcpTransportError + nat) option
      \<times> 'io KtpEncryptedTcpFrameRelay" where
  "relay_next_left_to_right_batch A max_frames y =
     (case next_frames_into A max_frames (left_batch y) (left y) of
        (None, fs, l) \<Rightarrow> (None, y\<lparr>left := l, left_batch := fs\<rparr>)
      | (Some (Inl e), fs, l) \<Rightarrow> (Some (Inl e), y\<lparr>left := l, left_batch := fs\<rparr>)
      | (Some (Inr n), fs, l) \<Rightarrow>
          (case send_frames A fs (right y) of
             (Inl e, r) \<Rightarrow> (Some (Inl e), y\<lparr>left := l, left_batch := fs, right := r\<rparr>)
           | (Inr _, r) \<Rightarrow>
               (Some (Inr n),
                y\<lparr>left := l, left_batch := fs, right := r,
                  relay_stats := record_left_to_right_batch n (relay_stats y)\<rparr>)))"

definition relay_next_right_to_left_batch ::
  "aead \<Rightarrow> nat \<Rightarrow> 'io KtpEncryptedTcpFrameRelay
   \<Rightarrow> (('io, KtpCryptoError) KtpTcpTransportError + nat) option
      \<times> 'io KtpEncryptedTcpFrameRelay" where
  "relay_next_right_to_left_batch A max_frames y =
     (case next_frames_into A max_frames (right_batch y) (right y) of
        (None, fs, r) \<Rightarrow> (None, y\<lparr>right := r, right_batch := fs\<rparr>)
      | (Some (Inl e), fs, r) \<Rightarrow> (Some (Inl e), y\<lparr>right := r, right_batch := fs\<rparr>)
      | (Some (Inr n), fs, r) \<Rightarrow>
          (case send_frames A fs (left y) of
             (Inl e, l) \<Rightarrow> (Some (Inl e), y\<lparr>right := r, right_batch := fs, left := l\<rparr>)
           | (Inr _, l) \<Rightarrow>
               (Some (Inr n),
                y\<lparr>right := r, right_batch := fs, left := l,
                  relay_stats := record_right_to_left_batch n (relay_stats y)\<rparr>)))"

fun relay_bidirectional_rounds ::
  "aead \<Rightarrow> nat \<Rightarrow> 'io KtpEncryptedTcpFrameRelay
   \<Rightarrow> (('io, KtpCryptoError) KtpTcpTransportError + KtpEncryptedTcpRelayStats) option
      \<times> 'io KtpEncryptedTcpFrameRelay" where
  "relay_bidirectional_rounds A 0 y = (Some (Inr (relay_stats y)), y)"
| "relay_bidirectional_rounds A (Suc rounds) y =
     (case relay_next_left_to_right_batch A KTP_RELAY_BATCH_FRAMES y of
        (None, y1) \<Rightarrow> (None, y1)
      | (Some (Inl e), y1) \<Rightarrow> (Some (Inl e), y1)
      | (Some (Inr _), y1) \<Rightarrow>
          (case relay_next_right_to_left_batch A KTP_RELAY_BATCH_FRAMES y1 of
             (None, y2) \<Rightarrow> (None, y2)
           | (Some (Inl e), y2) \<Rightarrow> (Some (Inl e), y2)
           | (Some (Inr _), y2) \<Rightarrow> relay_bidirectional_rounds A rounds y2))"

section \<open>What sending writes\<close>

fun record_wires ::
  "aead \<Rightarrow> KtpCryptoKey \<Rightarrow> KtpCryptoDirection \<Rightarrow> u64 \<Rightarrow> KtpFrame list \<Rightarrow> bytes" where
  "record_wires A key d sq [] = []"
| "record_wires A key d sq (f # fs) = record_wire A key d sq f @ record_wires A key d (sq + 1) fs"

abbreviation sealed_by :: "aead \<Rightarrow> KtpCryptoSeal \<Rightarrow> KtpFrame list \<Rightarrow> bytes" where
  "sealed_by A sl fs \<equiv> record_wires A (seal_key sl) (seal_direction sl) (sequence sl) fs"

abbreviation advanced :: "nat \<Rightarrow> KtpCryptoSeal \<Rightarrow> KtpCryptoSeal" where
  "advanced n sl \<equiv> sl\<lparr>sequence := sequence sl + of_nat n\<rparr>"

lemma record_wires_append:
  "record_wires A key d sq (fs @ gs) =
     record_wires A key d sq fs @ record_wires A key d (sq + of_nat (length fs)) gs"
  by (induction fs arbitrary: sq) (simp_all add: add.assoc)

lemma KtpCryptoSeal_eta [simp]: "s\<lparr>sequence := sequence s\<rparr> = (s :: KtpCryptoSeal)"
  by simp

lemma append_sealed_frame_Inr:
  assumes "aead_correct A" and "append_sealed_frame A f sl wb = (Inr u, sl', wb')"
  shows "wf_frame f" and "sequence sl \<noteq> u64_max" and "sl' = advanced 1 sl"
    and "wb' = wb @ sealed_by A sl [f]"
proof -
  show max: "sequence sl \<noteq> u64_max"
    using assms(2) by (auto simp: append_sealed_frame_def)
  show wf: "wf_frame f"
    using append_sealed_frame_not_wf [OF _ max, of f A wb] assms(2) by auto
  show "sl' = advanced 1 sl" and "wb' = wb @ sealed_by A sl [f]"
    using append_sealed_frame_ok [OF assms(1) wf max, of wb] assms(2) by simp_all
qed

lemma append_sealed_frames_Inr:
  assumes "aead_correct A" and "append_sealed_frames A fs sl wb = (Inr u, sl', wb')"
  shows "list_all wf_frame fs \<and> sl' = advanced (length fs) sl \<and> wb' = wb @ sealed_by A sl fs"
  using assms(2)
proof (induction fs arbitrary: sl wb)
  case Nil
  then show ?case by simp
next
  case (Cons f fs)
  obtain sl1 wb1 where one: "append_sealed_frame A f sl wb = (Inr (), sl1, wb1)"
    and rest: "append_sealed_frames A fs sl1 wb1 = (Inr u, sl', wb')"
    using Cons.prems by (auto split: prod.splits sum.splits)
  from append_sealed_frame_Inr [OF assms(1) one] Cons.IH [OF rest] show ?case
    by (simp add: add.assoc)
qed

lemma unat_u64_max: "unat u64_max = 2 ^ 64 - 1"
  by (simp add: u64_max_def unsigned_minus_1_eq_mask mask_eq_exp_minus_1)

lemma append_sealed_frames_ok:
  assumes "aead_correct A" and "list_all wf_frame fs" and "unat (sequence sl) + length fs < 2 ^ 64"
  shows "append_sealed_frames A fs sl wb = (Inr (), advanced (length fs) sl, wb @ sealed_by A sl fs)"
  using assms(2,3)
proof (induction fs arbitrary: sl wb)
  case Nil
  then show ?case by simp
next
  case (Cons f fs)
  have max: "sequence sl \<noteq> u64_max"
    using Cons.prems(2) by (auto simp: unat_u64_max)
  with Cons show ?case
    by (simp add: append_sealed_frame_ok [OF assms(1)] unat_Suc_u64 add.assoc)
qed

lemma send_frames_ok:
  assumes "aead_correct A" and "list_all wf_frame fs" and "write_plan (sock s) = []"
    and "unat (sequence (seal s)) + length fs < 2 ^ 64"
  shows "\<exists>wb. send_frames A fs s =
    (Inr (), s\<lparr>seal := advanced (length fs) (seal s), write_buffer := wb,
       sock := (sock s)\<lparr>outgoing := outgoing (sock s) @ sealed_by A (seal s) fs\<rparr>\<rparr>)"
proof (cases "fs = []")
  case True
  then show ?thesis by (intro exI [of _ "write_buffer s"]) (simp add: send_frames_def)
next
  case False
  with append_sealed_frames_ok [OF assms(1,2,4), of "[]"] assms(3) show ?thesis
    by (auto simp: send_frames_def write_out_def map_err_def)
qed

section \<open>From sender to receiver\<close>

text \<open>A sender that sends its frames in batches, and a receiver that asks for one frame at a time.\<close>

fun send_batches ::
  "aead \<Rightarrow> KtpFrame list list \<Rightarrow> 'io KtpEncryptedStream
   \<Rightarrow> (('io, KtpCryptoError) KtpTcpTransportError + unit) \<times> 'io KtpEncryptedStream" where
  "send_batches A [] s = (Inr (), s)"
| "send_batches A (b # bs) s =
     (case send_frames A b s of
        (Inl e, s') \<Rightarrow> (Inl e, s')
      | (Inr _, s') \<Rightarrow> send_batches A bs s')"

fun receive ::
  "aead \<Rightarrow> nat \<Rightarrow> 'io KtpEncryptedStream
   \<Rightarrow> (('io, KtpCryptoError) KtpTcpTransportError + KtpFrame list) option
      \<times> 'io KtpEncryptedStream" where
  "receive A 0 s = (Some (Inr []), s)"
| "receive A (Suc n) s =
     (case next_frame A s of
        (None, s') \<Rightarrow> (None, s')
      | (Some (Inl e), s') \<Rightarrow> (Some (Inl e), s')
      | (Some (Inr f), s') \<Rightarrow>
          (case receive A n s' of
             (Some (Inr fs), s'') \<Rightarrow> (Some (Inr (f # fs)), s'')
           | other \<Rightarrow> other))"

lemma receive_codec:
  "receive A n s =
     (case recv_frames (record_next_frame A) record_push n (incoming (sock s)) (codec s) of
        (r, c', reads') \<Rightarrow> (r, s\<lparr>codec := c', sock := (sock s)\<lparr>incoming := reads'\<rparr>\<rparr>))"
  by (induction n arbitrary: s) (auto simp: next_frame_def split: prod.split option.split sum.split)

lemma send_batches_ok:
  assumes "aead_correct A" and "list_all wf_frame (concat bs)" and "write_plan (sock s) = []"
    and "unat (sequence (seal s)) + length (concat bs) < 2 ^ 64"
  shows "\<exists>s'. send_batches A bs s = (Inr (), s')
    \<and> outgoing (sock s') = outgoing (sock s) @ sealed_by A (seal s) (concat bs)"
  using assms(2-4)
proof (induction bs arbitrary: s)
  case Nil
  then show ?case by simp
next
  case (Cons b bs)
  obtain wb where wb: "send_frames A b s =
    (Inr (), s\<lparr>seal := advanced (length b) (seal s), write_buffer := wb,
       sock := (sock s)\<lparr>outgoing := outgoing (sock s) @ sealed_by A (seal s) b\<rparr>\<rparr>)"
    (is "_ = (_, ?s)")
    using send_frames_ok [OF assms(1), of b s] Cons.prems by auto
  have "unat (sequence (seal s) + of_nat (length b)) = unat (sequence (seal s)) + length b"
    using Cons.prems(3) by (simp add: unat_word_ariths unat_of_nat take_bit_nat_def)
  then obtain s' where "send_batches A bs ?s = (Inr (), s')"
    "outgoing (sock s') = outgoing (sock ?s) @ sealed_by A (seal ?s) (concat bs)"
    using Cons.IH [of ?s] Cons.prems by auto
  with wb show ?case by (simp add: record_wires_append)
qed

lemma decoder_wires:
  assumes "aead_correct A"
  shows "stream_decoder.wires record_adv (record_image A) k fs =
    record_wires A (open_key (fst k)) (open_direction (fst k)) (next_sequence (fst k)) fs"
  by (induction fs arbitrary: k)
    (simp_all add: stream_decoder.wires.simps [OF record_stream_decoder [OF assms]]
      record_image_def record_adv_def)

text \<open>A frame that a receiver with these limits can take, whatever the sizes of its reads.\<close>

definition fits_receiver :: "nat \<Rightarrow> nat \<Rightarrow> KtpFrame \<Rightarrow> bool" where
  "fits_receiver mpl mbl f \<longleftrightarrow>
     wf_frame f \<and> length (payload f) \<le> mpl
     \<and> record_overhead + length (payload f) + READ_BUFFER_LEN \<le> Suc mbl"

lemma decoder_receivable:
  assumes "aead_correct A" and "list_all (fits_receiver (open_max_payload_len (fst k)) (snd k)) fs"
    and "unat (next_sequence (fst k)) + length fs < 2 ^ 64"
  shows "stream_decoder.receivable record_adv (record_image A) record_admissible
    READ_BUFFER_LEN (snd k) k fs"
  using assms(2,3)
proof (induction fs arbitrary: k)
  case Nil
  show ?case
    by (simp add: stream_decoder.receivable.simps [OF record_stream_decoder [OF assms(1)]])
next
  case (Cons f fs)
  have max: "next_sequence (fst k) \<noteq> u64_max"
    using Cons.prems(2) by (auto simp: unat_u64_max)
  have "record_admissible k f"
    and "length (record_image A k f) + READ_BUFFER_LEN \<le> Suc (snd k)"
    using Cons.prems(1) max
    by (auto simp: record_admissible_def fits_receiver_def record_image_def READ_BUFFER_LEN_def
        length_record_wire [OF assms(1)])
  moreover have "stream_decoder.receivable record_adv (record_image A) record_admissible
      READ_BUFFER_LEN (snd (record_adv k)) (record_adv k) fs"
    using Cons.prems max by (intro Cons.IH) (simp_all add: record_adv_def unat_Suc_u64)
  moreover have "snd (record_adv k) = snd k"
    by (simp add: record_adv_def)
  ultimately show ?case
    by (simp add: stream_decoder.receivable.simps [OF record_stream_decoder [OF assms(1)]])
qed

text \<open>
  Claim C1.  End to end delivery: two endpoints with the same key and matching directions.  The
  sender sends any frames the receiver's limits admit, in any grouping into batches; the network
  delivers the bytes in order, cut in any way into reads of at most the read buffer's size.  Then
  every send succeeds and the receiver gets exactly these frames, in order.
\<close>
theorem encrypted_stream_delivers:
  assumes "aead_correct A" and "list_all (fits_receiver (min mpl KTP_MAX_PAYLOAD_LEN) mbl) (concat bs)"
    and "length (concat bs) < 2 ^ 64" and "mbl < usize_max"
    and "write_plan k = []" and "outgoing k = []"
    and "send_batches A bs (from_io k key d d' mpl' mbl') = (r, s')"
    and "read_bytes (incoming k') = outgoing (sock s')"
    and "data_reads READ_BUFFER_LEN (incoming k')"
  shows "r = Inr () \<and>
    fst (receive A (length (concat bs)) (from_io k' key d'' d mpl mbl)) = Some (Inr (concat bs))"
proof -
  let ?fs = "concat bs" and ?c = "record_codec_new key d mpl mbl"
  have wf: "list_all wf_frame ?fs"
    using assms(2) by (auto simp: list_all_iff fits_receiver_def)
  have sent: "r = Inr ()" "read_bytes (incoming k') = record_wires A key d 0 ?fs"
    using send_batches_ok [OF assms(1) wf, of "from_io k key d d' mpl' mbl'"] assms(3,5-8)
    by (auto simp: from_io_def crypto_seal_new_def)
  have "cursor_inv ?c"
    using assms(4) by (simp add: cursor_inv_def record_codec_new_def)
  moreover have "stream_decoder.receivable record_adv (record_image A) record_admissible
      READ_BUFFER_LEN (max_buffer_len ?c) (record_ctx ?c) ?fs"
    using decoder_receivable [OF assms(1), of "record_ctx ?c" ?fs] assms(2,3)
    by (simp add: record_ctx_def record_codec_new_def crypto_open_new_def)
  moreover have "unread ?c @ read_bytes (incoming k') =
      stream_decoder.wires record_adv (record_image A) (record_ctx ?c) ?fs @ []"
    by (simp add: decoder_wires [OF assms(1)] sent record_ctx_def record_codec_new_def
        crypto_open_new_def unread_def)
  ultimately have "\<exists>c' reads'. recv_frames (record_next_frame A) record_push (length ?fs)
      (incoming k') ?c = (Some (Inr ?fs), c', reads')"
    using stream_decoder.recv_all [OF record_stream_decoder [OF assms(1)] _ _ assms(9)] by blast
  with sent show ?thesis
    by (auto simp: receive_codec from_io_def)
qed

definition idle_socket :: "unit socket" where
  "idle_socket = \<lparr>incoming = [], write_plan = [], outgoing = []\<rparr>"

definition two_reads :: "bytes \<Rightarrow> unit socket" where
  "two_reads w = idle_socket\<lparr>incoming := [ReadBytes (take 10 w), ReadBytes (drop 10 w)]\<rparr>"

lemma length_record_wires:
  "aead_correct A \<Longrightarrow> list_all wf_frame fs \<Longrightarrow>
     length (record_wires A key d sq fs) = (\<Sum>f\<leftarrow>fs. record_overhead + length (payload f))"
  by (induction fs arbitrary: sq) (simp_all add: length_record_wire)

theorem encrypted_stream_delivers_witness:
  "\<exists>s'. send_batches toy_aead [[sample_frame], [sample_frame, sample_frame]]
       (from_io idle_socket [7] ClientToRelay RelayToClient 64 32768) = (Inr (), s')
     \<and> fst (receive toy_aead 3 (from_io (two_reads (outgoing (sock s'))) [7] RelayToClient
          ClientToRelay 64 32768)) = Some (Inr [sample_frame, sample_frame, sample_frame])"
proof -
  let ?bs = "[[sample_frame], [sample_frame, sample_frame]]"
  let ?s = "from_io idle_socket [7] ClientToRelay RelayToClient 64 32768"
  have wf: "list_all wf_frame (concat ?bs)" using wf_sample_frame by simp
  obtain s' where s': "send_batches toy_aead ?bs ?s = (Inr (), s')"
    "outgoing (sock s') = record_wires toy_aead [7] ClientToRelay 0 (concat ?bs)"
    using send_batches_ok [OF toy_aead_correct wf, of ?s]
    by (auto simp: from_io_def idle_socket_def crypto_seal_new_def)
  have len: "length (outgoing (sock s')) = 201"
    unfolding s'(2) length_record_wires [OF toy_aead_correct wf]
    by (simp add: wf_sample_frame crypto_const_defs KTP_HEADER_LEN_def)
  then have reads: "data_reads READ_BUFFER_LEN (incoming (two_reads (outgoing (sock s'))))"
    by (auto simp: two_reads_def READ_BUFFER_LEN_def)
  have fit: "list_all (fits_receiver (min 64 KTP_MAX_PAYLOAD_LEN) 32768) (concat ?bs)"
    by (simp add: fits_receiver_def wf_sample_frame READ_BUFFER_LEN_def crypto_const_defs
        ktp_const_defs)
  have "fst (receive toy_aead (length (concat ?bs)) (from_io (two_reads (outgoing (sock s'))) [7]
      RelayToClient ClientToRelay 64 32768)) = Some (Inr (concat ?bs))"
    using encrypted_stream_delivers [OF toy_aead_correct fit _ _ _ _ s'(1) _ reads]
    by (simp add: usize_max_def two_reads_def idle_socket_def)
  with s'(1) show ?thesis by (simp add: numeral_3_eq_3)
qed

section \<open>A failing batch\<close>

lemma append_sealed_frames_append:
  "append_sealed_frames A (fs @ gs) sl wb =
     (case append_sealed_frames A fs sl wb of
        (Inl e, sl', wb') \<Rightarrow> (Inl e, sl', wb')
      | (Inr _, sl', wb') \<Rightarrow> append_sealed_frames A gs sl' wb')"
  by (induction fs arbitrary: sl wb) (auto split: prod.split sum.split)

lemma open_record_out_of_order:
  assumes "aead_correct A" and "wf_frame f" and "next_sequence opn \<noteq> u64_max"
    and "sq \<noteq> next_sequence opn"
  shows "open_record A (record_wire A key (open_direction opn) sq f) opn =
    (Inl (sequence_mismatch (next_sequence opn) sq), opn)"
  using assms(3,4) by (simp add: open_record_def record_wire_def parse_record_header [OF assms(2)])

text \<open>
  Claim C9.  \<open>send_frames\<close> is not atomic: when a later frame of a batch cannot be encoded, nothing of
  the batch is written, but the sequence numbers of the frames before it are used up.  A receiver that
  was in step refuses the next frame that is sent successfully, with a sequence mismatch.
\<close>
theorem send_frames_partial_batch:
  assumes "aead_correct A" and "list_all wf_frame fs" and "fs \<noteq> []" and "\<not> wf_frame bad"
    and "wf_frame g" and "unat (sequence (seal s)) + length fs + 1 < 2 ^ 64"
    and "write_plan (sock s) = []" and "open_direction opn = seal_direction (seal s)"
    and "next_sequence opn = sequence (seal s)"
    and "send_frames A (fs @ [bad]) s = (r, s1)" and "send_frame A g s1 = (r2, s2)"
  shows "(\<exists>e. r = Inl (TcpCrypto (crypto_ktp e))) \<and> sock s1 = sock s \<and> r2 = Inr ()
    \<and> (\<exists>rec. outgoing (sock s2) = outgoing (sock s) @ rec
         \<and> open_record A rec opn =
             (Inl (sequence_mismatch (next_sequence opn) (next_sequence opn + of_nat (length fs))), opn))"
proof -
  let ?sq = "sequence (seal s) + of_nat (length fs)"
  have sq: "unat ?sq = unat (sequence (seal s)) + length fs"
    using assms(6) by (simp add: unat_word_ariths unat_of_nat take_bit_nat_def)
  have max: "?sq \<noteq> u64_max" "next_sequence opn \<noteq> u64_max"
    using sq assms(6,9) by (auto simp: unat_u64_max dest!: arg_cong [of _ _ unat])
  have neq: "?sq \<noteq> next_sequence opn"
    using sq assms(3,9) by auto
  have lt: "unat (sequence (seal s)) + length fs < 2 ^ 64"
    using assms(6) by simp
  obtain e where e: "append_sealed_frame A bad (advanced (length fs) (seal s)) (sealed_by A (seal s) fs) =
      (Inl (crypto_ktp e), advanced (length fs) (seal s),
       sealed_by A (seal s) fs @ replicate KTP_CRYPTO_HEADER_LEN 0)"
    using append_sealed_frame_not_wf [OF assms(4), of "advanced (length fs) (seal s)"] max(1) by auto
  have one: "r = Inl (TcpCrypto (crypto_ktp e))" "sock s1 = sock s"
    "seal s1 = advanced (length fs) (seal s)"
    using assms(10) append_sealed_frames_ok [OF assms(1,2) lt, of "[]"] e
    by (auto simp: send_frames_def append_sealed_frames_append)
  then have "r2 = Inr ()" "outgoing (sock s2) = outgoing (sock s) @
      record_wire A (seal_key (seal s)) (seal_direction (seal s)) ?sq g"
    using assms(7,11) append_sealed_frame_ok [OF assms(1,5), of "seal s1" "[]"] max(1)
    by (auto simp: send_frame_def seal_frame_into_def write_out_def map_err_def)
  with one open_record_out_of_order [OF assms(1,5) max(2) neq, of "seal_key (seal s)"] assms(8,9)
  show ?thesis by auto
qed

definition bad_frame :: KtpFrame where
  "bad_frame = sample_frame\<lparr>session_id := 0\<rparr>"

theorem send_frames_partial_batch_witness:
  "\<exists>r s1 r2 s2 rec.
     send_frames toy_aead [sample_frame, bad_frame]
       (from_io idle_socket [7] ClientToRelay RelayToClient 64 32768) = (r, s1)
     \<and> send_frame toy_aead sample_frame s1 = (r2, s2) \<and> r2 = Inr () \<and> outgoing (sock s2) = rec
     \<and> open_record toy_aead rec (crypto_open_new [7] ClientToRelay 64) =
         (Inl (sequence_mismatch 0 1), crypto_open_new [7] ClientToRelay 64)"
proof -
  let ?s = "from_io idle_socket [7] ClientToRelay RelayToClient 64 32768"
  obtain r s1 where 1: "send_frames toy_aead ([sample_frame] @ [bad_frame]) ?s = (r, s1)"
    by fastforce
  obtain r2 s2 where 2: "send_frame toy_aead sample_frame s1 = (r2, s2)"
    by fastforce
  have "\<not> wf_frame bad_frame"
    by (simp add: wf_frame_def bad_frame_def sample_frame_def is_connection_level_def)
  with send_frames_partial_batch [OF toy_aead_correct _ _ _ wf_sample_frame(1) _ _ _ _ 1 2,
      of "crypto_open_new [7] ClientToRelay 64"] 1 2
  show ?thesis
    by (simp add: from_io_def crypto_seal_new_def crypto_open_new_def idle_socket_def wf_sample_frame)
qed

section \<open>The relay forwards what it receives\<close>

lemma poll_frames_Inr:
  "poll_frames nxt n frames s = (Inr k, fs, s') \<Longrightarrow>
     k = length fs \<and> length fs \<le> length frames + n"
  by (induction nxt n frames s rule: poll_frames.induct)
    (auto split: prod.splits sum.splits option.splits)

lemma recv_batch_Inr:
  "recv_batch A n reads frames c = (Some (Inr k), fs, c', reads') \<Longrightarrow>
     k = length fs \<and> 0 < k \<and> k \<le> n"
proof (induction A n reads frames c rule: recv_batch.induct)
  case (1 A n reads frames c)
  obtain r fs1 c1 where nf: "record_next_frames_into A n frames c = (r, fs1, c1)"
    by (cases "record_next_frames_into A n frames c") auto
  note step = "1.prems" [unfolded recv_batch.simps [of A n reads frames c] nf]
  consider e where "r = Inl e" | m where "r = Inr m" "0 < m" | "r = Inr 0" by (cases r) auto
  then show ?case
  proof cases
    case 1
    with step show ?thesis by simp
  next
    case 2
    with step poll_frames_Inr [OF nf [unfolded record_next_frames_into_def 2(1)]] show ?thesis
      by auto
  next
    case 3
    with step obtain chunk rest c2 where "reads = ReadBytes chunk # rest" "chunk \<noteq> []"
      "record_push chunk c1 = (Inr (), c2)"
      "recv_batch A n rest fs1 c2 = (Some (Inr k), fs, c', reads')"
      by (auto split: list.splits read_result.splits if_splits prod.splits sum.splits)
    with "1.IH" [OF nf [symmetric] 3 refl] show ?thesis by simp
  qed
qed

lemma next_frames_into_Inr:
  "next_frames_into A n frames s = (Some (Inr k), fs, s') \<Longrightarrow> 0 < n \<Longrightarrow>
     k = length fs \<and> 0 < k \<and> k \<le> n"
  by (auto simp: next_frames_into_def split: prod.splits dest: recv_batch_Inr)

lemma send_frames_Inr:
  assumes "aead_correct A" and "write_plan (sock s) = []" and "send_frames A fs s = (Inr u, s')"
  shows "outgoing (sock s') = outgoing (sock s) @ sealed_by A (seal s) fs
    \<and> seal s' = advanced (length fs) (seal s) \<and> codec s' = codec s"
proof (cases "fs = []")
  case True
  with assms(3) show ?thesis by (simp add: send_frames_def)
next
  case False
  obtain r sl wb where a: "append_sealed_frames A fs (seal s) [] = (r, sl, wb)"
    by (cases "append_sealed_frames A fs (seal s) []") auto
  with assms(3) False obtain v where "r = Inr v"
    by (cases r) (auto simp: send_frames_def)
  with a have ok: "append_sealed_frames A fs (seal s) [] = (Inr v, sl, wb)" by simp
  from append_sealed_frames_Inr [OF assms(1) ok] ok assms(2,3) False show ?thesis
    by (auto simp: send_frames_def write_out_def map_err_def)
qed

text \<open>
  A relay step from left to right that succeeds has taken between one and \<open>max_frames\<close>
  frames from the left endpoint and has written to the right one exactly the records of these frames,
  all of them, in the same order, under consecutive fresh sequence numbers; the counters grow by that
  number of frames and by one batch, and what the right endpoint has received so far is untouched.
\<close>
theorem relay_batch_forwards:
  assumes "aead_correct A" and "0 < max_frames" and "write_plan (sock (right y)) = []"
    and "relay_next_left_to_right_batch A max_frames y = (Some (Inr n), y')"
  shows "n = length (left_batch y') \<and> 0 < n \<and> n \<le> max_frames
    \<and> outgoing (sock (right y')) =
        outgoing (sock (right y)) @ sealed_by A (seal (right y)) (left_batch y')
    \<and> seal (right y') = advanced n (seal (right y)) \<and> codec (right y') = codec (right y)
    \<and> relay_stats y' = record_left_to_right_batch n (relay_stats y)"
proof -
  obtain fs l r where "next_frames_into A max_frames (left_batch y) (left y) = (Some (Inr n), fs, l)"
    and "send_frames A fs (right y) = (Inr (), r)"
    and "y' = y\<lparr>left := l, left_batch := fs, right := r,
      relay_stats := record_left_to_right_batch n (relay_stats y)\<rparr>"
    using assms(4) unfolding relay_next_left_to_right_batch_def
    by (auto split: prod.splits option.splits sum.splits)
  then show ?thesis
    using next_frames_into_Inr [OF _ assms(2)] send_frames_Inr [OF assms(1,3)] by fastforce
qed

lemma recv_batch_one:
  assumes "aead_correct A" and "cursor_inv c" and "unread c = []"
    and "record_admissible (record_ctx c) f"
  shows "\<exists>c' reads'. recv_batch A (Suc n) [ReadBytes (record_image A (record_ctx c) f)] [] c =
    (Some (Inr 1), [f], c', reads')"
proof -
  note d = record_stream_decoder [OF assms(1)]
  let ?w = "record_image A (record_ctx c) f"
  have wf: "wf_frame f" using assms(4) by (simp add: record_admissible_def)
  have len: "length ?w = record_overhead + length (payload f)"
    by (simp add: record_image_def length_record_wire [OF assms(1) wf])
  then have ne: "?w \<noteq> []" by (auto simp: crypto_const_defs)
  have none: "record_next_frame A c = (Inr None, c)"
    using stream_decoder.nxt_short [OF d assms(2,4) _ ne] assms(3) by simp
  have "length (unread c) + length ?w \<le> max_buffer_len c"
    using assms(3,4) len by (simp add: record_admissible_def record_ctx_def)
  then obtain c1 where c1: "record_push ?w c = (Inr (), c1)" "cursor_inv c1" "unread c1 = ?w"
    "record_ctx c1 = record_ctx c"
    using stream_decoder.psh_fits [OF d assms(2)] assms(3) by fastforce
  obtain c2 where c2: "record_next_frame A c1 = (Inr (Some f), c2)" "unread c2 = []"
    using stream_decoder.nxt_frame [OF d c1(2), of f "[]"] c1 assms(4) by auto
  have "poll_frames (record_next_frame A) n [f] c2 = (Inr 1, [f], c2)"
    using c2(2) by (cases n) (simp_all add: record_next_frame_def crypto_const_defs)
  with none c1(1) c2(1) ne show ?thesis
    by (simp add: recv_batch.simps record_next_frames_into_def)
qed

definition sample_relay :: "unit KtpEncryptedTcpFrameRelay" where
  "sample_relay =
     frame_relay_new
       (from_io (idle_socket\<lparr>incoming :=
            [ReadBytes (record_wire toy_aead [7] ClientToRelay 0 sample_frame)]\<rparr>)
          [7] RelayToClient ClientToRelay 64 32768)
       (from_io (idle_socket\<lparr>incoming :=
            [ReadBytes (record_wire toy_aead [8] ClientToRelay 0 sample_frame)]\<rparr>)
          [8] RelayToClient ClientToRelay 64 32768)"

lemmas sample_relay_eval = sample_relay_def frame_relay_new_def from_io_def idle_socket_def
  crypto_seal_new_def

text \<open>What a fresh endpoint does when one whole record is all it will ever read.\<close>

lemma fresh_stream_receives:
  fixes s :: "'io KtpEncryptedStream"
  assumes "codec s = record_codec_new key d 64 32768"
    and "incoming (sock s) = [ReadBytes (record_wire toy_aead key d 0 sample_frame)]"
  shows "\<exists>c' reads'. next_frames_into toy_aead KTP_RELAY_BATCH_FRAMES frames s =
    (Some (Inr 1), [sample_frame], s\<lparr>codec := c', sock := (sock s)\<lparr>incoming := reads'\<rparr>\<rparr>)"
proof -
  have "\<exists>c' (reads' :: 'io read_result list). recv_batch toy_aead (Suc 63)
      [ReadBytes (record_image toy_aead (record_ctx (codec s)) sample_frame)] [] (codec s) =
      (Some (Inr 1), [sample_frame], c', reads')"
    by (rule recv_batch_one [OF toy_aead_correct])
      (simp_all add: assms(1) record_ctx_def record_codec_new_def crypto_open_new_def
        cursor_inv_def unread_def usize_max_def record_admissible_def wf_sample_frame u64_max_def
        crypto_const_defs ktp_const_defs)
  moreover have "record_image toy_aead (record_ctx (codec s)) sample_frame =
      record_wire toy_aead key d 0 sample_frame"
    by (simp add: assms(1) record_image_def record_ctx_def record_codec_new_def crypto_open_new_def)
  ultimately show ?thesis
    by (auto simp: next_frames_into_def KTP_RELAY_BATCH_FRAMES_def assms) blast
qed

lemma fresh_stream_sends:
  assumes "seal s = crypto_seal_new key d" and "write_plan (sock s) = []"
  shows "\<exists>wb. send_frames toy_aead [sample_frame] s =
    (Inr (), s\<lparr>seal := advanced 1 (seal s), write_buffer := wb,
       sock := (sock s)\<lparr>outgoing := outgoing (sock s) @ sealed_by toy_aead (seal s) [sample_frame]\<rparr>\<rparr>)"
  using send_frames_ok [OF toy_aead_correct, of "[sample_frame]" s] assms
  by (simp add: wf_sample_frame crypto_seal_new_def)

lemma sample_relay_step:
  obtains y' where
    "relay_next_left_to_right_batch toy_aead KTP_RELAY_BATCH_FRAMES sample_relay = (Some (Inr 1), y')"
    and "seal (left y') = crypto_seal_new [7] RelayToClient" and "write_plan (sock (left y')) = []"
    and "codec (right y') = codec (right sample_relay)"
    and "incoming (sock (right y')) = incoming (sock (right sample_relay))"
proof -
  obtain l where l: "next_frames_into toy_aead KTP_RELAY_BATCH_FRAMES [] (left sample_relay) =
      (Some (Inr 1), [sample_frame], l)"
    "seal l = crypto_seal_new [7] RelayToClient" "write_plan (sock l) = []"
    using fresh_stream_receives [of "left sample_relay" "[7]" ClientToRelay "[]"]
    by (auto simp: sample_relay_eval)
  obtain r where r: "send_frames toy_aead [sample_frame] (right sample_relay) = (Inr (), r)"
    "codec r = codec (right sample_relay)" "incoming (sock r) = incoming (sock (right sample_relay))"
    using fresh_stream_sends [of "right sample_relay" "[8]" RelayToClient]
    by (auto simp: sample_relay_eval)
  have "left_batch sample_relay = []" by (simp add: sample_relay_eval)
  with l(1) r(1) have "relay_next_left_to_right_batch toy_aead KTP_RELAY_BATCH_FRAMES sample_relay =
      (Some (Inr 1), sample_relay\<lparr>left := l, left_batch := [sample_frame], right := r,
         relay_stats := record_left_to_right_batch 1 (relay_stats sample_relay)\<rparr>)"
    by (simp add: relay_next_left_to_right_batch_def)
  from that [OF this] l(2,3) r(2,3) show thesis by simp
qed

theorem relay_batch_forwards_witness:
  "\<exists>y'. relay_next_left_to_right_batch toy_aead KTP_RELAY_BATCH_FRAMES sample_relay = (Some (Inr 1), y')
     \<and> length (left_batch y') = 1
     \<and> outgoing (sock (right y')) = record_wires toy_aead [8] RelayToClient 0 (left_batch y')"
proof -
  obtain y' where y':
    "relay_next_left_to_right_batch toy_aead KTP_RELAY_BATCH_FRAMES sample_relay = (Some (Inr 1), y')"
    using sample_relay_step by blast
  have "length (left_batch y') = 1
    \<and> outgoing (sock (right y')) = record_wires toy_aead [8] RelayToClient 0 (left_batch y')"
    using relay_batch_forwards [OF toy_aead_correct _ _ y']
    by (simp add: sample_relay_eval KTP_RELAY_BATCH_FRAMES_def)
  with y' show ?thesis by blast
qed

section \<open>The relay's counters\<close>

text \<open>After \<open>m\<close> batches in each direction.\<close>

definition relay_counts :: "nat \<Rightarrow> KtpEncryptedTcpRelayStats \<Rightarrow> bool" where
  "relay_counts m st \<longleftrightarrow>
     unat (batches_left_to_right st) = m \<and> unat (batches_right_to_left st) = m
     \<and> m \<le> unat (frames_left_to_right st) \<and> unat (frames_left_to_right st) \<le> 64 * m
     \<and> m \<le> unat (frames_right_to_left st) \<and> unat (frames_right_to_left st) \<le> 64 * m
     \<and> unat (max_batch_frames_left_to_right st) \<le> 64
     \<and> unat (max_batch_frames_right_to_left st) \<le> 64"

lemma unat_add_of_nat: "unat (a :: u64) + n < 2 ^ 64 \<Longrightarrow> unat (a + of_nat n) = unat a + n"
  by (simp add: unat_word_ariths unat_of_nat take_bit_nat_def)

lemma unat_max_u64: "unat (max a b :: u64) = max (unat a) (unat b)"
  by (simp add: max_def word_le_nat_alt)

lemma relay_counts_step:
  assumes "relay_counts m st" and "0 < i" "i \<le> 64" and "0 < j" "j \<le> 64" and "64 * Suc m < 2 ^ 64"
  shows "relay_counts (Suc m) (record_right_to_left_batch j (record_left_to_right_batch i st))"
proof -
  have "unat (a + 1) = Suc (unat a)" if "unat a = m" for a :: u64
    using unat_add_of_nat [of a 1] that assms(6) by simp
  moreover have "unat (a + of_nat n) = unat a + n" if "unat a \<le> 64 * m" "n \<le> 64" for a :: u64 and n
    using that assms(6) by (intro unat_add_of_nat) simp
  moreover have "unat (of_nat n :: u64) = n" if "n \<le> 64" for n
    using that by (simp add: unat_of_nat take_bit_nat_def)
  ultimately show ?thesis
    using assms
    by (simp add: relay_counts_def record_left_to_right_batch_def record_right_to_left_batch_def
        unat_max_u64)
qed

lemma relay_left_stats:
  assumes "relay_next_left_to_right_batch A KTP_RELAY_BATCH_FRAMES y = (Some (Inr n), y')"
  shows "0 < n \<and> n \<le> 64 \<and> relay_stats y' = record_left_to_right_batch n (relay_stats y)"
  using assms next_frames_into_Inr [of A KTP_RELAY_BATCH_FRAMES]
  unfolding relay_next_left_to_right_batch_def
  by (fastforce simp: KTP_RELAY_BATCH_FRAMES_def split: prod.splits option.splits sum.splits)

lemma relay_right_stats:
  assumes "relay_next_right_to_left_batch A KTP_RELAY_BATCH_FRAMES y = (Some (Inr n), y')"
  shows "0 < n \<and> n \<le> 64 \<and> relay_stats y' = record_right_to_left_batch n (relay_stats y)"
  using assms next_frames_into_Inr [of A KTP_RELAY_BATCH_FRAMES]
  unfolding relay_next_right_to_left_batch_def
  by (fastforce simp: KTP_RELAY_BATCH_FRAMES_def split: prod.splits option.splits sum.splits)

lemma relay_rounds_counts:
  "relay_bidirectional_rounds A rounds y = (Some (Inr st), y') \<Longrightarrow> relay_counts m (relay_stats y)
    \<Longrightarrow> 64 * (m + rounds) < 2 ^ 64 \<Longrightarrow> relay_counts (m + rounds) st"
proof (induction rounds arbitrary: y m)
  case 0
  then show ?case by auto
next
  case (Suc rounds)
  obtain i y1 j y2 where
    l: "relay_next_left_to_right_batch A KTP_RELAY_BATCH_FRAMES y = (Some (Inr i), y1)" and
    r: "relay_next_right_to_left_batch A KTP_RELAY_BATCH_FRAMES y1 = (Some (Inr j), y2)" and
    rest: "relay_bidirectional_rounds A rounds y2 = (Some (Inr st), y')"
    using Suc.prems(1) by (auto split: prod.splits option.splits sum.splits)
  have "relay_counts (Suc m) (relay_stats y2)"
    using relay_counts_step [OF Suc.prems(2)] relay_left_stats [OF l] relay_right_stats [OF r]
      Suc.prems(3) by simp
  with Suc.IH [OF rest, of "Suc m"] Suc.prems(3) show ?case by simp
qed

text \<open>
  The counters of a relay tell the truth: after \<open>rounds\<close> completed rounds each direction
  has counted exactly \<open>rounds\<close> batches, at least one and at most 64 frames per batch, and no batch of
  more than 64 frames.
\<close>
theorem relay_rounds_bounds:
  assumes "relay_bidirectional_rounds A rounds (frame_relay_new l r) = (Some (Inr st), y')"
    and "64 * rounds < 2 ^ 64"
  shows "relay_counts rounds st"
  using relay_rounds_counts [OF assms(1), of 0] assms(2)
  by (simp add: relay_counts_def frame_relay_new_def relay_stats_default_def)

lemma sample_relay_round:
  "\<exists>st y'. relay_bidirectional_rounds toy_aead 1 sample_relay = (Some (Inr st), y')"
proof -
  obtain y where
    y: "relay_next_left_to_right_batch toy_aead KTP_RELAY_BATCH_FRAMES sample_relay = (Some (Inr 1), y)"
    "seal (left y) = crypto_seal_new [7] RelayToClient" "write_plan (sock (left y)) = []"
    "codec (right y) = codec (right sample_relay)"
    "incoming (sock (right y)) = incoming (sock (right sample_relay))"
    using sample_relay_step by blast
  have "\<exists>r'. next_frames_into toy_aead KTP_RELAY_BATCH_FRAMES (right_batch y) (right y) =
      (Some (Inr 1), [sample_frame], r')"
    using fresh_stream_receives [of "right y" "[8]" ClientToRelay "right_batch y"] y
    by (auto simp: sample_relay_eval)
  then have "\<exists>y'. relay_next_right_to_left_batch toy_aead KTP_RELAY_BATCH_FRAMES y = (Some (Inr 1), y')"
    using fresh_stream_sends [OF y(2,3)] by (auto simp: relay_next_right_to_left_batch_def)
  with y(1) show ?thesis by auto
qed

theorem relay_rounds_bounds_witness:
  "\<exists>st y'. relay_bidirectional_rounds toy_aead 1 sample_relay = (Some (Inr st), y')
     \<and> relay_counts 1 st"
proof -
  obtain st y' where r: "relay_bidirectional_rounds toy_aead 1 sample_relay = (Some (Inr st), y')"
    using sample_relay_round by blast
  then have "relay_counts 1 st"
    using relay_rounds_bounds unfolding sample_relay_def by fastforce
  with r show ?thesis by blast
qed

end
