(* ===== verification/TunnelCarrier.thy ===== *)
theory TunnelCarrier
  imports KtpStream TunnelReady
begin

text \<open>
  The KTP carrier of the tunnel data connection (\<open>tunnel_data.rs\<close>): the authentication preface and the
  session key, the parsing of the endpoint, connecting, and the carrier socket over the encrypted stream
  with its read timeouts.  Hash and MAC, the random source and the network are parameters.
\<close>

section \<open>Authentication\<close>

datatype KtpTcpAuthVersion = V1 | V2

fun auth_magic :: "KtpTcpAuthVersion \<Rightarrow> bytes" where
  "auth_magic V1 = as_bytes ''KTA1''"
| "auth_magic V2 = as_bytes ''KTA2''"

text \<open>
  SHA-256 and HMAC-SHA-256; both have outputs of 32 bytes and HMAC takes keys of any length.  Updating a
  digest several times digests the concatenation.
\<close>

record sha_suite =
  sha256 :: "bytes \<Rightarrow> bytes"
  hmac :: "bytes \<Rightarrow> bytes \<Rightarrow> bytes"

definition sha_lengths :: "sha_suite \<Rightarrow> bool" where
  "sha_lengths H \<longleftrightarrow> (\<forall>x. length (sha256 H x) = 32) \<and> (\<forall>key x. length (hmac H key x) = 32)"

definition hmac_sha256 :: "sha_suite \<Rightarrow> bytes \<Rightarrow> bytes list \<Rightarrow> bytes" where
  "hmac_sha256 H key parts = hmac H key (concat parts)"

definition ktp_tcp_auth_v2_prk :: "sha_suite \<Rightarrow> string \<Rightarrow> bytes \<Rightarrow> bytes" where
  "ktp_tcp_auth_v2_prk H tok auth_nonce = hmac_sha256 H auth_nonce [as_bytes (trim tok)]"

fun ktp_tcp_auth_tag :: "sha_suite \<Rightarrow> string \<Rightarrow> bytes \<Rightarrow> bytes \<Rightarrow> KtpTcpAuthVersion \<Rightarrow> bytes" where
  "ktp_tcp_auth_tag H tok auth_nonce fingerprint V1 =
     hmac H (as_bytes tok) (as_bytes ''kelicloud ktp tcp auth v1'' @ auth_nonce @ fingerprint)"
| "ktp_tcp_auth_tag H tok auth_nonce fingerprint V2 =
     hmac_sha256 H (ktp_tcp_auth_v2_prk H tok auth_nonce)
       [as_bytes ''kelicloud ktp tcp auth v2'', auth_nonce, fingerprint]"

definition build_ktp_tcp_auth_preface_with_version ::
  "sha_suite \<Rightarrow> string \<Rightarrow> bytes \<Rightarrow> KtpTcpAuthVersion \<Rightarrow> TransportError + bytes" where
  "build_ktp_tcp_auth_preface_with_version H tok auth_nonce version =
     (let tok = trim tok in
      if tok = [] then Inl EmptyToken
      else
        let fingerprint = sha256 H (as_bytes tok)
        in Inr (auth_magic version @ auth_nonce @ fingerprint
                @ ktp_tcp_auth_tag H tok auth_nonce fingerprint version))"

definition build_ktp_tcp_auth_preface :: "sha_suite \<Rightarrow> string \<Rightarrow> bytes \<Rightarrow> TransportError + bytes" where
  "build_ktp_tcp_auth_preface H tok auth_nonce = build_ktp_tcp_auth_preface_with_version H tok auth_nonce V1"

definition derive_ktp_tcp_crypto_key_v1 :: "sha_suite \<Rightarrow> string \<Rightarrow> bytes \<Rightarrow> KtpCryptoKey" where
  "derive_ktp_tcp_crypto_key_v1 H tok auth_nonce =
     sha256 H (as_bytes ''kelicloud ktp tcp data v1'' @ as_bytes (trim tok) @ auth_nonce)"

definition derive_ktp_tcp_crypto_key_v2 :: "sha_suite \<Rightarrow> string \<Rightarrow> bytes \<Rightarrow> KtpCryptoKey" where
  "derive_ktp_tcp_crypto_key_v2 H tok auth_nonce =
     hmac_sha256 H (ktp_tcp_auth_v2_prk H tok auth_nonce) [as_bytes ''kelicloud ktp tcp data v2 key'', [1]]"

fun derive_ktp_tcp_crypto_key_with_version ::
  "sha_suite \<Rightarrow> string \<Rightarrow> bytes \<Rightarrow> KtpTcpAuthVersion \<Rightarrow> KtpCryptoKey" where
  "derive_ktp_tcp_crypto_key_with_version H tok auth_nonce V1 = derive_ktp_tcp_crypto_key_v1 H tok auth_nonce"
| "derive_ktp_tcp_crypto_key_with_version H tok auth_nonce V2 = derive_ktp_tcp_crypto_key_v2 H tok auth_nonce"

definition ktp_tcp_request_failed :: "string \<Rightarrow> string \<Rightarrow> TransportError" where
  "ktp_tcp_request_failed code detail =
     RequestFailed (''ktp_tcp_error code='' @ code @ '' detail='' @ detail)"

fun ktp_tcp_transport_error_to_transport ::
  "('io \<Rightarrow> string) \<Rightarrow> ('io, KtpCryptoError) KtpTcpTransportError \<Rightarrow> TransportError" where
  "ktp_tcp_transport_error_to_transport show_io TcpClosed = SocketClosed"
| "ktp_tcp_transport_error_to_transport show_io other =
     ktp_tcp_request_failed (tcp_error_code other) (show_tcp_error show_io other)"

datatype KtpEncryptedTcpTunnelDataAuth = StaticKey KtpCryptoKey | TokenAuth string KtpTcpAuthVersion

text \<open>Writing without a flush: a plan entry that would fail in the flush writes everything.\<close>

definition write_unflushed :: "bytes \<Rightarrow> 'io socket \<Rightarrow> ('io + unit) \<times> 'io socket" where
  "write_unflushed bs k =
     (case write_plan k of
        WriteFailed n io # plan \<Rightarrow> (Inl io, k\<lparr>write_plan := plan, outgoing := outgoing k @ take n bs\<rparr>)
      | plan \<Rightarrow> (Inr (), k\<lparr>write_plan := drop 1 plan, outgoing := outgoing k @ bs\<rparr>))"

text \<open>\<open>random\<close> is the outcome of asking the random source for a nonce of 16 bytes.\<close>

definition apply_ktp_tunnel_data_auth ::
  "sha_suite \<Rightarrow> ('io \<Rightarrow> string) \<Rightarrow> string + bytes \<Rightarrow> 'io socket \<Rightarrow> KtpEncryptedTcpTunnelDataAuth \<Rightarrow> string
   \<Rightarrow> (TransportError + KtpCryptoKey) \<times> 'io socket" where
  "apply_ktp_tunnel_data_auth H show_io random k auth write_error_code =
     (case auth of
        StaticKey key \<Rightarrow> (Inr key, k)
      | TokenAuth tok version \<Rightarrow>
          (case random of
             Inl e \<Rightarrow> (Inl (RequestFailed e), k)
           | Inr auth_nonce \<Rightarrow>
               (case build_ktp_tcp_auth_preface_with_version H tok auth_nonce version of
                  Inl e \<Rightarrow> (Inl e, k)
                | Inr preface \<Rightarrow>
                    (case write_unflushed preface k of
                       (Inl io, k) \<Rightarrow> (Inl (ktp_tcp_request_failed write_error_code (show_io io)), k)
                     | (Inr _, k) \<Rightarrow>
                         (Inr (derive_ktp_tcp_crypto_key_with_version H tok auth_nonce version), k)))))"

section \<open>The endpoint\<close>

datatype KtpTunnelDataCarrier = CarrierTcp | CarrierTls

record KtpTunnelDataEndpoint =
  endpoint_carrier :: KtpTunnelDataCarrier
  endpoint_address :: string
  endpoint_tls_server_name :: string

definition parse_ktp_tunnel_data_authority :: "string \<Rightarrow> TransportError + string" where
  "parse_ktp_tunnel_data_authority rest =
     (let address = trim (hd (split_by (\<lambda>c. c \<in> {CHR ''/'', CHR ''?'', CHR ''#''}) rest)) in
      if address = [] then Inl EmptyEndpoint else Inr address)"

text \<open>The loop over the items of the query.\<close>

fun query_item_value :: "string \<Rightarrow> string list \<Rightarrow> string option" where
  "query_item_value key [] = None"
| "query_item_value key (item # items) =
     (case split_once (CHR ''='') item of
        None \<Rightarrow> query_item_value key items
      | Some (name, value) \<Rightarrow>
          if eq_ignore_ascii_case name key \<and> trim value \<noteq> [] then Some (trim value)
          else query_item_value key items)"

definition ktp_tunnel_data_query_value :: "string \<Rightarrow> string \<Rightarrow> string option" where
  "ktp_tunnel_data_query_value rest key =
     (case split_once (CHR ''?'') rest of
        None \<Rightarrow> None
      | Some (_, after) \<Rightarrow>
          query_item_value key (split_char (CHR ''&'') (hd (split_char (CHR ''#'') after))))"

definition ktp_tunnel_data_authority_host :: "string \<Rightarrow> string" where
  "ktp_tunnel_data_authority_host address =
     (let address = trim address in
      case strip_prefix ''['' address of
        Some rest \<Rightarrow> hd (split_char (CHR '']'') rest)
      | None \<Rightarrow>
          (case rsplit_once (CHR '':'') address of
             Some (host, _) \<Rightarrow> if CHR '':'' \<notin> set host then host else address
           | None \<Rightarrow> address))"

definition ktp_tls_server_name :: "string \<Rightarrow> string \<Rightarrow> TransportError + string" where
  "ktp_tls_server_name rest address =
     (let server_name =
            (case ktp_tunnel_data_query_value rest ''server_name'' of
               Some v \<Rightarrow> v
             | None \<Rightarrow>
                 (case ktp_tunnel_data_query_value rest ''sni'' of
                    Some v \<Rightarrow> v
                  | None \<Rightarrow> ktp_tunnel_data_authority_host address))
      in if trim server_name = [] then Inl EmptyEndpoint else Inr server_name)"

definition ktp_url_carrier :: "string \<Rightarrow> (KtpTunnelDataCarrier \<times> string) option" where
  "ktp_url_carrier trimmed =
     (case strip_prefix ''ktp+tcp://'' trimmed of Some rest \<Rightarrow> Some (CarrierTcp, rest) | None \<Rightarrow>
     (case strip_prefix ''tcp://'' trimmed of Some rest \<Rightarrow> Some (CarrierTcp, rest) | None \<Rightarrow>
     (case strip_prefix ''ktp+tls://'' trimmed of Some rest \<Rightarrow> Some (CarrierTls, rest) | None \<Rightarrow>
     (case strip_prefix ''tls://'' trimmed of Some rest \<Rightarrow> Some (CarrierTls, rest) | None \<Rightarrow> None))))"

definition parse_ktp_tunnel_data_endpoint :: "string \<Rightarrow> TransportError + KtpTunnelDataEndpoint" where
  "parse_ktp_tunnel_data_endpoint url =
     (let trimmed = trim url in
      case ktp_url_carrier trimmed of
        None \<Rightarrow> Inl (UnsupportedScheme trimmed)
      | Some (c, rest) \<Rightarrow>
          bind_result (parse_ktp_tunnel_data_authority rest) (\<lambda>addr.
          bind_result (if c = CarrierTls then ktp_tls_server_name rest addr else Inr []) (\<lambda>name.
          Inr \<lparr>endpoint_carrier = c, endpoint_address = addr, endpoint_tls_server_name = name\<rparr>)))"

section \<open>Connecting\<close>

record 'cfg KtpEncryptedTcpTunnelDataTransport =
  ktp_auth :: KtpEncryptedTcpTunnelDataAuth
  ktp_read_timeout :: Duration
  ktp_max_payload_len :: nat
  ktp_max_buffer_len :: nat
  tls_client_config :: "'cfg option"
  tls_server_name :: "string option"

definition ktp_transport_new :: "KtpCryptoKey \<Rightarrow> 'cfg KtpEncryptedTcpTunnelDataTransport" where
  "ktp_transport_new key =
     \<lparr>ktp_auth = StaticKey key, ktp_read_timeout = from_secs 2, ktp_max_payload_len = KTP_MAX_PAYLOAD_LEN,
      ktp_max_buffer_len = 1024 * 1024, tls_client_config = None, tls_server_name = None\<rparr>"

definition new_with_token_auth_version ::
  "string \<Rightarrow> KtpTcpAuthVersion \<Rightarrow> 'cfg KtpEncryptedTcpTunnelDataTransport" where
  "new_with_token_auth_version tok version =
     \<lparr>ktp_auth = TokenAuth (trim tok) version, ktp_read_timeout = from_secs 2,
      ktp_max_payload_len = KTP_MAX_PAYLOAD_LEN, ktp_max_buffer_len = 1024 * 1024,
      tls_client_config = None, tls_server_name = None\<rparr>"

definition with_tls_server_name ::
  "string \<Rightarrow> 'cfg KtpEncryptedTcpTunnelDataTransport \<Rightarrow> 'cfg KtpEncryptedTcpTunnelDataTransport" where
  "with_tls_server_name name t = t\<lparr>tls_server_name := Some (trim name)\<rparr>"

text \<open>
  The network: starting the I/O runtime, connecting a TCP stream, checking a server name and the TLS
  handshake, each with the text of its error, the random source, and the text of an I/O error.
\<close>

record ('cfg, 'io) network =
  net_runtime :: "string option"
  net_connect :: "string \<Rightarrow> string + 'io socket"
  net_server_name :: "string \<Rightarrow> string option"
  net_tls :: "'cfg option \<Rightarrow> string \<Rightarrow> 'io socket \<Rightarrow> string + 'io socket"
  net_random :: "string + bytes"
  net_show_io :: "'io \<Rightarrow> string"

record 'io KtpEncryptedTcpTunnelDataSocket =
  ktp_stream :: "'io KtpEncryptedStream"
  socket_read_timeout :: Duration
  socket_max_payload_len :: nat

definition ktp_secured ::
  "sha_suite \<Rightarrow> ('cfg, 'io) network \<Rightarrow> 'cfg KtpEncryptedTcpTunnelDataTransport \<Rightarrow> string \<Rightarrow> 'io socket
   \<Rightarrow> TransportError + 'io KtpEncryptedTcpTunnelDataSocket" where
  "ktp_secured H net t write_error_code k =
     (case apply_ktp_tunnel_data_auth H (net_show_io net) (net_random net) k (ktp_auth t) write_error_code of
        (Inl e, _) \<Rightarrow> Inl e
      | (Inr key, k) \<Rightarrow>
          Inr \<lparr>ktp_stream = from_io k key ClientToRelay RelayToClient (ktp_max_payload_len t)
                 (ktp_max_buffer_len t),
               socket_read_timeout = ktp_read_timeout t,
               socket_max_payload_len = ktp_max_payload_len t\<rparr>)"

definition ktp_connect_tunnel_data ::
  "sha_suite \<Rightarrow> ('cfg, 'io) network \<Rightarrow> 'cfg KtpEncryptedTcpTunnelDataTransport \<Rightarrow> string
   \<Rightarrow> TransportError + 'io KtpEncryptedTcpTunnelDataSocket" where
  "ktp_connect_tunnel_data H net t url =
     bind_result (parse_ktp_tunnel_data_endpoint url) (\<lambda>endpoint.
     case net_runtime net of
       Some e \<Rightarrow> Inl (ktp_tcp_request_failed ''ktp_tcp_runtime_init_failed'' e)
     | None \<Rightarrow>
     case net_connect net (endpoint_address endpoint) of
       Inl e \<Rightarrow> Inl (ktp_tcp_request_failed ''ktp_tcp_connect_failed'' e)
     | Inr k \<Rightarrow>
         (case endpoint_carrier endpoint of
            CarrierTcp \<Rightarrow> ktp_secured H net t ''ktp_tcp_auth_write_failed'' k
          | CarrierTls \<Rightarrow>
              let name = (case tls_server_name t of
                            Some v \<Rightarrow> if trim v \<noteq> [] then v else endpoint_tls_server_name endpoint
                          | None \<Rightarrow> endpoint_tls_server_name endpoint)
              in
              case net_server_name net name of
                Some e \<Rightarrow> Inl (ktp_tcp_request_failed ''ktp_tls_server_name_invalid'' e)
              | None \<Rightarrow>
                  (case net_tls net (tls_client_config t) name k of
                     Inl e \<Rightarrow> Inl (ktp_tcp_request_failed ''ktp_tls_connect_failed'' e)
                   | Inr k \<Rightarrow> ktp_secured H net t ''ktp_tls_auth_write_failed'' k)))"

section \<open>The carrier socket\<close>

text \<open>
  A read with a timeout is the read of the stream raced against the timer: \<open>arrive\<close> is the number of
  socket reads that complete before the timer does, and a read that still waits then is dropped.  What it
  has pushed into the codec stays there.
\<close>

definition before_deadline ::
  "nat \<Rightarrow> ('io KtpEncryptedStream \<Rightarrow> 'r \<times> 'io KtpEncryptedStream) \<Rightarrow> 'io KtpEncryptedStream
   \<Rightarrow> 'r \<times> 'io KtpEncryptedStream" where
  "before_deadline arrive read s =
     (case read (s\<lparr>sock := (sock s)\<lparr>incoming := take arrive (incoming (sock s))\<rparr>\<rparr>) of
        (r, s') \<Rightarrow>
          (r, s'\<lparr>sock := (sock s')\<lparr>incoming := incoming (sock s') @ drop arrive (incoming (sock s))\<rparr>\<rparr>))"

definition ktp_socket_send_frame ::
  "aead \<Rightarrow> ('io \<Rightarrow> string) \<Rightarrow> bytes \<Rightarrow> 'io KtpEncryptedTcpTunnelDataSocket
   \<Rightarrow> (TransportError + unit) \<times> 'io KtpEncryptedTcpTunnelDataSocket" where
  "ktp_socket_send_frame A show_io bs k =
     (case decode_frame bs (socket_max_payload_len k) of
        Inl e \<Rightarrow> (Inl (RequestFailed (show_ktp_error e)), k)
      | Inr f \<Rightarrow>
          (case send_frame A f (ktp_stream k) of
             (r, s) \<Rightarrow> (map_err (ktp_tcp_transport_error_to_transport show_io) r, k\<lparr>ktp_stream := s\<rparr>)))"

definition ktp_socket_send_ktp_frame ::
  "aead \<Rightarrow> ('io \<Rightarrow> string) \<Rightarrow> KtpFrame \<Rightarrow> 'io KtpEncryptedTcpTunnelDataSocket
   \<Rightarrow> (TransportError + unit) \<times> 'io KtpEncryptedTcpTunnelDataSocket" where
  "ktp_socket_send_ktp_frame A show_io f k =
     (case send_frame A f (ktp_stream k) of
        (r, s) \<Rightarrow> (map_err (ktp_tcp_transport_error_to_transport show_io) r, k\<lparr>ktp_stream := s\<rparr>))"

definition ktp_socket_send_ktp_frame_batch ::
  "aead \<Rightarrow> ('io \<Rightarrow> string) \<Rightarrow> KtpFrame list \<Rightarrow> 'io KtpEncryptedTcpTunnelDataSocket
   \<Rightarrow> (TransportError + unit) \<times> 'io KtpEncryptedTcpTunnelDataSocket" where
  "ktp_socket_send_ktp_frame_batch A show_io fs k =
     (case send_frames A fs (ktp_stream k) of
        (r, s) \<Rightarrow> (map_err (ktp_tcp_transport_error_to_transport show_io) r, k\<lparr>ktp_stream := s\<rparr>))"

text \<open>A read without a timeout may wait for ever: \<open>None\<close>.\<close>

definition ktp_socket_read_frame ::
  "aead \<Rightarrow> ('io \<Rightarrow> string) \<Rightarrow> 'io KtpEncryptedTcpTunnelDataSocket
   \<Rightarrow> (TransportError + bytes) option \<times> 'io KtpEncryptedTcpTunnelDataSocket" where
  "ktp_socket_read_frame A show_io k =
     (case next_frame A (ktp_stream k) of
        (r, s) \<Rightarrow>
          (map_option (\<lambda>r. bind_result (map_err (ktp_tcp_transport_error_to_transport show_io) r)
             (\<lambda>f. map_err (\<lambda>e. RequestFailed (show_ktp_error e)) (encode_frame f))) r,
           k\<lparr>ktp_stream := s\<rparr>))"

definition ktp_socket_read_optional_frame_with_timeout ::
  "aead \<Rightarrow> ('io \<Rightarrow> string) \<Rightarrow> nat \<Rightarrow> 'io KtpEncryptedTcpTunnelDataSocket
   \<Rightarrow> (TransportError + bytes option) \<times> 'io KtpEncryptedTcpTunnelDataSocket" where
  "ktp_socket_read_optional_frame_with_timeout A show_io arrive k =
     (case before_deadline arrive (next_frame A) (ktp_stream k) of
        (None, s) \<Rightarrow> (Inr None, k\<lparr>ktp_stream := s\<rparr>)
      | (Some (Inl e), s) \<Rightarrow> (Inl (ktp_tcp_transport_error_to_transport show_io e), k\<lparr>ktp_stream := s\<rparr>)
      | (Some (Inr f), s) \<Rightarrow>
          (map_sum (\<lambda>e. RequestFailed (show_ktp_error e)) Some (encode_frame f), k\<lparr>ktp_stream := s\<rparr>))"

definition ktp_socket_read_batch_with_timeout ::
  "aead \<Rightarrow> ('io \<Rightarrow> string) \<Rightarrow> nat \<Rightarrow> nat \<Rightarrow> 'io KtpEncryptedTcpTunnelDataSocket
   \<Rightarrow> (TransportError + KtpFrame list option) \<times> 'io KtpEncryptedTcpTunnelDataSocket" where
  "ktp_socket_read_batch_with_timeout A show_io arrive max_frames k =
     (case before_deadline arrive (next_frames A (max max_frames 1)) (ktp_stream k) of
        (None, s) \<Rightarrow> (Inr None, k\<lparr>ktp_stream := s\<rparr>)
      | (Some (Inl e), s) \<Rightarrow> (Inl (ktp_tcp_transport_error_to_transport show_io e), k\<lparr>ktp_stream := s\<rparr>)
      | (Some (Inr fs), s) \<Rightarrow> (Inr (Some fs), k\<lparr>ktp_stream := s\<rparr>))"

section \<open>The preface\<close>

text \<open>
  What a relay can read off the 84 bytes of a preface by position: the version, the nonce, the fingerprint
  of the token, and a tag it can check against the token it knows for that fingerprint.
\<close>

lemma preface_layout:
  assumes "build_ktp_tcp_auth_preface_with_version H tok auth_nonce version = Inr p" and "sha_lengths H"
    and "length auth_nonce = 16"
  shows "length p = 84 \<and> sub_slice 0 4 p = auth_magic version \<and> sub_slice 4 20 p = auth_nonce
    \<and> sub_slice 20 52 p = sha256 H (as_bytes (trim tok))
    \<and> sub_slice 52 84 p = ktp_tcp_auth_tag H (trim tok) auth_nonce (sub_slice 20 52 p) version"
proof -
  let ?fp = "sha256 H (as_bytes (trim tok))"
  let ?tag = "ktp_tcp_auth_tag H (trim tok) auth_nonce ?fp version"
  have "length (auth_magic version) = 4" "length ?fp = 32" "length ?tag = 32"
    using assms(2) by (cases version; simp add: sha_lengths_def hmac_sha256_def)+
  moreover have "p = auth_magic version @ auth_nonce @ ?fp @ ?tag"
    using assms(1) by (auto simp: build_ktp_tcp_auth_preface_with_version_def Let_def split: if_splits)
  ultimately show ?thesis
    using assms(3) by (simp add: sub_slice_def)
qed

section \<open>Timeouts lose nothing\<close>

lemma read_bytes_append [simp]: "read_bytes (xs @ ys) = read_bytes xs @ read_bytes ys"
  by (induction xs rule: read_bytes.induct) simp_all

lemma data_reads_append [simp]: "data_reads limit (xs @ ys) \<longleftrightarrow> data_reads limit xs \<and> data_reads limit ys"
  by (induction limit xs rule: data_reads.induct) simp_all

text \<open>The codec still has to deliver \<open>fs\<close>, given what the reads will bring.\<close>

definition codec_awaits ::
  "aead \<Rightarrow> 'io read_result list \<Rightarrow> KtpFrame list \<Rightarrow> KtpCryptoRecordCodec \<Rightarrow> bool" where
  "codec_awaits A reads fs c \<longleftrightarrow>
     data_reads READ_BUFFER_LEN reads
     \<and> stream_decoder.awaits unread max_buffer_len cursor_inv record_ctx record_adv (record_image A)
         record_admissible READ_BUFFER_LEN (read_bytes reads) fs c"

lemma poll_codec_awaits:
  assumes "aead_correct A" and "codec_awaits A reads fs c" and "0 < n"
  obtains gs fs' c' where "record_next_frames_into A n frames c = (Inr (length gs), gs, c')"
    and "fs = gs @ fs'" and "length gs \<le> n" and "codec_awaits A reads fs' c'"
    and "gs = [] \<Longrightarrow> read_bytes reads \<noteq> [] \<Longrightarrow> length (unread c') + READ_BUFFER_LEN \<le> max_buffer_len c'"
  using stream_decoder.poll_awaits [OF record_stream_decoder [OF assms(1)], of READ_BUFFER_LEN "read_bytes reads" fs c
      n "[]"] assms(2,3) unfolding codec_awaits_def record_next_frames_into_def by fastforce

lemma recv_batch_awaits:
  assumes "aead_correct A" and "0 < n" and "codec_awaits A (r1 @ r2) fs c"
  shows "(\<exists>c'. recv_batch A n r1 [] c = (None, [], c', []) \<and> codec_awaits A r2 fs c')
    \<or> (\<exists>gs fs' c' r1'. recv_batch A n r1 [] c = (Some (Inr (length gs)), gs, c', r1')
         \<and> gs \<noteq> [] \<and> length gs \<le> n \<and> fs = gs @ fs' \<and> codec_awaits A (r1' @ r2) fs' c')"
  using assms(3)
proof (induction r1 arbitrary: c)
  case Nil
  from Nil have "codec_awaits A r2 fs c" by simp
  from poll_codec_awaits [OF assms(1) this assms(2), of "[]"] obtain gs fs' c' where
    p: "record_next_frames_into A n [] c = (Inr (length gs), gs, c')" "fs = gs @ fs'" "length gs \<le> n"
      "codec_awaits A r2 fs' c'" by metis
  then show ?case by (cases "gs = []") (auto simp: recv_batch.simps [of A n "[]"])
next
  case (Cons r r1)
  from poll_codec_awaits [OF assms(1) Cons.prems assms(2), of "[]"] obtain gs fs' c' where
    p: "record_next_frames_into A n [] c = (Inr (length gs), gs, c')" "fs = gs @ fs'" "length gs \<le> n"
      "codec_awaits A ((r # r1) @ r2) fs' c'"
      "gs = [] \<Longrightarrow> read_bytes ((r # r1) @ r2) \<noteq> [] \<Longrightarrow>
         length (unread c') + READ_BUFFER_LEN \<le> max_buffer_len c'" by blast
  show ?case
  proof (cases "gs = []")
    case False
    with p show ?thesis by (auto simp: recv_batch.simps [of A n "r # r1"])
  next
    case True
    obtain b where b: "r = ReadBytes b" "b \<noteq> []" "length b \<le> READ_BUFFER_LEN"
      using p(4) by (cases r) (auto simp: codec_awaits_def)
    with p(4,5) True obtain c'' where push: "record_push b c' = (Inr (), c'')"
      and "codec_awaits A (r1 @ r2) fs c''"
      using stream_decoder.psh_awaits [OF record_stream_decoder [OF assms(1)], of READ_BUFFER_LEN b
          "read_bytes (r1 @ r2)" fs c'] p(2)
      by (auto simp: codec_awaits_def)
    from Cons.IH [OF this(2)] show ?thesis
      using push p(1) True b by (simp add: recv_batch.simps [of A n "ReadBytes b # r1"])
  qed
qed

text \<open>A sequence of timed reads: how many socket reads complete in each, and how many frames it asks for.\<close>

fun timed_reads ::
  "aead \<Rightarrow> ('io \<Rightarrow> string) \<Rightarrow> (nat \<times> nat) list \<Rightarrow> 'io KtpEncryptedTcpTunnelDataSocket
   \<Rightarrow> (TransportError + KtpFrame list option) list \<times> 'io KtpEncryptedTcpTunnelDataSocket" where
  "timed_reads A show_io [] k = ([], k)"
| "timed_reads A show_io ((arrive, max_frames) # ts) k =
     (case ktp_socket_read_batch_with_timeout A show_io arrive max_frames k of
        (r, k') \<Rightarrow> (case timed_reads A show_io ts k' of (rs, k'') \<Rightarrow> (r # rs, k'')))"

definition frames_of :: "(TransportError + KtpFrame list option) list \<Rightarrow> KtpFrame list" where
  "frames_of rs = concat (map (\<lambda>r. case r of Inr (Some fs) \<Rightarrow> fs | _ \<Rightarrow> []) rs)"

abbreviation socket_awaits where
  "socket_awaits A fs k \<equiv> codec_awaits A (incoming (sock (ktp_stream k))) fs (codec (ktp_stream k))"

lemma timed_read_awaits:
  assumes "aead_correct A" and "socket_awaits A fs k"
    and "ktp_socket_read_batch_with_timeout A show_io arrive max_frames k = (r, k')"
  shows "\<exists>gs fs'. (r = Inr None \<and> gs = [] \<or> r = Inr (Some gs)) \<and> fs = gs @ fs' \<and> socket_awaits A fs' k'"
proof -
  let ?in = "incoming (sock (ktp_stream k))"
  have "codec_awaits A (take arrive ?in @ drop arrive ?in) fs (codec (ktp_stream k))"
    using assms(2) by simp
  moreover have "0 < max max_frames 1" by simp
  ultimately consider c' where
      "recv_batch A (max max_frames 1) (take arrive ?in) [] (codec (ktp_stream k)) = (None, [], c', [])"
      "codec_awaits A (drop arrive ?in) fs c'"
    | gs fs' c' r1' where
      "recv_batch A (max max_frames 1) (take arrive ?in) [] (codec (ktp_stream k))
         = (Some (Inr (length gs)), gs, c', r1')"
      "fs = gs @ fs'" "codec_awaits A (r1' @ drop arrive ?in) fs' c'"
    using recv_batch_awaits [OF assms(1)] by blast
  then show ?thesis
    using assms(3)
    by cases (auto simp: ktp_socket_read_batch_with_timeout_def before_deadline_def next_frames_def
        next_frames_into_def)
qed

lemma timed_reads_awaits:
  assumes "aead_correct A" and "socket_awaits A fs k" and "timed_reads A show_io ts k = (rs, k')"
  shows "\<exists>fs'. list_all is_ok rs \<and> fs = frames_of rs @ fs' \<and> socket_awaits A fs' k'"
  using assms(2,3)
proof (induction ts arbitrary: fs k rs)
  case Nil
  then show ?case by (auto simp: frames_of_def)
next
  case (Cons t ts)
  obtain arrive max_frames where t: "t = (arrive, max_frames)" by fastforce
  obtain r k1 where r: "ktp_socket_read_batch_with_timeout A show_io arrive max_frames k = (r, k1)"
    by fastforce
  obtain rs1 where rs1: "timed_reads A show_io ts k1 = (rs1, k')" "rs = r # rs1"
    using Cons.prems(2) r t by (auto split: prod.splits)
  obtain gs fs1 where gs: "r = Inr None \<and> gs = [] \<or> r = Inr (Some gs)" "fs = gs @ fs1" "socket_awaits A fs1 k1"
    using timed_read_awaits [OF assms(1) Cons.prems(1) r] by blast
  from Cons.IH [OF gs(3) rs1(1)] gs(1,2) rs1(2) show ?case by (auto simp: frames_of_def)
qed

lemma receive_awaits:
  assumes "aead_correct A" and "codec_awaits A (incoming (sock s)) fs (codec s)"
  shows "fst (receive A (length fs) s) = Some (Inr fs)"
proof -
  note d = record_stream_decoder [OF assms(1)]
  have "\<exists>c' reads'. recv_frames (record_next_frame A) record_push (length fs) (incoming (sock s)) (codec s)
      = (Some (Inr fs), c', reads')"
    using stream_decoder.recv_all [OF d, of "codec s" READ_BUFFER_LEN fs "incoming (sock s)" "[]"] assms(2)
    unfolding codec_awaits_def stream_decoder.awaits_def [OF d] by auto
  then show ?thesis by (auto simp: receive_codec)
qed

lemma fresh_socket_awaits:
  assumes "aead_correct A" and "list_all (fits_receiver (min mpl KTP_MAX_PAYLOAD_LEN) mbl) fs"
    and "length fs < 2 ^ 64" and "mbl < usize_max"
    and "read_bytes (incoming k) = record_wires A key d 0 fs" and "data_reads READ_BUFFER_LEN (incoming k)"
  shows "codec_awaits A (incoming k) fs (record_codec_new key d mpl mbl)"
proof -
  note dec = record_stream_decoder [OF assms(1)]
  let ?c = "record_codec_new key d mpl mbl"
  have "stream_decoder.receivable record_adv (record_image A) record_admissible READ_BUFFER_LEN
      (max_buffer_len ?c) (record_ctx ?c) fs"
    using decoder_receivable [OF assms(1), of "record_ctx ?c" fs] assms(2,3)
    by (simp add: record_ctx_def record_codec_new_def crypto_open_new_def)
  then show ?thesis
    using assms(4-6) unfolding codec_awaits_def stream_decoder.awaits_def [OF dec]
    by (simp add: decoder_wires [OF assms(1)] record_ctx_def record_codec_new_def crypto_open_new_def
        unread_def cursor_inv_def)
qed

text \<open>
  Claim C21.  Read timeouts lose nothing.  The peer has sealed the frames \<open>fs\<close> and the network delivers
  the bytes, cut in any way.  The carrier is polled any number of times, with any batch sizes, and any
  number of socket reads completes before each timer.  Then no poll fails, what the polls have returned
  is, in order, the beginning of \<open>fs\<close>, and receiving from the carrier as it is then yields the rest.
\<close>
theorem timed_reads_lossless:
  assumes "aead_correct A" and "list_all (fits_receiver (min mpl KTP_MAX_PAYLOAD_LEN) mbl) fs"
    and "length fs < 2 ^ 64" and "mbl < usize_max"
    and "read_bytes (incoming k) = record_wires A key d 0 fs" and "data_reads READ_BUFFER_LEN (incoming k)"
    and "carrier = \<lparr>ktp_stream = from_io k key d' d mpl mbl, socket_read_timeout = t,
                     socket_max_payload_len = mpl\<rparr>"
    and "timed_reads A show_io ts carrier = (rs, carrier')"
  shows "list_all is_ok rs
    \<and> (\<exists>fs'. fs = frames_of rs @ fs'
         \<and> fst (receive A (length fs') (ktp_stream carrier')) = Some (Inr fs'))"
proof -
  have "socket_awaits A fs carrier"
    using fresh_socket_awaits [OF assms(1-6)] by (simp add: assms(7) from_io_def)
  from timed_reads_awaits [OF assms(1) this assms(8)] receive_awaits [OF assms(1)] show ?thesis
    by blast
qed

theorem timed_reads_lossless_witness:
  "let fs = [sample_frame, sample_frame, sample_frame];
       k = two_reads (record_wires toy_aead [7] RelayToClient 0 fs);
       carrier = \<lparr>ktp_stream = from_io k [7] ClientToRelay RelayToClient 64 32768,
                  socket_read_timeout = 0, socket_max_payload_len = 64\<rparr>;
       (rs, carrier') = timed_reads toy_aead (\<lambda>_. []) [(1, 64), (0, 64), (1, 2)] carrier
   in list_all is_ok rs
      \<and> (\<exists>fs'. fs = frames_of rs @ fs'
           \<and> fst (receive toy_aead (length fs') (ktp_stream carrier')) = Some (Inr fs'))"
proof -
  let ?fs = "[sample_frame, sample_frame, sample_frame]"
  let ?w = "record_wires toy_aead [7] RelayToClient 0 ?fs"
  let ?c = "\<lparr>ktp_stream = from_io (two_reads ?w) [7] ClientToRelay RelayToClient 64 32768,
      socket_read_timeout = 0, socket_max_payload_len = 64\<rparr>"
  have wf: "list_all wf_frame ?fs" using wf_sample_frame by simp
  have fit: "list_all (fits_receiver (min 64 KTP_MAX_PAYLOAD_LEN) 32768) ?fs"
    by (simp add: fits_receiver_def wf_sample_frame READ_BUFFER_LEN_def crypto_const_defs ktp_const_defs)
  have "length ?w = 201"
    unfolding length_record_wires [OF toy_aead_correct wf]
    by (simp add: wf_sample_frame crypto_const_defs KTP_HEADER_LEN_def)
  then have reads: "data_reads READ_BUFFER_LEN (incoming (two_reads ?w))"
    by (auto simp: two_reads_def READ_BUFFER_LEN_def)
  have "read_bytes (incoming (two_reads w)) = w" for w by (simp add: two_reads_def idle_socket_def)
  note bytes = this [of ?w]
  show ?thesis
    using timed_reads_lossless [OF toy_aead_correct fit _ _ bytes reads HOL.refl,
        of "\<lambda>_. []" "[(1, 64), (0, 64), (1, 2)]" ClientToRelay 0]
    unfolding Let_def by (auto simp: usize_max_def split: prod.split)
qed

end
