(* ===== verification/TunnelData.thy ===== *)
theory TunnelData
  imports TunnelRuntime TunnelDiagnostics TunnelCarrier
begin

text \<open>
  The tunnel data session (\<open>tunnel_data.rs\<close>): hello and acknowledgement, readiness reports, sending what
  the runtime has queued, waiting for more, reading batches of frames and handing them to the runtime.
  The two traits a session runs on, the carrier socket and the session runtime, are records of operations
  on a state \<open>'w\<close> that holds whatever is behind them; the clock and the readiness source are functions of
  it.  An operation that may block for ever is \<open>None\<close> then, and so is a session that does not end.
\<close>

section \<open>The traits\<close>

record 'w data_socket =
  sk_send_ktp_frame :: "KtpFrame \<Rightarrow> 'w \<Rightarrow> (TransportError + unit) \<times> 'w"
  sk_send_ktp_frame_batch :: "KtpFrame list \<Rightarrow> 'w \<Rightarrow> (TransportError + unit) \<times> 'w"
  sk_read_frame :: "'w \<Rightarrow> ((TransportError + bytes) \<times> 'w) option"
  sk_read_batch :: "nat \<Rightarrow> 'w \<Rightarrow> ((TransportError + KtpFrame list option) \<times> 'w) option"
  sk_read_batch_with_timeout :: "Duration \<Rightarrow> nat \<Rightarrow> 'w \<Rightarrow> ((TransportError + KtpFrame list option) \<times> 'w) option"

text \<open>The default methods of the socket trait, over its required methods.\<close>

definition default_send_ktp_frame ::
  "(bytes \<Rightarrow> 'w \<Rightarrow> (TransportError + unit) \<times> 'w) \<Rightarrow> KtpFrame \<Rightarrow> 'w \<Rightarrow> (TransportError + unit) \<times> 'w" where
  "default_send_ktp_frame send f w =
     (case encode_frame f of
        Inl e \<Rightarrow> (Inl (RequestFailed (show_ktp_error e)), w)
      | Inr bs \<Rightarrow> send bs w)"

fun default_send_ktp_frame_batch ::
  "(KtpFrame \<Rightarrow> 'w \<Rightarrow> (TransportError + unit) \<times> 'w) \<Rightarrow> KtpFrame list \<Rightarrow> 'w \<Rightarrow> (TransportError + unit) \<times> 'w" where
  "default_send_ktp_frame_batch send [] w = (Inr (), w)"
| "default_send_ktp_frame_batch send (f # fs) w =
     (case send f w of
        (Inl e, w) \<Rightarrow> (Inl e, w)
      | (Inr _, w) \<Rightarrow> default_send_ktp_frame_batch send fs w)"

definition decode_single :: "bytes option \<Rightarrow> TransportError + KtpFrame list option" where
  "decode_single read =
     (case read of
        None \<Rightarrow> Inr None
      | Some bs \<Rightarrow>
          map_sum (\<lambda>e. RequestFailed (show_ktp_error e)) (\<lambda>f. Some [f]) (decode_frame bs KTP_MAX_PAYLOAD_LEN))"

definition default_read_batch ::
  "('w \<Rightarrow> ((TransportError + bytes option) \<times> 'w) option) \<Rightarrow> nat \<Rightarrow> 'w
   \<Rightarrow> ((TransportError + KtpFrame list option) \<times> 'w) option" where
  "default_read_batch read_optional max_frames w =
     map_option (\<lambda>(r, w). (bind_result r decode_single, w)) (read_optional w)"

record 'w session_runtime =
  sr_tick :: "'w \<Rightarrow> (TransportError + unit) \<times> 'w"
  sr_close_all_sessions :: "string \<Rightarrow> 'w \<Rightarrow> (TransportError + unit) \<times> 'w"
  sr_handle_server_frame :: "KtpFrame \<Rightarrow> 'w \<Rightarrow> (TransportError + KtpFrame list) \<times> 'w"
  sr_next_client_frames :: "nat \<Rightarrow> 'w \<Rightarrow> (TransportError + KtpFrame list) \<times> 'w"
  sr_next_client_frames_after_wait :: "nat \<Rightarrow> Duration \<Rightarrow> 'w \<Rightarrow> (TransportError + KtpFrame list) \<times> 'w"
  sr_client_frame_batch_limit :: "nat \<Rightarrow> 'w \<Rightarrow> nat"
  sr_client_frame_wait_timeout :: "'w \<Rightarrow> Duration option"
  sr_socket_idle_timeout :: "'w \<Rightarrow> Duration option"
  sr_outbound_queue_dwell :: "'w \<Rightarrow> TunnelQueueDwellStatsSnapshot option"
  sr_recent_outbound_queue_dwell :: "'w \<Rightarrow> TunnelQueueDwellStatsSnapshot option"

text \<open>The default methods of the runtime trait; they are all the idle runtime has.\<close>

fun default_next_client_frames ::
  "('w \<Rightarrow> (TransportError + KtpFrame option) \<times> 'w) \<Rightarrow> nat \<Rightarrow> KtpFrame list \<Rightarrow> 'w
   \<Rightarrow> (TransportError + KtpFrame list) \<times> 'w" where
  "default_next_client_frames nxt 0 frames w = (Inr frames, w)"
| "default_next_client_frames nxt (Suc n) frames w =
     (case nxt w of
        (Inl e, w) \<Rightarrow> (Inl e, w)
      | (Inr None, w) \<Rightarrow> (Inr frames, w)
      | (Inr (Some f), w) \<Rightarrow> default_next_client_frames nxt n (frames @ [f]) w)"

definition noop_session_runtime :: "'w session_runtime" where
  "noop_session_runtime =
     (let next_frames = (\<lambda>n. default_next_client_frames (\<lambda>w. (Inr None, w)) n []) in
      \<lparr>sr_tick = (\<lambda>w. (Inr (), w)), sr_close_all_sessions = (\<lambda>_ w. (Inr (), w)),
       sr_handle_server_frame = (\<lambda>_ w. (Inr [], w)), sr_next_client_frames = next_frames,
       sr_next_client_frames_after_wait = (\<lambda>n _. next_frames n),
       sr_client_frame_batch_limit = (\<lambda>requested _. max requested 1),
       sr_client_frame_wait_timeout = (\<lambda>_. None), sr_socket_idle_timeout = (\<lambda>_. None),
       sr_outbound_queue_dwell = (\<lambda>_. None), sr_recent_outbound_queue_dwell = (\<lambda>_. None)\<rparr>)"

text \<open>
  The TCP runtime as a session runtime, found in the state by \<open>get\<close> and replaced by \<open>put\<close>; \<open>meanwhile\<close>
  is what other threads do to the outbound queue during a wait and how the state changes by it.
\<close>

definition tcp_session_runtime ::
  "(TunnelTcpRuntime \<Rightarrow> string \<Rightarrow> string option) \<Rightarrow> (string \<Rightarrow> dial_result)
   \<Rightarrow> ('w \<Rightarrow> TunnelTcpRuntime) \<Rightarrow> (TunnelTcpRuntime \<Rightarrow> 'w \<Rightarrow> 'w) \<Rightarrow> ('w \<Rightarrow> Instant)
   \<Rightarrow> ('w \<Rightarrow> (AsyncTunnelFrameQueue \<Rightarrow> AsyncTunnelFrameQueue) \<times> 'w) \<Rightarrow> 'w session_runtime" where
  "tcp_session_runtime bind dial get put now meanwhile =
     \<lparr>sr_tick = (\<lambda>w. (Inr (), put (refresh_listeners bind (get w)) w)),
      sr_close_all_sessions = (\<lambda>_ w.
        case runtime_close_all_sessions (get w) of (r, rt) \<Rightarrow> (r, put rt w)),
      sr_handle_server_frame = (\<lambda>f w.
        case handle_server_frame dial f (get w) of (r, rt) \<Rightarrow> (r, put rt w)),
      sr_next_client_frames = (\<lambda>n w.
        case next_client_frames (now w) n (get w) of (fs, rt) \<Rightarrow> (Inr fs, put rt w)),
      sr_next_client_frames_after_wait = (\<lambda>n timeout w.
        case meanwhile w of (others, w) \<Rightarrow>
        case next_client_frames_after_wait (now w) n timeout others (get w) of
          (fs, rt) \<Rightarrow> (Inr fs, put rt w)),
      sr_client_frame_batch_limit = (\<lambda>requested w. client_frame_batch_limit requested (get w)),
      sr_client_frame_wait_timeout = (\<lambda>w. tunnel_data_client_frame_wait_timeout (get w)),
      sr_socket_idle_timeout = (\<lambda>w. tunnel_data_socket_idle_timeout (get w)),
      sr_outbound_queue_dwell = (\<lambda>w.
        Some (snap_outbound_queue_dwell (core_stats_snapshot (rt_core (get w))))),
      sr_recent_outbound_queue_dwell = (\<lambda>w.
        Some (snap_recent_outbound_queue_dwell (core_stats_snapshot (rt_core (get w)))))\<rparr>"

section \<open>Sending and reading frames\<close>

datatype SendFrameOutcome = Sent | SendClosed

datatype ReadFrameOutcome = ReadFrame | ReadClosed

definition send_outcome :: "(TransportError + unit) \<times> 'w \<Rightarrow> (TransportError + SendFrameOutcome) \<times> 'w" where
  "send_outcome x =
     (case x of
        (Inr _, w) \<Rightarrow> (Inr Sent, w)
      | (Inl e, w) \<Rightarrow> (if e = SocketClosed then Inr SendClosed else Inl e, w))"

definition send_tunnel_data_ktp_frame ::
  "'w data_socket \<Rightarrow> KtpFrame \<Rightarrow> 'w \<Rightarrow> (TransportError + SendFrameOutcome) \<times> 'w" where
  "send_tunnel_data_ktp_frame io f w = send_outcome (sk_send_ktp_frame io f w)"

definition send_tunnel_data_ktp_frame_batch ::
  "'w data_socket \<Rightarrow> KtpFrame list \<Rightarrow> 'w \<Rightarrow> (TransportError + SendFrameOutcome) \<times> 'w" where
  "send_tunnel_data_ktp_frame_batch io fs w = send_outcome (sk_send_ktp_frame_batch io fs w)"

fun debug_frame_type :: "FrameType \<Rightarrow> string" where
  "debug_frame_type FrameType.Hello = ''Hello''"
| "debug_frame_type FrameType.HelloAck = ''HelloAck''"
| "debug_frame_type FrameType.Ready = ''Ready''"
| "debug_frame_type FrameType.Ping = ''Ping''"
| "debug_frame_type FrameType.Pong = ''Pong''"
| "debug_frame_type FrameType.SessionOpen = ''SessionOpen''"
| "debug_frame_type FrameType.SessionAccept = ''SessionAccept''"
| "debug_frame_type FrameType.SessionData = ''SessionData''"
| "debug_frame_type FrameType.SessionWindow = ''SessionWindow''"
| "debug_frame_type FrameType.SessionClose = ''SessionClose''"
| "debug_frame_type FrameType.SessionError = ''SessionError''"
| "debug_frame_type FrameType.Stats = ''Stats''"

definition check_hello_ack :: "bytes \<Rightarrow> TransportError + ReadFrameOutcome" where
  "check_hello_ack bs =
     (case decode_frame bs KTP_MAX_PAYLOAD_LEN of
        Inl e \<Rightarrow> Inl (RequestFailed (show_ktp_error e))
      | Inr f \<Rightarrow>
          if frame_type f \<noteq> FrameType.HelloAck
          then Inl (RequestFailed (''expected tunnel data hello_ack, got '' @ debug_frame_type (frame_type f)))
          else Inr ReadFrame)"

definition read_tunnel_data_hello_ack ::
  "'w data_socket \<Rightarrow> 'w \<Rightarrow> ((TransportError + ReadFrameOutcome) \<times> 'w) option" where
  "read_tunnel_data_hello_ack io w =
     map_option (\<lambda>(r, w).
       (case r of
          Inl e \<Rightarrow> if e = SocketClosed then Inr ReadClosed else Inl e
        | Inr bs \<Rightarrow> check_hello_ack bs, w)) (sk_read_frame io w)"

definition send_ready_frame ::
  "'w data_socket \<Rightarrow> TunnelDataReadyState \<Rightarrow> 'w \<Rightarrow> (TransportError + SendFrameOutcome) \<times> 'w" where
  "send_ready_frame io ready w =
     (case encode_ready_payload ready of
        Inl e \<Rightarrow> (Inl e, w)
      | Inr ready_payload \<Rightarrow> send_tunnel_data_ktp_frame io (connection_frame FrameType.Ready ready_payload) w)"

section \<open>Sending what the runtime has queued\<close>

definition tunnel_session_runtime_frame_batch_limit :: "'w session_runtime \<Rightarrow> 'w \<Rightarrow> nat" where
  "tunnel_session_runtime_frame_batch_limit rt w =
     max 1 (min (sr_client_frame_batch_limit rt TUNNEL_DATA_FRAME_BATCH_LIMIT w) TUNNEL_DATA_FRAME_BATCH_LIMIT)"

definition send_tunnel_session_runtime_frame_batch ::
  "'w data_socket \<Rightarrow> KtpFrame list \<Rightarrow> 'w \<Rightarrow> (TransportError + nat) \<times> 'w" where
  "send_tunnel_session_runtime_frame_batch io fs w =
     (if fs = [] then (Inr 0, w)
      else case send_tunnel_data_ktp_frame_batch io fs w of
        (Inl e, w) \<Rightarrow> (Inl e, w)
      | (Inr _, w) \<Rightarrow> (Inr (length fs), w))"

partial_function (option) drain_loop ::
  "'w data_socket \<Rightarrow> 'w session_runtime \<Rightarrow> nat \<Rightarrow> TunnelDataWriteBatchStats \<Rightarrow> 'w
   \<Rightarrow> ((TransportError + TunnelDataWriteBatchStats) \<times> 'w) option" where
  "drain_loop io rt max_frames st w =
     (case sr_next_client_frames rt max_frames w of
        (Inl e, w) \<Rightarrow> Some (Inl e, w)
      | (Inr fs, w) \<Rightarrow>
          if fs = [] then Some (Inr st, w)
          else (case send_tunnel_session_runtime_frame_batch io fs w of
                  (Inl e, w) \<Rightarrow> Some (Inl e, w)
                | (Inr frame_count, w) \<Rightarrow> drain_loop io rt max_frames (record_batch frame_count st) w))"

definition drain_tunnel_session_runtime_frames ::
  "'w data_socket \<Rightarrow> 'w session_runtime \<Rightarrow> 'w
   \<Rightarrow> ((TransportError + TunnelDataWriteBatchStats) \<times> 'w) option" where
  "drain_tunnel_session_runtime_frames io rt w =
     (let max_frames = tunnel_session_runtime_frame_batch_limit rt w
      in drain_loop io rt max_frames (record_batch_limit max_frames write_stats_default) w)"

definition drain_tunnel_session_runtime_frames_after_wait ::
  "'w data_socket \<Rightarrow> 'w session_runtime \<Rightarrow> Duration \<Rightarrow> 'w
   \<Rightarrow> ((TransportError + TunnelDataWriteBatchStats) \<times> 'w) option" where
  "drain_tunnel_session_runtime_frames_after_wait io rt timeout w =
     (let max_frames = tunnel_session_runtime_frame_batch_limit rt w;
          st = record_batch_limit max_frames write_stats_default
      in
      case sr_next_client_frames_after_wait rt max_frames timeout w of
        (Inl e, w) \<Rightarrow> Some (Inl e, w)
      | (Inr fs, w) \<Rightarrow>
          if fs = [] then Some (Inr st, w)
          else (case send_tunnel_session_runtime_frame_batch io fs w of
                  (Inl e, w) \<Rightarrow> Some (Inl e, w)
                | (Inr frame_count, w) \<Rightarrow>
                    map_option (\<lambda>(r, w).
                      (map_sum id (merge_stats (record_batch frame_count st)) r, w))
                      (drain_tunnel_session_runtime_frames io rt w)))"

section \<open>Handling what the server sends\<close>

fun send_responses :: "'w data_socket \<Rightarrow> KtpFrame list \<Rightarrow> 'w \<Rightarrow> (TransportError + unit) \<times> 'w" where
  "send_responses io [] w = (Inr (), w)"
| "send_responses io (response # responses) w =
     (case send_tunnel_data_ktp_frame io response w of
        (Inl e, w) \<Rightarrow> (Inl e, w)
      | (Inr _, w) \<Rightarrow> send_responses io responses w)"

definition handle_tunnel_data_session_frame ::
  "'w data_socket \<Rightarrow> 'w session_runtime \<Rightarrow> KtpFrame \<Rightarrow> 'w \<Rightarrow> (TransportError + unit) \<times> 'w" where
  "handle_tunnel_data_session_frame io rt f w =
     (if frame_type f = FrameType.Ping then
        (case send_tunnel_data_ktp_frame io (connection_frame FrameType.Pong (payload f)) w of
           (Inl e, w) \<Rightarrow> (Inl e, w)
         | (Inr _, w) \<Rightarrow> (Inr (), w))
      else if frame_type f \<in> {FrameType.SessionOpen, FrameType.SessionAccept, FrameType.SessionData,
                FrameType.SessionWindow, FrameType.SessionClose, FrameType.SessionError} then
        (case sr_handle_server_frame rt f w of
           (Inl e, w) \<Rightarrow> (Inl e, w)
         | (Inr responses, w) \<Rightarrow> send_responses io responses w)
      else (Inr (), w))"

fun handle_tunnel_data_session_frames ::
  "'w data_socket \<Rightarrow> 'w session_runtime \<Rightarrow> KtpFrame list \<Rightarrow> 'w \<Rightarrow> (TransportError + unit) \<times> 'w" where
  "handle_tunnel_data_session_frames io rt [] w = (Inr (), w)"
| "handle_tunnel_data_session_frames io rt (f # fs) w =
     (case handle_tunnel_data_session_frame io rt f w of
        (Inl e, w) \<Rightarrow> (Inl e, w)
      | (Inr _, w) \<Rightarrow> handle_tunnel_data_session_frames io rt fs w)"

section \<open>The session loop\<close>

definition DURATION_MAX :: Duration where
  "DURATION_MAX = (2 ^ 64 - 1) * 1000000000 + 999999999"

text \<open>
  What a session runs on besides the two traits: the readiness source, the clock, the consumer of
  diagnostics and its interval.
\<close>

record 'w session_env =
  env_ready :: "'w \<Rightarrow> TunnelDataReadyState"
  env_now :: "'w \<Rightarrow> Instant"
  env_report :: "TunnelDataDiagnosticsSnapshot \<Rightarrow> 'w \<Rightarrow> 'w"
  env_report_interval :: Duration

record data_loop =
  last_ready :: TunnelDataReadyState
  last_report :: Instant
  diag :: TunnelDataDiagnosticsInner

definition report_tunnel_data_diagnostics_if_due ::
  "'w session_env \<Rightarrow> data_loop \<Rightarrow> 'w \<Rightarrow> data_loop \<times> 'w" where
  "report_tunnel_data_diagnostics_if_due env l w =
     (if env_report_interval env = DURATION_MAX
         \<or> elapsed (env_now env w) (last_report l) < env_report_interval env
      then (l, w)
      else
        let snapshot = diagnostics_snapshot (diag l) in
        if has_activity snapshot
        then let w = env_report env snapshot w in (l\<lparr>last_report := env_now env w\<rparr>, w)
        else (l, w))"

text \<open>
  The parts of one round of the loop.  A part that returns from the session gives \<open>Inl\<close> the result of
  the session.
\<close>

definition announce_ready ::
  "'w data_socket \<Rightarrow> 'w session_env \<Rightarrow> data_loop \<Rightarrow> 'w
   \<Rightarrow> ((TransportError + unit) + data_loop) \<times> 'w" where
  "announce_ready io env l w =
     (let current_ready = env_ready env w in
      if current_ready \<noteq> last_ready l then
        (case send_ready_frame io current_ready w of
           (Inl e, w) \<Rightarrow> (Inl (Inl e), w)
         | (Inr SendClosed, w) \<Rightarrow> (Inl (Inr ()), w)
         | (Inr Sent, w) \<Rightarrow> (Inr (l\<lparr>last_ready := current_ready\<rparr>), w))
      else (Inr l, w))"

definition record_sent ::
  "'w session_runtime \<Rightarrow> TunnelDataWriteBatchStats \<Rightarrow> 'w \<Rightarrow> TunnelDataDiagnosticsInner
   \<Rightarrow> TunnelDataDiagnosticsInner" where
  "record_sent rt sent_frames w d =
     record_recent_outbound_queue_dwell_snapshot (sr_recent_outbound_queue_dwell rt w)
       (record_outbound_queue_dwell_snapshot (sr_outbound_queue_dwell rt w)
         (record_socket_write_batches sent_frames
           (record_outbound_runtime_frames (batch_frames sent_frames) d)))"

definition wait_for_frames ::
  "'w data_socket \<Rightarrow> 'w session_runtime \<Rightarrow> 'w session_env \<Rightarrow> data_loop \<Rightarrow> 'w
   \<Rightarrow> (((TransportError + unit) + data_loop) \<times> 'w) option" where
  "wait_for_frames io rt env l w =
     (case sr_client_frame_wait_timeout rt w of
        None \<Rightarrow> Some (Inr l, w)
      | Some timeout \<Rightarrow>
          let wait_started = env_now env w in
          (case drain_tunnel_session_runtime_frames_after_wait io rt timeout w of
             None \<Rightarrow> None
           | Some (Inl e, w) \<Rightarrow> Some (Inl (Inl e), w)
           | Some (Inr waited, w) \<Rightarrow>
               let d = record_runtime_wait (elapsed (env_now env w) wait_started) (batch_frames waited) (diag l);
                   l = l\<lparr>diag := record_sent rt waited w d\<rparr>
               in
               Some (if batch_frames waited > 0
                     then (case report_tunnel_data_diagnostics_if_due env l w of (l, w) \<Rightarrow> (Inr l, w))
                     else (Inr l, w))))"

definition send_queued ::
  "'w data_socket \<Rightarrow> 'w session_runtime \<Rightarrow> 'w session_env \<Rightarrow> data_loop \<Rightarrow> 'w
   \<Rightarrow> (((TransportError + unit) + data_loop) \<times> 'w) option" where
  "send_queued io rt env l w =
     (case drain_tunnel_session_runtime_frames io rt w of
        None \<Rightarrow> None
      | Some (Inl e, w) \<Rightarrow> Some (Inl (Inl e), w)
      | Some (Inr sent_frames, w) \<Rightarrow>
          let l = l\<lparr>diag := record_sent rt sent_frames w (diag l)\<rparr> in
          if batch_frames sent_frames = 0 then wait_for_frames io rt env l w else Some (Inr l, w))"

definition read_and_handle ::
  "'w data_socket \<Rightarrow> 'w session_runtime \<Rightarrow> 'w session_env \<Rightarrow> data_loop \<Rightarrow> 'w
   \<Rightarrow> (((TransportError + unit) + data_loop) \<times> 'w) option" where
  "read_and_handle io rt env l w =
     (case report_tunnel_data_diagnostics_if_due env l w of
        (l, w) \<Rightarrow>
          let l = l\<lparr>diag := record_socket_idle_read (diag l)\<rparr> in
          (case (case sr_socket_idle_timeout rt w of
                   Some timeout \<Rightarrow> sk_read_batch_with_timeout io timeout TUNNEL_DATA_FRAME_BATCH_LIMIT w
                 | None \<Rightarrow> sk_read_batch io TUNNEL_DATA_FRAME_BATCH_LIMIT w) of
             None \<Rightarrow> None
           | Some (Inr (Some frames), w) \<Rightarrow>
               let l = l\<lparr>diag := record_socket_read_batch (length frames) (diag l)\<rparr> in
               (case handle_tunnel_data_session_frames io rt frames w of
                  (Inl e, w) \<Rightarrow> Some (Inl (Inl e), w)
                | (Inr _, w) \<Rightarrow> Some (Inr l, w))
           | Some (Inr None, w) \<Rightarrow> Some (Inr (l\<lparr>diag := record_socket_idle_empty_read (diag l)\<rparr>), w)
           | Some (Inl e, w) \<Rightarrow> Some (Inl (if e = SocketClosed then Inr () else Inl e), w)))"

definition session_round ::
  "'w data_socket \<Rightarrow> 'w session_runtime \<Rightarrow> 'w session_env \<Rightarrow> data_loop \<Rightarrow> 'w
   \<Rightarrow> (((TransportError + unit) + data_loop) \<times> 'w) option" where
  "session_round io rt env l w =
     (case sr_tick rt w of
        (Inl e, w) \<Rightarrow> Some (Inl (Inl e), w)
      | (Inr _, w) \<Rightarrow>
          (case announce_ready io env l w of
             (Inl r, w) \<Rightarrow> Some (Inl r, w)
           | (Inr l, w) \<Rightarrow>
               (case send_queued io rt env l w of
                  None \<Rightarrow> None
                | Some (Inl r, w) \<Rightarrow> Some (Inl r, w)
                | Some (Inr l, w) \<Rightarrow> read_and_handle io rt env l w)))"

partial_function (option) session_loop ::
  "'w data_socket \<Rightarrow> 'w session_runtime \<Rightarrow> 'w session_env \<Rightarrow> data_loop \<Rightarrow> 'w
   \<Rightarrow> ((TransportError + unit) \<times> 'w) option" where
  "session_loop io rt env l w =
     (case session_round io rt env l w of
        None \<Rightarrow> None
      | Some (Inl r, w) \<Rightarrow> Some (r, w)
      | Some (Inr l, w) \<Rightarrow> session_loop io rt env l w)"

text \<open>Hello and its acknowledgement; \<open>Some r\<close> when the session is over with result \<open>r\<close>.\<close>

definition data_handshake ::
  "'w data_socket \<Rightarrow> string \<Rightarrow> string \<Rightarrow> string \<Rightarrow> 'w
   \<Rightarrow> ((TransportError + unit) option \<times> 'w) option" where
  "data_handshake io agent_id_hint version_text revision w =
     (case encode_hello_payload agent_id_hint version_text revision of
        Inl e \<Rightarrow> Some (Some (Inl e), w)
      | Inr hello_payload \<Rightarrow>
          (case send_tunnel_data_ktp_frame io (connection_frame FrameType.Hello hello_payload) w of
             (Inl e, w) \<Rightarrow> Some (Some (Inl e), w)
           | (Inr SendClosed, w) \<Rightarrow> Some (Some (Inr ()), w)
           | (Inr Sent, w) \<Rightarrow>
               map_option (\<lambda>(r, w).
                 (case r of
                    Inl e \<Rightarrow> Some (Inl e)
                  | Inr ReadClosed \<Rightarrow> Some (Inr ())
                  | Inr ReadFrame \<Rightarrow> None, w)) (read_tunnel_data_hello_ack io w)))"

definition run_connected_tunnel_data_session ::
  "'w data_socket \<Rightarrow> 'w session_runtime \<Rightarrow> 'w session_env \<Rightarrow> string \<Rightarrow> string
   \<Rightarrow> TunnelDataDiagnosticsInner \<Rightarrow> 'w \<Rightarrow> ((TransportError + unit) \<times> 'w) option" where
  "run_connected_tunnel_data_session io rt env agent_id_hint version_text d w =
     (let started = env_now env w in
      case data_handshake io agent_id_hint version_text (ready_revision (env_ready env w)) w of
        None \<Rightarrow> None
      | Some (Some r, w) \<Rightarrow> Some (r, w)
      | Some (None, w) \<Rightarrow>
          (case sr_tick rt w of
             (Inl e, w) \<Rightarrow> Some (Inl e, w)
           | (Inr _, w) \<Rightarrow>
               let ready = env_ready env w in
               (case send_ready_frame io ready w of
                  (Inl e, w) \<Rightarrow> Some (Inl e, w)
                | (Inr SendClosed, w) \<Rightarrow> Some (Inr (), w)
                | (Inr Sent, w) \<Rightarrow>
                    session_loop io rt env \<lparr>last_ready = ready, last_report = started, diag = d\<rparr> w)))"

fun is_nonfatal_connect_error :: "TransportError \<Rightarrow> bool" where
  "is_nonfatal_connect_error (RequestFailed message) =
     (let message = to_ascii_lowercase message in
      contains_str message ''404'' \<or> contains_str message ''403'' \<or> contains_str message ''feature_disabled'')"
| "is_nonfatal_connect_error SocketClosed = True"
| "is_nonfatal_connect_error _ = False"

text \<open>\<open>connect\<close> is the outcome of the transport: an error, or the state with the connection open.\<close>

definition run_tunnel_data_session_with_reporter ::
  "'w data_socket \<Rightarrow> 'w session_runtime \<Rightarrow> 'w session_env \<Rightarrow> ('w \<Rightarrow> (TransportError + unit) \<times> 'w)
   \<Rightarrow> string \<Rightarrow> string \<Rightarrow> TunnelDataDiagnosticsInner \<Rightarrow> 'w \<Rightarrow> ((TransportError + unit) \<times> 'w) option" where
  "run_tunnel_data_session_with_reporter io rt env connect agent_id_hint version_text d w =
     (case connect w of
        (Inl e, w) \<Rightarrow> Some (if is_nonfatal_connect_error e then Inr () else Inl e, w)
      | (Inr _, w) \<Rightarrow>
          (case run_connected_tunnel_data_session io rt env agent_id_hint version_text d w of
             None \<Rightarrow> None
           | Some (result, w) \<Rightarrow>
               (case sr_close_all_sessions rt ''carrier_disconnect'' w of
                  (cleanup_result, w) \<Rightarrow>
                    Some (case result of Inr _ \<Rightarrow> cleanup_result | Inl e \<Rightarrow> Inl e, w))))"

definition run_tunnel_data_once ::
  "'w data_socket \<Rightarrow> ('w \<Rightarrow> (TransportError + unit) \<times> 'w) \<Rightarrow> string \<Rightarrow> string \<Rightarrow> TunnelDataReadyState
   \<Rightarrow> 'w \<Rightarrow> ((TransportError + unit) \<times> 'w) option" where
  "run_tunnel_data_once io connect agent_id_hint version_text ready w =
     (case connect w of
        (Inl e, w) \<Rightarrow> Some (if is_nonfatal_connect_error e then Inr () else Inl e, w)
      | (Inr _, w) \<Rightarrow>
          (case data_handshake io agent_id_hint version_text (ready_revision ready) w of
             None \<Rightarrow> None
           | Some (Some r, w) \<Rightarrow> Some (r, w)
           | Some (None, w) \<Rightarrow>
               (case send_ready_frame io ready w of
                  (Inl e, w) \<Rightarrow> Some (Inl e, w)
                | (Inr _, w) \<Rightarrow> Some (Inr (), w))))"

section \<open>Reconnecting and the startup line\<close>

definition tunnel_data_reconnect_delay_after_attempt :: "Duration \<Rightarrow> bool \<Rightarrow> Duration \<times> Duration" where
  "tunnel_data_reconnect_delay_after_attempt current_delay session_succeeded =
     (let current_delay = (if current_delay = 0 then from_secs 5 else current_delay);
          sleep_delay = (if session_succeeded then from_secs 15 else current_delay);
          doubled = (if sleep_delay + sleep_delay \<le> DURATION_MAX then sleep_delay + sleep_delay else DURATION_MAX)
      in (sleep_delay, min doubled (from_secs 60)))"

fun ktp_tcp_auth_version_label :: "KtpTcpAuthVersion \<Rightarrow> string" where
  "ktp_tcp_auth_version_label V1 = ''v1''"
| "ktp_tcp_auth_version_label V2 = ''v2''"

definition tunnel_data_startup_transport_fields :: "string \<Rightarrow> KtpTcpAuthVersion \<Rightarrow> string" where
  "tunnel_data_startup_transport_fields url version =
     (let url = trim url in
      if starts_with url ''ktp+tls://'' \<or> starts_with url ''tls://'' then
        '' carrier=ktp_tls crypto=ktp_aead auth=ktp_token_preface_'' @ ktp_tcp_auth_version_label version
      else if starts_with url ''ktp+tcp://'' \<or> starts_with url ''tcp://'' then
        '' carrier=ktp_tcp crypto=ktp_aead auth=ktp_token_preface_'' @ ktp_tcp_auth_version_label version
      else [])"

definition tunnel_data_startup_line_with_ktp_auth_version ::
  "string \<Rightarrow> bool \<Rightarrow> KtpTcpAuthVersion \<Rightarrow> string" where
  "tunnel_data_startup_line_with_ktp_auth_version url enabled version =
     (if \<not> enabled then ''tunnel data: disabled''
      else ''tunnel data: enabled url='' @ redact_token_in_url_data url
           @ tunnel_data_startup_transport_fields url version)"

section \<open>What a session relies on\<close>

lemma ceil_div_step: "0 < n \<Longrightarrow> 0 < k \<Longrightarrow> (k + n - 1) div n = Suc ((k - n + n - 1) div n)" for k n :: nat
  by (cases "n \<le> k") (simp_all add: le_div_geq)

text \<open>
  The laws of carrier and runtime that make a session end and its output orderly.  \<open>sent\<close> is what has
  been sent, \<open>backlog\<close> what the runtime has queued, and \<open>budget\<close> bounds the number of reads the carrier
  still answers without an error.  Sending only appends to \<open>sent\<close>, taking frames takes the oldest.
\<close>

locale data_session =
  fixes io :: "'w data_socket" and rt :: "'w session_runtime" and env :: "'w session_env"
    and budget :: "'w \<Rightarrow> nat" and backlog :: "'w \<Rightarrow> KtpFrame list" and sent :: "'w \<Rightarrow> KtpFrame list"
  assumes send_frame_law: "sk_send_ktp_frame io f w = (r, w') \<Longrightarrow>
      budget w' = budget w \<and> backlog w' = backlog w \<and> sent w' \<in> {sent w, sent w @ [f]}
      \<and> (r = Inr () \<longrightarrow> sent w' = sent w @ [f])"
    and send_batch_law: "sk_send_ktp_frame_batch io fs w = (r, w') \<Longrightarrow>
      budget w' = budget w \<and> backlog w' = backlog w \<and> (\<exists>gs. sent w' = sent w @ gs)
      \<and> (r = Inr () \<longrightarrow> sent w' = sent w @ fs)"
    and next_law: "0 < n \<Longrightarrow> \<exists>fs w'. sr_next_client_frames rt n w = (Inr fs, w')
      \<and> budget w' = budget w \<and> sent w' = sent w \<and> fs = take n (backlog w) \<and> backlog w' = drop n (backlog w)"
    and wait_law: "sr_next_client_frames_after_wait rt n t w = (r2, w') \<Longrightarrow>
      budget w' = budget w \<and> sent w' = sent w"
    and tick_law: "sr_tick rt w = (r, w') \<Longrightarrow> budget w' = budget w \<and> sent w' = sent w"
    and handle_law: "sr_handle_server_frame rt f w = (r2, w') \<Longrightarrow> budget w' = budget w \<and> sent w' = sent w"
    and report_law: "budget (env_report env s w) = budget w \<and> sent (env_report env s w) = sent w"
    and read_law: "\<exists>r w'. sk_read_batch io n w = Some (r, w') \<and> sent w' = sent w
      \<and> (is_ok r \<longrightarrow> budget w' < budget w)"
    and read_timeout_law: "\<exists>r w'. sk_read_batch_with_timeout io t n w = Some (r, w') \<and> sent w' = sent w
      \<and> (is_ok r \<longrightarrow> budget w' < budget w)"
    and hello_law: "\<exists>r w'. sk_read_frame io w = Some (r, w') \<and> sent w' = sent w"
begin

definition goes_on :: "'w \<Rightarrow> 'w \<Rightarrow> bool" where
  "goes_on w w' \<longleftrightarrow> budget w' = budget w \<and> (\<exists>fs. sent w' = sent w @ fs)"

lemma goes_on_refl [simp]: "goes_on w w"
  by (simp add: goes_on_def)

lemma goes_on_trans: "goes_on w w' \<Longrightarrow> goes_on w' w'' \<Longrightarrow> goes_on w w''"
  by (auto simp: goes_on_def)

lemma send_goes_on: "send_tunnel_data_ktp_frame io f w = (r, w') \<Longrightarrow> goes_on w w'"
  using send_frame_law unfolding send_tunnel_data_ktp_frame_def send_outcome_def goes_on_def
  by (fastforce split: prod.splits sum.splits)

lemma batch_goes_on: "send_tunnel_session_runtime_frame_batch io fs w = (r, w') \<Longrightarrow>
    goes_on w w' \<and> backlog w' = backlog w"
  using send_batch_law
  unfolding send_tunnel_session_runtime_frame_batch_def send_tunnel_data_ktp_frame_batch_def send_outcome_def
    goes_on_def
  by (fastforce split: prod.splits sum.splits if_splits)

lemma drain_returns:
  "0 < n \<Longrightarrow> \<exists>r w'. drain_loop io rt n st w = Some (r, w') \<and> goes_on w w'"
proof (induction "length (backlog w)" arbitrary: w st rule: less_induct)
  case less
  obtain w1 where w1: "sr_next_client_frames rt n w = (Inr (take n (backlog w)), w1)"
    "goes_on w w1" "backlog w1 = drop n (backlog w)"
    using next_law [OF less.prems, of w] by (auto simp: goes_on_def)
  show ?case
  proof (cases "take n (backlog w) = []")
    case True
    with w1 show ?thesis by (simp add: drain_loop.simps [of io rt n st w])
  next
    case False
    obtain r w2 where w2: "send_tunnel_session_runtime_frame_batch io (take n (backlog w)) w1 = (r, w2)"
      by fastforce
    have on: "goes_on w w2" and "length (backlog w2) < length (backlog w)"
      using batch_goes_on [OF w2] w1(2,3) goes_on_trans False less.prems by auto
    have "\<exists>r w'. drain_loop io rt n st' w2 = Some (r, w') \<and> goes_on w w'" for st'
      using less.hyps [OF \<open>length (backlog w2) < length (backlog w)\<close> less.prems, of st'] goes_on_trans [OF on]
      by blast
    then show ?thesis
      using w1(1) w2 False on by (cases r) (auto simp: drain_loop.simps [of io rt n st w])
  qed
qed

lemma drain_all_returns:
  "\<exists>r w'. drain_tunnel_session_runtime_frames io rt w = Some (r, w') \<and> goes_on w w'"
  using drain_returns by (simp add: drain_tunnel_session_runtime_frames_def
      tunnel_session_runtime_frame_batch_limit_def Let_def)

lemma drain_wait_returns:
  "\<exists>r w'. drain_tunnel_session_runtime_frames_after_wait io rt t w = Some (r, w') \<and> goes_on w w'"
proof -
  let ?n = "tunnel_session_runtime_frame_batch_limit rt w"
  obtain r w1 where w1: "sr_next_client_frames_after_wait rt ?n t w = (r, w1)" by fastforce
  then have on1: "goes_on w w1" using wait_law by (auto simp: goes_on_def)
  show ?thesis
  proof (cases "\<exists>fs. r = Inr fs \<and> fs \<noteq> []")
    case False
    with w1 on1 show ?thesis
      by (cases r) (auto simp: drain_tunnel_session_runtime_frames_after_wait_def Let_def)
  next
    case True
    then obtain fs where fs: "r = Inr fs" "fs \<noteq> []" by blast
    obtain r2 w2 where w2: "send_tunnel_session_runtime_frame_batch io fs w1 = (r2, w2)" by fastforce
    have on2: "goes_on w w2" using batch_goes_on [OF w2] on1 goes_on_trans by blast
    obtain r3 w3 where "drain_tunnel_session_runtime_frames io rt w2 = Some (r3, w3)" "goes_on w2 w3"
      using drain_all_returns by blast
    with w1 fs w2 on2 goes_on_trans [OF on2] show ?thesis
      by (cases r2) (auto simp: drain_tunnel_session_runtime_frames_after_wait_def Let_def)
  qed
qed

lemma report_goes_on:
  "report_tunnel_data_diagnostics_if_due env l w = (l', w') \<Longrightarrow> goes_on w w'"
  using report_law
  by (auto simp: report_tunnel_data_diagnostics_if_due_def goes_on_def Let_def split: if_splits)

lemma wait_returns: "\<exists>x w'. wait_for_frames io rt env l w = Some (x, w') \<and> goes_on w w'"
proof (cases "sr_client_frame_wait_timeout rt w")
  case None
  then show ?thesis by (simp add: wait_for_frames_def)
next
  case (Some t)
  obtain r w1 where w1: "drain_tunnel_session_runtime_frames_after_wait io rt t w = Some (r, w1)" "goes_on w w1"
    using drain_wait_returns by blast
  then show ?thesis
    using Some goes_on_trans [OF w1(2) report_goes_on]
    by (cases r) (auto simp: wait_for_frames_def Let_def split: prod.splits)
qed

lemma send_queued_returns: "\<exists>x w'. send_queued io rt env l w = Some (x, w') \<and> goes_on w w'"
proof -
  obtain r w1 where w1: "drain_tunnel_session_runtime_frames io rt w = Some (r, w1)" "goes_on w w1"
    using drain_all_returns by blast
  show ?thesis
  proof (cases r)
    case (Inl e)
    with w1 show ?thesis by (simp add: send_queued_def)
  next
    case (Inr st)
    have "\<exists>x w'. wait_for_frames io rt env l' w1 = Some (x, w') \<and> goes_on w w'" for l'
      using wait_returns [of l' w1] goes_on_trans [OF w1(2)] by blast
    with w1 Inr show ?thesis by (simp add: send_queued_def Let_def)
  qed
qed

lemma responses_go_on: "send_responses io fs w = (r, w') \<Longrightarrow> goes_on w w'"
proof (induction fs arbitrary: w)
  case (Cons f fs)
  obtain r1 w1 where w1: "send_tunnel_data_ktp_frame io f w = (r1, w1)" by fastforce
  from Cons send_goes_on [OF w1] goes_on_trans w1 show ?case by (cases r1) auto
qed simp

lemma handle_goes_on: "handle_tunnel_data_session_frame io rt f w = (r, w') \<Longrightarrow> goes_on w w'"
proof -
  assume h: "handle_tunnel_data_session_frame io rt f w = (r, w')"
  have "goes_on w w1" if "sr_handle_server_frame rt f w = (x, w1)" for x w1
    using handle_law [OF that] by (simp add: goes_on_def)
  with h show ?thesis
    by (auto simp: handle_tunnel_data_session_frame_def split: if_splits prod.splits sum.splits
        dest: send_goes_on responses_go_on intro: goes_on_trans)
qed

lemma handle_all_goes_on: "handle_tunnel_data_session_frames io rt fs w = (r, w') \<Longrightarrow> goes_on w w'"
proof (induction fs arbitrary: w)
  case (Cons f fs)
  obtain r1 w1 where w1: "handle_tunnel_data_session_frame io rt f w = (r1, w1)" by fastforce
  from Cons handle_goes_on [OF w1] goes_on_trans w1 show ?case by (cases r1) auto
qed simp



end

context data_session
begin

text \<open>A step that sends what it likes and, unless the session is over, has used up part of the budget.\<close>

definition uses_up :: "'w \<Rightarrow> ((TransportError + unit) + data_loop) \<times> 'w \<Rightarrow> bool" where
  "uses_up w x \<longleftrightarrow> (\<exists>fs. sent (snd x) = sent w @ fs) \<and> (isl (fst x) \<or> budget (snd x) < budget w)"

lemma goes_on_uses_up: "goes_on w w' \<Longrightarrow> uses_up w' x \<Longrightarrow> uses_up w x"
  by (auto simp: goes_on_def uses_up_def)

lemma read_returns: "\<exists>x. read_and_handle io rt env l w = Some x \<and> uses_up w x"
proof -
  obtain l1 w1 where w1: "report_tunnel_data_diagnostics_if_due env l w = (l1, w1)" by fastforce
  have on: "goes_on w w1" using report_goes_on [OF w1] .
  obtain r w2 where w2: "(case sr_socket_idle_timeout rt w1 of
        Some t \<Rightarrow> sk_read_batch_with_timeout io t TUNNEL_DATA_FRAME_BATCH_LIMIT w1
      | None \<Rightarrow> sk_read_batch io TUNNEL_DATA_FRAME_BATCH_LIMIT w1) = Some (r, w2)"
    "sent w2 = sent w1" "is_ok r \<longrightarrow> budget w2 < budget w1"
    using read_law [of TUNNEL_DATA_FRAME_BATCH_LIMIT w1] read_timeout_law [of _ TUNNEL_DATA_FRAME_BATCH_LIMIT w1]
    by (cases "sr_socket_idle_timeout rt w1") fastforce+
  have less: "budget w2 < budget w" and sent: "\<exists>fs. sent w2 = sent w @ fs" if "is_ok r"
    using that w2(2,3) on by (auto simp: goes_on_def)
  consider e where "r = Inl e" | "r = Inr None" | fs where "r = Inr (Some fs)"
    by (metis option.exhaust sum.exhaust)
  then show ?thesis
  proof cases
    case 1
    with w1 w2 on show ?thesis
      by (auto simp: read_and_handle_def Let_def uses_up_def goes_on_def)
  next
    case 2
    with w1 w2 less sent show ?thesis by (simp add: read_and_handle_def Let_def uses_up_def)
  next
    case (3 fs)
    obtain r2 w3 where w3: "handle_tunnel_data_session_frames io rt fs w2 = (r2, w3)" by fastforce
    have "budget w3 < budget w \<and> (\<exists>gs. sent w3 = sent w @ gs)"
      using handle_all_goes_on [OF w3] less sent 3 by (auto simp: goes_on_def)
    with 3 w1 w2 w3 show ?thesis
      by (cases r2) (simp_all add: read_and_handle_def Let_def uses_up_def)
  qed
qed

lemma announce_goes_on: "announce_ready io env l w = (x, w') \<Longrightarrow> goes_on w w'"
  by (auto simp: announce_ready_def send_ready_frame_def Let_def split: if_splits prod.splits sum.splits
      SendFrameOutcome.splits dest: send_goes_on)

lemma round_returns: "\<exists>x. session_round io rt env l w = Some x \<and> uses_up w x"
proof -
  obtain r w1 where w1: "sr_tick rt w = (r, w1)" by fastforce
  have on1: "goes_on w w1" using tick_law [OF w1] by (simp add: goes_on_def)
  obtain x w2 where w2: "announce_ready io env l w1 = (x, w2)" by fastforce
  have on2: "goes_on w w2" using announce_goes_on [OF w2] on1 goes_on_trans by blast
  show ?thesis
  proof (cases "isl r \<or> isl x")
    case True
    with w1 w2 on1 on2 show ?thesis
      by (cases r; cases x) (auto simp: session_round_def uses_up_def goes_on_def)
  next
    case False
    then obtain l2 where x: "x = Inr l2" and r: "r = Inr ()" by (cases x; cases r) auto
    obtain y w3 where w3: "send_queued io rt env l2 w2 = Some (y, w3)" "goes_on w2 w3"
      using send_queued_returns by blast
    have on3: "goes_on w w3" using on2 w3(2) goes_on_trans by blast
    show ?thesis
    proof (cases y)
      case (Inl z)
      with r x w1 w2 w3 on3 show ?thesis by (auto simp: session_round_def uses_up_def goes_on_def)
    next
      case (Inr l3)
      obtain v where "read_and_handle io rt env l3 w3 = Some v" "uses_up w3 v"
        using read_returns by blast
      with Inr r x w1 w2 w3 goes_on_uses_up [OF on3] show ?thesis by (simp add: session_round_def)
    qed
  qed
qed

lemma loop_returns: "\<exists>r w' fs. session_loop io rt env l w = Some (r, w') \<and> sent w' = sent w @ fs"
proof (induction "budget w" arbitrary: w l rule: less_induct)
  case less
  obtain x w1 where x: "session_round io rt env l w = Some (x, w1)" "uses_up w (x, w1)"
    using round_returns by fastforce
  show ?case
  proof (cases x)
    case (Inl r)
    with x show ?thesis by (auto simp: session_loop.simps [of io rt env l w] uses_up_def)
  next
    case (Inr l1)
    with x(2) less.hyps [of w1 l1] show ?thesis
      by (auto simp: session_loop.simps [of io rt env l w] x(1) Inr uses_up_def)
  qed
qed

lemma after_ack_returns:
  "\<exists>r w' fs. (case sr_tick rt w of
        (Inl e, w) \<Rightarrow> Some (Inl e, w)
      | (Inr _, w) \<Rightarrow>
          let ready = env_ready env w in
          (case send_ready_frame io ready w of
             (Inl e, w) \<Rightarrow> Some (Inl e, w)
           | (Inr SendClosed, w) \<Rightarrow> Some (Inr (), w)
           | (Inr Sent, w) \<Rightarrow> session_loop io rt env \<lparr>last_ready = ready, last_report = t, diag = d\<rparr> w))
      = Some (r, w') \<and> sent w' = sent w @ fs"
proof -
  obtain r w1 where w1: "sr_tick rt w = (r, w1)" by fastforce
  have s1: "sent w1 = sent w" using tick_law [OF w1] by simp
  obtain r2 w2 where w2: "send_ready_frame io (env_ready env w1) w1 = (r2, w2)" by fastforce
  then have "goes_on w1 w2"
    by (auto simp: send_ready_frame_def split: sum.splits dest: send_goes_on)
  then obtain gs where s2: "sent w2 = sent w1 @ gs" by (auto simp: goes_on_def)
  have "\<exists>r w' fs. session_loop io rt env l w2 = Some (r, w') \<and> sent w' = sent w @ fs" for l
    using loop_returns [of l w2] s1 s2 by auto
  with w1 w2 s1 s2 show ?thesis
    by (cases r; cases r2) (auto simp: Let_def split: SendFrameOutcome.split)
qed

text \<open>The connected session: hello comes first, and nothing follows unless it is acknowledged.\<close>

lemma session_returns:
  assumes "encode_hello_payload hint version_text (ready_revision (env_ready env w)) = Inr hello"
  shows "\<exists>r w' fs. run_connected_tunnel_data_session io rt env hint version_text d w = Some (r, w')
    \<and> sent w' = sent w @ fs \<and> (fs = [] \<or> hd fs = connection_frame FrameType.Hello hello)
    \<and> (length fs > 1 \<longrightarrow> (\<exists>bs w2. check_hello_ack bs = Inr ReadFrame
         \<and> sk_read_frame io (snd (send_tunnel_data_ktp_frame io (connection_frame FrameType.Hello hello) w))
           = Some (Inr bs, w2)))"
proof -
  let ?f = "connection_frame FrameType.Hello hello"
  obtain r w1 where w1: "send_tunnel_data_ktp_frame io ?f w = (r, w1)" by fastforce
  have s1: "sent w1 \<in> {sent w, sent w @ [?f]}" "r = Inr Sent \<Longrightarrow> sent w1 = sent w @ [?f]"
    using w1 send_frame_law [of ?f w]
    unfolding send_tunnel_data_ktp_frame_def send_outcome_def
    by (fastforce split: prod.splits sum.splits if_splits)+
  show ?thesis
  proof (cases "r = Inr Sent")
    case False
    then show ?thesis
      using w1 s1(1) assms
      by (cases r; cases "projr r")
        (auto simp: run_connected_tunnel_data_session_def data_handshake_def Let_def)
  next
    case sent: True
    obtain a w2 where w2: "sk_read_frame io w1 = Some (a, w2)" "sent w2 = sent w1"
      using hello_law [of w1] by blast
    show ?thesis
    proof (cases "\<exists>bs. a = Inr bs \<and> check_hello_ack bs = Inr ReadFrame")
      case False
      then show ?thesis
        using w1 w2 s1(2) [OF sent] assms sent
        by (auto simp: run_connected_tunnel_data_session_def data_handshake_def read_tunnel_data_hello_ack_def
            Let_def split: sum.split ReadFrameOutcome.split)
    next
      case True
      then obtain bs where bs: "a = Inr bs" "check_hello_ack bs = Inr ReadFrame" by blast
      have hs: "data_handshake io hint version_text (ready_revision (env_ready env w)) w = Some (None, w2)"
        using w1 w2 bs sent assms by (simp add: data_handshake_def read_tunnel_data_hello_ack_def)
      have rest: "\<exists>r w' fs. run_connected_tunnel_data_session io rt env hint version_text d w = Some (r, w')
          \<and> sent w' = sent w2 @ fs"
        using after_ack_returns hs by (simp add: run_connected_tunnel_data_session_def Let_def)
      have ack: "\<exists>bs w2. check_hello_ack bs = Inr ReadFrame
          \<and> sk_read_frame io (snd (send_tunnel_data_ktp_frame io ?f w)) = Some (Inr bs, w2)"
        using w1 w2 bs by auto
      from rest obtain r' w' fs where
        "run_connected_tunnel_data_session io rt env hint version_text d w = Some (r', w')"
        "sent w' = sent w @ ?f # fs"
        using w2(2) s1(2) [OF sent] by auto
      with ack show ?thesis by (intro exI [of _ r'] exI [of _ w'] exI [of _ "?f # fs"]) simp
    qed
  qed
qed

end

context data_session
begin

text \<open>As long as batches can be sent, a drain sends the whole backlog in order, in batches of at most \<open>n\<close>.\<close>

lemma drain_delivers:
  assumes "0 < n" and "open_for w"
    and "\<And>fs w r w'. open_for w \<Longrightarrow> sk_send_ktp_frame_batch io fs w = (r, w') \<Longrightarrow> r = Inr () \<and> open_for w'"
    and "\<And>n w r w'. open_for w \<Longrightarrow> sr_next_client_frames rt n w = (r, w') \<Longrightarrow> open_for w'"
  shows "\<exists>st' w'. drain_loop io rt n st w = Some (Inr st', w') \<and> sent w' = sent w @ backlog w \<and> backlog w' = []
    \<and> batch_frames st' = batch_frames st + length (backlog w)
    \<and> batches st' = batches st + (length (backlog w) + n - 1) div n
    \<and> max_batch_frames st' \<le> max (max_batch_frames st) n"
  using assms(2)
proof (induction "length (backlog w)" arbitrary: w st rule: less_induct)
  case less
  let ?fs = "take n (backlog w)"
  obtain w1 where w1: "sr_next_client_frames rt n w = (Inr ?fs, w1)" "sent w1 = sent w"
    "backlog w1 = drop n (backlog w)"
    using next_law [OF assms(1), of w] by auto
  show ?case
  proof (cases "?fs = []")
    case True
    then have "backlog w = []" using assms(1) by simp
    with w1 True assms(1) show ?thesis by (simp add: drain_loop.simps [of io rt n st w])
  next
    case False
    obtain r w2 where w2: "sk_send_ktp_frame_batch io ?fs w1 = (r, w2)" by fastforce
    have ok: "r = Inr ()" and open2: "open_for w2"
      using assms(3) [OF assms(4) [OF less.prems w1(1)] w2] by simp_all
    have s2: "sent w2 = sent w @ ?fs" "backlog w2 = drop n (backlog w)"
      using send_batch_law [OF w2] ok w1(2,3) by simp_all
    let ?st = "record_batch (length ?fs) st"
    have short: "length (backlog w2) < length (backlog w)" using s2(2) False assms(1) by auto
    have step: "drain_loop io rt n st w = drain_loop io rt n ?st w2"
      using w1(1) w2 ok False
      by (simp add: drain_loop.simps [of io rt n st w] send_tunnel_session_runtime_frame_batch_def
          send_tunnel_data_ktp_frame_batch_def send_outcome_def)
    have count: "(length (backlog w) + n - 1) div n = Suc ((length (drop n (backlog w)) + n - 1) div n)"
      using ceil_div_step [of n "length (backlog w)"] assms(1) False by simp
    obtain st' w' where "drain_loop io rt n ?st w2 = Some (Inr st', w')" "sent w' = sent w2 @ backlog w2"
      "backlog w' = []" "batch_frames st' = batch_frames ?st + length (backlog w2)"
      "batches st' = batches ?st + (length (backlog w2) + n - 1) div n"
      "max_batch_frames st' \<le> max (max_batch_frames ?st) n"
      using less.hyps [OF short open2, of ?st] by blast
    moreover have "batch_frames ?st + length (backlog w2) = batch_frames st + length (backlog w)"
      "batches ?st = Suc (batches st)" "max (max_batch_frames ?st) n = max (max_batch_frames st) n"
      using s2(2) False by (auto simp: record_batch_def min_def)
    ultimately show ?thesis
      unfolding step count s2 by (intro exI [of _ st'] exI [of _ w']) (simp add: s2)
  qed
qed

end

section \<open>A scripted carrier\<close>

text \<open>
  For statements about whole sessions of the TCP runtime the surroundings are given by what they will do.
  Each read of the carrier takes some time, in which other threads change the runtime in any way, and has
  an outcome; after the last one the carrier is closed.  Each wait for frames likewise changes the queue.
  Each send succeeds or fails as planned, and after the plan succeeds.
\<close>

record data_world =
  world_runtime :: TunnelTcpRuntime
  world_hello :: "TransportError + bytes"
  world_reads :: "(Duration \<times> (TunnelTcpRuntime \<Rightarrow> TunnelTcpRuntime) \<times> (TransportError + KtpFrame list option)) list"
  world_waits :: "(Duration \<times> (AsyncTunnelFrameQueue \<Rightarrow> AsyncTunnelFrameQueue)) list"
  world_sends :: "TransportError option list"
  world_sent :: "KtpFrame list"
  world_time :: Instant
  world_reports :: "TunnelDataDiagnosticsSnapshot list"

definition world_send :: "KtpFrame list \<Rightarrow> data_world \<Rightarrow> (TransportError + unit) \<times> data_world" where
  "world_send fs w =
     (case world_sends w of
        Some e # plan \<Rightarrow> (Inl e, w\<lparr>world_sends := plan\<rparr>)
      | plan \<Rightarrow> (Inr (), w\<lparr>world_sends := drop 1 plan, world_sent := world_sent w @ fs\<rparr>))"

definition world_read :: "data_world \<Rightarrow> (TransportError + KtpFrame list option) \<times> data_world" where
  "world_read w =
     (case world_reads w of
        [] \<Rightarrow> (Inl SocketClosed, w)
      | (d, others, r) # rest \<Rightarrow>
          (r, w\<lparr>world_reads := rest, world_time := world_time w + d,
                world_runtime := others (world_runtime w)\<rparr>))"

definition world_socket :: "data_world data_socket" where
  "world_socket =
     \<lparr>sk_send_ktp_frame = (\<lambda>f. world_send [f]), sk_send_ktp_frame_batch = world_send,
      sk_read_frame = (\<lambda>w. Some (world_hello w, w)), sk_read_batch = (\<lambda>_ w. Some (world_read w)),
      sk_read_batch_with_timeout = (\<lambda>_ _ w. Some (world_read w))\<rparr>"

definition world_meanwhile ::
  "data_world \<Rightarrow> (AsyncTunnelFrameQueue \<Rightarrow> AsyncTunnelFrameQueue) \<times> data_world" where
  "world_meanwhile w =
     (case world_waits w of
        [] \<Rightarrow> (id, w)
      | (d, others) # rest \<Rightarrow> (others, w\<lparr>world_waits := rest, world_time := world_time w + d\<rparr>))"

definition world_tcp_runtime ::
  "(TunnelTcpRuntime \<Rightarrow> string \<Rightarrow> string option) \<Rightarrow> (string \<Rightarrow> dial_result) \<Rightarrow> data_world session_runtime" where
  "world_tcp_runtime bind dial =
     tcp_session_runtime bind dial world_runtime (\<lambda>rt w. w\<lparr>world_runtime := rt\<rparr>) world_time world_meanwhile"

definition world_env ::
  "(data_world \<Rightarrow> TunnelDataReadyState) \<Rightarrow> Duration \<Rightarrow> data_world session_env" where
  "world_env ready interval =
     \<lparr>env_ready = ready, env_now = world_time,
      env_report = (\<lambda>s w. w\<lparr>world_reports := world_reports w @ [s]\<rparr>), env_report_interval = interval\<rparr>"

definition world_backlog :: "data_world \<Rightarrow> KtpFrame list" where
  "world_backlog w =
     (let q = outbound (rt_core (world_runtime w)) in if poisoned (queue_frames q) then [] else queued_frames q)"

lemma next_client_frames_front:
  assumes "next_client_frames now n rt = (fs, rt')" and "0 < n"
  shows "fs = take n (world_backlog (w\<lparr>world_runtime := rt\<rparr>))
    \<and> world_backlog (w'\<lparr>world_runtime := rt'\<rparr>) = drop n (world_backlog (w\<lparr>world_runtime := rt\<rparr>))"
proof (cases "poisoned (queue_frames (outbound (rt_core rt)))")
  case True
  with assms show ?thesis
    by (auto simp: next_client_frames_def core_next_frames_def drain_def Let_def world_backlog_def)
next
  case False
  with assms show ?thesis
    using frame_queue.tk_front [of "outbound (rt_core rt)" now n]
    by (auto simp: next_client_frames_def core_next_frames_def world_backlog_def queue_usable_def Let_def
        split: prod.splits)
qed

lemma world_send_law:
  "world_send fs w = (r, w') \<Longrightarrow>
     world_reads w' = world_reads w \<and> world_runtime w' = world_runtime w
     \<and> world_sent w' \<in> {world_sent w, world_sent w @ fs} \<and> (r = Inr () \<longrightarrow> world_sent w' = world_sent w @ fs)"
  by (auto simp: world_send_def split: list.splits option.splits)

lemma world_read_law:
  "world_read w = (r, w') \<Longrightarrow> world_sent w' = world_sent w
     \<and> (is_ok r \<longrightarrow> length (world_reads w') < length (world_reads w))"
  by (auto simp: world_read_def split: list.splits prod.splits)

lemma world_data_session:
  "data_session world_socket (world_tcp_runtime bind dial) (world_env ready interval)
     (\<lambda>w. length (world_reads w)) world_backlog world_sent"
proof (unfold_locales, goal_cases)
  case (1 f w r w')
  then show ?case using world_send_law [of "[f]"] by (fastforce simp: world_socket_def world_backlog_def)
next
  case (2 fs w r w')
  then show ?case using world_send_law by (fastforce simp: world_socket_def world_backlog_def)
next
  case (3 n w)
  obtain fs rt' where nx: "next_client_frames (world_time w) n (world_runtime w) = (fs, rt')" by fastforce
  with next_client_frames_front [OF nx 3, of w w] show ?case
    by (simp add: world_tcp_runtime_def tcp_session_runtime_def)
next
  case (4 n t w r2 w')
  then show ?case
    by (auto simp: world_tcp_runtime_def tcp_session_runtime_def world_meanwhile_def split: prod.splits list.splits)
next
  case (5 w r w')
  then show ?case by (auto simp: world_tcp_runtime_def tcp_session_runtime_def)
next
  case (6 f w r2 w')
  then show ?case by (auto simp: world_tcp_runtime_def tcp_session_runtime_def split: prod.splits)
next
  case (7 s w)
  show ?case by (simp add: world_env_def)
next
  case (8 n w)
  show ?case using world_read_law [of w] by (cases "world_read w") (simp add: world_socket_def)
next
  case (9 t n w)
  show ?case using world_read_law [of w] by (cases "world_read w") (simp add: world_socket_def)
next
  case (10 w)
  show ?case by (simp add: world_socket_def)
qed

interpretation tcp_data: data_session world_socket "world_tcp_runtime bind dial" "world_env ready interval"
  "\<lambda>w. length (world_reads w)" world_backlog world_sent
  for bind dial ready interval
  by (rule world_data_session)

section \<open>Data sessions end clean\<close>

lemma queue_clear_empty:
  "\<not> poisoned (queue_frames (snd (queue_clear q))) \<Longrightarrow> queued_frames (snd (queue_clear q)) = []"
  by (auto simp: queue_clear_def Let_def queued_frames_def split: if_splits)

lemma runtime_close_all_clean:
  assumes "runtime_close_all_sessions rt = (r, rt')" and "\<not> poisoned (sessions (rt_core rt'))"
  shows "r = Inr () \<and> guarded (sessions (rt_core rt')) = Map.empty
    \<and> (poisoned (queue_frames (outbound (rt_core rt'))) \<or> queued_frames (outbound (rt_core rt')) = [])"
proof -
  let ?c = "rt_core rt"
  have np: "\<not> poisoned (sessions ?c)"
    using assms by (auto simp: runtime_close_all_sessions_def close_all_sessions_def Let_def split: if_splits)
  have "distinct (live_indices ?c)" "set (live_indices ?c) \<subseteq> {..<length (session_objs ?c)}"
    by (auto simp: live_indices_def)
  then have "sessions (fold close_one (live_indices ?c)
      (?c\<lparr>sessions := (sessions ?c)\<lparr>guarded := Map.empty\<rparr>\<rparr>)) = (sessions ?c)\<lparr>guarded := Map.empty\<rparr>"
    using fold_close_one [of "live_indices ?c" "?c\<lparr>sessions := (sessions ?c)\<lparr>guarded := Map.empty\<rparr>\<rparr>"]
    by simp
  then have "r = Inr ()" "guarded (sessions (rt_core rt')) = Map.empty"
    "\<exists>q. outbound (rt_core rt') = snd (queue_clear q)"
    using assms np by (auto simp: runtime_close_all_sessions_def close_all_sessions_def Let_def map_err_def)
  with queue_clear_empty show ?thesis by metis
qed


definition sample_world :: data_world where
  "sample_world =
     \<lparr>world_runtime = sample_runtime
        \<lparr>rt_core := (rt_core sample_runtime)
           \<lparr>outbound := (outbound (rt_core sample_runtime))
              \<lparr>queue_frames := mutex_new [\<lparr>queued_frame = sample_frame, enqueued_at = 0\<rparr>]\<rparr>\<rparr>\<rparr>,
      world_hello = Inl SocketClosed, world_reads = [], world_waits = [], world_sends = [], world_sent = [],
      world_time = 0, world_reports = []\<rparr>"


text \<open>
  Claim C23.  Draining the runtime onto an open carrier sends every queued frame exactly once, in the
  order of the queue, in as few batches of at most the batch limit as possible, counts them right, and
  leaves the queue empty.
\<close>
theorem drain_sends_queue:
  assumes "world_sends w = []" and "\<not> poisoned (queue_frames (outbound (rt_core (world_runtime w))))"
    and "n = tunnel_session_runtime_frame_batch_limit (world_tcp_runtime bind dial) w"
  shows "\<exists>st w'. drain_tunnel_session_runtime_frames world_socket (world_tcp_runtime bind dial) w = Some (Inr st, w')
    \<and> world_sent w' = world_sent w @ queued_frames (outbound (rt_core (world_runtime w)))
    \<and> world_backlog w' = []
    \<and> batch_frames st = length (queued_frames (outbound (rt_core (world_runtime w))))
    \<and> batches st = (length (queued_frames (outbound (rt_core (world_runtime w)))) + n - 1) div n
    \<and> max_batch_frames st \<le> n \<and> 1 \<le> n \<and> n \<le> 64"
proof -
  have n: "1 \<le> n" "n \<le> 64"
    by (simp_all add: assms(3) tunnel_session_runtime_frame_batch_limit_def TUNNEL_DATA_FRAME_BATCH_LIMIT_def)
  have "\<exists>st' w'. drain_loop world_socket (world_tcp_runtime bind dial) n (record_batch_limit n write_stats_default) w
      = Some (Inr st', w') \<and> world_sent w' = world_sent w @ world_backlog w \<and> world_backlog w' = []
    \<and> batch_frames st' = batch_frames (record_batch_limit n write_stats_default) + length (world_backlog w)
    \<and> batches st' = batches (record_batch_limit n write_stats_default) + (length (world_backlog w) + n - 1) div n
    \<and> max_batch_frames st' \<le> max (max_batch_frames (record_batch_limit n write_stats_default)) n"
    using n(1) assms(1)
    by (intro tcp_data.drain_delivers [where open_for = "\<lambda>w. world_sends w = []"])
      (auto simp: world_socket_def world_send_def world_tcp_runtime_def tcp_session_runtime_def
        split: list.splits prod.splits)
  moreover have "world_backlog w = queued_frames (outbound (rt_core (world_runtime w)))"
    using assms(2) by (simp add: world_backlog_def Let_def)
  moreover have "batch_frames (record_batch_limit n write_stats_default) = 0"
    "batches (record_batch_limit n write_stats_default) = 0"
    "max_batch_frames (record_batch_limit n write_stats_default) = 0"
    by (simp_all add: record_batch_limit_def write_stats_default_def Let_def)
  ultimately show ?thesis
    using n by (simp add: drain_tunnel_session_runtime_frames_def assms(3) [symmetric])
qed

theorem drain_sends_queue_witness:
  "\<exists>st w'. drain_tunnel_session_runtime_frames world_socket (world_tcp_runtime (\<lambda>_ _. None) (\<lambda>_. Dialed)) sample_world
       = Some (Inr st, w')
     \<and> world_sent w' = [sample_frame] \<and> batch_frames st = 1"
proof -
  have "queued_frames (outbound (rt_core (world_runtime sample_world))) = [sample_frame]"
    "world_sends sample_world = []" "world_sent sample_world = []"
    "\<not> poisoned (queue_frames (outbound (rt_core (world_runtime sample_world))))"
    by (simp_all add: sample_world_def queued_frames_def mutex_new_def)
  with drain_sends_queue [of sample_world _ "\<lambda>_ _. None" "\<lambda>_. Dialed"] show ?thesis by fastforce
qed

section \<open>Reconnecting\<close>

text \<open>The delay before the next attempt is between five seconds and a minute, and doubles until then.\<close>

lemma reconnect_delay_bounds:
  assumes "tunnel_data_reconnect_delay_after_attempt d ok = (sleep, d')"
    and "d = 0 \<or> from_secs 5 \<le> d \<and> d \<le> from_secs 60"
  shows "from_secs 5 \<le> sleep \<and> sleep \<le> from_secs 60 \<and> d' = min (2 * sleep) (from_secs 60)"
  using assms
  by (auto simp: tunnel_data_reconnect_delay_after_attempt_def Let_def from_secs_def DURATION_MAX_def
      split: if_splits)

end
