(* ===== verification/DnsClient.thy ===== *)
theory DnsClient
  imports RustNet
begin

text \<open>
  The DNS client behind the custom resolver (\<open>linux_proc.rs\<close>): the query, the parser of the reply and the two
  queries for a host name.  The clock, the socket and the system's resolver are parameters.  The theorem
  states the format of RFC 1035 as an encoder and shows that the parser reads back what it writes.
\<close>

section \<open>The DNS client\<close>

unbundle bit_operations_syntax

datatype io_kind = InvalidInput | InvalidData | UnexpectedEof | NotFound | OsError

datatype io_error = IoError io_kind string

type_synonym dns_addr = "IpAddr \<times> u16"

definition normalize_dns_server :: "string \<Rightarrow> string" where
  "normalize_dns_server server =
     (let server = trim server; colons = count_char (CHR '':'') server;
          bracket = CHR '']'' \<in> set server in
      if (starts_with server ''['' \<and> contains_str server '']:'') \<or> (colons = 1 \<and> \<not> bracket) then server
      else if 2 \<le> colons \<and> \<not> bracket then ''['' @ server @ '']:53''
      else if colons = 0 then server @ '':53''
      else server)"

text \<open>\<open>nanos\<close> is the fraction of the current second in nanoseconds, 0 if the clock is before 1970.\<close>

definition dns_query_id :: "u32 \<Rightarrow> string \<Rightarrow> u16 \<Rightarrow> u16" where
  "dns_query_id nanos host qtype =
     foldl (\<lambda>acc byte. (acc * 31) XOR ucast byte) (ucast nanos XOR qtype) (as_bytes host)"

fun push_labels :: "string list \<Rightarrow> bytes \<Rightarrow> io_error + bytes" where
  "push_labels [] packet = Inr packet"
| "push_labels (label # labels) packet =
     (if label = [] \<or> 63 < length label then Inl (IoError InvalidInput ''invalid DNS name'')
      else push_labels labels (packet @ [of_nat (length label)] @ as_bytes label))"

definition build_dns_query :: "u16 \<Rightarrow> string \<Rightarrow> u16 \<Rightarrow> io_error + bytes" where
  "build_dns_query qid host qtype =
     (let packet = u16_to_be_bytes qid @ u16_to_be_bytes 0x0100 @ u16_to_be_bytes 1 @ u16_to_be_bytes 0
                     @ u16_to_be_bytes 0 @ u16_to_be_bytes 0 in
      bind_result (push_labels (split_char (CHR ''.'') (trim_end_matches (CHR ''.'') host)) packet) (\<lambda>packet.
        Inr (packet @ [0] @ u16_to_be_bytes qtype @ u16_to_be_bytes 1)))"

definition checked_add_usize :: "nat \<Rightarrow> nat \<Rightarrow> nat option" where
  "checked_add_usize a b = (if a + b \<le> usize_max then Some (a + b) else None)"

function skip_dns_name :: "bytes \<Rightarrow> nat \<Rightarrow> io_error + nat" where
  "skip_dns_name packet offset =
     (if length packet \<le> offset then Inl (IoError UnexpectedEof ''truncated DNS name'')
      else
        let len = packet ! offset in
        if len AND 0xC0 = 0xC0 then
          (if length packet \<le> offset + 1 then Inl (IoError UnexpectedEof ''truncated DNS pointer'')
           else Inr (offset + 2))
        else if len = 0 then Inr (offset + 1)
        else
          (case checked_add_usize offset (1 + unat len) of
             None \<Rightarrow> Inl (IoError InvalidData ''DNS name overflow'')
           | Some offset \<Rightarrow>
               if length packet < offset then Inl (IoError UnexpectedEof ''truncated DNS label'')
               else skip_dns_name packet offset))"
  by pat_completeness auto
termination
  by (relation "measure (\<lambda>(packet, offset). length packet - offset)")
    (auto simp: checked_add_usize_def split: if_splits)

declare skip_dns_name.simps [simp del]

fun skip_questions :: "bytes \<Rightarrow> nat \<Rightarrow> nat \<Rightarrow> io_error + nat" where
  "skip_questions packet 0 offset = Inr offset"
| "skip_questions packet (Suc n) offset =
     bind_result (skip_dns_name packet offset) (\<lambda>offset.
       case checked_add_usize offset 4 of
         None \<Rightarrow> Inl (IoError InvalidData ''DNS question overflow'')
       | Some offset \<Rightarrow>
           if length packet < offset then Inl (IoError UnexpectedEof ''truncated DNS question'')
           else skip_questions packet n offset)"

definition u16_at :: "bytes \<Rightarrow> nat \<Rightarrow> u16" where
  "u16_at packet i = u16_from_be_bytes [packet ! i, packet ! (i + 1)]"

text \<open>The address in the data of a record, with port 0; other records give nothing.\<close>

definition record_addrs :: "u16 \<Rightarrow> bytes \<Rightarrow> dns_addr list" where
  "record_addrs answer_type rdata =
     (if answer_type = 1 \<and> length rdata = 4 then [(V4 (u32_from_be_bytes rdata), 0)]
      else if answer_type = 28 \<and> length rdata = 16 then [(V6 (of_nat (be_val rdata)), 0)]
      else [])"

fun read_answers :: "bytes \<Rightarrow> u16 \<Rightarrow> nat \<Rightarrow> nat \<Rightarrow> dns_addr list \<Rightarrow> io_error + dns_addr list" where
  "read_answers packet qtype 0 offset addrs = Inr addrs"
| "read_answers packet qtype (Suc n) offset addrs =
     bind_result (skip_dns_name packet offset) (\<lambda>offset.
       if length packet < offset + 10 then Inl (IoError UnexpectedEof ''truncated DNS answer'')
       else
         let answer_type = u16_at packet offset;
             answer_class = u16_at packet (offset + 2);
             rdlen = unat (u16_at packet (offset + 8));
             offset = offset + 10 in
         if length packet < offset + rdlen then Inl (IoError UnexpectedEof ''truncated DNS rdata'')
         else
           let rdata = sub_slice offset (offset + rdlen) packet;
               addrs = (if answer_class = 1 \<and> answer_type = qtype then addrs @ record_addrs answer_type rdata
                        else addrs) in
           read_answers packet qtype n (offset + rdlen) addrs)"

definition parse_dns_response :: "bytes \<Rightarrow> u16 \<Rightarrow> u16 \<Rightarrow> io_error + dns_addr list" where
  "parse_dns_response packet expected_id qtype =
     (if length packet < 12 then Inl (IoError InvalidData ''short DNS response'')
      else if u16_at packet 0 \<noteq> expected_id then Inl (IoError InvalidData ''mismatched DNS response id'')
      else if u16_at packet 2 AND 0x000f \<noteq> 0 then
        Inl (IoError InvalidData ''DNS response returned an error'')
      else
        bind_result (skip_questions packet (unat (u16_at packet 4)) 12) (\<lambda>offset.
          read_answers packet qtype (unat (u16_at packet 6)) offset []))"

text \<open>
  \<open>udp server query\<close> binds a socket, sends the query and receives the answer; the buffer holds 1232
  bytes.  \<open>to_socket_addrs\<close> is the system's resolver.  Each of the two queries reads the clock anew.
\<close>

definition query_dns_records ::
  "(dns_addr \<Rightarrow> bytes \<Rightarrow> io_error + bytes) \<Rightarrow> u32 \<Rightarrow> dns_addr \<Rightarrow> string \<Rightarrow> u16 \<Rightarrow> io_error + dns_addr list" where
  "query_dns_records udp nanos server_addr host qtype =
     (let query_id = dns_query_id nanos host qtype in
      bind_result (build_dns_query query_id host qtype) (\<lambda>query.
      bind_result (udp server_addr query) (\<lambda>response.
        parse_dns_response (take 1232 response) query_id qtype)))"

definition resolve_host_with_dns_server ::
  "(string \<Rightarrow> io_error + dns_addr list) \<Rightarrow> (dns_addr \<Rightarrow> bytes \<Rightarrow> io_error + bytes) \<Rightarrow> u32 \<Rightarrow> u32
   \<Rightarrow> string \<Rightarrow> string \<Rightarrow> io_error + dns_addr list" where
  "resolve_host_with_dns_server to_socket_addrs udp nanos1 nanos2 dns_server host =
     (case parse_ip_addr host of
        Some ip \<Rightarrow> Inr [(ip, 0)]
      | None \<Rightarrow>
          bind_result (to_socket_addrs (normalize_dns_server dns_server)) (\<lambda>servers.
          case servers of
            [] \<Rightarrow> Inl (IoError InvalidInput ''empty DNS server'')
          | server_addr # _ \<Rightarrow>
              bind_result (query_dns_records udp nanos1 server_addr host 1) (\<lambda>v4.
              bind_result (query_dns_records udp nanos2 server_addr host 28) (\<lambda>v6.
                if v4 @ v6 = [] then
                  Inl (IoError NotFound ''DNS response contained no address records'')
                else Inr (v4 @ v6)))))"

section \<open>DNS messages\<close>

text \<open>
  The format of RFC 1035, as far as an answer to an address query needs it.  A name is a list of labels,
  ended by the root or by a pointer into the message (compression).
\<close>

datatype name_end = Root | Pointer u8 u8

fun enc_end :: "name_end \<Rightarrow> bytes" where
  "enc_end Root = [0]"
| "enc_end (Pointer hi lo) = [hi OR 0xC0, lo]"

definition enc_label :: "bytes \<Rightarrow> bytes" where
  "enc_label l = of_nat (length l) # l"

record dns_record =
  rr_labels :: "bytes list"
  rr_end :: name_end
  rr_type :: u16
  rr_class :: u16
  rr_ttl :: u32
  rr_data :: bytes

definition enc_record :: "dns_record \<Rightarrow> bytes" where
  "enc_record r =
     concat (map enc_label (rr_labels r)) @ enc_end (rr_end r) @ u16_to_be_bytes (rr_type r)
     @ u16_to_be_bytes (rr_class r) @ u32_to_be_bytes (rr_ttl r) @ u16_to_be_bytes (of_nat (length (rr_data r)))
     @ rr_data r"

definition label_ok :: "bytes \<Rightarrow> bool" where
  "label_ok l \<longleftrightarrow> l \<noteq> [] \<and> length l \<le> 63"

definition record_ok :: "dns_record \<Rightarrow> bool" where
  "record_ok r \<longleftrightarrow> list_all label_ok (rr_labels r) \<and> length (rr_data r) < 65536"

text \<open>
  The answer of a server to a query: the identifier and the question of the query, the flags, the counts
  of the four sections, the answers, and whatever the other two sections hold.
\<close>

definition dns_reply :: "bytes \<Rightarrow> u16 \<Rightarrow> dns_record list \<Rightarrow> u16 \<Rightarrow> u16 \<Rightarrow> bytes \<Rightarrow> bytes" where
  "dns_reply query flags answers authority additional rest =
     take 2 query @ u16_to_be_bytes flags @ u16_to_be_bytes 1 @ u16_to_be_bytes (of_nat (length answers))
     @ u16_to_be_bytes authority @ u16_to_be_bytes additional @ drop 12 query
     @ concat (map enc_record answers) @ rest"

text \<open>The addresses of the records of class IN and of the type asked for, in order.\<close>

definition answer_addrs :: "u16 \<Rightarrow> dns_record list \<Rightarrow> dns_addr list" where
  "answer_addrs qtype answers =
     concat (map (\<lambda>r. if rr_class r = 1 \<and> rr_type r = qtype then record_addrs qtype (rr_data r) else []) answers)"

lemma pointer_byte: "(hi OR 0xC0) AND 0xC0 = (0xC0 :: u8)"
  by (rule bit_word_eqI) (auto simp: bit_and_iff bit_or_iff)

lemma label_byte:
  assumes "label_ok l"
  shows "of_nat (length l) AND 0xC0 \<noteq> (0xC0 :: u8)" "of_nat (length l) \<noteq> (0 :: u8)"
    "unat (of_nat (length l) :: u8) = length l"
proof -
  show u: "unat (of_nat (length l) :: u8) = length l"
    using assms by (simp add: label_ok_def)
  show "of_nat (length l) \<noteq> (0 :: u8)"
    using assms u by (metis label_ok_def length_0_conv unat_0)
  have "of_nat (length l) < (0xC0 :: u8)"
    using assms u by (simp add: word_less_nat_alt label_ok_def)
  moreover have "of_nat (length l) AND 0xC0 \<le> (of_nat (length l) :: u8)"
    by (rule word_and_le2)
  ultimately show "of_nat (length l) AND 0xC0 \<noteq> (0xC0 :: u8)"
    by (metis not_le)
qed

lemma skip_end:
  "packet = pre @ enc_end e @ post \<Longrightarrow>
     skip_dns_name packet (length pre) = Inr (length pre + length (enc_end e))"
  by (subst skip_dns_name.simps) (cases e; simp add: nth_append pointer_byte)

lemma skip_name:
  assumes "packet = pre @ concat (map enc_label ls) @ enc_end e @ post"
    and "list_all label_ok ls" and "length packet \<le> usize_max"
  shows "skip_dns_name packet (length pre)
    = Inr (length pre + length (concat (map enc_label ls) @ enc_end e))"
  using assms(1,2)
proof (induction ls arbitrary: pre)
  case Nil
  then show ?case using skip_end by simp
next
  case (Cons l ls)
  define pre' where "pre' = pre @ enc_label l"
  have ih: "skip_dns_name packet (length pre')
      = Inr (length pre' + length (concat (map enc_label ls) @ enc_end e))"
    by (rule Cons.IH) (use Cons.prems in \<open>simp_all add: pre'_def\<close>)
  have at: "packet ! length pre = of_nat (length l)" and len: "length pre' \<le> length packet"
    using Cons.prems(1) by (auto simp: enc_label_def nth_append pre'_def)
  have "length pre < length packet" using len by (simp add: pre'_def enc_label_def)
  moreover have "checked_add_usize (length pre) (1 + unat (packet ! length pre)) = Some (length pre')"
    using label_byte(3) Cons.prems(2) len assms(3) unfolding at
    by (simp add: checked_add_usize_def pre'_def enc_label_def)
  ultimately have "skip_dns_name packet (length pre) = skip_dns_name packet (length pre')"
    using label_byte(1,2) Cons.prems(2) len at
    by (subst skip_dns_name.simps) (simp add: Let_def)
  then show ?case using ih by (simp add: pre'_def)
qed

lemma u16_be_two: "u16_to_be_bytes v = [of_nat (unat v div 256 mod 256), of_nat (unat v mod 256)]"
  by (simp add: u16_to_be_bytes_def numeral_2_eq_2)

lemma u16_at_append: "u16_at (pre @ u16_to_be_bytes v @ post) (length pre) = v"
proof -
  obtain a b where ab: "u16_to_be_bytes v = [a, b]"
    by (simp add: u16_be_two)
  have "u16_from_be_bytes [a, b] = v" using u16_be_roundtrip [of v] by (simp add: ab)
  then show ?thesis by (simp add: u16_at_def ab nth_append)
qed

lemma u16_at_eq: "packet = pre @ u16_to_be_bytes v @ post \<Longrightarrow> i = length pre \<Longrightarrow> u16_at packet i = v"
  using u16_at_append by simp

lemma u16_at_take: "i + 1 < length (take n packet) \<Longrightarrow> u16_at (take n packet) i = u16_at packet i"
  by (simp add: u16_at_def)

lemma skip_take:
  "skip_dns_name (take n packet) off = Inr o1 \<Longrightarrow>
     skip_dns_name packet off = Inr o1 \<and> o1 \<le> length (take n packet)"
proof (induction "take n packet" off arbitrary: o1 rule: skip_dns_name.induct)
  case (1 off)
  let ?len = "packet ! off"
  have bound: "off < length (take n packet)"
    using "1.prems" by (subst (asm) skip_dns_name.simps) (auto split: if_splits)
  then have at: "take n packet ! off = ?len" and off: "off < length packet" by auto
  consider (ptr) "?len AND 0xC0 = 0xC0" | (root) "?len AND 0xC0 \<noteq> 0xC0" "?len = 0"
    | (label) "?len AND 0xC0 \<noteq> 0xC0" "?len \<noteq> 0" by blast
  then show ?case
  proof cases
    case ptr
    then show ?thesis
      using "1.prems" bound at off
      by (subst (asm) skip_dns_name.simps, subst skip_dns_name.simps) (auto split: if_splits)
  next
    case root
    then show ?thesis
      using "1.prems" bound at off
      by (subst (asm) skip_dns_name.simps, subst skip_dns_name.simps) (auto split: if_splits)
  next
    case label
    obtain o2 where o2: "checked_add_usize off (1 + unat ?len) = Some o2"
        "o2 \<le> length (take n packet)" "skip_dns_name (take n packet) o2 = Inr o1"
      using "1.prems" bound label unfolding skip_dns_name.simps [of _ off] at Let_def
      by (auto simp: not_less split: if_splits option.splits)
    have "skip_dns_name packet o2 = Inr o1 \<and> o1 \<le> length (take n packet)"
      by (rule "1.hyps" [OF _ HOL.refl _ _ _ _ o2(3)]) (use bound at label o2 in auto)
    then show ?thesis
      using bound off label o2 by (subst skip_dns_name.simps) (auto simp: Let_def)
  qed
qed

text \<open>One record: it is skipped and its address added; cut off anywhere, it is an error.\<close>

lemma read_record:
  assumes "packet = pre @ enc_record r @ post" and "record_ok r" and "length packet \<le> usize_max"
  shows "read_answers packet qtype (Suc n) (length pre) acc =
      read_answers packet qtype n (length (pre @ enc_record r)) (acc @ answer_addrs qtype [r])" (is ?all)
    and "read_answers (take k packet) qtype (Suc n) (length pre) acc = Inr out \<Longrightarrow>
      length (pre @ enc_record r) \<le> k
      \<and> (\<exists>acc'. read_answers (take k packet) qtype n (length (pre @ enc_record r)) acc' = Inr out)"
proof -
  define nm where "nm = concat (map enc_label (rr_labels r)) @ enc_end (rr_end r)"
  define o1 where "o1 = length (pre @ nm)"
  have pk: "packet = (pre @ nm) @ u16_to_be_bytes (rr_type r) @ u16_to_be_bytes (rr_class r)
      @ u32_to_be_bytes (rr_ttl r) @ u16_to_be_bytes (of_nat (length (rr_data r))) @ rr_data r @ post"
    using assms(1) by (simp add: enc_record_def nm_def)
  have skip: "skip_dns_name packet (length pre) = Inr o1"
    using skip_name [of packet pre "rr_labels r" "rr_end r"] assms pk
    by (simp add: nm_def o1_def record_ok_def)
  have ty: "u16_at packet o1 = rr_type r"
    by (rule u16_at_eq [OF pk]) (simp add: o1_def)
  have cl: "u16_at packet (o1 + 2) = rr_class r"
    by (rule u16_at_eq [of _ "(pre @ nm) @ u16_to_be_bytes (rr_type r)"]) (simp_all add: pk o1_def)
  have rl: "unat (u16_at packet (o1 + 8)) = length (rr_data r)"
  proof -
    have "u16_at packet (o1 + 8) = of_nat (length (rr_data r))"
      by (rule u16_at_eq [of _ "(pre @ nm) @ u16_to_be_bytes (rr_type r) @ u16_to_be_bytes (rr_class r)
            @ u32_to_be_bytes (rr_ttl r)"]) (simp_all add: pk o1_def)
    then show ?thesis using assms(2) by (simp add: record_ok_def unat_of_nat take_bit_eq_mod)
  qed
  have len: "length (pre @ enc_record r) = o1 + 10 + length (rr_data r)"
    by (simp add: enc_record_def o1_def nm_def)
  have le: "o1 + 10 + length (rr_data r) \<le> length packet" using assms(1) len by simp
  have data: "sub_slice (o1 + 10) (o1 + 10 + length (rr_data r)) packet = rr_data r"
    by (simp add: sub_slice_def pk o1_def)
  show ?all
    unfolding len using le cl by (simp add: skip Let_def ty rl data answer_addrs_def)
  assume run: "read_answers (take k packet) qtype (Suc n) (length pre) acc = Inr out"
  then obtain o2 where o2: "skip_dns_name (take k packet) (length pre) = Inr o2"
    by (auto simp: bind_result_Inr_iff)
  have "o2 = o1" using skip_take [OF o2] skip by simp
  then have run': "\<not> length (take k packet) < o1 + 10"
    using run o2 by (auto split: if_splits)
  then have "u16_at (take k packet) (o1 + 8) = u16_at packet (o1 + 8)"
    by (intro u16_at_take) linarith
  then show "length (pre @ enc_record r) \<le> k
      \<and> (\<exists>acc'. read_answers (take k packet) qtype n (length (pre @ enc_record r)) acc' = Inr out)"
    using run o2 \<open>o2 = o1\<close> rl unfolding len by (auto simp: Let_def split: if_splits)
qed

lemma read_records:
  assumes "packet = pre @ concat (map enc_record rs) @ post" and "list_all record_ok rs"
    and "length packet \<le> usize_max"
  shows "read_answers packet qtype (length rs) (length pre) acc = Inr (acc @ answer_addrs qtype rs)"
  using assms
proof (induction rs arbitrary: pre acc)
  case (Cons r rs)
  have "read_answers packet qtype (length rs) (length (pre @ enc_record r)) (acc @ answer_addrs qtype [r])
      = Inr ((acc @ answer_addrs qtype [r]) @ answer_addrs qtype rs)"
    by (rule Cons.IH) (use Cons.prems in simp_all)
  then show ?case
    using read_record(1) [of packet pre r "concat (map enc_record rs) @ post"] Cons.prems
    by (simp add: answer_addrs_def)
qed (simp add: answer_addrs_def)

lemma read_records_cut:
  assumes "packet = pre @ concat (map enc_record rs) @ post" and "list_all record_ok rs"
    and "length packet \<le> usize_max" and "length pre \<le> k"
    and "read_answers (take k packet) qtype (length rs) (length pre) acc = Inr out"
  shows "length (pre @ concat (map enc_record rs)) \<le> k"
  using assms
proof (induction rs arbitrary: pre acc)
  case (Cons r rs)
  have pk: "packet = pre @ enc_record r @ (concat (map enc_record rs) @ post)" and ok: "record_ok r"
    using Cons.prems(1,2) by simp_all
  obtain acc' where "length (pre @ enc_record r) \<le> k"
      "read_answers (take k packet) qtype (length rs) (length (pre @ enc_record r)) acc' = Inr out"
    using read_record(2) [OF pk ok Cons.prems(3)] Cons.prems(5) by fastforce
  then have "length ((pre @ enc_record r) @ concat (map enc_record rs)) \<le> k"
    by (rule Cons.IH [rotated 3]) (use Cons.prems in simp_all)
  then show ?case by simp
qed simp

lemma push_labels_Inr:
  "push_labels ls packet = Inr out \<longleftrightarrow>
     list_all label_ok (map as_bytes ls) \<and> out = packet @ concat (map enc_label (map as_bytes ls))"
  by (induction ls arbitrary: packet)
    (auto simp: label_ok_def enc_label_def as_bytes_def not_less)

definition enc_question :: "bytes list \<Rightarrow> u16 \<Rightarrow> bytes" where
  "enc_question ls qtype =
     concat (map enc_label ls) @ enc_end Root @ u16_to_be_bytes qtype @ u16_to_be_bytes 1"

lemma build_query_layout:
  assumes "build_dns_query qid host qtype = Inr query"
  obtains ls where "list_all label_ok ls" "take 2 query = u16_to_be_bytes qid"
    "drop 12 query = enc_question ls qtype"
proof -
  define ls where "ls = map as_bytes (split_char (CHR ''.'') (trim_end_matches (CHR ''.'') host))"
  have "list_all label_ok ls"
    and "query = u16_to_be_bytes qid @ u16_to_be_bytes 0x0100 @ u16_to_be_bytes 1 @ u16_to_be_bytes 0
      @ u16_to_be_bytes 0 @ u16_to_be_bytes 0 @ enc_question ls qtype"
    using assms
    by (auto simp: build_dns_query_def Let_def bind_result_Inr_iff push_labels_Inr ls_def enc_question_def)
  then show thesis by (intro that [of ls]) (simp_all add: drop_append)
qed

lemma skip_question:
  assumes "packet = pre @ enc_question ls qtype @ post" and "list_all label_ok ls"
    and "length packet \<le> usize_max"
  shows "skip_questions packet 1 (length pre) = Inr (length (pre @ enc_question ls qtype))"
    and "skip_questions (take k packet) 1 (length pre) = Inr off \<Longrightarrow>
      off = length (pre @ enc_question ls qtype) \<and> off \<le> k"
proof -
  define nm where "nm = concat (map enc_label ls) @ enc_end Root"
  have skip: "skip_dns_name packet (length pre) = Inr (length (pre @ nm))"
    using skip_name [of packet pre ls Root] assms by (simp add: nm_def enc_question_def)
  have len: "length (pre @ enc_question ls qtype) = length (pre @ nm) + 4"
    by (simp add: enc_question_def nm_def)
  have le: "length (pre @ nm) + 4 \<le> length packet" using assms(1) len by simp
  show "skip_questions packet 1 (length pre) = Inr (length (pre @ enc_question ls qtype))"
    unfolding len using le assms(3) skip by (simp add: checked_add_usize_def One_nat_def)
  assume cut: "skip_questions (take k packet) 1 (length pre) = Inr off"
  then obtain o2 where o2: "skip_dns_name (take k packet) (length pre) = Inr o2"
    by (auto simp: bind_result_Inr_iff)
  have "o2 = length (pre @ nm)" using skip_take [OF o2] skip by simp
  then show "off = length (pre @ enc_question ls qtype) \<and> off \<le> k"
    unfolding len using cut o2
    by (auto simp: checked_add_usize_def not_less split: if_splits option.splits)
qed

text \<open>
  Claim C29.  The DNS client reads back what servers answer.  For every query the agent can build and every
  reply in the standard format that echoes the identifier and the question, has no error code and holds
  any records (aliases and other types included, names compressed or not, further sections behind), the
  client returns exactly the addresses of the records of the type it asked for, in order.  A reply that is
  cut off before the end of its answers, as by a receive buffer that is too small, is an error, never a
  partial list.
\<close>
theorem dns_reply_understood:
  assumes "build_dns_query qid host qtype = Inr query"
    and "list_all record_ok answers" and "length answers < 65536" and "flags AND 0x000f = 0"
    and "length (dns_reply query flags answers authority additional rest) \<le> usize_max"
  shows "parse_dns_response (dns_reply query flags answers authority additional rest) qid qtype
      = Inr (answer_addrs qtype answers)
    \<and> (\<forall>k < length (dns_reply query flags answers authority additional []).
         isl (parse_dns_response (take k (dns_reply query flags answers authority additional rest)) qid qtype))"
proof -
  define p where "p = dns_reply query flags answers authority additional rest"
  have room: "length p \<le> usize_max" using assms(5) by (simp add: p_def)
  obtain ls where ls: "list_all label_ok ls" "take 2 query = u16_to_be_bytes qid"
      "drop 12 query = enc_question ls qtype"
    using build_query_layout [OF assms(1)] .
  define hd where "hd = u16_to_be_bytes qid @ u16_to_be_bytes flags @ u16_to_be_bytes 1
    @ u16_to_be_bytes (of_nat (length answers)) @ u16_to_be_bytes authority @ u16_to_be_bytes additional"
  have hd: "length hd = 12" by (simp add: hd_def)
  have p: "p = hd @ enc_question ls qtype @ concat (map enc_record answers) @ rest"
    by (simp add: p_def dns_reply_def ls hd_def)
  define pre where "pre = hd @ enc_question ls qtype"
  have p2: "p = pre @ concat (map enc_record answers) @ rest" by (simp add: p pre_def)
  have core: "length (dns_reply query flags answers authority additional [])
      = length (pre @ concat (map enc_record answers))"
    by (simp add: dns_reply_def ls hd_def pre_def)
  have u: "u16_at p 0 = qid" "u16_at p 2 = flags" "u16_at p 4 = 1"
      "u16_at p 6 = of_nat (length answers)"
    by (rule u16_at_eq [of _ "[]"], simp_all add: p hd_def)
      (rule u16_at_eq [of _ "u16_to_be_bytes qid"], simp_all,
       rule u16_at_eq [of _ "u16_to_be_bytes qid @ u16_to_be_bytes flags"], simp_all,
       rule u16_at_eq [of _ "u16_to_be_bytes qid @ u16_to_be_bytes flags @ u16_to_be_bytes 1"], simp_all)
  have cnt: "unat (of_nat (length answers) :: u16) = length answers"
    using assms(3) by (simp add: unat_of_nat take_bit_eq_mod)
  have "parse_dns_response p qid qtype = Inr (answer_addrs qtype answers)"
  proof -
    have "12 \<le> length p" by (simp add: p hd)
    moreover have "skip_questions p 1 12 = Inr (length pre)"
      using skip_question(1) [OF p ls(1) room] by (simp only: hd pre_def)
    ultimately show ?thesis
      using read_records [OF p2 assms(2) room, of qtype "[]"] assms(4)
      unfolding parse_dns_response_def u by (simp add: cnt)
  qed
  moreover have "isl (parse_dns_response (take k p) qid qtype)"
    if k: "k < length (pre @ concat (map enc_record answers))" for k
  proof (rule ccontr)
    assume "\<not> ?thesis"
    then obtain out where out: "parse_dns_response (take k p) qid qtype = Inr out"
      by (cases "parse_dns_response (take k p) qid qtype") auto
    then have 12: "12 \<le> length (take k p)"
      by (auto simp: parse_dns_response_def not_less split: if_splits)
    then have ut: "u16_at (take k p) 4 = 1" "u16_at (take k p) 6 = of_nat (length answers)"
      using u by (simp_all add: u16_at_take)
    obtain off where off: "skip_questions (take k p) 1 12 = Inr off"
        "read_answers (take k p) qtype (length answers) off [] = Inr out"
      using out 12 unfolding parse_dns_response_def ut
      by (auto simp: bind_result_Inr_iff cnt split: if_splits)
    have "off = length pre \<and> off \<le> k"
      using skip_question(2) [OF p ls(1) room, unfolded hd, OF off(1)] by (simp add: pre_def)
    then show False
      using read_records_cut [OF p2 assms(2) room] off(2) k by fastforce
  qed
  ultimately show ?thesis unfolding core p_def by blast
qed

theorem dns_reply_understood_witness:
  "build_dns_query 7 ''ab.c'' 1 =
     Inr [0, 7, 1, 0, 0, 1, 0, 0, 0, 0, 0, 0, 2, 97, 98, 1, 99, 0, 0, 1, 0, 1]
   \<and> parse_dns_response
       (dns_reply [0, 7, 1, 0, 0, 1, 0, 0, 0, 0, 0, 0, 2, 97, 98, 1, 99, 0, 0, 1, 0, 1] 0x8180
          [\<lparr>rr_labels = [], rr_end = Pointer 0 12, rr_type = 5, rr_class = 1, rr_ttl = 60, rr_data = [1, 120, 0]\<rparr>,
           \<lparr>rr_labels = [[120]], rr_end = Root, rr_type = 1, rr_class = 1, rr_ttl = 60, rr_data = [10, 0, 0, 1]\<rparr>]
          0 0 []) 7 1 = Inr [(V4 0x0A000001, 0)]"
proof -
  let ?q = "[0, 7, 1, 0, 0, 1, 0, 0, 0, 0, 0, 0, 2, 97, 98, 1, 99, 0, 0, 1, 0, 1] :: bytes"
  let ?rs = "[\<lparr>rr_labels = [], rr_end = Pointer 0 12, rr_type = 5, rr_class = 1, rr_ttl = 60, rr_data = [1, 120, 0]\<rparr>,
    \<lparr>rr_labels = [[120]], rr_end = Root, rr_type = 1, rr_class = 1, rr_ttl = 60, rr_data = [10, 0, 0, 1]\<rparr>]"
  have q: "build_dns_query 7 ''ab.c'' 1 = Inr ?q"
    by (simp add: build_dns_query_def Let_def trim_end_matches_def split_char_def u16_be_two)
  have "list_all record_ok ?rs" by (simp add: record_ok_def label_ok_def)
  moreover have "length ?rs < 65536" by simp
  moreover have "(0x8180 :: u16) AND 0x000f = 0" by code_simp
  moreover have "length (dns_reply ?q 0x8180 ?rs 0 0 []) \<le> usize_max"
    by (simp add: dns_reply_def enc_record_def enc_label_def usize_max_def)
  ultimately have "parse_dns_response (dns_reply ?q 0x8180 ?rs 0 0 []) 7 1 = Inr (answer_addrs 1 ?rs)"
    using dns_reply_understood [OF q, of ?rs "0x8180" 0 0 "[]"] by blast
  moreover have "answer_addrs 1 ?rs = [(V4 0x0A000001, 0)]"
    by (simp add: answer_addrs_def record_addrs_def u32_from_be_bytes_def be_val_def)
  ultimately show ?thesis using q by simp
qed

end
