(* ===== verification/RustText.thy ===== *)
theory RustText
  imports RustStr Complex_Main
begin

text \<open>
  Text the agent reads from files and programs: \<open>str::lines\<close>, \<open>split_whitespace\<close>, and decimal numbers with a
  fraction and an exponent, as \<open>f64::from_str\<close> takes them.  A finite \<open>f64\<close> has a sign and a magnitude that is a
  rational number.  The rounding of an exact magnitude to a representable one is a parameter; it is \<open>None\<close>
  where the magnitude is too large.
\<close>

section \<open>Lines and words\<close>

text \<open>\<open>str::lines\<close>: the lines end in \<open>\n\<close> or \<open>\r\n\<close>; the last may have no end, and is not there if empty.\<close>

definition strip_cr :: "string \<Rightarrow> string" where
  "strip_cr s = (if s \<noteq> [] \<and> last s = char_of (13 :: nat) then butlast s else s)"

definition str_lines :: "string \<Rightarrow> string list" where
  "str_lines s =
     (let parts = split_char (char_of (10 :: nat)) s; tl = last parts in
      map strip_cr (butlast parts) @ (if tl = [] then [] else [tl]))"

text \<open>\<open>split_whitespace\<close>: the pieces between white space that are not empty.\<close>

function split_ws_loop :: "string \<Rightarrow> string \<Rightarrow> string list" where
  "split_ws_loop acc [] = (if acc = [] then [] else [rev acc])"
| "split_ws_loop acc (c # cs) =
     (case ws_head (c # cs) of
        0 \<Rightarrow> split_ws_loop (c # acc) cs
      | Suc n \<Rightarrow> (if acc = [] then [] else [rev acc]) @ split_ws_loop [] (drop n cs))"
  by pat_completeness auto
termination
  by (relation "measure (\<lambda>(acc, cs). length cs)") auto

definition split_whitespace :: "string \<Rightarrow> string list" where
  "split_whitespace s = split_ws_loop [] s"

lemma strip_cr_id: "char_of (13 :: nat) \<notin> set l \<Longrightarrow> strip_cr l = l"
  by (metis last_in_set strip_cr_def)

lemma str_lines_table:
  "list_all (\<lambda>l. char_of (10 :: nat) \<notin> set l \<and> char_of (13 :: nat) \<notin> set l) ls \<Longrightarrow>
     str_lines (concat (map (\<lambda>l. l @ [char_of (10 :: nat)]) ls)) = ls"
proof -
  assume ok: "list_all (\<lambda>l. char_of (10 :: nat) \<notin> set l \<and> char_of (13 :: nat) \<notin> set l) ls"
  have "split_char (char_of (10 :: nat)) (concat (map (\<lambda>l. l @ [char_of (10 :: nat)]) ls)) = ls @ [[]]"
    using ok by (induction ls) (simp_all add: split_char_append, simp add: split_char_def)
  moreover have "map strip_cr ls = ls"
    using ok by (induction ls) (simp_all add: strip_cr_id)
  ultimately show ?thesis by (simp add: str_lines_def Let_def)
qed

lemma digit_char_val: "d < 10 \<Longrightarrow> of_char (digit_char d) = d + (48 :: nat)"
  by (simp add: digit_char_def)

lemma show_nat_digits: "c \<in> set (show_nat n) \<Longrightarrow> \<exists>d < 10. c = digit_char d"
proof (induction n rule: show_nat.induct)
  case (1 n)
  then show ?case
    by (subst (asm) (2) show_nat.simps) (auto intro: exI [of _ "n mod 10"] split: if_splits)
qed

lemma show_nat_visible: "list_all visible_ascii (show_nat n)"
  using show_nat_digits by (fastforce simp: list_all_iff visible_ascii_def digit_char_val)

lemma show_nat_nonempty [simp]: "show_nat n \<noteq> []"
  by (subst show_nat.simps) simp

lemma split_ws_word:
  "list_all visible_ascii w \<Longrightarrow> split_ws_loop acc (w @ s) = split_ws_loop (rev w @ acc) s"
  by (induction w arbitrary: acc) (simp_all add: ws_visible)

lemma split_ws_blank:
  "split_ws_loop acc (CHR '' '' # s) = (if acc = [] then [] else [rev acc]) @ split_ws_loop [] s"
  by (cases s; cases "tl s") (auto simp: ascii_ws_def)

lemma split_ws_join:
  "list_all (\<lambda>w. w \<noteq> [] \<and> list_all visible_ascii w) ws \<Longrightarrow>
     split_whitespace (CHR '' '' # join_str '' '' ws) = ws"
proof -
  have word: "split_ws_loop [] (w @ CHR '' '' # s) = w # split_ws_loop [] s" "split_ws_loop [] w = [w]"
    if "w \<noteq> [] \<and> list_all visible_ascii w" for w s
    using that split_ws_word [of w "[]" "CHR '' '' # s"] split_ws_word [of w "[]" "[]"]
    by (simp_all add: split_ws_blank del: split_ws_loop.simps(2))
  assume "list_all (\<lambda>w. w \<noteq> [] \<and> list_all visible_ascii w) ws"
  then have "split_ws_loop [] (join_str '' '' ws) = ws"
    by (induction "'' ''" ws rule: join_str.induct) (simp_all add: word)
  then show ?thesis
    by (simp add: split_whitespace_def split_ws_blank del: split_ws_loop.simps(2))
qed

section \<open>Floating point numbers\<close>

datatype f64_value = Finite bool rat | Infinite bool | NaN

text \<open>\<open>inf\<close>, \<open>infinity\<close> and \<open>nan\<close> in any case, or digits with an optional fraction and an optional exponent.\<close>

definition take_digits :: "string \<Rightarrow> string \<times> string" where
  "take_digits s = (takeWhile (\<lambda>c. digit_val c \<noteq> None) s, dropWhile (\<lambda>c. digit_val c \<noteq> None) s)"

definition digits_nat :: "string \<Rightarrow> nat" where
  "digits_nat s = fold (\<lambda>c n. n * 10 + (case digit_val c of Some d \<Rightarrow> d | None \<Rightarrow> 0)) s 0"

definition take_sign :: "string \<Rightarrow> bool \<times> string" where
  "take_sign s =
     (case s of
        [] \<Rightarrow> (False, [])
      | c # cs \<Rightarrow> if c = CHR ''-'' then (True, cs) else if c = CHR ''+'' then (False, cs) else (False, s))"

definition parse_exponent :: "string \<Rightarrow> int option" where
  "parse_exponent s =
     (case s of
        [] \<Rightarrow> Some 0
      | c # cs \<Rightarrow>
          if ascii_lower c \<noteq> CHR ''e'' then None
          else case take_sign cs of (neg, cs) \<Rightarrow> (case take_digits cs of (ds, rest) \<Rightarrow>
            if ds = [] \<or> rest \<noteq> [] then None else Some (if neg then - int (digits_nat ds) else int (digits_nat ds))))"

definition pow10 :: "int \<Rightarrow> rat" where
  "pow10 e = (if 0 \<le> e then 10 ^ nat e else 1 / 10 ^ nat (- e))"

definition parse_magnitude :: "string \<Rightarrow> rat option" where
  "parse_magnitude s =
     (case take_digits s of (whole, s) \<Rightarrow>
      (case (case s of
               [] \<Rightarrow> ([], [])
             | c # cs \<Rightarrow> if c = CHR ''.'' then take_digits cs else ([], s)) of (fraction, s) \<Rightarrow>
       if whole = [] \<and> fraction = [] then None
       else map_option (\<lambda>e. of_nat (digits_nat (whole @ fraction)) * pow10 (e - int (length fraction))) (parse_exponent s)))"

definition parse_f64_str :: "(rat \<Rightarrow> rat option) \<Rightarrow> string \<Rightarrow> f64_value option" where
  "parse_f64_str rnd s =
     (case take_sign s of (neg, s) \<Rightarrow>
      (let lower = to_ascii_lowercase s in
       if lower = ''inf'' \<or> lower = ''infinity'' then Some (Infinite neg)
       else if lower = ''nan'' then Some NaN
       else map_option (\<lambda>x. case rnd x of Some y \<Rightarrow> Finite neg y | None \<Rightarrow> Infinite neg) (parse_magnitude s)))"

fun f64_rat :: "f64_value \<Rightarrow> rat option" where
  "f64_rat (Finite neg x) = Some (if neg then - x else x)"
| "f64_rat (Infinite neg) = None"
| "f64_rat NaN = None"

end
