(* ===== verification/HostProbe.thy ===== *)
theory HostProbe
  imports RustText "HOL-Library.Product_Lexorder"
begin

text \<open>
  Parts of \<open>linux_proc.rs\<close>: the filter of network interfaces and the parser of \<open>/proc/net/dev\<close>, the parser
  of \<open>/proc/meminfo\<close> with the memory figures of the report, and the day the monthly traffic count starts.
  An \<open>i64\<close> is an integer; plain addition wraps around, as in a release build.
\<close>

section \<open>Signed integers\<close>

type_synonym i64 = int

definition i64_max :: int where
  "i64_max = 2 ^ 63 - 1"

definition wrap_i64 :: "int \<Rightarrow> i64" where
  "wrap_i64 x = (x + 2 ^ 63) mod 2 ^ 64 - 2 ^ 63"

definition saturate_i64 :: "int \<Rightarrow> i64" where
  "saturate_i64 x = max (- (2 ^ 63)) (min i64_max x)"

definition parse_u64 :: "string \<Rightarrow> nat option" where
  "parse_u64 s = parse_unsigned (2 ^ 64 - 1) s"

section \<open>Network interfaces\<close>

record NetworkTotals =
  total_up :: i64
  total_down :: i64

record NetworkInterfaceTotals =
  if_name :: string
  if_total_up :: i64
  if_total_down :: i64

record NetworkFilter =
  filter_include :: "string list"
  filter_exclude :: "string list"

definition parse_csv_list :: "string \<Rightarrow> string list" where
  "parse_csv_list v = (if v = [] then [] else map trim (split_char (CHR '','') v))"

definition from_csv :: "string \<Rightarrow> string \<Rightarrow> NetworkFilter" where
  "from_csv include exclude =
     \<lparr>filter_include = parse_csv_list include, filter_exclude = parse_csv_list exclude\<rparr>"

definition should_include_interface :: "string \<Rightarrow> bool" where
  "should_include_interface name \<longleftrightarrow>
     \<not> list_ex (starts_with name)
         [''br'', ''cni'', ''docker'', ''podman'', ''flannel'', ''lo'', ''veth'', ''virbr'', ''vmbr'']"

definition should_include :: "NetworkFilter \<Rightarrow> string \<Rightarrow> bool" where
  "should_include f name \<longleftrightarrow>
     (if \<not> should_include_interface name then False
      else if filter_include f \<noteq> [] then list_ex (\<lambda>item. item = name) (filter_include f)
      else \<not> list_ex (\<lambda>item. item = name) (filter_exclude f))"

definition network_totals_from_interfaces :: "NetworkInterfaceTotals list \<Rightarrow> NetworkTotals" where
  "network_totals_from_interfaces interfaces =
     foldl (\<lambda>t i. t\<lparr>total_down := wrap_i64 (total_down t + if_total_down i),
                    total_up := wrap_i64 (total_up t + if_total_up i)\<rparr>)
       \<lparr>total_up = 0, total_down = 0\<rparr> interfaces"

text \<open>The error text of the standard library's integer parser is a parameter.\<close>

definition parse_net_dev_bytes :: "(string \<Rightarrow> string) \<Rightarrow> string \<Rightarrow> string + i64" where
  "parse_net_dev_bytes int_error v =
     (case parse_u64 v of
        None \<Rightarrow> Inl (''invalid network IO counter: '' @ int_error v)
      | Some n \<Rightarrow> Inr (min (int n) i64_max))"

fun validate_counters :: "(string \<Rightarrow> string) \<Rightarrow> nat list \<Rightarrow> string list \<Rightarrow> string + unit" where
  "validate_counters int_error [] columns = Inr ()"
| "validate_counters int_error (i # is) columns =
     bind_result (parse_net_dev_bytes int_error (columns ! i)) (\<lambda>_. validate_counters int_error is columns)"

definition validate_go_net_dev_counters :: "(string \<Rightarrow> string) \<Rightarrow> string list \<Rightarrow> string + unit" where
  "validate_go_net_dev_counters int_error columns =
     validate_counters int_error [0, 1, 2, 3, 4, 8, 9, 10, 11, 12] columns"

fun net_dev_lines ::
  "(string \<Rightarrow> string) \<Rightarrow> NetworkFilter \<Rightarrow> NetworkInterfaceTotals list \<Rightarrow> string list
   \<Rightarrow> string + NetworkInterfaceTotals list" where
  "net_dev_lines int_error f interfaces [] = Inr interfaces"
| "net_dev_lines int_error f interfaces (line # lines) =
     (case rsplit_once (CHR '':'') line of
        None \<Rightarrow> net_dev_lines int_error f interfaces lines
      | Some (name, counters) \<Rightarrow>
          let name = trim name; columns = split_whitespace counters in
          if \<not> should_include f name then net_dev_lines int_error f interfaces lines
          else if length columns < 13 then net_dev_lines int_error f interfaces lines
          else
            bind_result (validate_go_net_dev_counters int_error columns) (\<lambda>_.
            bind_result (parse_net_dev_bytes int_error (columns ! 0)) (\<lambda>rx.
            bind_result (parse_net_dev_bytes int_error (columns ! 8)) (\<lambda>tx.
              net_dev_lines int_error f
                (interfaces @ [\<lparr>if_name = name, if_total_up = tx, if_total_down = rx\<rparr>]) lines))))"

definition parse_net_dev_interfaces_result ::
  "(string \<Rightarrow> string) \<Rightarrow> string \<Rightarrow> NetworkFilter \<Rightarrow> string + NetworkInterfaceTotals list" where
  "parse_net_dev_interfaces_result int_error contents f =
     net_dev_lines int_error f [] (str_lines contents)"

definition parse_net_dev_interfaces :: "string \<Rightarrow> NetworkFilter \<Rightarrow> NetworkInterfaceTotals list" where
  "parse_net_dev_interfaces contents f =
     (case parse_net_dev_interfaces_result (\<lambda>_. []) contents f of Inl _ \<Rightarrow> [] | Inr is \<Rightarrow> is)"

definition parse_net_dev_with_filter :: "string \<Rightarrow> NetworkFilter \<Rightarrow> NetworkTotals" where
  "parse_net_dev_with_filter contents f =
     network_totals_from_interfaces (parse_net_dev_interfaces contents f)"

section \<open>The start of the traffic month\<close>

definition is_leap_year :: "int \<Rightarrow> bool" where
  "is_leap_year year \<longleftrightarrow> (year mod 4 = 0 \<and> year mod 100 \<noteq> 0) \<or> year mod 400 = 0"

definition days_in_month :: "int \<Rightarrow> nat \<Rightarrow> nat" where
  "days_in_month year month =
     (if month \<in> {1, 3, 5, 7, 8, 10, 12} then 31
      else if month \<in> {4, 6, 9, 11} then 30
      else if month = 2 then (if is_leap_year year then 29 else 28)
      else 31)"

definition actual_reset_date :: "int \<Rightarrow> nat \<Rightarrow> nat \<Rightarrow> int \<times> nat \<times> nat" where
  "actual_reset_date year month reset_day =
     (if reset_day \<le> days_in_month year month then (year, month, reset_day)
      else if month = 12 then (year + 1, 1, 1)
      else (year, month + 1, 1))"

definition reset_date_ymd :: "nat \<Rightarrow> int \<Rightarrow> nat \<Rightarrow> nat \<Rightarrow> int \<times> nat \<times> nat" where
  "reset_date_ymd reset_day year month day =
     (if \<not> (1 \<le> reset_day \<and> reset_day \<le> 31) then (year, month, day)
      else
        let current_reset = actual_reset_date year month reset_day in
        if current_reset \<le> (year, month, day) then current_reset
        else
          let (previous_year, previous_month) = (if month = 1 then (year - 1, 12) else (year, month - 1)) in
          actual_reset_date previous_year previous_month reset_day)"

section \<open>Memory\<close>

record ProcMemInfo =
  mem_total :: i64
  mem_free :: i64
  mem_available :: i64
  mem_buffers :: i64
  mem_cached :: i64
  swap_total :: i64
  swap_free :: i64
  swap_cached :: i64
  mem_shmem :: i64
  s_reclaimable :: i64
  mem_zswap :: i64
  mem_zswapped :: i64

record MemoryValues =
  mv_total :: i64
  mv_used :: i64

record MemorySelection =
  sel_ram :: "MemoryValues option"
  sel_swap :: MemoryValues

definition no_mem_info :: ProcMemInfo where
  "no_mem_info =
     \<lparr>mem_total = 0, mem_free = 0, mem_available = 0, mem_buffers = 0, mem_cached = 0, swap_total = 0,
      swap_free = 0, swap_cached = 0, mem_shmem = 0, s_reclaimable = 0, mem_zswap = 0, mem_zswapped = 0\<rparr>"

definition parse_meminfo_kib_value :: "string \<Rightarrow> i64 option" where
  "parse_meminfo_kib_value v =
     (case parse_u64 v of None \<Rightarrow> None | Some n \<Rightarrow> if int n \<le> i64_max then Some (int n) else None)"

definition set_mem_field :: "string \<Rightarrow> i64 \<Rightarrow> ProcMemInfo \<Rightarrow> ProcMemInfo" where
  "set_mem_field key v info =
     (if key = ''MemTotal'' then info\<lparr>mem_total := v\<rparr>
      else if key = ''MemFree'' then info\<lparr>mem_free := v\<rparr>
      else if key = ''MemAvailable'' then info\<lparr>mem_available := v\<rparr>
      else if key = ''Buffers'' then info\<lparr>mem_buffers := v\<rparr>
      else if key = ''Cached'' then info\<lparr>mem_cached := v\<rparr>
      else if key = ''SwapTotal'' then info\<lparr>swap_total := v\<rparr>
      else if key = ''SwapFree'' then info\<lparr>swap_free := v\<rparr>
      else if key = ''SwapCached'' then info\<lparr>swap_cached := v\<rparr>
      else if key = ''Shmem'' then info\<lparr>mem_shmem := v\<rparr>
      else if key = ''SReclaimable'' then info\<lparr>s_reclaimable := v\<rparr>
      else if key = ''Zswap'' then info\<lparr>mem_zswap := v\<rparr>
      else if key = ''Zswapped'' then info\<lparr>mem_zswapped := v\<rparr>
      else info)"

definition meminfo_line :: "string \<Rightarrow> ProcMemInfo \<Rightarrow> ProcMemInfo" where
  "meminfo_line line info =
     (case split_whitespace line of
        key # v # _ \<Rightarrow>
          (case parse_meminfo_kib_value v of
             None \<Rightarrow> info
           | Some n \<Rightarrow> set_mem_field (trim_end_matches (CHR '':'') key) (saturate_i64 (n * 1024)) info)
      | _ \<Rightarrow> info)"

definition parse_meminfo :: "string \<Rightarrow> ProcMemInfo" where
  "parse_meminfo contents = fold meminfo_line (str_lines contents) no_mem_info"

definition go_compatible_ram_base_used :: "ProcMemInfo \<Rightarrow> i64" where
  "go_compatible_ram_base_used info =
     (let free_like = wrap_i64 (mem_free info + mem_cached info + s_reclaimable info + mem_buffers info) in
      if free_like \<le> mem_total info then wrap_i64 (mem_total info - free_like)
      else saturate_i64 (mem_total info - mem_free info))"

definition go_compatible_ram :: "ProcMemInfo \<Rightarrow> MemoryValues" where
  "go_compatible_ram info =
     \<lparr>mv_total = mem_total info,
      mv_used = max (saturate_i64 (go_compatible_ram_base_used info + mem_shmem info)) 0\<rparr>"

definition go_compatible_ram_raw_used :: "ProcMemInfo \<Rightarrow> MemoryValues" where
  "go_compatible_ram_raw_used info =
     (if mem_total info \<le> 0 then \<lparr>mv_total = 0, mv_used = 0\<rparr> else go_compatible_ram info)"

definition go_compatible_ram_include_cache :: "ProcMemInfo \<Rightarrow> MemoryValues" where
  "go_compatible_ram_include_cache info =
     \<lparr>mv_total = mem_total info, mv_used = max (saturate_i64 (mem_total info - mem_free info)) 0\<rparr>"

definition go_compatible_swap :: "ProcMemInfo \<Rightarrow> MemoryValues" where
  "go_compatible_swap info =
     (let deductions = wrap_i64 (swap_free info + swap_cached info);
          used = (if deductions \<le> swap_total info then wrap_i64 (swap_total info - deductions)
                  else saturate_i64 (swap_total info - swap_free info)) in
      \<lparr>mv_total = swap_total info, mv_used = max used 0\<rparr>)"

definition memory_selection_from_meminfo_with_modes ::
  "ProcMemInfo \<Rightarrow> bool \<Rightarrow> bool \<Rightarrow> MemorySelection" where
  "memory_selection_from_meminfo_with_modes info include_cache report_raw_used =
     \<lparr>sel_ram =
        (if include_cache then Some (go_compatible_ram_include_cache info)
         else if report_raw_used then Some (go_compatible_ram_raw_used info)
         else if mem_total info \<le> 0 then None
         else Some (go_compatible_ram info)),
      sel_swap = go_compatible_swap info\<rparr>"

definition memory_values_from_meminfo_with_modes ::
  "ProcMemInfo \<Rightarrow> bool \<Rightarrow> bool \<Rightarrow> (MemoryValues \<times> MemoryValues) option" where
  "memory_values_from_meminfo_with_modes info include_cache report_raw_used =
     (let selection = memory_selection_from_meminfo_with_modes info include_cache report_raw_used in
      map_option (\<lambda>ram. (ram, sel_swap selection)) (sel_ram selection))"

section \<open>Reset dates\<close>

definition valid_date :: "int \<times> nat \<times> nat \<Rightarrow> bool" where
  "valid_date d = (case d of (y, m, k) \<Rightarrow> 1 \<le> m \<and> m \<le> 12 \<and> 1 \<le> k \<and> k \<le> days_in_month y m)"

definition next_month :: "int \<Rightarrow> nat \<Rightarrow> int \<times> nat \<times> nat" where
  "next_month y m = (if m = 12 then (y + 1, 1, 1) else (y, m + 1, 1))"

lemma days_in_month_bounds: "28 \<le> days_in_month y m" "days_in_month y m \<le> 31"
  by (simp_all add: days_in_month_def)

lemma actual_reset_from: "1 \<le> r \<Longrightarrow> (y, m, 1) \<le> actual_reset_date y m r"
  by (auto simp: actual_reset_date_def)

lemma actual_reset_upto: "actual_reset_date y m r \<le> next_month y m"
  by (auto simp: actual_reset_date_def next_month_def)

lemma next_month_before:
  "m' \<le> 12 \<Longrightarrow> 1 \<le> m \<Longrightarrow> m \<le> 12 \<Longrightarrow> (y', m') < (y, m) \<Longrightarrow> next_month y' m' \<le> (y, m, 1)"
  by (auto simp: next_month_def)

lemma valid_reset: "1 \<le> m \<Longrightarrow> m \<le> 12 \<Longrightarrow> 1 \<le> r \<Longrightarrow> valid_date (actual_reset_date y m r)"
  by (auto simp: valid_date_def actual_reset_date_def days_in_month_def)

lemma actual_reset_mono:
  assumes "(y', m') \<le> (y, m)" and "m' \<le> 12" and "1 \<le> m" and "m \<le> 12" and "1 \<le> r"
  shows "actual_reset_date y' m' r \<le> actual_reset_date y m r"
proof (cases "(y', m') = (y, m)")
  case False
  then have "(y', m') < (y, m)" using assms(1) by auto
  then show ?thesis
    using next_month_before [OF assms(2-4)] actual_reset_upto [of y' m' r] actual_reset_from [OF assms(5), of y m]
    by (meson order_trans)
qed simp

lemma actual_reset_later:
  assumes "(y, m) < (y', m')" and "1 \<le> r"
  shows "(y, m, d) < actual_reset_date y' m' r"
  by (rule less_le_trans [OF _ actual_reset_from [OF assms(2)]]) (use assms(1) in auto)

text \<open>
  The traffic month starts on the right day.  For a reset day from 1 to 31 and a valid current
  date, the start the agent computes is the latest of all monthly reset dates that is not after today.  The
  reset date of a month is the reset day, or the first day of the next month if the month is too short.  The
  start is a valid date.
\<close>
theorem reset_date_latest:
  assumes "1 \<le> r" and "r \<le> 31" and "valid_date (y, m, d)"
  shows "valid_date (reset_date_ymd r y m d)
    \<and> reset_date_ymd r y m d \<le> (y, m, d)
    \<and> reset_date_ymd r y m d \<in> {actual_reset_date y' m' r | y' m'. 1 \<le> m' \<and> m' \<le> 12}
    \<and> (\<forall>y' m'. 1 \<le> m' \<and> m' \<le> 12 \<and> actual_reset_date y' m' r \<le> (y, m, d)
          \<longrightarrow> actual_reset_date y' m' r \<le> reset_date_ymd r y m d)"
proof -
  have md: "1 \<le> m" "m \<le> 12" "1 \<le> d" using assms(3) by (auto simp: valid_date_def)
  define p where "p = (if m = 1 then (y - 1, 12) else (y, m - 1))"
  obtain py pm where pp: "p = (py, pm)" by fastforce
  have pm: "1 \<le> pm" "pm \<le> 12" "(py, pm) < (y, m)" using md pp by (auto simp: p_def split: if_splits)
  have pred: "(y', m') \<le> (py, pm)" if "(y', m') < (y, m)" "1 \<le> m'" "m' \<le> 12" for y' m'
    using that md pp by (auto simp: p_def split: if_splits)
  have reset: "reset_date_ymd r y m d =
      (if actual_reset_date y m r \<le> (y, m, d) then actual_reset_date y m r else actual_reset_date py pm r)"
    using assms(1,2) pp by (simp add: reset_date_ymd_def Let_def p_def split: if_splits)
  have before: "actual_reset_date py pm r \<le> (y, m, d)"
    using actual_reset_upto [of py pm r] next_month_before [OF pm(2) md(1,2) pm(3)] md(3)
    by (meson order_trans less_eq_prod_simp order_refl)
  have upto: "(y', m') \<le> (y, m)" if "actual_reset_date y' m' r \<le> (y, m, d)" for y' m'
    using actual_reset_later [OF _ assms(1), of y m y' m' d] that by (meson not_le)
  have latest: "actual_reset_date y' m' r \<le> reset_date_ymd r y m d"
    if "1 \<le> m'" "m' \<le> 12" "actual_reset_date y' m' r \<le> (y, m, d)" for y' m'
  proof (cases "actual_reset_date y m r \<le> (y, m, d)")
    case True
    then show ?thesis
      using actual_reset_mono [OF upto [OF that(3)] that(2) md(1,2) assms(1)] by (simp add: reset)
  next
    case False
    then have "(y', m') \<noteq> (y, m)" using that(3) by auto
    then have "(y', m') < (y, m)" using upto [OF that(3)] by auto
    then show ?thesis
      using actual_reset_mono [OF pred [OF _ that(1,2)] that(2) pm(1,2) assms(1)] False by (simp add: reset)
  qed
  have "valid_date (reset_date_ymd r y m d)"
    using valid_reset [OF md(1,2) assms(1)] valid_reset [OF pm(1,2) assms(1)] by (simp add: reset)
  moreover have "reset_date_ymd r y m d \<le> (y, m, d)"
    using before unfolding reset by (simp del: less_eq_prod_simp split: if_splits)
  moreover have "reset_date_ymd r y m d \<in> {actual_reset_date y' m' r | y' m'. 1 \<le> m' \<and> m' \<le> 12}"
    unfolding reset using md pm by auto
  ultimately show ?thesis using latest by blast
qed

theorem reset_date_latest_witness:
  "valid_date (2024, 3, 1) \<and> reset_date_ymd 30 2024 3 1 \<le> (2024, 3, 1) \<and> reset_date_ymd 30 2024 3 1 = (2024, 3, 1)
   \<and> valid_date (reset_date_ymd 30 2024 3 1)"
  using reset_date_latest [of 30 2024 3 1]
  by (simp add: valid_date_def days_in_month_def reset_date_ymd_def actual_reset_date_def is_leap_year_def)

section \<open>The network counters\<close>

text \<open>
  A table as the kernel prints it: two heading lines without a colon, then a line for each interface with
  its name, a colon and its counters, which are separated by blanks.
\<close>

record net_dev_row =
  row_name :: string
  row_counters :: "nat list"

definition net_dev_row_line :: "net_dev_row \<Rightarrow> string" where
  "net_dev_row_line r = ''  '' @ row_name r @ '': '' @ join_str '' '' (map show_nat (row_counters r))"

definition net_dev_table :: "string list \<Rightarrow> net_dev_row list \<Rightarrow> string" where
  "net_dev_table headings rows =
     concat (map (\<lambda>l. l @ [char_of (10 :: nat)]) (headings @ map net_dev_row_line rows))"

definition row_ok :: "net_dev_row \<Rightarrow> bool" where
  "row_ok r \<longleftrightarrow> list_all visible_ascii (row_name r) \<and> 13 \<le> length (row_counters r)
     \<and> list_all (\<lambda>n. n < 2 ^ 64) (row_counters r)"

definition row_totals :: "net_dev_row \<Rightarrow> NetworkInterfaceTotals" where
  "row_totals r =
     \<lparr>if_name = row_name r, if_total_up = min (int (row_counters r ! 8)) i64_max,
      if_total_down = min (int (row_counters r ! 0)) i64_max\<rparr>"

lemma digit_val_char: "d < 10 \<Longrightarrow> digit_val (digit_char d) = Some d"
  by (simp add: digit_val_def digit_char_val Let_def)

lemma parse_digits_show: "n \<le> b \<Longrightarrow> parse_digits b 0 (show_nat n @ s) = parse_digits b n s"
proof (induction n arbitrary: s rule: show_nat.induct)
  case (1 n)
  show ?case
  proof (cases "n < 10")
    case True
    then show ?thesis using 1 by (subst show_nat.simps) (simp add: digit_val_char)
  next
    case False
    then have "parse_digits b 0 (show_nat (n div 10) @ digit_char (n mod 10) # s) =
        parse_digits b (n div 10) (digit_char (n mod 10) # s)"
      using 1 by simp
    then show ?thesis
      using False 1 by (subst show_nat.simps) (simp add: digit_val_char)
  qed
qed

lemma parse_u64_show: "n < 2 ^ 64 \<Longrightarrow> parse_u64 (show_nat n) = Some n"
proof -
  assume n: "n < 2 ^ 64"
  obtain c cs where s: "show_nat n = c # cs" by (cases "show_nat n") auto
  have "c \<noteq> CHR ''+''"
  proof
    assume "c = CHR ''+''"
    moreover have "parse_digits n 0 (show_nat n) = Some n"
      using parse_digits_show [of n n "[]"] by simp
    ultimately show False by (simp add: s digit_val_def)
  qed
  then show ?thesis
    using parse_digits_show [of n "2 ^ 64 - 1" "[]"] n s by (simp add: parse_u64_def parse_unsigned_def)
qed

lemma rsplit_once_append: "c \<notin> set b \<Longrightarrow> rsplit_once c (a @ c # b) = Some (a, b)"
  using split_once_append [of c "rev b" "rev a"] by (simp add: rsplit_once_def)

lemma rsplit_once_none: "c \<notin> set s \<Longrightarrow> rsplit_once c s = None"
  using split_once_None [of c "rev s"] by (simp add: rsplit_once_def)

lemma trim_blank: "trim (CHR '' '' # s) = trim s"
  by (cases s; cases "tl s") (simp_all add: trim_def ascii_ws_def)

lemma join_str_set: "set (join_str sep ws) \<subseteq> set sep \<union> \<Union> (set ` set ws)"
  by (induction sep ws rule: join_str.induct) auto

lemma visible_no_colon: "CHR '':'' \<notin> set (join_str '' '' (map show_nat ns))"
proof
  assume "CHR '':'' \<in> set (join_str '' '' (map show_nat ns))"
  then obtain n where "CHR '':'' \<in> set (show_nat n)"
    using join_str_set [of "'' ''" "map show_nat ns"] by auto
  then have "digit_val (CHR '':'') \<noteq> None"
    using show_nat_digits digit_val_char by fastforce
  then show False by (simp add: digit_val_def)
qed

lemma parse_bytes_show: "n < 2 ^ 64 \<Longrightarrow> parse_net_dev_bytes e (show_nat n) = Inr (min (int n) i64_max)"
  by (simp add: parse_net_dev_bytes_def parse_u64_show)

lemma validate_show:
  "(\<And>i. i < length ns \<Longrightarrow> ns ! i < 2 ^ 64) \<Longrightarrow> list_all (\<lambda>i. i < length ns) is \<Longrightarrow>
     validate_counters e is (map show_nat ns) = Inr ()"
  by (induction "is") (simp_all add: parse_bytes_show)

lemma net_dev_row:
  assumes "row_ok r"
  shows "net_dev_lines e f acc (net_dev_row_line r # ls) =
    net_dev_lines e f (acc @ (if should_include f (row_name r) then [row_totals r] else [])) ls"
proof -
  let ?fs = "map show_nat (row_counters r)"
  have "rsplit_once (CHR '':'') (net_dev_row_line r)
      = Some (''  '' @ row_name r, CHR '' '' # join_str '' '' ?fs)"
    using rsplit_once_append [of "CHR '':''" "CHR '' '' # join_str '' '' ?fs" "''  '' @ row_name r"]
      visible_no_colon [of "row_counters r"]
    by (simp add: net_dev_row_line_def)
  moreover have "trim (''  '' @ row_name r) = row_name r"
    using trim_visible [of "row_name r"] assms by (simp add: trim_blank row_ok_def)
  moreover have "split_whitespace (CHR '' '' # join_str '' '' ?fs) = ?fs"
    by (rule split_ws_join) (simp add: list_all_iff show_nat_visible [unfolded list_all_iff])
  moreover have "validate_go_net_dev_counters e ?fs = Inr ()"
    using assms unfolding validate_go_net_dev_counters_def row_ok_def
    by (intro validate_show) (simp add: list_all_length, auto)
  moreover have "parse_net_dev_bytes e (?fs ! i) = Inr (min (int (row_counters r ! i)) i64_max)"
    if "i < 13" for i
    using that assms by (simp add: row_ok_def list_all_length parse_bytes_show)
  moreover have "row_counters r \<noteq> []" using assms by (auto simp: row_ok_def)
  ultimately show ?thesis
    using assms by (simp add: row_totals_def row_ok_def Let_def)
qed

lemma net_dev_rows:
  "list_all row_ok rows \<Longrightarrow> net_dev_lines e f acc (map net_dev_row_line rows) =
     Inr (acc @ map row_totals (filter (\<lambda>r. should_include f (row_name r)) rows))"
  by (induction rows arbitrary: acc) (simp_all add: net_dev_row del: net_dev_lines.simps(2))

lemma net_dev_headings:
  "list_all (\<lambda>h. CHR '':'' \<notin> set h) hs \<Longrightarrow>
     net_dev_lines e f acc (hs @ ls) = net_dev_lines e f acc ls"
  by (induction hs) (simp_all add: rsplit_once_none)

lemma row_line_chars: "row_ok r \<Longrightarrow> c \<in> set (net_dev_row_line r) \<Longrightarrow> 32 \<le> (of_char c :: nat)"
proof -
  assume ok: "row_ok r" and c: "c \<in> set (net_dev_row_line r)"
  have "visible_ascii c \<or> c = CHR '' ''"
  proof -
    have "c \<in> set (row_name r) \<or> c \<in> {CHR '' '', CHR '':''}
        \<or> (\<exists>n. c \<in> set (show_nat n))"
      using c join_str_set [of "'' ''" "map show_nat (row_counters r)"]
      by (auto simp: net_dev_row_line_def)
    then show ?thesis
      using ok show_nat_visible by (auto simp: row_ok_def list_all_iff visible_ascii_def)
  qed
  then show ?thesis by (auto simp: visible_ascii_def)
qed

lemma wrap_i64_id: "- (2 ^ 63) \<le> x \<Longrightarrow> x < 2 ^ 63 \<Longrightarrow> wrap_i64 x = x"
  by (simp add: wrap_i64_def)

lemma wrap_i64_add: "wrap_i64 (wrap_i64 x + y) = wrap_i64 (x + y)"
  by (simp add: wrap_i64_def mod_simps algebra_simps)

lemma network_totals_sum:
  "network_totals_from_interfaces is =
     \<lparr>total_up = wrap_i64 (sum_list (map if_total_up is)), total_down = wrap_i64 (sum_list (map if_total_down is))\<rparr>"
proof (induction "is" rule: rev_induct)
  case (snoc i "is")
  then show ?case
    by (simp add: network_totals_from_interfaces_def wrap_i64_add)
qed (simp add: network_totals_from_interfaces_def wrap_i64_def)

text \<open>
  The agent reads the kernel's table of network counters right.  For every table with heading
  lines and one line for each interface, whatever the interfaces and the filter, the result lists exactly
  the interfaces the filter admits, in order, with the bytes sent and received (limited to the range of
  \<open>i64\<close>), and the totals are their sums as long as these fit.
\<close>
theorem net_dev_counted:
  assumes "list_all (\<lambda>h. set h \<inter> {CHR '':'', char_of (10 :: nat), char_of (13 :: nat)} = {}) headings"
    and "list_all row_ok rows"
    and "shown = filter (\<lambda>r. should_include f (row_name r)) rows"
  shows "parse_net_dev_interfaces_result e (net_dev_table headings rows) f = Inr (map row_totals shown)
    \<and> (sum_list (map (\<lambda>r. row_counters r ! 8) shown) < 2 ^ 63
        \<and> sum_list (map (\<lambda>r. row_counters r ! 0) shown) < 2 ^ 63 \<longrightarrow>
       parse_net_dev_with_filter (net_dev_table headings rows) f =
         \<lparr>total_up = int (sum_list (map (\<lambda>r. row_counters r ! 8) shown)),
          total_down = int (sum_list (map (\<lambda>r. row_counters r ! 0) shown))\<rparr>)"
proof -
  have "list_all (\<lambda>l. char_of (10 :: nat) \<notin> set l \<and> char_of (13 :: nat) \<notin> set l)
      (headings @ map net_dev_row_line rows)"
    using assms(1,2) row_line_chars by (fastforce simp: list_all_iff)
  then have ls: "str_lines (net_dev_table headings rows) = headings @ map net_dev_row_line rows"
    unfolding net_dev_table_def by (rule str_lines_table)
  have "list_all (\<lambda>h. CHR '':'' \<notin> set h) headings"
    using assms(1) by (auto simp: list_all_iff)
  then have res: "parse_net_dev_interfaces_result e (net_dev_table headings rows) f = Inr (map row_totals shown)" for e
    by (simp add: parse_net_dev_interfaces_result_def ls net_dev_headings net_dev_rows assms(2,3))
  have sums: "sum_list (map (\<lambda>r. min (int (row_counters r ! i)) i64_max) shown)
      = int (sum_list (map (\<lambda>r. row_counters r ! i) shown))"
    if "sum_list (map (\<lambda>r. row_counters r ! i) shown) < 2 ^ 63" for i
    using that by (induction shown) (simp_all add: i64_max_def)
  show ?thesis
    using res sums [of 8] sums [of 0]
    by (auto simp: parse_net_dev_with_filter_def parse_net_dev_interfaces_def network_totals_sum comp_def
        row_totals_def wrap_i64_id)
qed

theorem net_dev_counted_witness:
  "parse_net_dev_with_filter
     (net_dev_table [''Inter-|   Receive'', '' face |bytes'']
        [\<lparr>row_name = ''lo'', row_counters = replicate 16 9\<rparr>,
         \<lparr>row_name = ''eth0'', row_counters = [7, 1, 0, 0, 0, 0, 0, 0, 5, 1, 0, 0, 0, 0, 0, 0]\<rparr>])
     \<lparr>filter_include = [], filter_exclude = []\<rparr> = \<lparr>total_up = 5, total_down = 7\<rparr>"
proof -
  let ?lo = "\<lparr>row_name = ''lo'', row_counters = replicate 16 9\<rparr>"
  let ?eth = "\<lparr>row_name = ''eth0'', row_counters = [7, 1, 0, 0, 0, 0, 0, 0, 5, 1, 0, 0, 0, 0, 0, 0]\<rparr>"
  let ?f = "\<lparr>filter_include = [], filter_exclude = []\<rparr>"
  have "list_all (\<lambda>h. set h \<inter> {CHR '':'', char_of (10 :: nat), char_of (13 :: nat)} = {})
      [''Inter-|   Receive'', '' face |bytes'']"
    by code_simp
  moreover have "list_all row_ok [?lo, ?eth]"
    by (simp add: row_ok_def visible_ascii_def list_all_iff)
  moreover have "[?eth] = filter (\<lambda>r. should_include ?f (row_name r)) [?lo, ?eth]"
    by (simp add: should_include_def should_include_interface_def starts_with_def)
  ultimately show ?thesis
    using net_dev_counted [of "[''Inter-|   Receive'', '' face |bytes'']" "[?lo, ?eth]" "[?eth]" ?f "\<lambda>_. []"]
    by simp
qed

section \<open>Ranges\<close>

definition i64_ok :: "int \<Rightarrow> bool" where
  "i64_ok x \<longleftrightarrow> - (2 ^ 63) \<le> x \<and> x \<le> i64_max"

definition size_ok :: "int \<Rightarrow> bool" where
  "size_ok x \<longleftrightarrow> 0 \<le> x \<and> x \<le> i64_max"

definition mem_info_ok :: "ProcMemInfo \<Rightarrow> bool" where
  "mem_info_ok i \<longleftrightarrow>
     list_all size_ok [mem_total i, mem_free i, mem_available i, mem_buffers i, mem_cached i, swap_total i,
       swap_free i, swap_cached i, mem_shmem i, s_reclaimable i, mem_zswap i, mem_zswapped i]"

definition memory_values_ok :: "MemoryValues \<Rightarrow> bool" where
  "memory_values_ok v \<longleftrightarrow> size_ok (mv_total v) \<and> size_ok (mv_used v)"

lemma wrap_i64_ok: "i64_ok (wrap_i64 x)"
  by (simp add: i64_ok_def wrap_i64_def i64_max_def)

lemma saturate_i64_ok: "i64_ok (saturate_i64 x)"
  by (simp add: i64_ok_def saturate_i64_def i64_max_def)

lemma size_ok_max: "i64_ok x \<Longrightarrow> size_ok (max x 0)"
  by (simp add: i64_ok_def size_ok_def i64_max_def)

lemma set_mem_field_ok: "mem_info_ok i \<Longrightarrow> size_ok v \<Longrightarrow> mem_info_ok (set_mem_field key v i)"
  by (simp add: set_mem_field_def mem_info_ok_def)

lemma meminfo_line_ok: "mem_info_ok i \<Longrightarrow> mem_info_ok (meminfo_line line i)"
  by (auto simp: meminfo_line_def parse_meminfo_kib_value_def saturate_i64_def size_ok_def i64_max_def
      intro!: set_mem_field_ok split: list.splits option.splits if_splits)

lemma parse_meminfo_ok: "mem_info_ok (parse_meminfo contents)"
proof -
  have "mem_info_ok (fold meminfo_line ls i)" if "mem_info_ok i" for ls i
    using that by (induction ls arbitrary: i) (simp_all add: meminfo_line_ok)
  then show ?thesis
    by (simp add: parse_meminfo_def no_mem_info_def mem_info_ok_def size_ok_def i64_max_def)
qed

lemma ram_ok: "mem_info_ok i \<Longrightarrow> memory_values_ok (go_compatible_ram i)"
  by (simp add: memory_values_ok_def go_compatible_ram_def mem_info_ok_def size_ok_max saturate_i64_ok)

lemma swap_ok: "mem_info_ok i \<Longrightarrow> memory_values_ok (go_compatible_swap i)"
  by (simp add: memory_values_ok_def go_compatible_swap_def mem_info_ok_def Let_def size_ok_max
      saturate_i64_ok wrap_i64_ok)

text \<open>
  The figures are of their type on every input.  Whatever \<open>/proc/meminfo\<close> holds, each field read
  from it and each figure of memory and swap reported from it, in every mode, is a number from 0 to the
  largest \<open>i64\<close>; whatever \<open>/proc/net/dev\<close> holds, the totals are in the range of \<open>i64\<close>.
\<close>
theorem host_figures_typed:
  "mem_info_ok (parse_meminfo contents)
   \<and> memory_values_ok (sel_swap (memory_selection_from_meminfo_with_modes (parse_meminfo contents) cache raw))
   \<and> pred_option memory_values_ok
       (sel_ram (memory_selection_from_meminfo_with_modes (parse_meminfo contents) cache raw))
   \<and> i64_ok (total_up (parse_net_dev_with_filter table f))
   \<and> i64_ok (total_down (parse_net_dev_with_filter table f))"
proof -
  let ?i = "parse_meminfo contents"
  have "memory_values_ok (go_compatible_ram_include_cache ?i)"
    using parse_meminfo_ok [of contents]
    by (simp add: memory_values_ok_def go_compatible_ram_include_cache_def mem_info_ok_def size_ok_max
        saturate_i64_ok)
  moreover have "memory_values_ok (go_compatible_ram_raw_used ?i)"
    using ram_ok [OF parse_meminfo_ok]
    by (simp add: go_compatible_ram_raw_used_def memory_values_ok_def size_ok_def i64_max_def)
  ultimately show ?thesis
    by (simp add: parse_meminfo_ok memory_selection_from_meminfo_with_modes_def swap_ok ram_ok
        parse_net_dev_with_filter_def network_totals_sum wrap_i64_ok)
qed

text \<open>
  When the figures of the kernel are consistent (the parts of memory add up to no more than its size and
  shared memory is part of the cache), no mode reports more memory in use than there is.
\<close>

lemma memory_within_total:
  assumes "mem_info_ok i" and "mem_free i + mem_cached i + s_reclaimable i + mem_buffers i \<le> mem_total i"
    and "mem_shmem i \<le> mem_cached i"
    and "sel_ram (memory_selection_from_meminfo_with_modes i cache raw) = Some v"
  shows "mv_used v \<le> mv_total v"
proof -
  have "wrap_i64 (mem_free i + mem_cached i + s_reclaimable i + mem_buffers i)
      = mem_free i + mem_cached i + s_reclaimable i + mem_buffers i"
    using assms(1,2) by (intro wrap_i64_id) (simp_all add: mem_info_ok_def size_ok_def i64_max_def)
  then have "mv_used (go_compatible_ram i) \<le> mem_total i"
    using assms(1-3)
    by (simp add: go_compatible_ram_def go_compatible_ram_base_used_def mem_info_ok_def size_ok_def i64_max_def
        wrap_i64_id saturate_i64_def)
  then show ?thesis
    using assms
    by (auto simp: memory_selection_from_meminfo_with_modes_def go_compatible_ram_raw_used_def
        go_compatible_ram_include_cache_def go_compatible_ram_def mem_info_ok_def size_ok_def saturate_i64_def
        split: if_splits)
qed

end
