(* ===== verification/NetStatic.thy ===== *)
theory NetStatic
  imports HostProbe Complex_Main
begin

text \<open>
  The traffic history, \<open>net_static.rs\<close>: samples of the interface counters become entries of traffic, which
  are collected in a cache, merged into a store when the sampler is flushed, dropped when they expire, and
  added up over a period.  A finite \<open>f64\<close> is a rational number; \<open>rnd\<close> is the rounding of an exact result to
  the nearest \<open>f64\<close>.  A \<open>HashMap\<close> that is iterated is an association list, in some order of its keys.
\<close>

section \<open>State\<close>

type_synonym f64 = rat

record NetStaticSamplerConfig =
  data_preserve_days :: f64
  detect_interval_seconds :: f64
  save_interval_seconds :: f64
  nics :: "string list"

record InterfaceCounter =
  counter_name :: string
  counter_up :: u64
  counter_down :: u64

record TrafficData =
  td_timestamp :: u64
  td_tx :: u64
  td_rx :: u64

record CounterTotals =
  ct_tx :: u64
  ct_rx :: u64

type_synonym traffic_map = "(string \<times> TrafficData list) list"

record NetStaticSampler =
  sampler_config :: NetStaticSamplerConfig
  sampler_store :: traffic_map
  sampler_cache :: traffic_map
  last_counters :: "string \<Rightarrow> CounterTotals option"
  last_sample_at :: "u64 option"
  last_save_at :: "u64 option"

record NetStaticFile =
  file_interfaces :: traffic_map
  file_config :: NetStaticSamplerConfig

definition default_config :: NetStaticSamplerConfig where
  "default_config =
     \<lparr>data_preserve_days = 31, detect_interval_seconds = 2, save_interval_seconds = 600, nics = []\<rparr>"

definition normalized :: "NetStaticSamplerConfig \<Rightarrow> NetStaticSamplerConfig" where
  "normalized c =
     c\<lparr>data_preserve_days := (if data_preserve_days c = 0 then 31 else data_preserve_days c),
       detect_interval_seconds := (if detect_interval_seconds c = 0 then 2 else detect_interval_seconds c),
       save_interval_seconds := (if save_interval_seconds c = 0 then 600 else save_interval_seconds c)\<rparr>"

text \<open>\<open>x as f64\<close> and \<open>x as u64\<close>, which saturates and cuts off the fraction.\<close>

definition u64_as_f64 :: "(rat \<Rightarrow> rat) \<Rightarrow> u64 \<Rightarrow> f64" where
  "u64_as_f64 rnd n = rnd (of_nat (unat n))"

definition f64_as_u64 :: "f64 \<Rightarrow> u64" where
  "f64_as_u64 x = of_int (max 0 (min (2 ^ 64 - 1) \<lfloor>x\<rfloor>))"

text \<open>\<open>entry(name).or_default().push(x)\<close>.\<close>

fun push_entry :: "string \<Rightarrow> TrafficData \<Rightarrow> traffic_map \<Rightarrow> traffic_map" where
  "push_entry name x [] = [(name, [x])]"
| "push_entry name x ((k, xs) # m) =
     (if k = name then (k, xs @ [x]) # m else (k, xs) # push_entry name x m)"

section \<open>Operations\<close>

definition nic_allowed :: "NetStaticSampler \<Rightarrow> string \<Rightarrow> bool" where
  "nic_allowed s name \<longleftrightarrow>
     nics (sampler_config s) = [] \<or> list_ex (\<lambda>nic. nic = name) (nics (sampler_config s))"

definition sample_counter :: "u64 \<Rightarrow> InterfaceCounter \<Rightarrow> NetStaticSampler \<Rightarrow> NetStaticSampler" where
  "sample_counter timestamp c s =
     (if \<not> nic_allowed s (counter_name c) then s
      else
        let s = (case last_counters s (counter_name c) of
                   None \<Rightarrow> s
                 | Some previous \<Rightarrow>
                     let tx = saturating_sub_u64 (counter_up c) (ct_tx previous);
                         rx = saturating_sub_u64 (counter_down c) (ct_rx previous) in
                     if 0 < tx \<or> 0 < rx then
                       s\<lparr>sampler_cache :=
                           push_entry (counter_name c) \<lparr>td_timestamp = timestamp, td_tx = tx, td_rx = rx\<rparr>
                             (sampler_cache s)\<rparr>
                     else s) in
        s\<lparr>last_counters :=
            (last_counters s)(counter_name c \<mapsto> \<lparr>ct_tx = counter_up c, ct_rx = counter_down c\<rparr>)\<rparr>)"

definition sample_due :: "(rat \<Rightarrow> rat) \<Rightarrow> u64 \<Rightarrow> NetStaticSampler \<Rightarrow> bool" where
  "sample_due rnd timestamp s \<longleftrightarrow>
     (case last_sample_at s of
        None \<Rightarrow> True
      | Some last_at \<Rightarrow>
          \<not> u64_as_f64 rnd (saturating_sub_u64 timestamp last_at) < detect_interval_seconds (sampler_config s))"

definition sample ::
  "(rat \<Rightarrow> rat) \<Rightarrow> u64 \<Rightarrow> InterfaceCounter list \<Rightarrow> NetStaticSampler \<Rightarrow> NetStaticSampler" where
  "sample rnd timestamp counters s =
     (if \<not> sample_due rnd timestamp s then s
      else (fold (sample_counter timestamp) counters s)\<lparr>last_sample_at := Some timestamp\<rparr>)"

text \<open>The sums over \<open>u64\<close> wrap around, as in a release build.\<close>

definition flush_entries :: "u64 \<Rightarrow> string \<times> TrafficData list \<Rightarrow> traffic_map \<Rightarrow> traffic_map" where
  "flush_entries timestamp e store =
     (let tx = sum_list (map td_tx (snd e)); rx = sum_list (map td_rx (snd e)) in
      if 0 < tx \<or> 0 < rx then push_entry (fst e) \<lparr>td_timestamp = timestamp, td_tx = tx, td_rx = rx\<rparr> store
      else store)"

definition flush_cache :: "u64 \<Rightarrow> NetStaticSampler \<Rightarrow> NetStaticSampler" where
  "flush_cache timestamp s =
     s\<lparr>sampler_cache := [], sampler_store := fold (flush_entries timestamp) (sampler_cache s) (sampler_store s)\<rparr>"

definition preserve_ttl :: "(rat \<Rightarrow> rat) \<Rightarrow> NetStaticSamplerConfig \<Rightarrow> u64" where
  "preserve_ttl rnd c = f64_as_u64 (max (rnd (rnd (rnd (data_preserve_days c * 24) * 60) * 60)) 0)"

definition purge_expired :: "(rat \<Rightarrow> rat) \<Rightarrow> u64 \<Rightarrow> NetStaticSampler \<Rightarrow> NetStaticSampler" where
  "purge_expired rnd now s =
     (let cutoff = saturating_sub_u64 now (preserve_ttl rnd (sampler_config s)) in
      s\<lparr>sampler_store :=
          filter (\<lambda>(name, entries). entries \<noteq> [])
            (map (\<lambda>(name, entries). (name, filter (\<lambda>e. cutoff \<le> td_timestamp e) entries)) (sampler_store s))\<rparr>)"

text \<open>
  The file system while the sampler saves: the outcome of creating the directory if the path has one, of
  encoding the file as JSON, of writing the temporary file and of renaming it; \<open>None\<close> is success.  A save
  that succeeds gives the new content of the file.
\<close>

record save_env =
  env_create_dir :: "string option"
  env_encode :: "NetStaticFile \<Rightarrow> string + bytes"
  env_write :: "bytes \<Rightarrow> string option"
  env_rename :: "string option"

definition io_result :: "string option \<Rightarrow> string + unit" where
  "io_result r = (case r of None \<Rightarrow> Inr () | Some e \<Rightarrow> Inl e)"

definition save_to_file :: "save_env \<Rightarrow> NetStaticSampler \<Rightarrow> string + bytes" where
  "save_to_file env s =
     bind_result (io_result (env_create_dir env)) (\<lambda>_.
     bind_result (env_encode env \<lparr>file_interfaces = sampler_store s, file_config = sampler_config s\<rparr>) (\<lambda>content.
     bind_result (io_result (env_write env content)) (\<lambda>_.
     bind_result (io_result (env_rename env)) (\<lambda>_. Inr content))))"

definition flush ::
  "(rat \<Rightarrow> rat) \<Rightarrow> save_env \<Rightarrow> u64 \<Rightarrow> NetStaticSampler \<Rightarrow> (string + bytes) \<times> NetStaticSampler" where
  "flush rnd env timestamp s =
     (let s = purge_expired rnd timestamp (flush_cache timestamp s) in
      case save_to_file env s of
        Inl e \<Rightarrow> (Inl e, s)
      | Inr content \<Rightarrow> (Inr content, s\<lparr>last_save_at := Some timestamp\<rparr>))"

definition flush_if_due ::
  "(rat \<Rightarrow> rat) \<Rightarrow> save_env \<Rightarrow> u64 \<Rightarrow> NetStaticSampler \<Rightarrow> (string + bytes option) \<times> NetStaticSampler" where
  "flush_if_due rnd env timestamp s =
     (if (case last_save_at s of
            None \<Rightarrow> True
          | Some last_at \<Rightarrow>
              save_interval_seconds (sampler_config s)
                \<le> u64_as_f64 rnd (saturating_sub_u64 timestamp last_at))
      then (case flush rnd env timestamp s of
              (Inl e, s) \<Rightarrow> (Inl e, s)
            | (Inr content, s) \<Rightarrow> (Inr (Some content), s))
      else (Inr None, s))"

definition u64_to_i64 :: "u64 \<Rightarrow> i64" where
  "u64_to_i64 v = min (int (unat v)) i64_max"

definition in_period :: "u64 \<Rightarrow> u64 \<Rightarrow> TrafficData \<Rightarrow> bool" where
  "in_period start stop e \<longleftrightarrow>
     \<not> ((start \<noteq> 0 \<and> td_timestamp e < start) \<or> (stop \<noteq> 0 \<and> stop < td_timestamp e))"

definition add_entry :: "TrafficData \<Rightarrow> NetworkTotals \<Rightarrow> NetworkTotals" where
  "add_entry e t =
     t\<lparr>total_up := saturate_i64 (total_up t + u64_to_i64 (td_tx e)),
       total_down := saturate_i64 (total_down t + u64_to_i64 (td_rx e))\<rparr>"

definition add_totals_between ::
  "traffic_map \<Rightarrow> u64 \<Rightarrow> u64 \<Rightarrow> NetworkFilter \<Rightarrow> NetworkTotals \<Rightarrow> NetworkTotals" where
  "add_totals_between m start stop f totals =
     fold (\<lambda>(name, entries) t.
             if should_include f name then fold add_entry (filter (in_period start stop) entries) t else t)
       m totals"

definition total_between :: "NetStaticSampler \<Rightarrow> u64 \<Rightarrow> u64 \<Rightarrow> NetworkFilter \<Rightarrow> NetworkTotals" where
  "total_between s start stop f =
     add_totals_between (sampler_cache s) start stop f
       (add_totals_between (sampler_store s) start stop f \<lparr>total_up = 0, total_down = 0\<rparr>)"

definition set_nics :: "string list \<Rightarrow> NetStaticSampler \<Rightarrow> NetStaticSampler" where
  "set_nics ns s =
     (let ns = filter (\<lambda>nic. nic \<noteq> []) (map trim ns);
          s = s\<lparr>sampler_config := (sampler_config s)\<lparr>nics := ns\<rparr>\<rparr> in
      if ns = [] then s
      else s\<lparr>last_counters := (\<lambda>name. if name \<in> set ns then last_counters s name else None),
             sampler_cache := filter (\<lambda>(name, _). name \<in> set ns) (sampler_cache s)\<rparr>)"

text \<open>
  \<open>contents\<close> is what reading the file gives, \<open>parse\<close> is \<open>serde_json\<close>'s parser.  The second component tells
  whether the file is moved out of the way as a backup.
\<close>

definition load_from_file ::
  "(string \<Rightarrow> NetStaticFile option) \<Rightarrow> string option \<Rightarrow> NetStaticSampler \<Rightarrow> NetStaticSampler \<times> bool" where
  "load_from_file parse contents s =
     (case contents of
        None \<Rightarrow> (s, False)
      | Some text \<Rightarrow>
          if trim text = [] then (s, False)
          else (case parse text of
                  None \<Rightarrow> (s, True)
                | Some file \<Rightarrow>
                    let fc = file_config file; c = sampler_config s in
                    (s\<lparr>sampler_store := file_interfaces file,
                       sampler_config :=
                         c\<lparr>data_preserve_days :=
                             (if data_preserve_days fc \<noteq> 0 then data_preserve_days fc else data_preserve_days c),
                           detect_interval_seconds :=
                             (if detect_interval_seconds fc \<noteq> 0 then detect_interval_seconds fc
                              else detect_interval_seconds c),
                           save_interval_seconds :=
                             (if save_interval_seconds fc \<noteq> 0 then save_interval_seconds fc
                              else save_interval_seconds c),
                           nics := nics fc\<rparr>\<rparr>, False)))"

definition with_config ::
  "(rat \<Rightarrow> rat) \<Rightarrow> (string \<Rightarrow> NetStaticFile option) \<Rightarrow> string option \<Rightarrow> u64 \<Rightarrow> NetStaticSamplerConfig
   \<Rightarrow> NetStaticSampler" where
  "with_config rnd parse contents now c =
     purge_expired rnd now
       (fst (load_from_file parse contents
          \<lparr>sampler_config = normalized c, sampler_store = [], sampler_cache = [],
           last_counters = (\<lambda>_. None), last_sample_at = None, last_save_at = None\<rparr>))"

text \<open>Dropping the sampler flushes it and ignores the outcome.\<close>

definition drop_sampler :: "(rat \<Rightarrow> rat) \<Rightarrow> save_env \<Rightarrow> u64 \<Rightarrow> NetStaticSampler \<Rightarrow> NetStaticSampler" where
  "drop_sampler rnd env now s = snd (flush rnd env now s)"

section \<open>Amounts\<close>

datatype direction = Tx | Rx

fun td :: "direction \<Rightarrow> TrafficData \<Rightarrow> u64" where
  "td Tx e = td_tx e"
| "td Rx e = td_rx e"

fun cnt :: "direction \<Rightarrow> InterfaceCounter \<Rightarrow> u64" where
  "cnt Tx c = counter_up c"
| "cnt Rx c = counter_down c"

fun ct :: "direction \<Rightarrow> CounterTotals \<Rightarrow> u64" where
  "ct Tx c = ct_tx c"
| "ct Rx c = ct_rx c"

fun tot :: "direction \<Rightarrow> NetworkTotals \<Rightarrow> i64" where
  "tot Tx t = total_up t"
| "tot Rx t = total_down t"

text \<open>The traffic of an interface in a map, and in the sampler.\<close>

definition entry_sum :: "direction \<Rightarrow> TrafficData list \<Rightarrow> nat" where
  "entry_sum d es = sum_list (map (\<lambda>e. unat (td d e)) es)"

definition amount :: "direction \<Rightarrow> traffic_map \<Rightarrow> string \<Rightarrow> nat" where
  "amount d m n = sum_list (map (\<lambda>(k, es). if k = n then entry_sum d es else 0) m)"

definition recorded :: "direction \<Rightarrow> NetStaticSampler \<Rightarrow> string \<Rightarrow> nat" where
  "recorded d s n = amount d (sampler_store s) n + amount d (sampler_cache s) n"

text \<open>The growth of a counter over its readings; a reading below the one before counts as none.\<close>

fun increments :: "nat list \<Rightarrow> nat" where
  "increments (x # y # zs) = (y - x) + increments (y # zs)"
| "increments _ = 0"

definition lasts :: "'a list \<Rightarrow> 'a list" where
  "lasts xs = (if xs = [] then [] else [last xs])"

lemma lasts_append: "lasts (lasts xs @ ys) = lasts (xs @ ys)"
  by (simp add: lasts_def)

lemma increments_append: "increments (xs @ ys) = increments xs + increments (lasts xs @ ys)"
  by (induction xs rule: increments.induct) (simp_all add: lasts_def)

lemma increments_sorted: "sorted xs \<Longrightarrow> xs \<noteq> [] \<Longrightarrow> increments xs = last xs - hd xs"
proof (induction xs rule: increments.induct)
  case (1 x y zs)
  have "y \<le> last (y # zs)" using 1(2) by (cases zs) auto
  then show ?case using 1 by auto
qed auto

lemma unat_saturating_sub: "unat (saturating_sub_u64 a b) = unat a - unat b"
  by (simp add: saturating_sub_u64_def unat_sub_if' word_less_nat_alt word_le_nat_alt)

lemma entry_sum_simps [simp]:
  "entry_sum d [] = 0" "entry_sum d (e # es) = unat (td d e) + entry_sum d es"
  "entry_sum d (es @ fs) = entry_sum d es + entry_sum d fs"
  by (simp_all add: entry_sum_def)

lemma amount_simps [simp]:
  "amount d [] n = 0"
  "amount d ((k, es) # m) n = (if k = n then entry_sum d es else 0) + amount d m n"
  by (simp_all add: amount_def)

lemma amount_push: "amount d (push_entry k e m) n = amount d m n + (if k = n then unat (td d e) else 0)"
  by (induction k e m rule: push_entry.induct) auto

section \<open>Sampling\<close>

definition prev_reading :: "direction \<Rightarrow> NetStaticSampler \<Rightarrow> string \<Rightarrow> nat list" where
  "prev_reading d s n = (case last_counters s n of None \<Rightarrow> [] | Some c \<Rightarrow> [unat (ct d c)])"

definition counter_readings :: "direction \<Rightarrow> string \<Rightarrow> InterfaceCounter list \<Rightarrow> nat list" where
  "counter_readings d n cs = map (\<lambda>c. unat (cnt d c)) (filter (\<lambda>c. counter_name c = n) cs)"

lemma sample_counter_other:
  "counter_name c \<noteq> n \<or> \<not> nic_allowed s n \<Longrightarrow>
     recorded d (sample_counter ts c s) n = recorded d s n
     \<and> last_counters (sample_counter ts c s) n = last_counters s n"
  by (auto simp: sample_counter_def recorded_def amount_push Let_def split: option.splits)

lemma sample_counter_same:
  assumes "counter_name c = n" and "nic_allowed s n"
  shows "recorded d (sample_counter ts c s) n
      = recorded d s n + increments (prev_reading d s n @ [unat (cnt d c)])"
    and "prev_reading d (sample_counter ts c s) n = [unat (cnt d c)]"
proof -
  have zero: "unat a - unat b = 0" if "\<not> 0 < saturating_sub_u64 a b" for a b :: u64
    using that unat_saturating_sub [of a b] by (simp add: word_neq_0_conv [symmetric])
  show "recorded d (sample_counter ts c s) n
      = recorded d s n + increments (prev_reading d s n @ [unat (cnt d c)])"
    using assms zero
    by (cases d)
      (auto simp: sample_counter_def recorded_def prev_reading_def amount_push Let_def unat_saturating_sub
        split: option.splits)
  show "prev_reading d (sample_counter ts c s) n = [unat (cnt d c)]"
    using assms by (cases d) (simp_all add: sample_counter_def prev_reading_def Let_def)
qed

lemma sample_counter_config [simp]: "sampler_config (sample_counter ts c s) = sampler_config s"
  by (auto simp: sample_counter_def Let_def split: option.splits)

lemma nic_allowed_cong: "sampler_config s = sampler_config s' \<Longrightarrow> nic_allowed s = nic_allowed s'"
  by (simp add: nic_allowed_def fun_eq_iff)

lemma sample_counters:
  assumes "nic_allowed s n"
  shows "recorded d (fold (sample_counter ts) cs s) n
      = recorded d s n + increments (prev_reading d s n @ counter_readings d n cs)
    \<and> prev_reading d (fold (sample_counter ts) cs s) n = lasts (prev_reading d s n @ counter_readings d n cs)"
  using assms
proof (induction cs arbitrary: s)
  case Nil
  then show ?case by (simp add: counter_readings_def lasts_def prev_reading_def split: option.splits)
next
  case (Cons c cs)
  let ?s = "sample_counter ts c s"
  have al: "nic_allowed ?s n" using Cons.prems nic_allowed_cong [of ?s s] by simp
  show ?case
  proof (cases "counter_name c = n")
    case True
    note same = sample_counter_same [OF True Cons.prems]
    have "increments (prev_reading d s n @ unat (cnt d c) # counter_readings d n cs) =
        increments (prev_reading d s n @ [unat (cnt d c)]) + increments (unat (cnt d c) # counter_readings d n cs)"
      using increments_append [of "prev_reading d s n @ [unat (cnt d c)]" "counter_readings d n cs"]
      by (simp add: lasts_def)
    then show ?thesis
      using Cons.IH [OF al] True same by (simp add: counter_readings_def lasts_def)
  next
    case False
    then show ?thesis
      using Cons.IH [OF al] sample_counter_other [of c n s d ts]
      by (simp add: counter_readings_def prev_reading_def)
  qed
qed

lemma sample_counters_refused:
  "\<not> nic_allowed s n \<Longrightarrow>
     recorded d (fold (sample_counter ts) cs s) n = recorded d s n
     \<and> last_counters (fold (sample_counter ts) cs s) n = last_counters s n"
proof (induction cs arbitrary: s)
  case (Cons c cs)
  then have "\<not> nic_allowed (sample_counter ts c s) n"
    using nic_allowed_cong [of "sample_counter ts c s" s] by simp
  then show ?case
    using Cons.IH sample_counter_other [of c n s d ts] Cons.prems by simp
qed simp

section \<open>Flushing\<close>

lemma unat_sum_list:
  "sum_list (map (\<lambda>x. unat (f x)) xs) < 2 ^ 64 \<Longrightarrow>
     unat (sum_list (map f xs) :: u64) = sum_list (map (\<lambda>x. unat (f x)) xs)"
  by (induction xs) (auto simp: unat_word_ariths)

lemma unat_entry_sum: "entry_sum d es < 2 ^ 64 \<Longrightarrow> unat (sum_list (map (td d) es)) = entry_sum d es"
  unfolding entry_sum_def by (rule unat_sum_list)

lemma flush_entries_amount:
  assumes "fst e = n \<Longrightarrow> entry_sum d (snd e) < 2 ^ 64"
  shows "amount d (flush_entries ts e store) n
    = amount d store n + (if fst e = n then entry_sum d (snd e) else 0)"
proof (cases "fst e = n")
  case True
  let ?tx = "sum_list (map td_tx (snd e))" and ?rx = "sum_list (map td_rx (snd e))"
  have "td d \<lparr>td_timestamp = ts, td_tx = ?tx, td_rx = ?rx\<rparr> = sum_list (map (td d) (snd e))"
    by (cases d) (simp_all cong: map_cong)
  moreover have "entry_sum d (snd e) = 0" if "\<not> (0 < ?tx \<or> 0 < ?rx)"
  proof -
    have "sum_list (map (td d) (snd e)) = 0"
      using that by (cases d) (simp_all add: word_neq_0_conv [symmetric] cong: map_cong)
    then show ?thesis using unat_entry_sum [OF assms [OF True]] by simp
  qed
  ultimately show ?thesis
    using True unat_entry_sum [OF assms [OF True]]
    by (auto simp: flush_entries_def Let_def amount_push)
qed (simp add: flush_entries_def Let_def amount_push)

lemma flush_cache_amount:
  "amount d cache n < 2 ^ 64 \<Longrightarrow>
     amount d (fold (flush_entries ts) cache store) n = amount d store n + amount d cache n"
proof (induction cache arbitrary: store)
  case (Cons e cache)
  obtain k es where e: "e = (k, es)" by fastforce
  have "amount d cache n < 2 ^ 64" "k = n \<Longrightarrow> entry_sum d es < 2 ^ 64"
    using Cons.prems e by (auto split: if_splits)
  then show ?case
    using Cons.IH [of "flush_entries ts e store"] flush_entries_amount [of e n d ts store] e by auto
qed simp

definition entries_since :: "nat \<Rightarrow> traffic_map \<Rightarrow> bool" where
  "entries_since t m \<longleftrightarrow> (\<forall>(k, es) \<in> set m. \<forall>e \<in> set es. t \<le> unat (td_timestamp e))"

definition since :: "nat \<Rightarrow> NetStaticSampler \<Rightarrow> bool" where
  "since t s \<longleftrightarrow> entries_since t (sampler_store s) \<and> entries_since t (sampler_cache s)"

lemma entries_since_push:
  "entries_since t m \<Longrightarrow> t \<le> unat (td_timestamp e) \<Longrightarrow> entries_since t (push_entry k e m)"
  by (induction k e m rule: push_entry.induct) (auto simp: entries_since_def)

lemma entries_since_flush:
  "entries_since t store \<Longrightarrow> t \<le> unat ts \<Longrightarrow> entries_since t (fold (flush_entries ts) cache store)"
  by (induction cache arbitrary: store) (auto simp: flush_entries_def Let_def entries_since_push)

lemma since_sample_counters: "since t s \<Longrightarrow> t \<le> unat ts \<Longrightarrow> since t (fold (sample_counter ts) cs s)"
proof (induction cs arbitrary: s)
  case (Cons c cs)
  then have "since t (sample_counter ts c s)"
    by (auto simp: since_def sample_counter_def Let_def entries_since_push split: option.splits)
  then show ?case using Cons by simp
qed simp

lemma purge_store:
  assumes "entries_since t (sampler_store s)" and "unat now \<le> t + unat (preserve_ttl rnd (sampler_config s))"
  shows "sampler_store (purge_expired rnd now s) = filter (\<lambda>(k, es). es \<noteq> []) (sampler_store s)"
proof -
  define cut where "cut = saturating_sub_u64 now (preserve_ttl rnd (sampler_config s))"
  have "unat cut \<le> t" using assms(2) by (simp add: cut_def unat_saturating_sub)
  then have keep: "filter (\<lambda>e. cut \<le> td_timestamp e) es = es" if "(k, es) \<in> set (sampler_store s)" for k es
    using that assms(1) by (fastforce simp: entries_since_def word_le_nat_alt filter_id_conv)
  have "map (\<lambda>(k, es). (k, filter (\<lambda>e. cut \<le> td_timestamp e) es)) (sampler_store s) = sampler_store s"
    using keep by (intro map_idI) auto
  then show ?thesis by (simp add: purge_expired_def cut_def)
qed

lemma purge_amount:
  assumes "entries_since t (sampler_store s)" and "unat now \<le> t + unat (preserve_ttl rnd (sampler_config s))"
  shows "amount d (sampler_store (purge_expired rnd now s)) n = amount d (sampler_store s) n"
    and "entries_since t (sampler_store (purge_expired rnd now s))"
proof -
  have "amount d (filter (\<lambda>(k, es). es \<noteq> []) m) n = amount d m n" for m
    by (induction m) (auto split: if_splits)
  then show "amount d (sampler_store (purge_expired rnd now s)) n = amount d (sampler_store s) n"
    by (simp add: purge_store [OF assms])
  show "entries_since t (sampler_store (purge_expired rnd now s))"
    using assms(1) by (auto simp: purge_store [OF assms] entries_since_def)
qed

lemma purge_frame [simp]:
  "sampler_cache (purge_expired rnd now s) = sampler_cache s"
  "sampler_config (purge_expired rnd now s) = sampler_config s"
  "last_counters (purge_expired rnd now s) = last_counters s"
  by (simp_all add: purge_expired_def Let_def)

lemma flush_frame:
  "sampler_store (snd (flush rnd env ts s)) = sampler_store (purge_expired rnd ts (flush_cache ts s))"
  "sampler_cache (snd (flush rnd env ts s)) = []"
  "sampler_config (snd (flush rnd env ts s)) = sampler_config s"
  "last_counters (snd (flush rnd env ts s)) = last_counters s"
  by (simp_all add: flush_def Let_def flush_cache_def split: sum.split)

lemma flush_keeps:
  assumes "since t s" and "t \<le> unat ts" and "unat ts \<le> t + unat (preserve_ttl rnd (sampler_config s))"
  shows "since t (snd (flush rnd env ts s))"
    and "recorded d s n < 2 ^ 64 \<Longrightarrow> recorded d (snd (flush rnd env ts s)) n = recorded d s n"
proof -
  have "entries_since t (sampler_store (flush_cache ts s))"
    using assms(1,2) by (simp add: flush_cache_def since_def entries_since_flush)
  note purge = purge_amount [OF this, of ts rnd]
  show "since t (snd (flush rnd env ts s))"
    using purge(2) assms(3) by (simp add: since_def flush_frame flush_cache_def entries_since_def)
  show "recorded d s n < 2 ^ 64 \<Longrightarrow> recorded d (snd (flush rnd env ts s)) n = recorded d s n"
    using purge(1) [of d n] assms(3) flush_cache_amount [of d "sampler_cache s" n ts "sampler_store s"]
    by (simp add: recorded_def flush_frame) (simp add: flush_cache_def)
qed

section \<open>Runs\<close>

datatype net_op =
    OpSetNics "string list"
  | OpSample u64 "InterfaceCounter list"
  | OpFlush u64 save_env
  | OpFlushIfDue u64 save_env

fun net_step :: "(rat \<Rightarrow> rat) \<Rightarrow> net_op \<Rightarrow> NetStaticSampler \<Rightarrow> NetStaticSampler" where
  "net_step rnd (OpSetNics ns) s = set_nics ns s"
| "net_step rnd (OpSample ts cs) s = sample rnd ts cs s"
| "net_step rnd (OpFlush ts env) s = snd (flush rnd env ts s)"
| "net_step rnd (OpFlushIfDue ts env) s = snd (flush_if_due rnd env ts s)"

definition net_run :: "(rat \<Rightarrow> rat) \<Rightarrow> net_op list \<Rightarrow> NetStaticSampler \<Rightarrow> NetStaticSampler" where
  "net_run rnd ops s = fold (net_step rnd) ops s"

text \<open>The readings of an interface that a run takes: those of the samples that are due.\<close>

fun readings :: "(rat \<Rightarrow> rat) \<Rightarrow> direction \<Rightarrow> string \<Rightarrow> net_op list \<Rightarrow> NetStaticSampler \<Rightarrow> nat list" where
  "readings rnd d n [] s = []"
| "readings rnd d n (op # ops) s =
     (case op of
        OpSample ts cs \<Rightarrow> if sample_due rnd ts s \<and> nic_allowed s n then counter_readings d n cs else []
      | _ \<Rightarrow> []) @ readings rnd d n ops (net_step rnd op s)"

fun op_within :: "nat \<Rightarrow> nat \<Rightarrow> net_op \<Rightarrow> bool" where
  "op_within t ttl (OpSetNics ns) = True"
| "op_within t ttl (OpSample ts cs) = (t \<le> unat ts \<and> unat ts \<le> t + ttl)"
| "op_within t ttl (OpFlush ts env) = (t \<le> unat ts \<and> unat ts \<le> t + ttl)"
| "op_within t ttl (OpFlushIfDue ts env) = (t \<le> unat ts \<and> unat ts \<le> t + ttl)"

fun op_names :: "net_op \<Rightarrow> string set" where
  "op_names (OpSample ts cs) = counter_name ` set cs"
| "op_names _ = {}"

fun op_keeps :: "string \<Rightarrow> net_op \<Rightarrow> bool" where
  "op_keeps n (OpSetNics ns) \<longleftrightarrow> (let ns = filter (\<lambda>nic. nic \<noteq> []) (map trim ns) in ns = [] \<or> n \<in> set ns)"
| "op_keeps n _ \<longleftrightarrow> True"

lemma preserve_ttl_nics [simp]: "preserve_ttl rnd (c\<lparr>nics := ns\<rparr>) = preserve_ttl rnd c"
  by (simp add: preserve_ttl_def)

lemma amount_filter_key: "P n \<Longrightarrow> amount d (filter (\<lambda>(k, _). P k) m) n = amount d m n"
  by (induction m) (auto split: if_splits)

lemma amount_filter_other: "\<not> P n \<Longrightarrow> amount d (filter (\<lambda>(k, _). P k) m) n = 0"
  by (induction m) (auto split: if_splits)

lemma set_nics_keeps:
  assumes "op_keeps n (OpSetNics ns)"
  shows "recorded d (set_nics ns s) n = recorded d s n"
    and "last_counters (set_nics ns s) n = last_counters s n"
  using assms amount_filter_key [of "\<lambda>k. k \<in> set (filter (\<lambda>nic. nic \<noteq> []) (map trim ns))"]
  by (auto simp: set_nics_def Let_def recorded_def)

text \<open>An interface that is no longer listed loses the traffic that is still in the cache.\<close>

lemma set_nics_drops:
  assumes "\<not> op_keeps n (OpSetNics ns)"
  shows "recorded d (set_nics ns s) n = amount d (sampler_store s) n"
  using assms amount_filter_other by (auto simp: set_nics_def Let_def recorded_def)

lemma flush_if_due_cases:
  "snd (flush_if_due rnd env ts s) = s \<or> snd (flush_if_due rnd env ts s) = snd (flush rnd env ts s)"
  by (auto simp: flush_if_due_def split: prod.split sum.split)

lemma step_ttl: "preserve_ttl rnd' (sampler_config (net_step rnd op s)) = preserve_ttl rnd' (sampler_config s)"
proof (cases op)
  case (OpSample ts cs)
  have "sampler_config (fold (sample_counter ts) cs s) = sampler_config s" for s
    by (induction cs arbitrary: s) auto
  then show ?thesis using OpSample by (simp add: sample_def)
next
  case (OpFlushIfDue ts env)
  then show ?thesis using flush_if_due_cases [of rnd env ts s] by (auto simp: flush_frame)
qed (simp_all add: set_nics_def Let_def flush_frame)

lemma step_since:
  assumes "since t s" and "op_within t (unat (preserve_ttl rnd (sampler_config s))) op"
  shows "since t (net_step rnd op s)"
proof (cases op)
  case (OpSetNics ns)
  then show ?thesis using assms(1) by (auto simp: set_nics_def Let_def since_def entries_since_def)
next
  case (OpSample ts cs)
  then show ?thesis
    using assms since_sample_counters [of t s ts cs] by (auto simp: sample_def since_def)
next
  case (OpFlush ts env)
  then show ?thesis using assms flush_keeps(1) by simp
next
  case (OpFlushIfDue ts env)
  then show ?thesis
    using assms flush_keeps(1) [OF assms(1), of ts rnd env] flush_if_due_cases [of rnd env ts s] by auto
qed

text \<open>One step records the growth over the readings it takes.\<close>

lemma step_records:
  assumes "since t s" and "op_within t (unat (preserve_ttl rnd (sampler_config s))) op" and "op_keeps n op"
    and "recorded d s n < 2 ^ 64"
  shows "recorded d (net_step rnd op s) n
      = recorded d s n + increments (prev_reading d s n @ readings rnd d n [op] s)
    \<and> prev_reading d (net_step rnd op s) n = lasts (prev_reading d s n @ readings rnd d n [op] s)"
proof (cases op)
  case (OpSample ts cs)
  then show ?thesis
    using sample_counters [of s n d ts cs] sample_counters_refused [of s n d ts cs]
    by (auto simp: sample_def recorded_def prev_reading_def lasts_def split: option.splits)
next
  case (OpFlushIfDue ts env)
  then show ?thesis
    using assms flush_keeps(2) [OF assms(1), of ts rnd d n env] flush_frame(4) [of rnd env ts s]
      flush_if_due_cases [of rnd env ts s]
    by (auto simp: prev_reading_def lasts_def split: option.splits)
qed (use assms flush_keeps(2) [OF assms(1)] set_nics_keeps in
      \<open>auto simp: prev_reading_def lasts_def flush_frame(4) split: option.splits\<close>)

lemma run_records:
  assumes "since t s" and "list_all (op_within t (unat (preserve_ttl rnd (sampler_config s)))) ops"
    and "list_all (op_keeps n) ops"
    and "recorded d s n + increments (prev_reading d s n @ readings rnd d n ops s) < 2 ^ 64"
  shows "recorded d (net_run rnd ops s) n
    = recorded d s n + increments (prev_reading d s n @ readings rnd d n ops s)"
  using assms
proof (induction ops arbitrary: s)
  case Nil
  then show ?case by (simp add: net_run_def prev_reading_def split: option.splits)
next
  case (Cons op ops)
  let ?s = "net_step rnd op s" and ?p = "prev_reading d s n" and ?r = "readings rnd d n [op] s"
  have ops: "readings rnd d n (op # ops) s = ?r @ readings rnd d n ops ?s" by simp
  have split: "increments (?p @ ?r @ readings rnd d n ops ?s) =
      increments (?p @ ?r) + increments (lasts (?p @ ?r) @ readings rnd d n ops ?s)"
    using increments_append [of "?p @ ?r"] by simp
  have step: "recorded d ?s n = recorded d s n + increments (?p @ ?r)"
      "prev_reading d ?s n = lasts (?p @ ?r)"
    using step_records [OF Cons.prems(1), of rnd op n d] Cons.prems(2-4) by auto
  have "recorded d (net_run rnd ops ?s) n =
      recorded d ?s n + increments (prev_reading d ?s n @ readings rnd d n ops ?s)"
    by (rule Cons.IH)
      (use step_since [OF Cons.prems(1)] Cons.prems split step ops in \<open>auto simp: step_ttl\<close>)
  then show ?case using split step ops by (simp add: net_run_def)
qed

section \<open>Totals\<close>

lemma saturate_add: "0 \<le> x \<Longrightarrow> x + int n < 2 ^ 63 \<Longrightarrow> saturate_i64 (x + min (int n) i64_max) = x + int n"
  by (simp add: saturate_i64_def i64_max_def)

lemma tot_add_entry:
  "0 \<le> tot d t \<Longrightarrow> tot d t + int (unat (td d e)) < 2 ^ 63 \<Longrightarrow>
     tot d (add_entry e t) = tot d t + int (unat (td d e))"
  using saturate_add [of "tot d t" "unat (td d e)"] by (cases d) (simp_all add: add_entry_def u64_to_i64_def)

lemma tot_add_entries:
  "0 \<le> tot d t \<Longrightarrow> tot d t + int (entry_sum d es) < 2 ^ 63 \<Longrightarrow>
     tot d (fold add_entry es t) = tot d t + int (entry_sum d es)"
proof (induction es arbitrary: t)
  case (Cons e es)
  have "tot d (add_entry e t) = tot d t + int (unat (td d e))"
    using Cons.prems by (intro tot_add_entry) auto
  then show ?case using Cons by simp
qed simp

definition included_sum :: "direction \<Rightarrow> NetworkFilter \<Rightarrow> traffic_map \<Rightarrow> nat" where
  "included_sum d f m = sum_list (map (\<lambda>(k, es). if should_include f k then entry_sum d es else 0) m)"

lemma tot_add_totals:
  "0 \<le> tot d t \<Longrightarrow> tot d t + int (included_sum d f m) < 2 ^ 63 \<Longrightarrow>
     tot d (add_totals_between m 0 0 f t) = tot d t + int (included_sum d f m)"
proof (induction m arbitrary: t)
  case Nil
  then show ?case by (simp add: add_totals_between_def included_sum_def)
next
  case (Cons x m)
  obtain k es where x: "x = (k, es)" by fastforce
  define t' where "t' = (if should_include f k then fold add_entry es t else t)"
  have t': "tot d t' = tot d t + int (if should_include f k then entry_sum d es else 0)"
    using Cons.prems tot_add_entries [of d t es] x by (auto simp: t'_def included_sum_def)
  have "tot d (add_totals_between m 0 0 f t') = tot d t' + int (included_sum d f m)"
    using Cons.prems t' x by (intro Cons.IH) (auto simp: included_sum_def)
  moreover have "add_totals_between (x # m) 0 0 f t = add_totals_between m 0 0 f t'"
    by (simp add: add_totals_between_def x t'_def in_period_def)
  ultimately show ?case using t' x by (simp add: included_sum_def)
qed

definition keys_in :: "string set \<Rightarrow> traffic_map \<Rightarrow> bool" where
  "keys_in ks m \<longleftrightarrow> fst ` set m \<subseteq> ks"

lemma keys_in_simps [simp]: "keys_in ks []" "keys_in ks (x # m) \<longleftrightarrow> fst x \<in> ks \<and> keys_in ks m"
  by (auto simp: keys_in_def)

lemma keys_push: "keys_in ks m \<Longrightarrow> k \<in> ks \<Longrightarrow> keys_in ks (push_entry k e m)"
  by (induction k e m rule: push_entry.induct) auto

lemma included_sum_amount:
  assumes "finite ks" and "keys_in ks m"
  shows "included_sum d f m = (\<Sum>n \<in> {n \<in> ks. should_include f n}. amount d m n)"
  using assms(2)
proof (induction m)
  case (Cons x m)
  obtain k es where x: "x = (k, es)" by fastforce
  have "(\<Sum>n \<in> {n \<in> ks. should_include f n}. if k = n then entry_sum d es else 0)
      = (if should_include f k then entry_sum d es else 0)"
    using assms(1) Cons.prems by (simp add: x keys_in_def)
  then show ?case
    using Cons x by (simp add: included_sum_def keys_in_def sum.distrib)
qed (simp add: included_sum_def)

lemma keys_sample_counter:
  "keys_in ks (sampler_cache s) \<Longrightarrow> counter_name c \<in> ks \<Longrightarrow>
     keys_in ks (sampler_cache (sample_counter ts c s))
     \<and> sampler_store (sample_counter ts c s) = sampler_store s"
  by (auto simp: sample_counter_def Let_def keys_push split: option.splits)

lemma keys_sample_counters:
  "keys_in ks (sampler_cache s) \<Longrightarrow> counter_name ` set cs \<subseteq> ks \<Longrightarrow>
     keys_in ks (sampler_cache (fold (sample_counter ts) cs s))
     \<and> sampler_store (fold (sample_counter ts) cs s) = sampler_store s"
  by (induction cs arbitrary: s) (use keys_sample_counter in auto)

lemma keys_flush:
  assumes "keys_in ks (sampler_store s)" and "keys_in ks (sampler_cache s)"
  shows "keys_in ks (sampler_store (snd (flush rnd env ts s)))"
proof -
  have "keys_in ks (fold (flush_entries ts) m store)" if "keys_in ks m" "keys_in ks store" for m store
    using that
    by (induction m arbitrary: store) (auto simp: flush_entries_def Let_def keys_push)
  from this [OF assms(2,1)] show ?thesis
    by (auto simp: flush_frame flush_cache_def purge_expired_def Let_def keys_in_def)
qed

lemma keys_step:
  assumes "keys_in ks (sampler_store s)" and "keys_in ks (sampler_cache s)" and "op_names op \<subseteq> ks"
  shows "keys_in ks (sampler_store (net_step rnd op s)) \<and> keys_in ks (sampler_cache (net_step rnd op s))"
proof (cases op)
  case (OpSetNics ns)
  then show ?thesis using assms by (auto simp: set_nics_def Let_def keys_in_def)
next
  case (OpSample ts cs)
  then show ?thesis using assms keys_sample_counters [of ks s cs ts] by (auto simp: sample_def)
next
  case (OpFlush ts env)
  then show ?thesis using keys_flush [OF assms(1,2)] by (simp add: flush_frame keys_in_def)
next
  case (OpFlushIfDue ts env)
  then show ?thesis
    using keys_flush [OF assms(1,2), of rnd env ts] flush_if_due_cases [of rnd env ts s] assms
    by (auto simp: flush_frame(2))
qed

lemma keys_run:
  "keys_in ks (sampler_store s) \<Longrightarrow> keys_in ks (sampler_cache s) \<Longrightarrow> (\<Union> (op_names ` set ops)) \<subseteq> ks \<Longrightarrow>
     keys_in ks (sampler_store (net_run rnd ops s)) \<and> keys_in ks (sampler_cache (net_run rnd ops s))"
proof (induction ops arbitrary: s)
  case (Cons op ops)
  then show ?case using keys_step [of ks s op rnd] by (auto simp: net_run_def)
qed (simp add: net_run_def)

lemma total_between_recorded:
  assumes "finite ks" and "keys_in ks (sampler_store s)" and "keys_in ks (sampler_cache s)"
    and "(\<Sum>n \<in> {n \<in> ks. should_include f n}. recorded d s n) < 2 ^ 63"
  shows "tot d (total_between s 0 0 f) = int (\<Sum>n \<in> {n \<in> ks. should_include f n}. recorded d s n)"
proof -
  have sums: "(\<Sum>n \<in> {n \<in> ks. should_include f n}. recorded d s n)
      = included_sum d f (sampler_store s) + included_sum d f (sampler_cache s)"
    using included_sum_amount [OF assms(1)] assms(2,3) by (simp add: recorded_def sum.distrib)
  let ?z = "\<lparr>total_up = 0, total_down = 0\<rparr>"
  have z: "tot d ?z = 0" by (cases d) simp_all
  have "tot d (add_totals_between (sampler_store s) 0 0 f ?z) = int (included_sum d f (sampler_store s))"
    using tot_add_totals [of d ?z] assms(4) sums by (simp add: z)
  then show ?thesis
    using tot_add_totals [of d "add_totals_between (sampler_store s) 0 0 f ?z" f "sampler_cache s"] assms(4) sums
    by (simp add: total_between_def)
qed

text \<open>
  Claim C26.  The traffic history counts all traffic exactly once.  A sampler starts without a history file and
  then lists of interfaces are set, counters sampled and the history flushed, in any order and number, with
  saves that may fail, within the time that entries are kept.  Then the total over the whole period is the
  growth of the counters of all interfaces that the filter admits, over the samples that were due: flushing,
  merging and failed saves lose nothing and count nothing twice, and a counter that starts again from zero
  does not count backwards.  The interfaces must stay on the lists that are set, and the sums must fit.
\<close>
theorem traffic_accounted:
  assumes "s = with_config rnd parse None now c"
    and "list_all (op_within t (unat (preserve_ttl rnd (normalized c)))) ops"
    and "ns = {n \<in> \<Union> (op_names ` set ops). should_include f n}"
    and "\<forall>n \<in> ns. list_all (op_keeps n) ops"
    and "(\<Sum>n \<in> ns. increments (readings rnd d n ops s)) < 2 ^ 63"
  shows "tot d (total_between (net_run rnd ops s) 0 0 f) = int (\<Sum>n \<in> ns. increments (readings rnd d n ops s))"
proof -
  let ?ks = "\<Union> (op_names ` set ops)"
  have fin: "finite ?ks" by (auto intro: op_names.cases) (metis finite.emptyI finite_imageI finite_set op_names.elims)
  then have finn: "finite ns" using assms(3) by simp
  have s: "sampler_store s = []" "sampler_cache s = []" "last_counters s = (\<lambda>_. None)"
      "sampler_config s = normalized c"
    by (simp_all add: assms(1) with_config_def load_from_file_def purge_expired_def)
  have start: "recorded d s n = 0" "prev_reading d s n = []" "since t s" for n
    by (simp_all add: recorded_def prev_reading_def since_def entries_since_def s)
  have run: "recorded d (net_run rnd ops s) n = increments (readings rnd d n ops s)" if "n \<in> ns" for n
  proof -
    have "increments (readings rnd d n ops s) \<le> (\<Sum>n \<in> ns. increments (readings rnd d n ops s))"
      by (rule member_le_sum [OF that _ finn]) simp
    then show ?thesis
      using run_records [OF start(3), of rnd ops n d] assms(2,4,5) that by (simp add: start s)
  qed
  have "keys_in ?ks (sampler_store (net_run rnd ops s)) \<and> keys_in ?ks (sampler_cache (net_run rnd ops s))"
    by (rule keys_run) (simp_all add: s)
  then show ?thesis
    using total_between_recorded [OF fin, where s = "net_run rnd ops s" and f = f and d = d] assms(3,5) run by simp
qed

lemma sample_frame:
  "sampler_config (sample rnd ts cs s) = sampler_config s"
  "sample_due rnd ts s \<Longrightarrow> last_sample_at (sample rnd ts cs s) = Some ts"
proof -
  have "sampler_config (fold (sample_counter ts) cs s) = sampler_config s" for s
    by (induction cs arbitrary: s) auto
  then show "sampler_config (sample rnd ts cs s) = sampler_config s" by (simp add: sample_def)
qed (simp add: sample_def)

lemma flush_last_sample: "last_sample_at (snd (flush rnd env ts s)) = last_sample_at s"
  by (simp add: flush_def flush_cache_def purge_expired_def Let_def split: sum.split)

theorem traffic_accounted_witness:
  "tot Tx (total_between
      (net_run id
         [OpSample 100 [\<lparr>counter_name = ''eth0'', counter_up = 10, counter_down = 5\<rparr>],
          OpSample 103 [\<lparr>counter_name = ''eth0'', counter_up = 17, counter_down = 5\<rparr>],
          OpFlush 104 \<lparr>env_create_dir = None, env_encode = (\<lambda>_. Inl ''full''), env_write = (\<lambda>_. None),
             env_rename = None\<rparr>]
         (with_config id (\<lambda>_. None) None 0 default_config)) 0 0 \<lparr>filter_include = [], filter_exclude = []\<rparr>) = 7"
proof -
  let ?c = "\<lambda>up. [\<lparr>counter_name = ''eth0'', counter_up = up, counter_down = 5\<rparr>]"
  let ?env = "\<lparr>env_create_dir = None, env_encode = (\<lambda>_. Inl ''full''), env_write = (\<lambda>_. None), env_rename = None\<rparr>"
  let ?ops = "[OpSample 100 (?c 10), OpSample 103 (?c 17), OpFlush 104 ?env]"
  let ?f = "\<lparr>filter_include = [], filter_exclude = []\<rparr>"
  let ?s = "with_config id (\<lambda>_. None) None 0 default_config"
  have ttl: "preserve_ttl id (normalized default_config) = 2678400"
    by (simp add: preserve_ttl_def normalized_def default_config_def f64_as_u64_def)
  have "should_include ?f ''eth0''"
    by (simp add: should_include_def should_include_interface_def starts_with_def)
  then have names: "{''eth0''} = {n \<in> \<Union> (op_names ` set ?ops). should_include ?f n}"
    by auto
  have s: "last_sample_at ?s = None" "sampler_config ?s = default_config"
    by (simp_all add: with_config_def load_from_file_def purge_expired_def normalized_def default_config_def)
  have c: "nics default_config = []" "detect_interval_seconds default_config = 2"
    by (simp_all add: default_config_def)
  have "readings id Tx ''eth0'' ?ops ?s = [10, 17]"
    by (simp add: s c sample_due_def sample_frame flush_frame flush_last_sample nic_allowed_def counter_readings_def
        u64_as_f64_def saturating_sub_u64_def)
  then have sum: "(\<Sum>n \<in> {''eth0''}. increments (readings id Tx n ?ops ?s)) = 7" by simp
  have within: "list_all (op_within 100 (unat (preserve_ttl id (normalized default_config)))) ?ops"
    by (simp add: ttl)
  have keeps: "\<forall>n \<in> {''eth0''}. list_all (op_keeps n) ?ops" by simp
  have fits: "(\<Sum>n \<in> {''eth0''}. increments (readings id Tx n ?ops ?s)) < 2 ^ 63"
    unfolding sum by simp
  show ?thesis
    using traffic_accounted [OF HOL.refl within names keeps fits] unfolding sum by (simp only: of_nat_numeral)
qed

section \<open>Restart\<close>

text \<open>
  What a flush saved is what a new sampler starts with: if the JSON codec reads back what it writes and no
  entry has expired since, every period has the same totals after the restart as before.
\<close>

lemma history_survives_restart:
  assumes "flush rnd env ts s = (Inr content, s')"
    and codec: "\<And>file b. env_encode env file = Inr b \<Longrightarrow> parse (str_of_bytes b) = Some file \<and> trim (str_of_bytes b) \<noteq> []"
    and "entries_since t (sampler_store s')" and "data_preserve_days (sampler_config s) \<noteq> 0"
    and "unat now \<le> t + unat (preserve_ttl rnd (sampler_config s))"
  shows "total_between (with_config rnd parse (Some (str_of_bytes content)) now c) start stop f
    = total_between s' start stop f"
proof -
  define s1 where "s1 = purge_expired rnd ts (flush_cache ts s)"
  have saved: "env_encode env \<lparr>file_interfaces = sampler_store s', file_config = sampler_config s\<rparr> = Inr content"
    and cache: "sampler_cache s' = []" and store: "sampler_store s' = sampler_store s1"
    using assms(1)
    by (auto simp: flush_def s1_def [symmetric] save_to_file_def bind_result_Inr_iff Let_def flush_cache_def
        split: sum.splits) (simp_all add: s1_def flush_cache_def)
  let ?s0 = "fst (load_from_file parse (Some (str_of_bytes content))
      \<lparr>sampler_config = normalized c, sampler_store = [], sampler_cache = [], last_counters = (\<lambda>_. None),
       last_sample_at = None, last_save_at = None\<rparr>)"
  have load: "sampler_store ?s0 = sampler_store s'" "sampler_cache ?s0 = []"
      "data_preserve_days (sampler_config ?s0) = data_preserve_days (sampler_config s)"
    using codec [OF saved] assms(4) by (simp_all add: load_from_file_def Let_def)
  have "preserve_ttl rnd (sampler_config ?s0) = preserve_ttl rnd (sampler_config s)"
    by (simp only: preserve_ttl_def load)
  then have "unat (saturating_sub_u64 now (preserve_ttl rnd (sampler_config ?s0))) \<le> t"
    using assms(5) by (simp add: unat_saturating_sub)
  then have "sampler_store (purge_expired rnd now ?s0) = filter (\<lambda>(k, es). es \<noteq> []) (sampler_store s')"
    using assms(3) purge_store [of t ?s0 now rnd] load by (simp add: unat_saturating_sub)
  moreover have "filter (\<lambda>(k, es). es \<noteq> []) (sampler_store s') = sampler_store s'"
    by (auto simp: store s1_def purge_expired_def Let_def filter_id_conv)
  ultimately show ?thesis
    by (simp add: total_between_def with_config_def cache load(2))
qed

end
