(* ===== verification/Protocol.thy ===== *)
theory Protocol
  imports Transport RustNet
begin

text \<open>
  The agent's side of the backend protocol, \<open>protocol.rs\<close>: the addresses of the WebSockets and the messages
  of the backend.  The conversion of host names to ASCII is \<open>idna\<close>'s and the JSON parser is \<open>serde_json\<close>'s; both
  are parameters.  Percent encoding is written out again in this file, byte for byte as in \<open>transport.rs\<close>.
\<close>

section \<open>Addresses\<close>

datatype ProtocolError =
    NoEndpoint
  | NoToken
  | NoTerminalId
  | InvalidMessage string
  | UnknownScheme string

fun show_protocol_error :: "ProtocolError \<Rightarrow> string" where
  "show_protocol_error NoEndpoint = ''endpoint is required''"
| "show_protocol_error NoToken = ''token is required''"
| "show_protocol_error NoTerminalId = ''terminal id is required''"
| "show_protocol_error (InvalidMessage error) = ''invalid backend message: '' @ error"
| "show_protocol_error (UnknownScheme scheme) = ''unsupported endpoint scheme: '' @ scheme"

definition non_empty_string :: "string \<Rightarrow> string option" where
  "non_empty_string v = (let v = trim v in if v = [] then None else Some v)"

definition require_value :: "string \<Rightarrow> ProtocolError \<Rightarrow> ProtocolError + string" where
  "require_value v error = (let v = trim v in if v = [] then Inl error else Inr v)"

definition authority_with_ascii_host :: "(string \<Rightarrow> string option) \<Rightarrow> string \<Rightarrow> string" where
  "authority_with_ascii_host domain_to_ascii authority =
     (if starts_with authority ''['' then authority
      else
        let (host, port) =
              (if count_char (CHR '':'') authority = 1
               then (case split_once (CHR '':'') authority of
                       Some (host, port) \<Rightarrow> (host, '':'' @ port)
                     | None \<Rightarrow> (authority, []))
               else (authority, [])) in
        if parse_ip_addr host \<noteq> None \<or> host = [] then authority
        else (case domain_to_ascii host of Some h \<Rightarrow> h | None \<Rightarrow> host) @ port)"

definition endpoint_rest_with_ascii_host :: "(string \<Rightarrow> string option) \<Rightarrow> string \<Rightarrow> string" where
  "endpoint_rest_with_ascii_host domain_to_ascii rest =
     (let (authority, suffix) =
            (case split_once (CHR ''/'') rest of
               Some (authority, suffix) \<Rightarrow> (authority, ''/'' @ suffix)
             | None \<Rightarrow> (rest, [])) in
      authority_with_ascii_host domain_to_ascii authority @ suffix)"

definition normalize_ws_base :: "(string \<Rightarrow> string option) \<Rightarrow> string \<Rightarrow> ProtocolError + string" where
  "normalize_ws_base domain_to_ascii endpoint =
     (let endpoint = trim_end_matches (CHR ''/'') (trim endpoint);
          rest_of = endpoint_rest_with_ascii_host domain_to_ascii in
      if endpoint = [] then Inl NoEndpoint
      else case strip_prefix ''https://'' endpoint of
        Some rest \<Rightarrow> Inr (''wss://'' @ rest_of rest)
      | None \<Rightarrow> (case strip_prefix ''http://'' endpoint of
          Some rest \<Rightarrow> Inr (''ws://'' @ rest_of rest)
        | None \<Rightarrow> (case strip_prefix ''wss://'' endpoint of
            Some rest \<Rightarrow> Inr (''wss://'' @ rest_of rest)
          | None \<Rightarrow> (case strip_prefix ''ws://'' endpoint of
              Some rest \<Rightarrow> Inr (''ws://'' @ rest_of rest)
            | None \<Rightarrow>
                Inl (UnknownScheme
                       (case split_once_str ''://'' endpoint of
                          Some (scheme, _) \<Rightarrow> scheme
                        | None \<Rightarrow> ''missing''))))))"

definition build_ws_url ::
  "(string \<Rightarrow> string option) \<Rightarrow> string \<Rightarrow> string \<Rightarrow> (string \<times> string) list \<Rightarrow> ProtocolError + string" where
  "build_ws_url domain_to_ascii endpoint path query =
     bind_result (normalize_ws_base domain_to_ascii endpoint) (\<lambda>base.
       Inr (base @ path @ ''?'' @ join_str ''&'' (map (\<lambda>(key, v). key @ ''='' @ percent_encode v) query)))"

definition build_report_ws_url :: "(string \<Rightarrow> string option) \<Rightarrow> string \<Rightarrow> string \<Rightarrow> ProtocolError + string" where
  "build_report_ws_url domain_to_ascii endpoint tok =
     bind_result (require_value tok NoToken) (\<lambda>tok.
       build_ws_url domain_to_ascii endpoint ''/api/clients/report'' [(''token'', tok)])"

definition build_tunnel_control_ws_url ::
  "(string \<Rightarrow> string option) \<Rightarrow> string \<Rightarrow> string \<Rightarrow> ProtocolError + string" where
  "build_tunnel_control_ws_url domain_to_ascii endpoint tok =
     bind_result (require_value tok NoToken) (\<lambda>tok.
       build_ws_url domain_to_ascii endpoint ''/api/clients/tunnel'' [(''token'', tok)])"

definition build_tunnel_data_ws_url ::
  "(string \<Rightarrow> string option) \<Rightarrow> string \<Rightarrow> string \<Rightarrow> ProtocolError + string" where
  "build_tunnel_data_ws_url domain_to_ascii endpoint tok =
     bind_result (require_value tok NoToken) (\<lambda>tok.
       build_ws_url domain_to_ascii endpoint ''/api/clients/tunnel/data'' [(''token'', tok)])"

definition build_terminal_ws_url ::
  "(string \<Rightarrow> string option) \<Rightarrow> string \<Rightarrow> string \<Rightarrow> string \<Rightarrow> ProtocolError + string" where
  "build_terminal_ws_url domain_to_ascii endpoint tok terminal_id =
     bind_result (require_value tok NoToken) (\<lambda>tok.
     bind_result (require_value terminal_id NoTerminalId) (\<lambda>terminal_id.
       build_ws_url domain_to_ascii endpoint ''/api/clients/terminal'' [(''token'', tok), (''id'', terminal_id)]))"

definition build_tunnel_data_ktp_tcp_url :: "string \<Rightarrow> ProtocolError + string" where
  "build_tunnel_data_ktp_tcp_url addr =
     bind_result (require_value addr NoEndpoint) (\<lambda>addr.
       Inr (if starts_with addr ''ktp+tcp://'' then addr
            else if starts_with addr ''ktp+tls://'' then addr
            else case strip_prefix ''tcp://'' addr of
              Some rest \<Rightarrow> ''ktp+tcp://'' @ rest
            | None \<Rightarrow> (case strip_prefix ''tls://'' addr of
                Some rest \<Rightarrow> ''ktp+tls://'' @ rest
              | None \<Rightarrow> ''ktp+tcp://'' @ addr)))"

section \<open>Messages\<close>

datatype BackendMessage =
    CnConnectivityProbeMessage bool "string option" int int int int
  | TerminalMessage string
  | ExecMessage string string
  | PingMessage u32 string string
  | UnknownMessage "string option"

record RawBackendMessage =
  raw_message :: "string option"
  raw_request_id :: "string option"
  raw_command :: "string option"
  raw_task_id :: "string option"
  raw_ping_task_id :: "u32 option"
  raw_ping_type :: "string option"
  raw_ping_target :: "string option"
  raw_cn_enabled :: "bool option"
  raw_cn_target :: "string option"
  raw_cn_interval :: "int option"
  raw_cn_retry_attempts :: "int option"
  raw_cn_retry_delay_seconds :: "int option"
  raw_cn_timeout_seconds :: "int option"

definition unwrap_or :: "'a option \<Rightarrow> 'a \<Rightarrow> 'a" where
  "unwrap_or x d = (case x of None \<Rightarrow> d | Some y \<Rightarrow> y)"

definition given :: "string option \<Rightarrow> bool" where
  "given x \<longleftrightarrow> (case x of None \<Rightarrow> False | Some v \<Rightarrow> trim v \<noteq> [])"

definition parse_backend_message ::
  "(bytes \<Rightarrow> string + RawBackendMessage) \<Rightarrow> bytes \<Rightarrow> ProtocolError + BackendMessage" where
  "parse_backend_message from_slice bs =
     bind_result (map_err InvalidMessage (from_slice bs)) (\<lambda>raw.
       let message = Option.bind (raw_message raw) non_empty_string;
           request_id = Option.bind (raw_request_id raw) non_empty_string in
       Inr (if message = Some ''cn_connectivity_probe_config'' then
              CnConnectivityProbeMessage
                (unwrap_or (raw_cn_enabled raw) False)
                (Option.bind (raw_cn_target raw) non_empty_string)
                (unwrap_or (raw_cn_interval raw) 60)
                (unwrap_or (raw_cn_retry_attempts raw) 3)
                (unwrap_or (raw_cn_retry_delay_seconds raw) 1)
                (unwrap_or (raw_cn_timeout_seconds raw) 5)
            else if (message = Some ''terminal'' \<or> given (raw_request_id raw)) \<and> request_id \<noteq> None then
              TerminalMessage (the request_id)
            else if message = Some ''exec'' then
              ExecMessage
                (unwrap_or (Option.bind (raw_task_id raw) non_empty_string) [])
                (unwrap_or (Option.bind (raw_command raw) non_empty_string) [])
            else if message = Some ''ping'' \<or> unwrap_or (raw_ping_task_id raw) 0 \<noteq> 0
                \<or> given (raw_ping_type raw) \<or> given (raw_ping_target raw) then
              PingMessage
                (unwrap_or (raw_ping_task_id raw) 0)
                (unwrap_or (Option.bind (raw_ping_type raw) non_empty_string) [])
                (unwrap_or (Option.bind (raw_ping_target raw) non_empty_string) [])
            else UnknownMessage message))"

text \<open>From \<open>transport.rs\<close>: what cannot be read is an unknown message.\<close>

definition parse_socket_message :: "(bytes \<Rightarrow> string + RawBackendMessage) \<Rightarrow> bytes \<Rightarrow> BackendMessage" where
  "parse_socket_message from_slice bs =
     (case parse_backend_message from_slice bs of Inl _ \<Rightarrow> UnknownMessage None | Inr m \<Rightarrow> m)"

section \<open>Lemmas\<close>

lemma set_authority:
  assumes "\<And>h a. CHR ''?'' \<notin> set h \<Longrightarrow> domain_to_ascii h = Some a \<Longrightarrow> CHR ''?'' \<notin> set a"
    and "CHR ''?'' \<notin> set authority"
  shows "CHR ''?'' \<notin> set (authority_with_ascii_host domain_to_ascii authority)"
proof -
  have part: "CHR ''?'' \<notin> set h \<and> CHR ''?'' \<notin> set p"
    if "split_once (CHR '':'') authority = Some (h, p)" for h p
    using split_once_Some [OF that] assms(2) by auto
  show ?thesis
    using assms part
    by (auto simp: authority_with_ascii_host_def Let_def split: option.splits if_splits dest!: assms(1) [rotated])
qed

lemma set_rest:
  assumes "\<And>h a. CHR ''?'' \<notin> set h \<Longrightarrow> domain_to_ascii h = Some a \<Longrightarrow> CHR ''?'' \<notin> set a"
    and "CHR ''?'' \<notin> set rest"
  shows "CHR ''?'' \<notin> set (endpoint_rest_with_ascii_host domain_to_ascii rest)"
proof (cases "split_once (CHR ''/'') rest")
  case None
  then show ?thesis
    using set_authority [OF assms] by (simp add: endpoint_rest_with_ascii_host_def)
next
  case (Some ab)
  obtain a b where ab: "ab = (a, b)" by fastforce
  then have "rest = a @ CHR ''/'' # b" using split_once_Some [of "CHR ''/''" rest a b] Some by simp
  then have "CHR ''?'' \<notin> set a" "CHR ''?'' \<notin> set b" using assms(2) by auto
  then show ?thesis
    using set_authority [OF assms(1), where authority = a] Some ab by (simp add: endpoint_rest_with_ascii_host_def)
qed

text \<open>The scheme of the address and its characters.\<close>

lemma ws_base:
  assumes "normalize_ws_base domain_to_ascii endpoint = Inr base"
    and "\<And>h a. CHR ''?'' \<notin> set h \<Longrightarrow> domain_to_ascii h = Some a \<Longrightarrow> CHR ''?'' \<notin> set a"
    and "CHR ''?'' \<notin> set endpoint"
  shows "CHR ''?'' \<notin> set base
    \<and> (starts_with base ''wss://'' \<longleftrightarrow>
        starts_with (trim_end_matches (CHR ''/'') (trim endpoint)) ''https://''
        \<or> starts_with (trim_end_matches (CHR ''/'') (trim endpoint)) ''wss://'')"
proof -
  define ep where "ep = trim_end_matches (CHR ''/'') (trim endpoint)"
  have "set ep \<subseteq> set endpoint"
    using set_trim [of endpoint] set_trim_end_matches [of "CHR ''/''" "trim endpoint"] by (auto simp: ep_def)
  then have "CHR ''?'' \<notin> set ep" using assms(3) by auto
  then have rest: "CHR ''?'' \<notin> set (endpoint_rest_with_ascii_host domain_to_ascii r)"
    if "strip_prefix p ep = Some r" for p r
    using that set_rest [OF assms(2)] by (auto simp: strip_prefix_iff)
  show ?thesis
    using assms(1) rest
    unfolding normalize_ws_base_def Let_def ep_def [symmetric]
    by (auto simp: starts_with_def strip_prefix_iff split: if_splits option.splits)
qed

lemma ws_url_shape:
  assumes "build_ws_url domain_to_ascii endpoint path ((''token'', tok) # params) = Inr url"
  obtains base more_query where "normalize_ws_base domain_to_ascii endpoint = Inr base"
    "url = (base @ path) @ CHR ''?'' # ''token='' @ percent_encode tok @ more_query"
    "more_query = [] \<or> (\<exists>r. more_query = CHR ''&'' # r)"
proof -
  obtain base where base: "normalize_ws_base domain_to_ascii endpoint = Inr base"
      and url: "url = base @ path @ ''?''
        @ join_str ''&'' (map (\<lambda>(key, v). key @ ''='' @ percent_encode v) ((''token'', tok) # params))"
    using assms by (auto simp: build_ws_url_def bind_result_Inr_iff)
  show thesis
  proof (cases params)
    case Nil
    then show thesis using base url that [of base "[]"] by simp
  next
    case (Cons x xs)
    then show thesis using base url by (intro that [of base]) (auto split: prod.splits)
  qed
qed



end
