(* ===== verification/CnConnectivity.thy ===== *)
theory CnConnectivity
  imports Protocol
begin

text \<open>
  The connectivity probe, \<open>cn_connectivity.rs\<close>: its configuration, probing the targets with retries, the shared
  state with the last result and the failure streak, and the handler that takes new configurations from the
  backend.  The state is behind a lock whose poisoning is ignored.  Probing a target, waiting and reading
  the clock are functions on a state \<open>'p\<close>.  The probe runs in a thread of its own and does not hold the lock
  while it probes; \<open>cn_exec\<close> interleaves it with messages of the backend.
\<close>

section \<open>Configuration\<close>

type_synonym i32 = int

record CnConnectivityProbeConfig =
  cn_enabled :: bool
  cn_targets :: "string list"
  cn_targets_key :: string
  cn_interval_seconds :: i32
  cn_retry_attempts :: i32
  cn_retry_delay_seconds :: i32
  cn_timeout_seconds :: i32

definition cn_default_config :: CnConnectivityProbeConfig where
  "cn_default_config =
     \<lparr>cn_enabled = False, cn_targets = [], cn_targets_key = [], cn_interval_seconds = 60, cn_retry_attempts = 3,
      cn_retry_delay_seconds = 1, cn_timeout_seconds = 5\<rparr>"

definition positive_or_default :: "i32 \<Rightarrow> i32 \<Rightarrow> i32" where
  "positive_or_default v d = (if 0 < v then v else d)"

definition target_separator :: "char \<Rightarrow> bool" where
  "target_separator c \<longleftrightarrow> c \<in> {char_of (10 :: nat), char_of (13 :: nat), CHR '','', CHR '';''}"

definition add_target :: "string \<Rightarrow> string list \<Rightarrow> string list" where
  "add_target t targets =
     (let t = trim t in if t \<noteq> [] \<and> \<not> list_ex (\<lambda>x. x = t) targets then targets @ [t] else targets)"

definition parse_targets :: "string \<Rightarrow> string list" where
  "parse_targets v = fold add_target (split_by target_separator v) []"

definition from_backend ::
  "bool \<Rightarrow> string option \<Rightarrow> i32 \<Rightarrow> i32 \<Rightarrow> i32 \<Rightarrow> i32 \<Rightarrow> CnConnectivityProbeConfig" where
  "from_backend enabled target interval_seconds retry_attempts retry_delay_seconds timeout_seconds =
     (let targets = parse_targets (unwrap_or target []) in
      \<lparr>cn_enabled = (enabled \<and> targets \<noteq> []), cn_targets = targets,
       cn_targets_key = join_str [char_of (10 :: nat)] targets,
       cn_interval_seconds = positive_or_default interval_seconds 60,
       cn_retry_attempts = positive_or_default retry_attempts 3,
       cn_retry_delay_seconds = positive_or_default retry_delay_seconds 1,
       cn_timeout_seconds = positive_or_default timeout_seconds 5\<rparr>)"

section \<open>Probing\<close>

record CnConnectivityProbeResult =
  cn_status :: string
  cn_target :: string
  cn_latency :: "int option"
  cn_message :: string
  cn_checked_at :: "string option"
  cn_consecutive_failures :: "u32 option"

record 'p prober =
  probe_target :: "string \<Rightarrow> 'p \<Rightarrow> (string + int) \<times> 'p"
  wait_retry :: "'p \<Rightarrow> 'p"
  probe_clock :: "'p \<Rightarrow> string"

text \<open>The loop over the attempts that are left, with the error of the last.\<close>

fun attempt_loop :: "'p prober \<Rightarrow> string \<Rightarrow> nat \<Rightarrow> string option \<Rightarrow> 'p \<Rightarrow> (string option + int) \<times> 'p" where
  "attempt_loop pr target 0 last_error p = (Inl last_error, p)"
| "attempt_loop pr target (Suc n) last_error p =
     (case probe_target pr target p of
        (Inr latency, p) \<Rightarrow> (Inr latency, p)
      | (Inl error, p) \<Rightarrow> attempt_loop pr target n (Some error) (if 0 < n then wait_retry pr p else p))"

definition probe_target_with_retries ::
  "'p prober \<Rightarrow> string \<Rightarrow> i32 \<Rightarrow> 'p \<Rightarrow> CnConnectivityProbeResult \<times> 'p" where
  "probe_target_with_retries pr target retry_attempts p =
     (let attempts = positive_or_default retry_attempts 3 in
      case attempt_loop pr target (nat attempts) None p of
        (Inr latency, p) \<Rightarrow>
          (\<lparr>cn_status = ''ok'', cn_target = target, cn_latency = Some latency, cn_message = ''icmp reachable'',
            cn_checked_at = Some (probe_clock pr p), cn_consecutive_failures = None\<rparr>, p)
      | (Inl last_error, p) \<Rightarrow>
          (\<lparr>cn_status = ''degraded'', cn_target = target, cn_latency = None,
            cn_message =
              (case last_error of
                 Some error \<Rightarrow>
                   if attempts = 1 then error
                   else error @ '' after '' @ show_nat (nat attempts) @ '' attempts''
               | None \<Rightarrow> ''connectivity probe failed''),
            cn_checked_at = Some (probe_clock pr p), cn_consecutive_failures = None\<rparr>, p))"

text \<open>The loop over the targets that are left, with the failures so far.\<close>

fun targets_loop ::
  "'p prober \<Rightarrow> i32 \<Rightarrow> string list \<Rightarrow> string list \<Rightarrow> 'p
   \<Rightarrow> (string list + CnConnectivityProbeResult) \<times> 'p" where
  "targets_loop pr retry_attempts [] failures p = (Inl failures, p)"
| "targets_loop pr retry_attempts (target # targets) failures p =
     (case probe_target_with_retries pr target retry_attempts p of
        (result, p) \<Rightarrow>
          if cn_status result = ''ok'' then (Inr result, p)
          else targets_loop pr retry_attempts targets (failures @ [target @ '': '' @ cn_message result]) p)"

definition probe_targets_with_retries ::
  "'p prober \<Rightarrow> CnConnectivityProbeConfig \<Rightarrow> 'p \<Rightarrow> CnConnectivityProbeResult \<times> 'p" where
  "probe_targets_with_retries pr c p =
     (if cn_targets c = [] then
        (\<lparr>cn_status = ''degraded'', cn_target = [], cn_latency = None, cn_message = ''no targets configured'',
          cn_checked_at = Some (probe_clock pr p), cn_consecutive_failures = None\<rparr>, p)
      else case targets_loop pr (cn_retry_attempts c) (cn_targets c) [] p of
        (Inr result, p) \<Rightarrow> (result, p)
      | (Inl failures, p) \<Rightarrow>
          (\<lparr>cn_status = ''degraded'', cn_target = join_str '', '' (cn_targets c), cn_latency = None,
            cn_message = join_str ''; '' failures, cn_checked_at = Some (probe_clock pr p),
            cn_consecutive_failures = None\<rparr>, p))"

section \<open>State\<close>

record CnConnectivityInner =
  cn_config :: CnConnectivityProbeConfig
  cn_result :: "CnConnectivityProbeResult option"
  cn_failures :: u32

definition cn_default :: CnConnectivityInner where
  "cn_default = \<lparr>cn_config = cn_default_config, cn_result = None, cn_failures = 0\<rparr>"

definition FAILURE_LIMIT :: u32 where
  "FAILURE_LIMIT = 2"

definition update_config :: "CnConnectivityProbeConfig \<Rightarrow> CnConnectivityInner \<Rightarrow> CnConnectivityInner" where
  "update_config c inner =
     (if cn_config inner = c then inner
      else
        inner\<lparr>cn_failures := 0,
          cn_result :=
            (if cn_enabled c then
               Some \<lparr>cn_status = ''unknown'', cn_target = cn_targets c ! 0, cn_latency = None,
                 cn_message = ''waiting for probe'', cn_checked_at = None, cn_consecutive_failures = None\<rparr>
             else None),
          cn_config := c\<rparr>)"

definition store_probe_result ::
  "CnConnectivityProbeConfig \<Rightarrow> CnConnectivityProbeResult \<Rightarrow> CnConnectivityInner \<Rightarrow> CnConnectivityInner" where
  "store_probe_result c result inner =
     (if cn_config inner \<noteq> c \<or> \<not> cn_enabled (cn_config inner) then inner
      else if cn_status result = ''ok'' then
        inner\<lparr>cn_failures := 0, cn_result := Some (result\<lparr>cn_consecutive_failures := None\<rparr>)\<rparr>
      else
        let failures = cn_failures inner + 1 in
        inner\<lparr>cn_failures := failures,
          cn_result :=
            Some (result\<lparr>cn_status := (if FAILURE_LIMIT \<le> failures then ''blocked_suspected'' else ''degraded''),
                         cn_consecutive_failures := Some failures\<rparr>)\<rparr>)"

text \<open>\<open>meanwhile\<close> is what other threads do to the state while the probe runs.\<close>

definition probe_once_with ::
  "'p prober \<Rightarrow> (CnConnectivityInner \<Rightarrow> CnConnectivityInner) \<Rightarrow> CnConnectivityInner \<times> 'p \<Rightarrow> CnConnectivityInner \<times> 'p" where
  "probe_once_with pr meanwhile s =
     (case s of (inner, p) \<Rightarrow>
        let c = cn_config inner in
        if \<not> cn_enabled c then (inner, p)
        else (case probe_targets_with_retries pr c p of
                (result, p) \<Rightarrow> (store_probe_result c result (meanwhile inner), p)))"

text \<open>
  The prober of the agent: a ping that gives the latency, negative when it failed, and a sleep of the
  given number of seconds.
\<close>

definition icmp_prober ::
  "(nat \<Rightarrow> string \<Rightarrow> 'p \<Rightarrow> int \<times> 'p) \<Rightarrow> (nat \<Rightarrow> 'p \<Rightarrow> 'p) \<Rightarrow> ('p \<Rightarrow> string) \<Rightarrow> CnConnectivityProbeConfig \<Rightarrow> 'p prober" where
  "icmp_prober ping sleep clk c =
     \<lparr>probe_target = (\<lambda>target p.
        case ping (nat (max (cn_timeout_seconds c) 1)) target p of
          (v, p) \<Rightarrow> (if 0 \<le> v then Inr v else Inl ''connectivity probe failed'', p)),
      wait_retry = sleep (nat (max (cn_retry_delay_seconds c) 1)),
      probe_clock = clk\<rparr>"

definition probe_once ::
  "(nat \<Rightarrow> string \<Rightarrow> 'p \<Rightarrow> int \<times> 'p) \<Rightarrow> (nat \<Rightarrow> 'p \<Rightarrow> 'p) \<Rightarrow> ('p \<Rightarrow> string)
   \<Rightarrow> (CnConnectivityInner \<Rightarrow> CnConnectivityInner) \<Rightarrow> CnConnectivityInner \<times> 'p \<Rightarrow> CnConnectivityInner \<times> 'p" where
  "probe_once ping sleep clk meanwhile s =
     probe_once_with (icmp_prober ping sleep clk (cn_config (fst s))) meanwhile s"

text \<open>
  One round of the probe thread, with the sleep after it.  The thread looks at the configuration and then
  starts the probe, which looks at it again; \<open>before\<close> is what other threads do in between.
\<close>

definition probe_round ::
  "(nat \<Rightarrow> string \<Rightarrow> 'p \<Rightarrow> int \<times> 'p) \<Rightarrow> (nat \<Rightarrow> 'p \<Rightarrow> 'p) \<Rightarrow> ('p \<Rightarrow> string)
   \<Rightarrow> (CnConnectivityInner \<Rightarrow> CnConnectivityInner) \<Rightarrow> (CnConnectivityInner \<Rightarrow> CnConnectivityInner)
   \<Rightarrow> CnConnectivityInner \<times> 'p \<Rightarrow> CnConnectivityInner \<times> 'p" where
  "probe_round ping sleep clk before meanwhile s =
     (case s of (inner, p) \<Rightarrow>
        let c = cn_config inner in
        if cn_enabled c then
          (case probe_once ping sleep clk meanwhile (before inner, p) of
             (inner, p) \<Rightarrow> (inner, sleep (nat (max (cn_interval_seconds c) 1)) p))
        else (inner, sleep 1 p))"

text \<open>The handler of backend messages; it also prints an event.\<close>

fun cn_handle :: "BackendMessage \<Rightarrow> CnConnectivityInner \<Rightarrow> CnConnectivityInner" where
  "cn_handle (CnConnectivityProbeMessage enabled target interval_seconds retry_attempts retry_delay_seconds
      timeout_seconds) inner =
     update_config
       (from_backend enabled target interval_seconds retry_attempts retry_delay_seconds timeout_seconds) inner"
| "cn_handle _ inner = inner"

section \<open>Probes\<close>

text \<open>
  A prober whose outcomes are given in advance, with the numbers of probes and of waits so far.  Once the
  outcomes are used up every probe fails.
\<close>

record probe_script =
  outcomes :: "(string + int) list"
  probes :: nat
  waits :: nat

definition script_prober :: "probe_script prober" where
  "script_prober =
     \<lparr>probe_target = (\<lambda>_ p. (case outcomes p of [] \<Rightarrow> Inl [] | x # _ \<Rightarrow> x,
        p\<lparr>outcomes := tl (outcomes p), probes := probes p + 1\<rparr>)),
      wait_retry = (\<lambda>p. p\<lparr>waits := waits p + 1\<rparr>), probe_clock = (\<lambda>_. [])\<rparr>"

text \<open>The attempts stop at the first success; there is a wait between two attempts and none after the last.\<close>

lemma attempt_loop_success:
  assumes "k < n" and "map isl (take (Suc k) (outcomes p)) = replicate k True @ [False]"
  shows "attempt_loop script_prober target n e p =
    (Inr (projr (outcomes p ! k)), p\<lparr>outcomes := drop (Suc k) (outcomes p), probes := probes p + Suc k, waits := waits p + k\<rparr>)"
  using assms
proof (induction k arbitrary: n e p)
  case 0
  then obtain l os where "outcomes p = Inr l # os"
    by (cases "outcomes p"; cases "hd (outcomes p)") auto
  then show ?case using 0 by (cases n) (simp_all add: script_prober_def)
next
  case (Suc k)
  then obtain x os m where os: "outcomes p = Inl x # os" and n: "n = Suc m"
    by (cases "outcomes p"; cases "hd (outcomes p)"; cases n) auto
  let ?p = "p\<lparr>outcomes := os, probes := probes p + 1, waits := waits p + 1\<rparr>"
  have "attempt_loop script_prober target m (Some x) ?p =
      (Inr (projr (os ! k)), ?p\<lparr>outcomes := drop (Suc k) os, probes := probes p + 1 + Suc k, waits := waits p + 1 + k\<rparr>)"
    using Suc.IH [of m ?p] Suc.prems os n by simp
  then show ?case
    using Suc.prems(1) by (simp add: script_prober_def os n)
qed

lemma attempt_loop_failure:
  assumes "\<forall>k < n. k < length (outcomes p) \<longrightarrow> isl (outcomes p ! k)" and "0 < n"
  shows "\<exists>e'. attempt_loop script_prober target n e p =
    (Inl (Some e'), p\<lparr>outcomes := drop n (outcomes p), probes := probes p + n, waits := waits p + (n - 1)\<rparr>)"
  using assms
proof (induction n arbitrary: e p)
  case (Suc n)
  obtain x where x: "probe_target script_prober target p =
      (Inl x, p\<lparr>outcomes := tl (outcomes p), probes := probes p + 1\<rparr>)"
    using Suc.prems(1) by (cases "outcomes p"; cases "hd (outcomes p)") (force simp: script_prober_def)+
  show ?case
  proof (cases "n = 0")
    case True
    then show ?thesis using x by (simp add: drop_Suc)
  next
    case False
    let ?p = "p\<lparr>outcomes := tl (outcomes p), probes := probes p + 1, waits := waits p + 1\<rparr>"
    have "\<forall>k < n. k < length (outcomes ?p) \<longrightarrow> isl (outcomes ?p ! k)"
      using Suc.prems(1) by (auto simp: nth_tl)
    then obtain e' where "attempt_loop script_prober target n (Some x) ?p =
        (Inl (Some e'), ?p\<lparr>outcomes := drop n (tl (outcomes p)), probes := probes p + 1 + n, waits := waits p + 1 + (n - 1)\<rparr>)"
      using Suc.IH [of ?p "Some x"] False by auto
    then show ?thesis
      using x False by (simp add: script_prober_def drop_Suc)
  qed
qed simp

lemma probe_status:
  "cn_status (fst (probe_target_with_retries pr t n p)) \<in> {''ok'', ''degraded''}"
  "cn_status (fst (probe_targets_with_retries pr c p)) \<in> {''ok'', ''degraded''}"
proof -
  show one: "cn_status (fst (probe_target_with_retries pr t n p)) \<in> {''ok'', ''degraded''}" for t n p
    by (auto simp: probe_target_with_retries_def Let_def split: prod.split sum.split)
  have "cn_status r = ''ok''" if "targets_loop pr n ts fs p = (Inr r, p')" for n ts fs p r p'
    using that by (induction pr n ts fs p rule: targets_loop.induct) (auto split: prod.splits if_splits)
  then show "cn_status (fst (probe_targets_with_retries pr c p)) \<in> {''ok'', ''degraded''}"
    by (auto simp: probe_targets_with_retries_def split: prod.split sum.split)
qed

definition targets_ok :: "string list \<Rightarrow> bool" where
  "targets_ok ts \<longleftrightarrow> distinct ts \<and> list_all (\<lambda>t. t \<noteq> [] \<and> trim t = t) ts"

lemma add_target_ok: "targets_ok ts \<Longrightarrow> targets_ok (add_target t ts)"
  by (cases "trim t = [] \<or> trim t \<in> set ts") (auto simp: targets_ok_def add_target_def Let_def list_ex_iff)

lemma parse_targets_ok: "targets_ok (parse_targets v)"
proof -
  have "targets_ok (fold add_target ts acc)" if "targets_ok acc" for ts acc
    using that by (induction ts arbitrary: acc) (simp_all add: add_target_ok)
  then show ?thesis by (simp add: parse_targets_def targets_ok_def)
qed

section \<open>Reports\<close>

text \<open>
  The probe thread and the backend's messages interleaved: the probe looks at the configuration when it
  begins and stores its result when it has finished; messages may come in between.
\<close>

record cn_sys =
  cn_inner :: CnConnectivityInner
  cn_probe :: "CnConnectivityProbeConfig option"

datatype cn_event = Message BackendMessage | Begin | Finish CnConnectivityProbeResult

fun cn_exec :: "cn_event \<Rightarrow> cn_sys \<Rightarrow> cn_sys" where
  "cn_exec (Message m) s = s\<lparr>cn_inner := cn_handle m (cn_inner s)\<rparr>"
| "cn_exec Begin s =
     (if cn_probe s = None \<and> cn_enabled (cn_config (cn_inner s))
      then s\<lparr>cn_probe := Some (cn_config (cn_inner s))\<rparr> else s)"
| "cn_exec (Finish r) s =
     (case cn_probe s of
        None \<Rightarrow> s
      | Some c \<Rightarrow> s\<lparr>cn_inner := store_probe_result c r (cn_inner s), cn_probe := None\<rparr>)"

definition cn_run :: "cn_event list \<Rightarrow> cn_sys" where
  "cn_run evs = fold cn_exec evs \<lparr>cn_inner = cn_default, cn_probe = None\<rparr>"

lemma probe_once_is_run:
  assumes "cn_enabled (cn_config inner)"
    and "probe_targets_with_retries pr (cn_config inner) p = (r, p')"
  shows "probe_once_with pr (fold cn_handle ms) (inner, p) =
    (cn_inner (fold cn_exec ([Begin] @ map Message ms @ [Finish r]) \<lparr>cn_inner = inner, cn_probe = None\<rparr>), p')"
proof -
  have "fold cn_exec (map Message ms) s = s\<lparr>cn_inner := fold cn_handle ms (cn_inner s)\<rparr>" for s
    by (induction ms arbitrary: s) simp_all
  then show ?thesis using assms by (simp add: probe_once_with_def)
qed

text \<open>
  The specification remembers the results of the current configuration, the latest first, and nothing of
  earlier ones; the report is a function of them.
\<close>

record cn_spec =
  sp_config :: CnConnectivityProbeConfig
  sp_results :: "CnConnectivityProbeResult list"
  sp_probe :: "CnConnectivityProbeConfig option"

definition message_config :: "BackendMessage \<Rightarrow> CnConnectivityProbeConfig option" where
  "message_config m =
     (case m of CnConnectivityProbeMessage enabled target i a d t \<Rightarrow> Some (from_backend enabled target i a d t) | _ \<Rightarrow> None)"

fun spec_exec :: "cn_event \<Rightarrow> cn_spec \<Rightarrow> cn_spec" where
  "spec_exec (Message m) s =
     (case message_config m of
        None \<Rightarrow> s
      | Some c \<Rightarrow> if c = sp_config s then s else s\<lparr>sp_config := c, sp_results := []\<rparr>)"
| "spec_exec Begin s =
     (if sp_probe s = None \<and> cn_enabled (sp_config s) then s\<lparr>sp_probe := Some (sp_config s)\<rparr> else s)"
| "spec_exec (Finish r) s =
     (case sp_probe s of
        None \<Rightarrow> s
      | Some c \<Rightarrow>
          if c = sp_config s then s\<lparr>sp_probe := None, sp_results := r # sp_results s\<rparr>
          else s\<lparr>sp_probe := None\<rparr>)"

definition spec_run :: "cn_event list \<Rightarrow> cn_spec" where
  "spec_run evs = fold spec_exec evs \<lparr>sp_config = cn_default_config, sp_results = [], sp_probe = None\<rparr>"

definition failed :: "CnConnectivityProbeResult \<Rightarrow> bool" where
  "failed r \<longleftrightarrow> cn_status r \<noteq> ''ok''"

definition streak :: "CnConnectivityProbeResult list \<Rightarrow> nat" where
  "streak rs = length (takeWhile failed rs)"

definition spec_report :: "cn_spec \<Rightarrow> CnConnectivityProbeResult option" where
  "spec_report s =
     (if \<not> cn_enabled (sp_config s) then None
      else Some (case sp_results s of
        [] \<Rightarrow>
          \<lparr>cn_status = ''unknown'', cn_target = hd (cn_targets (sp_config s)), cn_latency = None,
           cn_message = ''waiting for probe'', cn_checked_at = None, cn_consecutive_failures = None\<rparr>
      | r # _ \<Rightarrow>
          if failed r then
            r\<lparr>cn_status := (if 2 \<le> streak (sp_results s) then ''blocked_suspected'' else ''degraded''),
              cn_consecutive_failures := Some (of_nat (streak (sp_results s)))\<rparr>
          else r\<lparr>cn_consecutive_failures := None\<rparr>))"

definition cn_sim :: "cn_sys \<Rightarrow> cn_spec \<Rightarrow> bool" where
  "cn_sim s a \<longleftrightarrow>
     cn_config (cn_inner s) = sp_config a \<and> cn_probe s = sp_probe a
     \<and> cn_result (cn_inner s) = spec_report a
     \<and> cn_failures (cn_inner s) = of_nat (streak (sp_results a))
     \<and> (\<forall>c. sp_probe a = Some c \<longrightarrow> cn_enabled c)
     \<and> (cn_enabled (sp_config a) \<longrightarrow> cn_targets (sp_config a) \<noteq> [])"

lemma streak_simps [simp]: "streak [] = 0" "streak (r # rs) = (if failed r then Suc (streak rs) else 0)"
  by (simp_all add: streak_def)

lemma spec_report_probe [simp]: "spec_report (a\<lparr>sp_probe := p\<rparr>) = spec_report a"
  by (simp add: spec_report_def split: list.split)

lemma sim_update:
  assumes "cn_sim s a" and "c \<noteq> sp_config a" and "cn_enabled c \<longrightarrow> cn_targets c \<noteq> []"
  shows "cn_sim (s\<lparr>cn_inner := update_config c (cn_inner s)\<rparr>) (a\<lparr>sp_config := c, sp_results := []\<rparr>)"
  using assms by (auto simp: cn_sim_def update_config_def spec_report_def hd_conv_nth)

lemma handle_message:
  "cn_handle m inner = (case message_config m of None \<Rightarrow> inner | Some c \<Rightarrow> update_config c inner)"
  by (cases m) (simp_all add: message_config_def)

lemma message_config_ok: "message_config m = Some c \<Longrightarrow> cn_enabled c \<longrightarrow> cn_targets c \<noteq> []"
  by (cases m) (auto simp: message_config_def from_backend_def Let_def)

lemma sim_message:
  assumes "cn_sim s a"
  shows "cn_sim (cn_exec (Message m) s) (spec_exec (Message m) a)"
proof (cases "message_config m")
  case None
  then show ?thesis using assms by (simp add: handle_message)
next
  case (Some c)
  show ?thesis
  proof (cases "c = sp_config a")
    case True
    then have "update_config c (cn_inner s) = cn_inner s"
      using assms by (simp add: cn_sim_def update_config_def)
    then show ?thesis using assms Some True by (simp add: handle_message)
  next
    case False
    then show ?thesis
      using sim_update [OF assms False message_config_ok [OF Some]] Some by (simp add: handle_message)
  qed
qed

lemma failure_limit:
  "Suc n < 2 ^ 32 \<Longrightarrow> FAILURE_LIMIT \<le> of_nat n + 1 \<longleftrightarrow> 2 \<le> Suc n"
proof -
  assume n: "Suc n < 2 ^ 32"
  have "unat (of_nat (Suc n) :: u32) = Suc n"
    using n by (simp only: unat_of_nat) (simp add: take_bit_eq_mod)
  then show ?thesis by (simp add: FAILURE_LIMIT_def word_le_nat_alt add.commute)
qed

lemma sim_finish:
  assumes "cn_sim s a" and "Suc (length (sp_results a)) < 2 ^ 32"
  shows "cn_sim (cn_exec (Finish r) s) (spec_exec (Finish r) a)"
proof (cases "sp_probe a")
  case None
  then show ?thesis using assms(1) by (simp add: cn_sim_def)
next
  case (Some c)
  show ?thesis
  proof (cases "c = sp_config a")
    case True
    have "streak (sp_results a) \<le> length (sp_results a)"
      by (simp add: streak_def length_takeWhile_le)
    then have "FAILURE_LIMIT \<le> of_nat (streak (sp_results a)) + 1 \<longleftrightarrow> 2 \<le> Suc (streak (sp_results a))"
      using assms(2) by (intro failure_limit) simp
    then show ?thesis
      using assms(1) Some True
      by (simp add: cn_sim_def store_probe_result_def spec_report_def failed_def Let_def add.commute)
  next
    case False
    then show ?thesis
      using assms(1) Some by (simp add: cn_sim_def store_probe_result_def)
  qed
qed

lemma sim_exec:
  assumes "cn_sim s a" and "Suc (length (sp_results a)) < 2 ^ 32"
  shows "cn_sim (cn_exec e s) (spec_exec e a)"
proof (cases e)
  case Begin
  then show ?thesis using assms(1) by (auto simp: cn_sim_def)
qed (use sim_message [OF assms(1)] sim_finish [OF assms] in simp_all)

lemma spec_results_bound: "length (sp_results (spec_exec e a)) \<le> Suc (length (sp_results a))"
  by (cases e) (auto split: option.splits)

lemma sim_run:
  assumes "cn_sim s a" and "length (sp_results a) + length evs < 2 ^ 32"
  shows "cn_sim (fold cn_exec evs s) (fold spec_exec evs a)"
  using assms
proof (induction evs arbitrary: s a)
  case (Cons e evs)
  have "cn_sim (cn_exec e s) (spec_exec e a)"
    by (rule sim_exec [OF Cons.prems(1)]) (use Cons.prems(2) in simp)
  moreover have "length (sp_results (spec_exec e a)) + length evs < 2 ^ 32"
    using spec_results_bound [of e a] Cons.prems(2) by simp
  ultimately show ?case using Cons.IH by simp
qed simp

text \<open>
  Claim C27.  The connectivity report is a function of the probes of the current configuration.  However the
  probes and the messages of the backend interleave, the agent reports nothing while probing is off,
  "unknown" before the first result, the latest result if it succeeded, and otherwise the latest failure
  with the length of the current streak: "degraded" for one failure, "blocked_suspected" for two or more.
  A probe that began under another configuration does not count, a configuration that is sent again changes
  nothing, and a new one starts afresh.  The run has fewer than \<open>2 ^ 32\<close> events, as the counter needs.
\<close>
theorem cn_report_right:
  assumes "length evs < 2 ^ 32"
  shows "cn_result (cn_inner (cn_run evs)) = spec_report (spec_run evs)"
proof -
  have "cn_sim \<lparr>cn_inner = cn_default, cn_probe = None\<rparr>
      \<lparr>sp_config = cn_default_config, sp_results = [], sp_probe = None\<rparr>"
    by (simp add: cn_sim_def cn_default_def cn_default_config_def spec_report_def)
  then have "cn_sim (cn_run evs) (spec_run evs)"
    unfolding cn_run_def spec_run_def by (rule sim_run) (use assms in simp)
  then show ?thesis by (simp add: cn_sim_def)
qed

theorem cn_report_right_witness:
  "map_option cn_status
     (cn_result (cn_inner (cn_run
        [Message (CnConnectivityProbeMessage True (Some ''1.1.1.1'') 60 3 1 5), Begin,
         Finish (fst (probe_targets_with_retries script_prober
           (from_backend True (Some ''1.1.1.1'') 60 3 1 5) \<lparr>outcomes = [], probes = 0, waits = 0\<rparr>)), Begin,
         Finish (fst (probe_targets_with_retries script_prober
           (from_backend True (Some ''1.1.1.1'') 60 3 1 5) \<lparr>outcomes = [], probes = 0, waits = 0\<rparr>))])))
   = Some ''blocked_suspected''"
proof -
  let ?c = "from_backend True (Some ''1.1.1.1'') 60 3 1 5"
  let ?r = "fst (probe_targets_with_retries script_prober ?c \<lparr>outcomes = [], probes = 0, waits = 0\<rparr>)"
  let ?evs = "[Message (CnConnectivityProbeMessage True (Some ''1.1.1.1'') 60 3 1 5), Begin, Finish ?r, Begin, Finish ?r]"
  have r: "cn_status ?r = ''degraded''" by code_simp
  have c: "cn_enabled ?c" by code_simp
  then have "?c \<noteq> cn_default_config" by (auto simp: cn_default_config_def)
  then have "spec_run ?evs = \<lparr>sp_config = ?c, sp_results = [?r, ?r], sp_probe = None\<rparr>"
    using c by (simp add: spec_run_def message_config_def cn_default_config_def)
  then show ?thesis
    using cn_report_right [of ?evs] c r by (simp add: spec_report_def failed_def)
qed

end
