(* ===== verification/Config.thy ===== *)
theory Config
  imports RustText TunnelCarrier TunnelQueue
begin

text \<open>
  The configuration of the agent, \<open>config.rs\<close>: the command line, the environment and a JSON file are read one
  after the other into the same variables, and the result is checked.  The environment is a function, the
  file system and the JSON parser are parameters, and so are the rounding and the printing of \<open>f64\<close>.
\<close>

section \<open>Data\<close>

text \<open>The field \<open>interval_seconds\<close> is \<open>None\<close> if it is not finite.\<close>

record AgentConfig =
  cfg_endpoint :: string
  cfg_token :: string
  cfg_auto_discovery_key :: string
  cfg_insecure :: bool
  cfg_disable_web_ssh :: bool
  cfg_tunnel_control_enabled :: bool
  cfg_tunnel_data_enabled :: bool
  cfg_tunnel_ktp_tcp_address :: string
  cfg_tunnel_ktp_tls_ca_cert :: string
  cfg_tunnel_ktp_tcp_auth_version :: KtpTcpAuthVersion
  cfg_tunnel_ktp_relay_batch_policy :: TunnelRelayBatchPolicy
  cfg_tunnel_ktp_relay_batch_tuning :: TunnelRelayBatchTuning
  cfg_interval_seconds :: "rat option"
  cfg_max_retries :: u32
  cfg_reconnect_interval_seconds :: u64
  cfg_info_report_interval_minutes :: u64
  cfg_cf_access_client_id :: string
  cfg_cf_access_client_secret :: string
  cfg_include_nics :: string
  cfg_exclude_nics :: string
  cfg_include_mountpoints :: string
  cfg_custom_ipv4 :: string
  cfg_custom_ipv6 :: string
  cfg_custom_dns :: string
  cfg_get_ip_addr_from_nic :: bool
  cfg_memory_include_cache :: bool
  cfg_memory_report_raw_used :: bool
  cfg_enable_gpu :: bool
  cfg_month_rotate :: u32
  cfg_host_proc :: string
  cfg_once :: bool

datatype ConfigError =
    MissingEndpoint
  | MissingToken
  | MissingValue string
  | InvalidValue string string
  | ConfigFileRead string
  | ConfigFileParse string
  | UnknownArgument string

fun show_config_error :: "ConfigError \<Rightarrow> string" where
  "show_config_error MissingEndpoint = ''endpoint is required''"
| "show_config_error MissingToken = ''token is required''"
| "show_config_error (MissingValue flag) = flag @ '' requires a value''"
| "show_config_error (InvalidValue flag v) = flag @ '' has invalid value: '' @ v"
| "show_config_error (ConfigFileRead message) = ''failed to read config file: '' @ message"
| "show_config_error (ConfigFileParse message) = ''failed to parse config file: '' @ message"
| "show_config_error (UnknownArgument arg) = ''unknown argument: '' @ arg"

record FileConfig =
  fc_endpoint :: "string option"
  fc_token :: "string option"
  fc_auto_discovery_key :: "string option"
  fc_ignore_unsafe_cert :: "bool option"
  fc_disable_web_ssh :: "bool option"
  fc_tunnel_control_enabled :: "bool option"
  fc_tunnel_data_enabled :: "bool option"
  fc_tunnel_ktp_tcp_address :: "string option"
  fc_tunnel_ktp_tls_ca_cert :: "string option"
  fc_tunnel_ktp_tcp_auth_version :: "string option"
  fc_tunnel_ktp_relay_batch_policy :: "string option"
  fc_adaptive_high_sessions :: "usize option"
  fc_adaptive_elevated_dwell_us :: "u64 option"
  fc_adaptive_severe_dwell_us :: "u64 option"
  fc_adaptive_elevated_cap :: "usize option"
  fc_adaptive_severe_cap :: "usize option"
  fc_interval :: "f64_value option"
  fc_max_retries :: "u32 option"
  fc_reconnect_interval :: "u64 option"
  fc_info_report_interval :: "u64 option"
  fc_cf_access_client_id :: "string option"
  fc_cf_access_client_secret :: "string option"
  fc_include_nics :: "string option"
  fc_exclude_nics :: "string option"
  fc_include_mountpoints :: "string option"
  fc_custom_ipv4 :: "string option"
  fc_custom_ipv6 :: "string option"
  fc_custom_dns :: "string option"
  fc_get_ip_addr_from_nic :: "bool option"
  fc_memory_include_cache :: "bool option"
  fc_memory_report_raw_used :: "bool option"
  fc_enable_gpu :: "bool option"
  fc_month_rotate :: "u32 option"
  fc_host_proc :: "string option"

record config_io =
  ci_round :: "rat \<Rightarrow> rat option"
  ci_show_f64 :: "f64_value \<Rightarrow> string"
  ci_read_to_string :: "string \<Rightarrow> string + string"
  ci_from_str :: "string \<Rightarrow> string + FileConfig"

definition read_file_config :: "config_io \<Rightarrow> string \<Rightarrow> ConfigError + FileConfig" where
  "read_file_config io path =
     bind_result (map_err (\<lambda>error. ConfigFileRead (path @ '': '' @ error)) (ci_read_to_string io path)) (\<lambda>contents.
       map_err (\<lambda>error. ConfigFileParse (path @ '': '' @ error)) (ci_from_str io contents))"

text \<open>
  The variables of \<open>from_args_and_env\<close>.  Those that end up in the result as they are stand in \<open>lc_config\<close>;
  the three others are its \<open>endpoint\<close>, \<open>token\<close> and \<open>auto_discovery_key\<close>.
\<close>

record config_locals =
  lc_endpoint :: "string option"
  lc_token :: "string option"
  lc_auto_discovery_key :: "string option"
  lc_policy_explicit :: bool
  lc_config_file :: string
  lc_config :: AgentConfig

definition on_config :: "(AgentConfig \<Rightarrow> AgentConfig) \<Rightarrow> config_locals \<Rightarrow> config_locals" where
  "on_config f l = l\<lparr>lc_config := f (lc_config l)\<rparr>"

definition on_tuning :: "(TunnelRelayBatchTuning \<Rightarrow> TunnelRelayBatchTuning) \<Rightarrow> config_locals \<Rightarrow> config_locals" where
  "on_tuning f = on_config (\<lambda>c. c\<lparr>cfg_tunnel_ktp_relay_batch_tuning := f (cfg_tunnel_ktp_relay_batch_tuning c)\<rparr>)"

section \<open>Values\<close>

definition clean_required :: "string \<Rightarrow> string \<Rightarrow> ConfigError + string option" where
  "clean_required v flag = (let v = trim v in if v = [] then Inl (MissingValue flag) else Inr (Some v))"

definition next_value :: "string list \<Rightarrow> string \<Rightarrow> ConfigError + string \<times> string list" where
  "next_value args flag =
     (case args of
        [] \<Rightarrow> Inl (MissingValue flag)
      | v # rest \<Rightarrow>
          (case clean_required v flag of
             Inl e \<Rightarrow> Inl e
           | Inr None \<Rightarrow> Inl (MissingValue flag)
           | Inr (Some v) \<Rightarrow> Inr (v, rest)))"

definition clean_optional :: "string option \<Rightarrow> string option" where
  "clean_optional v = Option.bind v (\<lambda>v. let v = trim v in if v = [] then None else Some v)"

definition clean_config_required_string :: "string \<Rightarrow> string option" where
  "clean_config_required_string v = (let v = trim v in if v = [] then None else Some v)"

definition clean_config_string :: "string \<Rightarrow> string" where
  "clean_config_string v = trim v"

definition parse_bool :: "string \<Rightarrow> bool" where
  "parse_bool v \<longleftrightarrow> to_ascii_lowercase (trim v) \<in> {''1'', ''true''}"

definition parse_tunnel_control_enabled :: "string \<Rightarrow> bool option" where
  "parse_tunnel_control_enabled v =
     (let v = to_ascii_lowercase (trim v) in
      if v \<in> {''1'', ''true'', ''enabled'', ''enable'', ''auto'', ''on'', ''yes''} then Some True
      else if v \<in> {''0'', ''false'', ''disabled'', ''disable'', ''off'', ''no''} then Some False
      else None)"

definition parse_tunnel_relay_batch_policy :: "string \<Rightarrow> string \<Rightarrow> ConfigError + TunnelRelayBatchPolicy" where
  "parse_tunnel_relay_batch_policy flag v =
     (case batch_policy_parse (to_ascii_lowercase (trim v)) of
        Some policy \<Rightarrow> Inr policy
      | None \<Rightarrow> Inl (InvalidValue flag (trim v)))"

definition parse_ktp_tcp_auth_version :: "string \<Rightarrow> string \<Rightarrow> ConfigError + KtpTcpAuthVersion" where
  "parse_ktp_tcp_auth_version flag v =
     (let lower = to_ascii_lowercase (trim v) in
      if lower \<in> {''1'', ''v1'', ''kta1''} then Inr V1
      else if lower \<in> {''2'', ''v2'', ''kta2''} then Inr V2
      else Inl (InvalidValue flag (trim v)))"

definition validate_positive_f64 :: "config_io \<Rightarrow> string \<Rightarrow> f64_value \<Rightarrow> ConfigError + rat" where
  "validate_positive_f64 io flag parsed =
     (case f64_rat parsed of
        None \<Rightarrow> Inl (InvalidValue flag (ci_show_f64 io parsed))
      | Some x \<Rightarrow> if x \<le> 0 then Inl (InvalidValue flag (ci_show_f64 io parsed)) else Inr x)"

definition cfg_parse_f64 :: "config_io \<Rightarrow> string \<Rightarrow> string \<Rightarrow> ConfigError + rat" where
  "cfg_parse_f64 io flag v =
     (case parse_f64_str (ci_round io) (trim v) of
        None \<Rightarrow> Inl (InvalidValue flag v)
      | Some parsed \<Rightarrow> validate_positive_f64 io flag parsed)"

definition cfg_parse_u32 :: "string \<Rightarrow> string \<Rightarrow> ConfigError + u32" where
  "cfg_parse_u32 flag v =
     (case parse_unsigned (2 ^ 32 - 1) (trim v) of
        None \<Rightarrow> Inl (InvalidValue flag v)
      | Some n \<Rightarrow> Inr (of_nat n))"

definition validate_positive_usize :: "string \<Rightarrow> usize \<Rightarrow> ConfigError + usize" where
  "validate_positive_usize flag parsed = (if parsed = 0 then Inl (InvalidValue flag (show_nat parsed)) else Inr parsed)"

definition cfg_parse_usize :: "string \<Rightarrow> string \<Rightarrow> ConfigError + usize" where
  "cfg_parse_usize flag v =
     (case parse_unsigned usize_max (trim v) of
        None \<Rightarrow> Inl (InvalidValue flag v)
      | Some n \<Rightarrow> validate_positive_usize flag n)"

definition validate_positive_u64 :: "string \<Rightarrow> u64 \<Rightarrow> ConfigError + u64" where
  "validate_positive_u64 flag parsed = (if parsed = 0 then Inl (InvalidValue flag (show_nat (unat parsed))) else Inr parsed)"

definition parse_u64_allow_zero :: "string \<Rightarrow> string \<Rightarrow> ConfigError + u64" where
  "parse_u64_allow_zero flag v =
     (case parse_unsigned (2 ^ 64 - 1) (trim v) of
        None \<Rightarrow> Inl (InvalidValue flag v)
      | Some n \<Rightarrow> Inr (of_nat n))"

definition cfg_parse_u64 :: "string \<Rightarrow> string \<Rightarrow> ConfigError + u64" where
  "cfg_parse_u64 flag v = bind_result (parse_u64_allow_zero flag v) (validate_positive_u64 flag)"

definition validate_tunnel_relay_batch_tuning :: "TunnelRelayBatchTuning \<Rightarrow> ConfigError + unit" where
  "validate_tunnel_relay_batch_tuning t =
     (if severe_dwell_p95_micros t < elevated_dwell_p95_micros t then
        Inl (InvalidValue ''--tunnel-ktp-relay-adaptive-severe-dwell-us''
          (show_nat (unat (severe_dwell_p95_micros t)) @ '' < '' @ show_nat (unat (elevated_dwell_p95_micros t))))
      else if elevated_batch_cap t < severe_batch_cap t then
        Inl (InvalidValue ''--tunnel-ktp-relay-adaptive-severe-cap''
          (show_nat (severe_batch_cap t) @ '' > '' @ show_nat (elevated_batch_cap t)))
      else Inr ())"

section \<open>The command line\<close>

text \<open>
  The arms of the \<open>match\<close> on an argument, in the order of the source.  A setter takes the name of the flag for
  error messages and the value.
\<close>

type_synonym setter = "string \<Rightarrow> string \<Rightarrow> config_locals \<Rightarrow> ConfigError + config_locals"

definition text_value :: "(string \<Rightarrow> config_locals \<Rightarrow> config_locals) \<Rightarrow> setter" where
  "text_value f flag v l = Inr (f v l)"

definition cleaned_value :: "(string \<Rightarrow> config_locals \<Rightarrow> config_locals) \<Rightarrow> setter" where
  "cleaned_value f flag v l = bind_result (clean_required v flag) (\<lambda>v. Inr (f (the v) l))"

definition parsed_value :: "(string \<Rightarrow> string \<Rightarrow> ConfigError + 'a) \<Rightarrow> ('a \<Rightarrow> config_locals \<Rightarrow> config_locals) \<Rightarrow> setter" where
  "parsed_value p f flag v l = bind_result (p flag v) (\<lambda>x. Inr (f x l))"

definition set_endpoint :: "string \<Rightarrow> config_locals \<Rightarrow> config_locals" where
  "set_endpoint v l = l\<lparr>lc_endpoint := Some v\<rparr>"

definition set_token :: "string \<Rightarrow> config_locals \<Rightarrow> config_locals" where
  "set_token v l = l\<lparr>lc_token := Some v\<rparr>"

definition set_auto_discovery_key :: "string \<Rightarrow> config_locals \<Rightarrow> config_locals" where
  "set_auto_discovery_key v l = l\<lparr>lc_auto_discovery_key := Some v\<rparr>"

definition set_batch_policy :: "TunnelRelayBatchPolicy \<Rightarrow> config_locals \<Rightarrow> config_locals" where
  "set_batch_policy p l = (on_config (\<lambda>c. c\<lparr>cfg_tunnel_ktp_relay_batch_policy := p\<rparr>) l)\<lparr>lc_policy_explicit := True\<rparr>"

definition switch_flags :: "(string list \<times> (config_locals \<Rightarrow> config_locals)) list" where
  "switch_flags =
     [([''--insecure''], on_config (\<lambda>c. c\<lparr>cfg_insecure := True\<rparr>)),
      ([''--ignore-unsafe-cert''], on_config (\<lambda>c. c\<lparr>cfg_insecure := True\<rparr>)),
      ([''-u''], on_config (\<lambda>c. c\<lparr>cfg_insecure := True\<rparr>)),
      ([''--disable-web-ssh''], on_config (\<lambda>c. c\<lparr>cfg_disable_web_ssh := True\<rparr>)),
      ([''--once''], on_config (\<lambda>c. c\<lparr>cfg_once := True\<rparr>)),
      ([''--get-ip-addr-from-nic''], on_config (\<lambda>c. c\<lparr>cfg_get_ip_addr_from_nic := True\<rparr>)),
      ([''--memory-include-cache''], on_config (\<lambda>c. c\<lparr>cfg_memory_include_cache := True\<rparr>)),
      ([''--memory-exclude-bcf''], on_config (\<lambda>c. c\<lparr>cfg_memory_report_raw_used := True\<rparr>)),
      ([''--memory-mode-available'', ''-memory-mode-available''], \<lambda>l. l),
      ([''--enable-gpu'', ''--gpu''], on_config (\<lambda>c. c\<lparr>cfg_enable_gpu := True\<rparr>))]"

definition server_flags :: "(string list \<times> string \<times> setter) list" where
  "server_flags =
     [([''--endpoint''], ''--endpoint'', text_value set_endpoint),
      ([''-e''], ''-e'', text_value set_endpoint),
      ([''--token''], ''--token'', text_value set_token),
      ([''-t''], ''-t'', text_value set_token),
      ([''--auto-discovery''], ''--auto-discovery'', text_value set_auto_discovery_key)]"

definition ktp_flags :: "(string list \<times> string \<times> setter) list" where
  "ktp_flags =
     [([''--tunnel-ktp-tcp-address'', ''--ktp-tcp-address''], ''--tunnel-ktp-tcp-address'',
        text_value (\<lambda>v. on_config (\<lambda>c. c\<lparr>cfg_tunnel_ktp_tcp_address := v\<rparr>))),
      ([''--tunnel-ktp-tls-ca-cert'', ''--ktp-tls-ca-cert''], ''--tunnel-ktp-tls-ca-cert'',
        text_value (\<lambda>v. on_config (\<lambda>c. c\<lparr>cfg_tunnel_ktp_tls_ca_cert := v\<rparr>))),
      ([''--tunnel-ktp-tcp-auth-version'', ''--ktp-tcp-auth-version''], ''--tunnel-ktp-tcp-auth-version'',
        parsed_value parse_ktp_tcp_auth_version (\<lambda>v. on_config (\<lambda>c. c\<lparr>cfg_tunnel_ktp_tcp_auth_version := v\<rparr>))),
      ([''--tunnel-ktp-relay-batch-policy'', ''--ktp-relay-batch-policy''], ''--tunnel-ktp-relay-batch-policy'',
        parsed_value parse_tunnel_relay_batch_policy set_batch_policy),
      ([''--tunnel-ktp-relay-adaptive-high-sessions'', ''--ktp-relay-adaptive-high-sessions''],
        ''--tunnel-ktp-relay-adaptive-high-sessions'',
        parsed_value cfg_parse_usize (\<lambda>v. on_tuning (\<lambda>t. t\<lparr>high_session_threshold := v\<rparr>))),
      ([''--tunnel-ktp-relay-adaptive-elevated-dwell-us'', ''--ktp-relay-adaptive-elevated-dwell-us''],
        ''--tunnel-ktp-relay-adaptive-elevated-dwell-us'',
        parsed_value cfg_parse_u64 (\<lambda>v. on_tuning (\<lambda>t. t\<lparr>elevated_dwell_p95_micros := v\<rparr>))),
      ([''--tunnel-ktp-relay-adaptive-severe-dwell-us'', ''--ktp-relay-adaptive-severe-dwell-us''],
        ''--tunnel-ktp-relay-adaptive-severe-dwell-us'',
        parsed_value cfg_parse_u64 (\<lambda>v. on_tuning (\<lambda>t. t\<lparr>severe_dwell_p95_micros := v\<rparr>))),
      ([''--tunnel-ktp-relay-adaptive-elevated-cap'', ''--ktp-relay-adaptive-elevated-cap''],
        ''--tunnel-ktp-relay-adaptive-elevated-cap'',
        parsed_value cfg_parse_usize (\<lambda>v. on_tuning (\<lambda>t. t\<lparr>elevated_batch_cap := v\<rparr>))),
      ([''--tunnel-ktp-relay-adaptive-severe-cap'', ''--ktp-relay-adaptive-severe-cap''],
        ''--tunnel-ktp-relay-adaptive-severe-cap'',
        parsed_value cfg_parse_usize (\<lambda>v. on_tuning (\<lambda>t. t\<lparr>severe_batch_cap := v\<rparr>)))]"

definition set_interval :: "rat \<Rightarrow> config_locals \<Rightarrow> config_locals" where
  "set_interval x = on_config (\<lambda>c. c\<lparr>cfg_interval_seconds := Some x\<rparr>)"

definition set_max_retries :: "u32 \<Rightarrow> config_locals \<Rightarrow> config_locals" where
  "set_max_retries n = on_config (\<lambda>c. c\<lparr>cfg_max_retries := n\<rparr>)"

definition set_reconnect_interval :: "u64 \<Rightarrow> config_locals \<Rightarrow> config_locals" where
  "set_reconnect_interval n = on_config (\<lambda>c. c\<lparr>cfg_reconnect_interval_seconds := n\<rparr>)"

definition set_config_file :: "string \<Rightarrow> config_locals \<Rightarrow> config_locals" where
  "set_config_file v l = l\<lparr>lc_config_file := v\<rparr>"

definition report_flags :: "config_io \<Rightarrow> (string list \<times> string \<times> setter) list" where
  "report_flags io =
     [([''--interval''], ''--interval'', parsed_value (cfg_parse_f64 io) set_interval),
      ([''-i''], ''-i'', parsed_value (cfg_parse_f64 io) set_interval),
      ([''--max-retries''], ''--max-retries'', parsed_value cfg_parse_u32 set_max_retries),
      ([''-r''], ''-r'', parsed_value cfg_parse_u32 set_max_retries),
      ([''--reconnect-interval''], ''--reconnect-interval'', parsed_value cfg_parse_u64 set_reconnect_interval),
      ([''-c''], ''-c'', parsed_value cfg_parse_u64 set_reconnect_interval),
      ([''--info-report-interval''], ''--info-report-interval'',
        parsed_value parse_u64_allow_zero (\<lambda>n. on_config (\<lambda>c. c\<lparr>cfg_info_report_interval_minutes := n\<rparr>))),
      ([''--cf-access-client-id''], ''--cf-access-client-id'',
        text_value (\<lambda>v. on_config (\<lambda>c. c\<lparr>cfg_cf_access_client_id := v\<rparr>))),
      ([''--cf-access-client-secret''], ''--cf-access-client-secret'',
        text_value (\<lambda>v. on_config (\<lambda>c. c\<lparr>cfg_cf_access_client_secret := v\<rparr>))),
      ([''--include-nics''], ''--include-nics'', text_value (\<lambda>v. on_config (\<lambda>c. c\<lparr>cfg_include_nics := v\<rparr>))),
      ([''--exclude-nics''], ''--exclude-nics'', text_value (\<lambda>v. on_config (\<lambda>c. c\<lparr>cfg_exclude_nics := v\<rparr>))),
      ([''--include-mountpoints'', ''--include-mountpoint''], ''--include-mountpoint'',
        text_value (\<lambda>v. on_config (\<lambda>c. c\<lparr>cfg_include_mountpoints := v\<rparr>))),
      ([''--custom-ipv4''], ''--custom-ipv4'', text_value (\<lambda>v. on_config (\<lambda>c. c\<lparr>cfg_custom_ipv4 := v\<rparr>))),
      ([''--custom-ipv6''], ''--custom-ipv6'', text_value (\<lambda>v. on_config (\<lambda>c. c\<lparr>cfg_custom_ipv6 := v\<rparr>))),
      ([''--custom-dns''], ''--custom-dns'', text_value (\<lambda>v. on_config (\<lambda>c. c\<lparr>cfg_custom_dns := v\<rparr>))),
      ([''--month-rotate''], ''--month-rotate'', parsed_value cfg_parse_u32 (\<lambda>n. on_config (\<lambda>c. c\<lparr>cfg_month_rotate := n\<rparr>))),
      ([''--host-proc''], ''--host-proc'', text_value (\<lambda>v. on_config (\<lambda>c. c\<lparr>cfg_host_proc := v\<rparr>))),
      ([''--config''], ''--config'', text_value set_config_file)]"

definition value_flags :: "config_io \<Rightarrow> (string list \<times> string \<times> setter) list" where
  "value_flags io = server_flags @ ktp_flags @ report_flags io"

text \<open>The arms for \<open>flag=value\<close>: the prefix, the name of the flag, and the setter for the rest.\<close>

definition report_assignments :: "config_io \<Rightarrow> (string \<times> string \<times> setter) list" where
  "report_assignments io =
     [(''--endpoint='', ''--endpoint'', cleaned_value set_endpoint),
      (''-e='', ''-e'', cleaned_value set_endpoint),
      (''--token='', ''--token'', cleaned_value set_token),
      (''-t='', ''-t'', cleaned_value set_token),
      (''--auto-discovery='', ''--auto-discovery'', cleaned_value set_auto_discovery_key),
      (''--interval='', ''--interval'', parsed_value (cfg_parse_f64 io) set_interval),
      (''-i='', ''-i'', parsed_value (cfg_parse_f64 io) set_interval),
      (''--max-retries='', ''--max-retries'', parsed_value cfg_parse_u32 set_max_retries),
      (''-r='', ''-r'', parsed_value cfg_parse_u32 set_max_retries),
      (''--reconnect-interval='', ''--reconnect-interval'', parsed_value cfg_parse_u64 set_reconnect_interval),
      (''-c='', ''-c'', parsed_value cfg_parse_u64 set_reconnect_interval),
      (''--info-report-interval='', ''--info-report-interval'',
        parsed_value parse_u64_allow_zero (\<lambda>n. on_config (\<lambda>c. c\<lparr>cfg_info_report_interval_minutes := n\<rparr>))),
      (''--cf-access-client-id='', ''--cf-access-client-id'',
        cleaned_value (\<lambda>v. on_config (\<lambda>c. c\<lparr>cfg_cf_access_client_id := v\<rparr>))),
      (''--cf-access-client-secret='', ''--cf-access-client-secret'',
        cleaned_value (\<lambda>v. on_config (\<lambda>c. c\<lparr>cfg_cf_access_client_secret := v\<rparr>))),
      (''--include-nics='', ''--include-nics'', cleaned_value (\<lambda>v. on_config (\<lambda>c. c\<lparr>cfg_include_nics := v\<rparr>))),
      (''--exclude-nics='', ''--exclude-nics'', cleaned_value (\<lambda>v. on_config (\<lambda>c. c\<lparr>cfg_exclude_nics := v\<rparr>))),
      (''--include-mountpoints='', ''--include-mountpoints'',
        cleaned_value (\<lambda>v. on_config (\<lambda>c. c\<lparr>cfg_include_mountpoints := v\<rparr>))),
      (''--include-mountpoint='', ''--include-mountpoint'',
        cleaned_value (\<lambda>v. on_config (\<lambda>c. c\<lparr>cfg_include_mountpoints := v\<rparr>))),
      (''--custom-ipv4='', ''--custom-ipv4'', cleaned_value (\<lambda>v. on_config (\<lambda>c. c\<lparr>cfg_custom_ipv4 := v\<rparr>))),
      (''--custom-ipv6='', ''--custom-ipv6'', cleaned_value (\<lambda>v. on_config (\<lambda>c. c\<lparr>cfg_custom_ipv6 := v\<rparr>))),
      (''--custom-dns='', ''--custom-dns'', cleaned_value (\<lambda>v. on_config (\<lambda>c. c\<lparr>cfg_custom_dns := v\<rparr>))),
      (''--month-rotate='', ''--month-rotate'',
        parsed_value cfg_parse_u32 (\<lambda>n. on_config (\<lambda>c. c\<lparr>cfg_month_rotate := n\<rparr>))),
      (''--host-proc='', ''--host-proc'', cleaned_value (\<lambda>v. on_config (\<lambda>c. c\<lparr>cfg_host_proc := v\<rparr>))),
      (''--config='', ''--config'', cleaned_value set_config_file)]"

definition ktp_assignments :: "(string \<times> string \<times> setter) list" where
  "ktp_assignments =
     concat (map (\<lambda>(name, s). [(''--tunnel-'' @ name @ ''='', ''--tunnel-'' @ name, s), (''--'' @ name @ ''='', ''--'' @ name, s)])
       [(''ktp-tcp-address'', cleaned_value (\<lambda>v. on_config (\<lambda>c. c\<lparr>cfg_tunnel_ktp_tcp_address := v\<rparr>))),
        (''ktp-tls-ca-cert'', cleaned_value (\<lambda>v. on_config (\<lambda>c. c\<lparr>cfg_tunnel_ktp_tls_ca_cert := v\<rparr>))),
        (''ktp-tcp-auth-version'',
          parsed_value parse_ktp_tcp_auth_version (\<lambda>v. on_config (\<lambda>c. c\<lparr>cfg_tunnel_ktp_tcp_auth_version := v\<rparr>))),
        (''ktp-relay-batch-policy'', parsed_value parse_tunnel_relay_batch_policy set_batch_policy),
        (''ktp-relay-adaptive-high-sessions'',
          parsed_value cfg_parse_usize (\<lambda>v. on_tuning (\<lambda>t. t\<lparr>high_session_threshold := v\<rparr>))),
        (''ktp-relay-adaptive-elevated-dwell-us'',
          parsed_value cfg_parse_u64 (\<lambda>v. on_tuning (\<lambda>t. t\<lparr>elevated_dwell_p95_micros := v\<rparr>))),
        (''ktp-relay-adaptive-severe-dwell-us'',
          parsed_value cfg_parse_u64 (\<lambda>v. on_tuning (\<lambda>t. t\<lparr>severe_dwell_p95_micros := v\<rparr>))),
        (''ktp-relay-adaptive-elevated-cap'',
          parsed_value cfg_parse_usize (\<lambda>v. on_tuning (\<lambda>t. t\<lparr>elevated_batch_cap := v\<rparr>))),
        (''ktp-relay-adaptive-severe-cap'',
          parsed_value cfg_parse_usize (\<lambda>v. on_tuning (\<lambda>t. t\<lparr>severe_batch_cap := v\<rparr>)))])"

definition assignments :: "config_io \<Rightarrow> (string \<times> string \<times> setter) list" where
  "assignments io = report_assignments io @ ktp_assignments"

text \<open>One argument: the new variables and the arguments that are left.  An argument that fits no arm is passed over.\<close>

definition take_arg :: "config_io \<Rightarrow> string \<Rightarrow> string list \<Rightarrow> config_locals \<Rightarrow> ConfigError + config_locals \<times> string list" where
  "take_arg io arg rest l =
     (case find (\<lambda>(names, _). arg \<in> set names) switch_flags of
        Some (_, f) \<Rightarrow> Inr (f l, rest)
      | None \<Rightarrow>
     (case find (\<lambda>(names, _). arg \<in> set names) (value_flags io) of
        Some (_, flag, s) \<Rightarrow>
          bind_result (next_value rest flag) (\<lambda>(v, rest). bind_result (s flag v l) (\<lambda>l. Inr (l, rest)))
      | None \<Rightarrow>
     (case find (\<lambda>(prefix, _). starts_with arg prefix) (assignments io) of
        Some (prefix, flag, s) \<Rightarrow> bind_result (s flag (drop (length prefix) arg) l) (\<lambda>l. Inr (l, rest))
      | None \<Rightarrow> Inr (l, rest))))"

lemma next_value_shorter: "next_value args flag = Inr (v, rest) \<Longrightarrow> length rest < length args"
  by (auto simp: next_value_def split: list.splits sum.splits option.splits)

lemma take_arg_shorter: "take_arg io arg rest l = Inr (l', rest') \<Longrightarrow> length rest' \<le> length rest"
  by (auto simp: take_arg_def result_simps dest!: next_value_shorter split: option.splits)

function args_loop :: "config_io \<Rightarrow> string list \<Rightarrow> config_locals \<Rightarrow> ConfigError + config_locals" where
  "args_loop io [] l = Inr l"
| "args_loop io (arg # rest) l =
     (case take_arg io arg rest l of Inl e \<Rightarrow> Inl e | Inr (l, rest) \<Rightarrow> args_loop io rest l)"
  by pat_completeness auto
termination
  by (relation "measure (\<lambda>(io, args, l). length args)") (auto dest: take_arg_shorter simp: less_Suc_eq_le)

declare args_loop.simps(2) [simp del]

section \<open>The environment\<close>

type_synonym environment = "string \<Rightarrow> string option"

definition env_bool :: "string option \<Rightarrow> bool" where
  "env_bool v = (case map_option parse_bool v of Some b \<Rightarrow> b | None \<Rightarrow> False)"

definition env_text :: "environment \<Rightarrow> string \<Rightarrow> string" where
  "env_text env key = (case clean_optional (env key) of Some v \<Rightarrow> v | None \<Rightarrow> [])"

text \<open>\<open>parse_env_f64\<close>, \<open>parse_env_u32\<close>, \<open>parse_env_u64\<close> and \<open>parse_env_u64_allow_zero\<close>, which never fail.\<close>

definition parse_env :: "(string \<Rightarrow> string \<Rightarrow> ConfigError + 'a) \<Rightarrow> environment \<Rightarrow> string \<Rightarrow> 'a \<Rightarrow> 'a" where
  "parse_env p env key dflt =
     (case clean_optional (env key) of
        Some v \<Rightarrow> (case p key v of Inr x \<Rightarrow> x | Inl _ \<Rightarrow> dflt)
      | None \<Rightarrow> dflt)"

definition env_defaults :: "config_io \<Rightarrow> environment \<Rightarrow> config_locals" where
  "env_defaults io env =
     \<lparr>lc_endpoint = clean_optional (env ''AGENT_ENDPOINT''),
      lc_token = clean_optional (env ''AGENT_TOKEN''),
      lc_auto_discovery_key = clean_optional (env ''AGENT_AUTO_DISCOVERY_KEY''),
      lc_policy_explicit = False,
      lc_config_file = env_text env ''AGENT_CONFIG_FILE'',
      lc_config =
        \<lparr>cfg_endpoint = [], cfg_token = [], cfg_auto_discovery_key = [],
         cfg_insecure = env_bool (case env ''AGENT_IGNORE_UNSAFE_CERT'' of Some v \<Rightarrow> Some v | None \<Rightarrow> env ''AGENT_INSECURE''),
         cfg_disable_web_ssh = env_bool (env ''AGENT_DISABLE_WEB_SSH''),
         cfg_tunnel_control_enabled =
           (case Option.bind (env ''AGENT_TUNNEL_CONTROL_ENABLED'') parse_tunnel_control_enabled of Some b \<Rightarrow> b | None \<Rightarrow> True),
         cfg_tunnel_data_enabled = False,
         cfg_tunnel_ktp_tcp_address = env_text env ''AGENT_TUNNEL_KTP_TCP_ADDRESS'',
         cfg_tunnel_ktp_tls_ca_cert = env_text env ''AGENT_TUNNEL_KTP_TLS_CA_CERT'',
         cfg_tunnel_ktp_tcp_auth_version = V1,
         cfg_tunnel_ktp_relay_batch_policy = Fixed,
         cfg_tunnel_ktp_relay_batch_tuning = batch_tuning_default,
         cfg_interval_seconds = Some (parse_env (cfg_parse_f64 io) env ''AGENT_INTERVAL'' 1),
         cfg_max_retries = parse_env cfg_parse_u32 env ''AGENT_MAX_RETRIES'' 3,
         cfg_reconnect_interval_seconds = parse_env cfg_parse_u64 env ''AGENT_RECONNECT_INTERVAL'' 5,
         cfg_info_report_interval_minutes = parse_env parse_u64_allow_zero env ''AGENT_INFO_REPORT_INTERVAL'' 5,
         cfg_cf_access_client_id = env_text env ''AGENT_CF_ACCESS_CLIENT_ID'',
         cfg_cf_access_client_secret = env_text env ''AGENT_CF_ACCESS_CLIENT_SECRET'',
         cfg_include_nics = env_text env ''AGENT_INCLUDE_NICS'',
         cfg_exclude_nics = env_text env ''AGENT_EXCLUDE_NICS'',
         cfg_include_mountpoints = env_text env ''AGENT_INCLUDE_MOUNTPOINTS'',
         cfg_custom_ipv4 = env_text env ''AGENT_CUSTOM_IPV4'',
         cfg_custom_ipv6 = env_text env ''AGENT_CUSTOM_IPV6'',
         cfg_custom_dns = env_text env ''AGENT_CUSTOM_DNS'',
         cfg_get_ip_addr_from_nic = env_bool (env ''AGENT_GET_IP_ADDR_FROM_NIC''),
         cfg_memory_include_cache = env_bool (env ''AGENT_MEMORY_INCLUDE_CACHE''),
         cfg_memory_report_raw_used = env_bool (env ''AGENT_MEMORY_REPORT_RAW_USED''),
         cfg_enable_gpu = env_bool (env ''AGENT_ENABLE_GPU''),
         cfg_month_rotate = parse_env cfg_parse_u32 env ''AGENT_MONTH_ROTATE'' 0,
         cfg_host_proc = env_text env ''HOST_PROC'',
         cfg_once = env_bool (env ''AGENT_ONCE'')\<rparr>\<rparr>"

text \<open>A phase is a list of steps, each of which may fail.\<close>

type_synonym config_step = "config_locals \<Rightarrow> ConfigError + config_locals"

fun run_steps :: "config_step list \<Rightarrow> config_step" where
  "run_steps [] l = Inr l"
| "run_steps (s # steps) l = bind_result (s l) (run_steps steps)"

text \<open>
  \<open>apply_string_env\<close> and \<open>apply_optional_string_env\<close>; \<open>apply_bool_true_env\<close>, \<open>apply_bool_env\<close>; \<open>apply_f64_env\<close>,
  \<open>apply_u32_env\<close>, \<open>apply_u64_env\<close> and \<open>apply_u64_env_allow_zero\<close>, which pass over what does not parse;
  \<open>apply_usize_env\<close>, \<open>apply_u64_env_strict\<close> and the two for an enumeration, which refuse it.
\<close>

definition apply_string_env :: "environment \<Rightarrow> string \<Rightarrow> (string \<Rightarrow> config_locals \<Rightarrow> config_locals) \<Rightarrow> config_step" where
  "apply_string_env env key f l = (case clean_optional (env key) of Some v \<Rightarrow> Inr (f v l) | None \<Rightarrow> Inr l)"

definition apply_bool_true_env :: "environment \<Rightarrow> string \<Rightarrow> (AgentConfig \<Rightarrow> AgentConfig) \<Rightarrow> config_step" where
  "apply_bool_true_env env key f l = Inr (if env_bool (env key) then on_config f l else l)"

definition apply_bool_env :: "environment \<Rightarrow> string \<Rightarrow> (bool \<Rightarrow> AgentConfig \<Rightarrow> AgentConfig) \<Rightarrow> config_step" where
  "apply_bool_env env key f l = Inr (case env key of Some v \<Rightarrow> on_config (f (parse_bool v)) l | None \<Rightarrow> l)"

definition apply_tunnel_control_enabled_env :: "environment \<Rightarrow> config_step" where
  "apply_tunnel_control_enabled_env env l =
     Inr (case Option.bind (env ''AGENT_TUNNEL_CONTROL_ENABLED'') parse_tunnel_control_enabled of
            Some b \<Rightarrow> on_config (\<lambda>c. c\<lparr>cfg_tunnel_control_enabled := b\<rparr>) l
          | None \<Rightarrow> l)"

definition apply_parsed_env ::
  "(string \<Rightarrow> string \<Rightarrow> ConfigError + 'a) \<Rightarrow> environment \<Rightarrow> string \<Rightarrow> ('a \<Rightarrow> config_locals \<Rightarrow> config_locals) \<Rightarrow> config_step" where
  "apply_parsed_env p env key f l =
     (case clean_optional (env key) of
        Some v \<Rightarrow> (case p key v of Inr x \<Rightarrow> Inr (f x l) | Inl _ \<Rightarrow> Inr l)
      | None \<Rightarrow> Inr l)"

definition apply_parsed_env_strict ::
  "(string \<Rightarrow> string \<Rightarrow> ConfigError + 'a) \<Rightarrow> environment \<Rightarrow> string \<Rightarrow> ('a \<Rightarrow> config_locals \<Rightarrow> config_locals) \<Rightarrow> config_step" where
  "apply_parsed_env_strict p env key f l =
     (case clean_optional (env key) of
        Some v \<Rightarrow> bind_result (p key v) (\<lambda>x. Inr (f x l))
      | None \<Rightarrow> Inr l)"

definition apply_tunnel_relay_batch_tuning_env :: "environment \<Rightarrow> config_step list" where
  "apply_tunnel_relay_batch_tuning_env env =
     [apply_parsed_env_strict cfg_parse_usize env ''AGENT_TUNNEL_KTP_RELAY_ADAPTIVE_HIGH_SESSIONS''
        (\<lambda>v. on_tuning (\<lambda>t. t\<lparr>high_session_threshold := v\<rparr>)),
      apply_parsed_env_strict cfg_parse_u64 env ''AGENT_TUNNEL_KTP_RELAY_ADAPTIVE_ELEVATED_DWELL_US''
        (\<lambda>v. on_tuning (\<lambda>t. t\<lparr>elevated_dwell_p95_micros := v\<rparr>)),
      apply_parsed_env_strict cfg_parse_u64 env ''AGENT_TUNNEL_KTP_RELAY_ADAPTIVE_SEVERE_DWELL_US''
        (\<lambda>v. on_tuning (\<lambda>t. t\<lparr>severe_dwell_p95_micros := v\<rparr>)),
      apply_parsed_env_strict cfg_parse_usize env ''AGENT_TUNNEL_KTP_RELAY_ADAPTIVE_ELEVATED_CAP''
        (\<lambda>v. on_tuning (\<lambda>t. t\<lparr>elevated_batch_cap := v\<rparr>)),
      apply_parsed_env_strict cfg_parse_usize env ''AGENT_TUNNEL_KTP_RELAY_ADAPTIVE_SEVERE_CAP''
        (\<lambda>v. on_tuning (\<lambda>t. t\<lparr>severe_batch_cap := v\<rparr>))]"

definition env_steps :: "config_io \<Rightarrow> environment \<Rightarrow> config_step list" where
  "env_steps io env =
     [apply_string_env env ''AGENT_ENDPOINT'' set_endpoint,
      apply_string_env env ''AGENT_TOKEN'' set_token,
      apply_string_env env ''AGENT_AUTO_DISCOVERY_KEY'' set_auto_discovery_key,
      apply_bool_true_env env ''AGENT_IGNORE_UNSAFE_CERT'' (\<lambda>c. c\<lparr>cfg_insecure := True\<rparr>),
      apply_bool_true_env env ''AGENT_INSECURE'' (\<lambda>c. c\<lparr>cfg_insecure := True\<rparr>),
      apply_bool_true_env env ''AGENT_DISABLE_WEB_SSH'' (\<lambda>c. c\<lparr>cfg_disable_web_ssh := True\<rparr>),
      apply_tunnel_control_enabled_env env,
      apply_bool_env env ''AGENT_TUNNEL_DATA_ENABLED'' (\<lambda>b c. c\<lparr>cfg_tunnel_data_enabled := b\<rparr>),
      apply_string_env env ''AGENT_TUNNEL_KTP_TCP_ADDRESS'' (\<lambda>v. on_config (\<lambda>c. c\<lparr>cfg_tunnel_ktp_tcp_address := v\<rparr>)),
      apply_string_env env ''AGENT_TUNNEL_KTP_TLS_CA_CERT'' (\<lambda>v. on_config (\<lambda>c. c\<lparr>cfg_tunnel_ktp_tls_ca_cert := v\<rparr>)),
      apply_parsed_env_strict parse_ktp_tcp_auth_version env ''AGENT_TUNNEL_KTP_TCP_AUTH_VERSION''
        (\<lambda>v. on_config (\<lambda>c. c\<lparr>cfg_tunnel_ktp_tcp_auth_version := v\<rparr>)),
      apply_parsed_env_strict parse_tunnel_relay_batch_policy env ''AGENT_TUNNEL_KTP_RELAY_BATCH_POLICY'' set_batch_policy]
     @ apply_tunnel_relay_batch_tuning_env env @
     [apply_parsed_env (cfg_parse_f64 io) env ''AGENT_INTERVAL'' set_interval,
      apply_parsed_env cfg_parse_u32 env ''AGENT_MAX_RETRIES'' set_max_retries,
      apply_parsed_env cfg_parse_u64 env ''AGENT_RECONNECT_INTERVAL'' set_reconnect_interval,
      apply_parsed_env parse_u64_allow_zero env ''AGENT_INFO_REPORT_INTERVAL''
        (\<lambda>n. on_config (\<lambda>c. c\<lparr>cfg_info_report_interval_minutes := n\<rparr>)),
      apply_string_env env ''AGENT_CF_ACCESS_CLIENT_ID'' (\<lambda>v. on_config (\<lambda>c. c\<lparr>cfg_cf_access_client_id := v\<rparr>)),
      apply_string_env env ''AGENT_CF_ACCESS_CLIENT_SECRET'' (\<lambda>v. on_config (\<lambda>c. c\<lparr>cfg_cf_access_client_secret := v\<rparr>)),
      apply_string_env env ''AGENT_INCLUDE_NICS'' (\<lambda>v. on_config (\<lambda>c. c\<lparr>cfg_include_nics := v\<rparr>)),
      apply_string_env env ''AGENT_EXCLUDE_NICS'' (\<lambda>v. on_config (\<lambda>c. c\<lparr>cfg_exclude_nics := v\<rparr>)),
      apply_string_env env ''AGENT_INCLUDE_MOUNTPOINTS'' (\<lambda>v. on_config (\<lambda>c. c\<lparr>cfg_include_mountpoints := v\<rparr>)),
      apply_string_env env ''AGENT_CUSTOM_IPV4'' (\<lambda>v. on_config (\<lambda>c. c\<lparr>cfg_custom_ipv4 := v\<rparr>)),
      apply_string_env env ''AGENT_CUSTOM_IPV6'' (\<lambda>v. on_config (\<lambda>c. c\<lparr>cfg_custom_ipv6 := v\<rparr>)),
      apply_string_env env ''AGENT_CUSTOM_DNS'' (\<lambda>v. on_config (\<lambda>c. c\<lparr>cfg_custom_dns := v\<rparr>)),
      apply_bool_true_env env ''AGENT_GET_IP_ADDR_FROM_NIC'' (\<lambda>c. c\<lparr>cfg_get_ip_addr_from_nic := True\<rparr>),
      apply_bool_true_env env ''AGENT_MEMORY_INCLUDE_CACHE'' (\<lambda>c. c\<lparr>cfg_memory_include_cache := True\<rparr>),
      apply_bool_true_env env ''AGENT_MEMORY_REPORT_RAW_USED'' (\<lambda>c. c\<lparr>cfg_memory_report_raw_used := True\<rparr>),
      apply_bool_true_env env ''AGENT_ENABLE_GPU'' (\<lambda>c. c\<lparr>cfg_enable_gpu := True\<rparr>),
      apply_parsed_env cfg_parse_u32 env ''AGENT_MONTH_ROTATE'' (\<lambda>n. on_config (\<lambda>c. c\<lparr>cfg_month_rotate := n\<rparr>)),
      apply_string_env env ''HOST_PROC'' (\<lambda>v. on_config (\<lambda>c. c\<lparr>cfg_host_proc := v\<rparr>)),
      apply_string_env env ''AGENT_CONFIG_FILE'' set_config_file,
      apply_bool_true_env env ''AGENT_ONCE'' (\<lambda>c. c\<lparr>cfg_once := True\<rparr>)]"

section \<open>The file and the result\<close>

definition given_value :: "'a option \<Rightarrow> ('a \<Rightarrow> config_locals \<Rightarrow> config_locals) \<Rightarrow> config_step" where
  "given_value x f l = Inr (case x of Some v \<Rightarrow> f v l | None \<Rightarrow> l)"

definition given_checked :: "('a \<Rightarrow> ConfigError + 'b) \<Rightarrow> 'a option \<Rightarrow> ('b \<Rightarrow> config_locals \<Rightarrow> config_locals) \<Rightarrow> config_step" where
  "given_checked p x f l = (case x of Some v \<Rightarrow> bind_result (p v) (\<lambda>v. Inr (f v l)) | None \<Rightarrow> Inr l)"

definition given_text :: "string option \<Rightarrow> (string \<Rightarrow> AgentConfig \<Rightarrow> AgentConfig) \<Rightarrow> config_step" where
  "given_text x f = given_value x (\<lambda>v. on_config (f (clean_config_string v)))"

definition file_steps :: "config_io \<Rightarrow> FileConfig \<Rightarrow> config_step list" where
  "file_steps io fc =
     [given_value (fc_endpoint fc) (\<lambda>v l. l\<lparr>lc_endpoint := clean_config_required_string v\<rparr>),
      given_value (fc_token fc) (\<lambda>v l. l\<lparr>lc_token := clean_config_required_string v\<rparr>),
      given_value (fc_auto_discovery_key fc) (\<lambda>v l. l\<lparr>lc_auto_discovery_key := clean_config_required_string v\<rparr>),
      given_value (fc_ignore_unsafe_cert fc) (\<lambda>b. on_config (\<lambda>c. c\<lparr>cfg_insecure := b\<rparr>)),
      given_value (fc_disable_web_ssh fc) (\<lambda>b. on_config (\<lambda>c. c\<lparr>cfg_disable_web_ssh := b\<rparr>)),
      given_value (fc_tunnel_control_enabled fc) (\<lambda>b. on_config (\<lambda>c. c\<lparr>cfg_tunnel_control_enabled := b\<rparr>)),
      given_value (fc_tunnel_data_enabled fc) (\<lambda>b. on_config (\<lambda>c. c\<lparr>cfg_tunnel_data_enabled := b\<rparr>)),
      given_text (fc_tunnel_ktp_tcp_address fc) (\<lambda>v c. c\<lparr>cfg_tunnel_ktp_tcp_address := v\<rparr>),
      given_text (fc_tunnel_ktp_tls_ca_cert fc) (\<lambda>v c. c\<lparr>cfg_tunnel_ktp_tls_ca_cert := v\<rparr>),
      given_checked (parse_ktp_tcp_auth_version ''tunnel_ktp_tcp_auth_version'') (fc_tunnel_ktp_tcp_auth_version fc)
        (\<lambda>v. on_config (\<lambda>c. c\<lparr>cfg_tunnel_ktp_tcp_auth_version := v\<rparr>)),
      given_checked (parse_tunnel_relay_batch_policy ''tunnel_ktp_relay_batch_policy'')
        (fc_tunnel_ktp_relay_batch_policy fc) set_batch_policy,
      given_checked (validate_positive_usize ''tunnel_ktp_relay_adaptive_high_sessions'') (fc_adaptive_high_sessions fc)
        (\<lambda>v. on_tuning (\<lambda>t. t\<lparr>high_session_threshold := v\<rparr>)),
      given_checked (validate_positive_u64 ''tunnel_ktp_relay_adaptive_elevated_dwell_us'') (fc_adaptive_elevated_dwell_us fc)
        (\<lambda>v. on_tuning (\<lambda>t. t\<lparr>elevated_dwell_p95_micros := v\<rparr>)),
      given_checked (validate_positive_u64 ''tunnel_ktp_relay_adaptive_severe_dwell_us'') (fc_adaptive_severe_dwell_us fc)
        (\<lambda>v. on_tuning (\<lambda>t. t\<lparr>severe_dwell_p95_micros := v\<rparr>)),
      given_checked (validate_positive_usize ''tunnel_ktp_relay_adaptive_elevated_cap'') (fc_adaptive_elevated_cap fc)
        (\<lambda>v. on_tuning (\<lambda>t. t\<lparr>elevated_batch_cap := v\<rparr>)),
      given_checked (validate_positive_usize ''tunnel_ktp_relay_adaptive_severe_cap'') (fc_adaptive_severe_cap fc)
        (\<lambda>v. on_tuning (\<lambda>t. t\<lparr>severe_batch_cap := v\<rparr>)),
      given_checked (validate_positive_f64 io ''interval'') (fc_interval fc) set_interval,
      given_value (fc_max_retries fc) set_max_retries,
      given_checked (validate_positive_u64 ''reconnect_interval'') (fc_reconnect_interval fc) set_reconnect_interval,
      given_value (fc_info_report_interval fc) (\<lambda>n. on_config (\<lambda>c. c\<lparr>cfg_info_report_interval_minutes := n\<rparr>)),
      given_text (fc_cf_access_client_id fc) (\<lambda>v c. c\<lparr>cfg_cf_access_client_id := v\<rparr>),
      given_text (fc_cf_access_client_secret fc) (\<lambda>v c. c\<lparr>cfg_cf_access_client_secret := v\<rparr>),
      given_text (fc_include_nics fc) (\<lambda>v c. c\<lparr>cfg_include_nics := v\<rparr>),
      given_text (fc_exclude_nics fc) (\<lambda>v c. c\<lparr>cfg_exclude_nics := v\<rparr>),
      given_text (fc_include_mountpoints fc) (\<lambda>v c. c\<lparr>cfg_include_mountpoints := v\<rparr>),
      given_text (fc_custom_ipv4 fc) (\<lambda>v c. c\<lparr>cfg_custom_ipv4 := v\<rparr>),
      given_text (fc_custom_ipv6 fc) (\<lambda>v c. c\<lparr>cfg_custom_ipv6 := v\<rparr>),
      given_text (fc_custom_dns fc) (\<lambda>v c. c\<lparr>cfg_custom_dns := v\<rparr>),
      given_value (fc_get_ip_addr_from_nic fc) (\<lambda>b. on_config (\<lambda>c. c\<lparr>cfg_get_ip_addr_from_nic := b\<rparr>)),
      given_value (fc_memory_include_cache fc) (\<lambda>b. on_config (\<lambda>c. c\<lparr>cfg_memory_include_cache := b\<rparr>)),
      given_value (fc_memory_report_raw_used fc) (\<lambda>b. on_config (\<lambda>c. c\<lparr>cfg_memory_report_raw_used := b\<rparr>)),
      given_value (fc_enable_gpu fc) (\<lambda>b. on_config (\<lambda>c. c\<lparr>cfg_enable_gpu := b\<rparr>)),
      given_value (fc_month_rotate fc) (\<lambda>n. on_config (\<lambda>c. c\<lparr>cfg_month_rotate := n\<rparr>)),
      given_text (fc_host_proc fc) (\<lambda>v c. c\<lparr>cfg_host_proc := v\<rparr>)]"

definition apply_file :: "config_io \<Rightarrow> config_step" where
  "apply_file io l =
     (if lc_config_file l = [] then Inr l
      else bind_result (read_file_config io (lc_config_file l)) (\<lambda>fc. run_steps (file_steps io fc) l))"

definition finish_config :: "config_locals \<Rightarrow> ConfigError + AgentConfig" where
  "finish_config l =
     (let c = lc_config l;
          c = (if cfg_tunnel_data_enabled c \<and> \<not> lc_policy_explicit l
               then c\<lparr>cfg_tunnel_ktp_relay_batch_policy := Adaptive\<rparr> else c) in
      bind_result (validate_tunnel_relay_batch_tuning (cfg_tunnel_ktp_relay_batch_tuning c)) (\<lambda>_.
        case lc_endpoint l of
          None \<Rightarrow> Inl MissingEndpoint
        | Some endpoint \<Rightarrow>
            let tok = (case lc_token l of Some t \<Rightarrow> t | None \<Rightarrow> []);
                key = (case lc_auto_discovery_key l of Some k \<Rightarrow> k | None \<Rightarrow> []) in
            if tok = [] \<and> key = [] then Inl MissingToken
            else Inr (c\<lparr>cfg_endpoint := endpoint, cfg_token := tok, cfg_auto_discovery_key := key\<rparr>)))"

definition from_args_and_env :: "config_io \<Rightarrow> string list \<Rightarrow> environment \<Rightarrow> ConfigError + AgentConfig" where
  "from_args_and_env io args env =
     bind_result (args_loop io (drop 1 args) (env_defaults io env)) (\<lambda>l.
     bind_result (run_steps (env_steps io env) l) (\<lambda>l.
     bind_result (apply_file io l) finish_config))"

definition tunnel_runtime_limits :: "AgentConfig \<Rightarrow> TunnelRuntimeLimits" where
  "tunnel_runtime_limits c =
     runtime_limits_default\<lparr>relay_batch_policy := cfg_tunnel_ktp_relay_batch_policy c,
       relay_batch_tuning := cfg_tunnel_ktp_relay_batch_tuning c\<rparr>"

section \<open>Well-formed configurations\<close>

definition tuning_ok :: "TunnelRelayBatchTuning \<Rightarrow> bool" where
  "tuning_ok t \<longleftrightarrow> 0 < high_session_threshold t \<and> 0 < elevated_dwell_p95_micros t \<and> 0 < severe_dwell_p95_micros t
     \<and> 0 < elevated_batch_cap t \<and> 0 < severe_batch_cap t"

definition config_texts :: "AgentConfig \<Rightarrow> string list" where
  "config_texts c =
     [cfg_tunnel_ktp_tcp_address c, cfg_tunnel_ktp_tls_ca_cert c, cfg_cf_access_client_id c, cfg_cf_access_client_secret c,
      cfg_include_nics c, cfg_exclude_nics c, cfg_include_mountpoints c, cfg_custom_ipv4 c, cfg_custom_ipv6 c,
      cfg_custom_dns c, cfg_host_proc c]"

definition config_ok :: "AgentConfig \<Rightarrow> bool" where
  "config_ok c \<longleftrightarrow> (\<exists>x. cfg_interval_seconds c = Some x \<and> 0 < x) \<and> 0 < cfg_reconnect_interval_seconds c
     \<and> tuning_ok (cfg_tunnel_ktp_relay_batch_tuning c) \<and> list_all (\<lambda>v. trim v = v) (config_texts c)"

definition given_ok :: "string option \<Rightarrow> bool" where
  "given_ok x \<longleftrightarrow> (\<forall>v. x = Some v \<longrightarrow> trim v = v \<and> v \<noteq> [])"

definition locals_ok :: "config_locals \<Rightarrow> bool" where
  "locals_ok l \<longleftrightarrow> given_ok (lc_endpoint l) \<and> given_ok (lc_token l) \<and> given_ok (lc_auto_discovery_key l)
     \<and> config_ok (lc_config l)"

named_theorems setter_simps

lemmas [setter_simps] =
  on_config_def on_tuning_def set_endpoint_def set_token_def set_auto_discovery_key_def set_batch_policy_def
  set_interval_def set_max_retries_def set_reconnect_interval_def set_config_file_def

lemma clean_required_Inr [simp]: "clean_required v flag = Inr x \<longleftrightarrow> trim v \<noteq> [] \<and> x = Some (trim v)"
  by (auto simp: clean_required_def Let_def)

lemma clean_optional_ok [simp]: "given_ok (clean_optional x)"
  by (cases x) (simp_all add: clean_optional_def given_ok_def Let_def)

lemma clean_optional_Some: "clean_optional x = Some v \<Longrightarrow> trim v = v \<and> v \<noteq> []"
  using clean_optional_ok by (simp add: given_ok_def)

lemma env_text_ok [simp]: "trim (env_text env key) = env_text env key"
  by (simp add: env_text_def clean_optional_Some split: option.split)

lemma config_required_ok [simp]: "given_ok (clean_config_required_string v)"
  by (simp add: clean_config_required_string_def given_ok_def Let_def)

lemma parsed_positive:
  "cfg_parse_u64 flag v = Inr n \<Longrightarrow> 0 < n" "cfg_parse_usize flag v = Inr m \<Longrightarrow> 0 < m"
  "cfg_parse_f64 io flag v = Inr x \<Longrightarrow> 0 < x" "validate_positive_u64 flag n' = Inr n \<Longrightarrow> 0 < n"
  "validate_positive_usize flag m' = Inr m \<Longrightarrow> 0 < m" "validate_positive_f64 io flag y = Inr x \<Longrightarrow> 0 < x"
  by (auto simp: cfg_parse_u64_def validate_positive_u64_def cfg_parse_usize_def validate_positive_usize_def
      cfg_parse_f64_def validate_positive_f64_def result_simps word_gt_0 split: if_splits option.splits)

lemma parse_env_positive:
  "0 < d \<Longrightarrow> 0 < parse_env cfg_parse_u64 env key d" "0 < e \<Longrightarrow> 0 < parse_env (cfg_parse_f64 io) env key e"
  by (auto simp: parse_env_def dest: parsed_positive split: option.splits sum.splits)

text \<open>What the setters and the steps do to a property of the variables.\<close>

definition setter_keeps :: "(config_locals \<Rightarrow> bool) \<Rightarrow> setter \<Rightarrow> bool" where
  "setter_keeps P s \<longleftrightarrow> (\<forall>flag v l l'. trim v = v \<longrightarrow> v \<noteq> [] \<longrightarrow> P l \<longrightarrow> s flag v l = Inr l' \<longrightarrow> P l')"

definition step_keeps :: "(config_locals \<Rightarrow> bool) \<Rightarrow> config_step \<Rightarrow> bool" where
  "step_keeps P s \<longleftrightarrow> (\<forall>l l'. P l \<longrightarrow> s l = Inr l' \<longrightarrow> P l')"

lemma run_steps_keep: "list_all (step_keeps P) steps \<Longrightarrow> P l \<Longrightarrow> run_steps steps l = Inr l' \<Longrightarrow> P l'"
proof (induction steps arbitrary: l)
  case (Cons s steps)
  from Cons.prems(3) obtain m where m: "s l = Inr m" "run_steps steps m = Inr l'"
    by (auto simp: result_simps)
  with Cons.prems(1,2) have "P m" by (auto simp: step_keeps_def)
  with Cons m show ?case by simp
qed simp

named_theorems keeps_intros

lemma setters_keep [keeps_intros]:
  "(\<And>v l. trim v = v \<Longrightarrow> v \<noteq> [] \<Longrightarrow> P l \<Longrightarrow> P (f v l)) \<Longrightarrow> setter_keeps P (text_value f)"
  "(\<And>flag v x l. p flag v = Inr x \<Longrightarrow> P l \<Longrightarrow> P (g x l)) \<Longrightarrow> setter_keeps P (parsed_value p g)"
  "(\<And>v l. trim v = v \<Longrightarrow> v \<noteq> [] \<Longrightarrow> P l \<Longrightarrow> P (f v l)) \<Longrightarrow> step_keeps P (cleaned_value f flag v)"
  "(\<And>flag v x l. p flag v = Inr x \<Longrightarrow> P l \<Longrightarrow> P (g x l)) \<Longrightarrow> step_keeps P (parsed_value p g flag v)"
  by (auto simp: setter_keeps_def step_keeps_def text_value_def cleaned_value_def parsed_value_def result_simps)

lemma env_steps_keep [keeps_intros]:
  "(\<And>v l. trim v = v \<Longrightarrow> v \<noteq> [] \<Longrightarrow> P l \<Longrightarrow> P (f v l)) \<Longrightarrow> step_keeps P (apply_string_env env key f)"
  "(\<And>l. P l \<Longrightarrow> P (on_config h l)) \<Longrightarrow> step_keeps P (apply_bool_true_env env key h)"
  "(\<And>b l. P l \<Longrightarrow> P (on_config (k b) l)) \<Longrightarrow> step_keeps P (apply_bool_env env key k)"
  "(\<And>b l. P l \<Longrightarrow> P (on_config (\<lambda>c. c\<lparr>cfg_tunnel_control_enabled := b\<rparr>) l)) \<Longrightarrow>
     step_keeps P (apply_tunnel_control_enabled_env env)"
  "(\<And>flag v x l. p flag v = Inr x \<Longrightarrow> P l \<Longrightarrow> P (g x l)) \<Longrightarrow> step_keeps P (apply_parsed_env p env key g)"
  "(\<And>flag v x l. p flag v = Inr x \<Longrightarrow> P l \<Longrightarrow> P (g x l)) \<Longrightarrow> step_keeps P (apply_parsed_env_strict p env key g)"
  by (auto simp: step_keeps_def apply_string_env_def apply_bool_true_env_def apply_bool_env_def
      apply_tunnel_control_enabled_env_def apply_parsed_env_def apply_parsed_env_strict_def result_simps
      dest: clean_optional_Some split: option.splits sum.splits if_splits)

lemma file_steps_keep [keeps_intros]:
  "(\<And>v l. x = Some v \<Longrightarrow> P l \<Longrightarrow> P (f v l)) \<Longrightarrow> step_keeps P (given_value x f)"
  "(\<And>v y l. x = Some v \<Longrightarrow> p v = Inr y \<Longrightarrow> P l \<Longrightarrow> P (g y l)) \<Longrightarrow> step_keeps P (given_checked p x g)"
  "(\<And>v l. t = Some v \<Longrightarrow> P l \<Longrightarrow> P (on_config (h (trim v)) l)) \<Longrightarrow> step_keeps P (given_text t h)"
  by (auto simp: step_keeps_def given_value_def given_checked_def given_text_def clean_config_string_def result_simps
      split: option.splits)

lemmas flag_tables =
  value_flags_def server_flags_def ktp_flags_def report_flags_def

lemmas assignment_tables =
  assignments_def report_assignments_def ktp_assignments_def

lemmas step_tables =
  env_steps_def apply_tunnel_relay_batch_tuning_env_def

lemmas ok_simps =
  setter_simps locals_ok_def given_ok_def config_ok_def config_texts_def tuning_ok_def

lemma value_flags_keep_ok: "list_all (\<lambda>(_, _, s). setter_keeps locals_ok s) (value_flags io)"
  by (auto simp: flag_tables ok_simps intro!: keeps_intros dest: parsed_positive)


text \<open>A property of the variables that every arm keeps, the command line keeps.\<close>

definition arms_keep :: "config_io \<Rightarrow> (config_locals \<Rightarrow> bool) \<Rightarrow> bool" where
  "arms_keep io P \<longleftrightarrow> list_all (\<lambda>(_, f). \<forall>l. P l \<longrightarrow> P (f l)) switch_flags
     \<and> list_all (\<lambda>(_, _, s). setter_keeps P s) (value_flags io)
     \<and> list_all (\<lambda>(_, _, s). \<forall>flag v. step_keeps P (s flag v)) (assignments io)"

lemma find_list_all: "find Q xs = Some x \<Longrightarrow> list_all R xs \<Longrightarrow> R x"
  by (auto simp: find_Some_iff list_all_iff)

lemma next_value_Inr:
  "next_value args flag = Inr (v, rest) \<longleftrightarrow> (\<exists>x. args = x # rest \<and> v = trim x \<and> v \<noteq> [])"
  by (auto simp: next_value_def clean_required_def Let_def split: list.splits)

lemma take_arg_keeps:
  assumes "arms_keep io P" and "P l" and "take_arg io arg rest l = Inr (l', rest')"
  shows "P l'"
proof (cases "find (\<lambda>(names, _). arg \<in> set names) switch_flags")
  case (Some x)
  with assms show ?thesis
    unfolding arms_keep_def by (fastforce simp: take_arg_def dest: find_list_all)
next
  case no_switch: None
  show ?thesis
  proof (cases "find (\<lambda>(names, _). arg \<in> set names) (value_flags io)")
    case (Some x)
    obtain names flag s where x: "x = (names, flag, s)" by (cases x)
    have "setter_keeps P s"
      using find_list_all [OF Some] assms(1) x by (fastforce simp: arms_keep_def)
    then have "P m" if "s flag (trim v) l = Inr m" "trim v \<noteq> []" for v m
      using that assms(2) unfolding setter_keeps_def by (metis trim_idem)
    then show ?thesis
      using assms(3) no_switch Some x by (auto simp: take_arg_def result_simps next_value_Inr)
  next
    case None
    then show ?thesis
      using assms no_switch
      by (auto simp: take_arg_def arms_keep_def result_simps step_keeps_def dest!: find_list_all split: option.splits)
  qed
qed

lemma args_loop_keeps: "arms_keep io P \<Longrightarrow> P l \<Longrightarrow> args_loop io args l = Inr l' \<Longrightarrow> P l'"
proof (induction io args l rule: args_loop.induct)
  case (2 io arg rest l)
  then obtain m rest' where m: "take_arg io arg rest l = Inr (m, rest')" "args_loop io rest' m = Inr l'"
    by (auto simp: args_loop.simps(2) split: sum.splits)
  show ?case using 2(1) m take_arg_keeps [OF 2(2,3) m(1)] 2(2) by auto
qed simp

lemma arms_keep_ok: "arms_keep io locals_ok"
proof -
  have "list_all (\<lambda>(_, f). \<forall>l. locals_ok l \<longrightarrow> locals_ok (f l)) switch_flags"
    by (simp add: switch_flags_def ok_simps)
  moreover have "list_all (\<lambda>(_, _, s). \<forall>flag v. step_keeps locals_ok (s flag v)) (assignments io)"
    by (auto simp: assignment_tables ok_simps intro!: keeps_intros dest: parsed_positive)
  ultimately show ?thesis using value_flags_keep_ok by (simp add: arms_keep_def)
qed

lemma env_steps_keep_ok: "list_all (step_keeps locals_ok) (env_steps io env)"
  by (auto simp: step_tables ok_simps intro!: keeps_intros dest: parsed_positive)

lemma file_steps_keep_ok: "list_all (step_keeps locals_ok) (file_steps io fc)"
  by (auto simp: file_steps_def ok_simps clean_config_required_string_def Let_def intro!: keeps_intros
      dest: parsed_positive split: if_splits)

lemma env_defaults_ok: "locals_ok (env_defaults io env)"
  using clean_optional_ok
  by (simp add: env_defaults_def locals_ok_def config_ok_def config_texts_def tuning_ok_def batch_tuning_default_def
      parse_env_positive)

lemma config_locals_ok:
  assumes "args_loop io args (env_defaults io env) = Inr l1" and "run_steps (env_steps io env) l1 = Inr l2"
    and "apply_file io l2 = Inr l3"
  shows "locals_ok l3"
proof -
  have "locals_ok l1" using args_loop_keeps [OF arms_keep_ok env_defaults_ok assms(1)] .
  then have "locals_ok l2" using run_steps_keep [OF env_steps_keep_ok _ assms(2)] by blast
  then show ?thesis
    using assms(3) run_steps_keep [OF file_steps_keep_ok]
    by (auto simp: apply_file_def result_simps split: if_splits)
qed

text \<open>
  Claim C30.  Whatever the command line, the environment and the file, a configuration that is accepted is well
  formed: the endpoint is not blank, there is a token or a key for auto discovery, the report interval is
  finite and positive, the reconnect interval and the thresholds of the relay are positive and in order, and
  every text is free of surrounding white space.
\<close>

theorem config_well_formed:
  assumes "from_args_and_env io args env = Inr c"
  shows "config_ok c \<and> cfg_endpoint c \<noteq> [] \<and> (cfg_token c \<noteq> [] \<or> cfg_auto_discovery_key c \<noteq> [])
    \<and> list_all (\<lambda>v. trim v = v) [cfg_endpoint c, cfg_token c, cfg_auto_discovery_key c]
    \<and> elevated_dwell_p95_micros (cfg_tunnel_ktp_relay_batch_tuning c) \<le> severe_dwell_p95_micros (cfg_tunnel_ktp_relay_batch_tuning c)
    \<and> severe_batch_cap (cfg_tunnel_ktp_relay_batch_tuning c) \<le> elevated_batch_cap (cfg_tunnel_ktp_relay_batch_tuning c)"
proof -
  obtain l1 l2 l3 where l: "args_loop io (drop 1 args) (env_defaults io env) = Inr l1"
      "run_steps (env_steps io env) l1 = Inr l2" "apply_file io l2 = Inr l3" and c: "finish_config l3 = Inr c"
    using assms by (auto simp: from_args_and_env_def result_simps)
  have "locals_ok l3" by (rule config_locals_ok [OF l])
  then show ?thesis
    using c
    by (auto simp: finish_config_def Let_def validate_tunnel_relay_batch_tuning_def locals_ok_def given_ok_def
        config_ok_def config_texts_def result_simps split: if_splits option.splits)
qed

end
