(* ===== verification/ConfigLayers.thy ===== *)
theory ConfigLayers
  imports Config
begin

text \<open>
  How the sources of the configuration combine: the two spellings of a flag agree, and the file overrides the
  environment, which overrides the command line.
\<close>

section \<open>The two spellings of a flag\<close>

definition same_setter :: "setter \<Rightarrow> setter \<Rightarrow> bool" where
  "same_setter s s' \<longleftrightarrow> (\<forall>flag flag' v l l'. trim v \<noteq> [] \<longrightarrow> s flag (trim v) l = Inr l' \<longrightarrow> s' flag' v l = Inr l')"

definition ignores_space :: "(string \<Rightarrow> string \<Rightarrow> ConfigError + 'a) \<Rightarrow> bool" where
  "ignores_space p \<longleftrightarrow> (\<forall>flag flag' v x. p flag (trim v) = Inr x \<longrightarrow> p flag' v = Inr x)"

lemma parsers_ignore_space [simp]:
  "ignores_space parse_u64_allow_zero" "ignores_space cfg_parse_u32" "ignores_space cfg_parse_usize"
  "ignores_space (cfg_parse_f64 io)" "ignores_space parse_ktp_tcp_auth_version"
  "ignores_space parse_tunnel_relay_batch_policy"
  subgoal by (simp add: ignores_space_def parse_u64_allow_zero_def split: option.splits)
  subgoal by (simp add: ignores_space_def cfg_parse_u32_def split: option.splits)
  subgoal by (simp add: ignores_space_def cfg_parse_usize_def validate_positive_usize_def split: option.splits)
  subgoal by (simp add: ignores_space_def cfg_parse_f64_def validate_positive_f64_def split: option.splits)
  subgoal by (simp add: ignores_space_def parse_ktp_tcp_auth_version_def Let_def)
  subgoal by (simp add: ignores_space_def parse_tunnel_relay_batch_policy_def split: option.splits)
  done

lemma parse_u64_ignores_space [simp]: "ignores_space cfg_parse_u64"
  unfolding ignores_space_def
proof (intro allI impI)
  fix flag flag' v x
  assume "cfg_parse_u64 flag (trim v) = Inr x"
  then have "parse_u64_allow_zero flag (trim v) = Inr x" "x \<noteq> 0"
    by (auto simp: cfg_parse_u64_def validate_positive_u64_def result_simps split: if_splits)
  moreover from this have "parse_u64_allow_zero flag' v = Inr x"
    using parsers_ignore_space(1) unfolding ignores_space_def by blast
  ultimately show "cfg_parse_u64 flag' v = Inr x"
    by (simp add: cfg_parse_u64_def validate_positive_u64_def)
qed

lemma same_text [simp]: "same_setter (text_value f) (cleaned_value f)"
  by (simp add: same_setter_def text_value_def cleaned_value_def clean_required_def Let_def)

lemma same_parsed [simp]: "ignores_space p \<Longrightarrow> same_setter (parsed_value p g) (parsed_value p g)"
  unfolding same_setter_def ignores_space_def parsed_value_def bind_result_Inr_iff by blast

text \<open>The flags with their setters stand in the order of the assignments, apart from where the groups stand.\<close>

definition spellings :: "(string list \<times> string \<times> setter) list \<Rightarrow> (string \<times> setter) list" where
  "spellings fs = concat (map (\<lambda>(names, _, s). map (\<lambda>f. (f, s)) names) fs)"

definition assigns :: "string \<times> setter \<Rightarrow> string \<times> string \<times> setter \<Rightarrow> bool" where
  "assigns = (\<lambda>(f, s) (prefix, _, s'). prefix = f @ ''='' \<and> same_setter s s')"

lemma spellings_assigned:
  "list_all2 assigns (spellings server_flags @ spellings (report_flags io)) (report_assignments io)"
  "list_all2 assigns (spellings ktp_flags) ktp_assignments"
  by (simp_all add: spellings_def assigns_def flag_tables assignment_tables)

lemma flags_without_equals:
  "list_all (\<lambda>(f, _). CHR ''='' \<notin> set f) (spellings (value_flags io))"
  by (simp add: spellings_def flag_tables)

lemma switches_without_equals: "list_all (\<lambda>(names, _). list_all (\<lambda>f. CHR ''='' \<notin> set f) names) switch_flags"
  by (simp add: switch_flags_def)

lemma distinct_spellings: "distinct (map fst (spellings (value_flags io)))"
proof -
  have "map fst (spellings (value_flags io)) = concat (map fst server_flags) @ concat (map fst ktp_flags) @ concat (map fst (report_flags io))"
    by (simp add: spellings_def value_flags_def map_concat comp_def case_prod_beta)
  also have "distinct \<dots>"
    by (simp add: flag_tables)
  finally show ?thesis .
qed

lemma no_flag_is_switch:
  "list_all (\<lambda>(f, _). find (\<lambda>(names, _). f \<in> set names) switch_flags = None) (spellings (value_flags io))"
  by (simp add: spellings_def flag_tables switch_flags_def)

lemma starts_with_assignment:
  assumes "CHR ''='' \<notin> set f" and "CHR ''='' \<notin> set g"
  shows "starts_with (f @ ''='' @ v) (g @ ''='') \<longleftrightarrow> f = g"
proof
  assume "starts_with (f @ ''='' @ v) (g @ ''='')"
  then obtain r where "strip_prefix (g @ ''='') (f @ ''='' @ v) = Some r"
    unfolding starts_with_def by blast
  then have "f @ CHR ''='' # v = g @ CHR ''='' # r" unfolding strip_prefix_iff by simp
  then show "f = g"
    using split_once_append [OF assms(1), of v] split_once_append [OF assms(2), of r]
    by (metis Pair_inject option.inject)
next
  assume "f = g"
  then have "strip_prefix (g @ ''='') (f @ ''='' @ v) = Some v" unfolding strip_prefix_iff by simp
  then show "starts_with (f @ ''='' @ v) (g @ ''='')" unfolding starts_with_def by simp
qed

lemma assignments_spelled:
  "list_all2 assigns (spellings server_flags @ spellings (report_flags io) @ spellings ktp_flags) (assignments io)"
  using list_all2_appendI [OF spellings_assigned(1) [of io] spellings_assigned(2)] by (simp add: assignments_def)

lemma spellings_value_flags:
  "set (spellings server_flags @ spellings (report_flags io) @ spellings ktp_flags) = set (spellings (value_flags io))"
  by (auto simp: value_flags_def spellings_def)

lemma list_all2_partner:
  "list_all2 R xs ys \<Longrightarrow> x \<in> set xs \<Longrightarrow> \<exists>y \<in> set ys. R x y"
  "list_all2 R xs ys \<Longrightarrow> y \<in> set ys \<Longrightarrow> \<exists>x \<in> set xs. R x y"
  by (fastforce simp: list_all2_conv_all_nth in_set_conv_nth)+

lemma find_exists: "x \<in> set xs \<Longrightarrow> Q x \<Longrightarrow> \<exists>y. find Q xs = Some y \<and> y \<in> set xs \<and> Q y"
  by (induction xs) auto

lemma spelled_assignment:
  assumes "(f, s) \<in> set (spellings (value_flags io))"
  shows "\<exists>flag s'. find (\<lambda>(prefix, _). starts_with (f @ ''='' @ v) prefix) (assignments io) = Some (f @ ''='', flag, s')
    \<and> same_setter s s'"
proof -
  let ?S = "spellings server_flags @ spellings (report_flags io) @ spellings ktp_flags"
  let ?Q = "\<lambda>(prefix, _). starts_with (f @ ''='' @ v) prefix"
  have eq: "CHR ''='' \<notin> set g" if "(g, t) \<in> set ?S" for g t
    using flags_without_equals [of io] that spellings_value_flags by (fastforce simp: list_all_iff)
  have inset: "(f, s) \<in> set ?S" using assms spellings_value_flags by blast
  obtain x where x: "x \<in> set (assignments io)" "assigns (f, s) x"
    using list_all2_partner(1) [OF assignments_spelled inset] by blast
  then have "?Q x" using starts_with_assignment [of f f v] eq [OF inset] by (auto simp: assigns_def)
  then obtain y where y: "find ?Q (assignments io) = Some y" "y \<in> set (assignments io)" "?Q y"
    using find_exists [where Q = ?Q, OF x(1)] by blast
  obtain g t where g: "(g, t) \<in> set ?S" "assigns (g, t) y"
    using list_all2_partner(2) [OF assignments_spelled y(2)] by fast
  then have "g = f"
    using y(3) starts_with_assignment [of f g v] eq [OF inset] eq [OF g(1)] by (auto simp: assigns_def)
  moreover from this have "t = s"
    using g(1) inset distinct_spellings [of io] spellings_value_flags [of io] eq_key_imp_eq_value by metis
  ultimately show ?thesis using g(2) y(1) by (auto simp: assigns_def)
qed

lemma spelled_flag:
  assumes "(f, s) \<in> set (spellings (value_flags io))"
  shows "\<exists>names flag. find (\<lambda>(names, _). f \<in> set names) (value_flags io) = Some (names, flag, s)"
proof -
  let ?Q = "\<lambda>(names, _). f \<in> set names"
  obtain x where x: "x \<in> set (value_flags io)" "?Q x"
    using assms by (force simp: spellings_def)
  then obtain names flag t where y: "find ?Q (value_flags io) = Some (names, flag, t)"
      "(names, flag, t) \<in> set (value_flags io)" "f \<in> set names"
    using find_exists [where Q = ?Q, OF x] by auto
  then have "(f, t) \<in> set (spellings (value_flags io))" unfolding spellings_def by force
  with assms have "t = s" using distinct_spellings [of io] eq_key_imp_eq_value by metis
  with y(1) show ?thesis by blast
qed

lemma no_arm_with_equals:
  "find (\<lambda>(names, _). f @ CHR ''='' # v \<in> set names) switch_flags = None"
  "find (\<lambda>(names, _). f @ CHR ''='' # v \<in> set names) (value_flags io) = None"
proof -
  show "find (\<lambda>(names, _). f @ CHR ''='' # v \<in> set names) switch_flags = None"
    using switches_without_equals by (fastforce simp: find_None_iff list_all_iff)
  show "find (\<lambda>(names, _). f @ CHR ''='' # v \<in> set names) (value_flags io) = None"
    using flags_without_equals [of io] by (fastforce simp: find_None_iff list_all_iff spellings_def)
qed

text \<open>
  Claim C32.  The two spellings of a flag agree: for every flag that takes a value and every value, if the
  command line with \<open>flag value\<close> is read without an error, then the one with \<open>flag=value\<close> gives the same
  configuration.
\<close>

theorem flag_spellings_agree:
  assumes "f \<in> set (concat (map fst (value_flags io)))" and "args_loop io (f # v # rest) l = Inr l'"
  shows "args_loop io ((f @ ''='' @ v) # rest) l = Inr l'"
proof -
  obtain s where s: "(f, s) \<in> set (spellings (value_flags io))"
    using assms(1) by (fastforce simp: spellings_def)
  obtain names flag where flag: "find (\<lambda>(names, _). f \<in> set names) (value_flags io) = Some (names, flag, s)"
    using spelled_flag [OF s] by blast
  obtain flag' s' where s': "find (\<lambda>(prefix, _). starts_with (f @ ''='' @ v) prefix) (assignments io) = Some (f @ ''='', flag', s')"
      "same_setter s s'"
    using spelled_assignment [OF s] by blast
  have "find (\<lambda>(names, _). f \<in> set names) switch_flags = None"
    using no_flag_is_switch [of io] s by (fastforce simp: list_all_iff)
  then obtain m where m: "trim v \<noteq> []" "s flag (trim v) l = Inr m" "args_loop io rest m = Inr l'"
    using assms(2) flag by (auto simp: args_loop.simps(2) take_arg_def result_simps next_value_Inr split: sum.splits)
  then have "s' flag' v l = Inr m" using s'(2) unfolding same_setter_def by blast
  then show ?thesis
    using s'(1) m(3) no_arm_with_equals by (simp add: args_loop.simps(2) take_arg_def)
qed

text \<open>
  The switches have no such second spelling: with a value they are passed over like an unknown argument.
\<close>

lemma switch_with_value_ignored:
  "args_loop io ((''--disable-web-ssh='' @ v) # rest) l = args_loop io rest l"
  "args_loop io ((''--insecure='' @ v) # rest) l = args_loop io rest l"
  using no_arm_with_equals [of "''--disable-web-ssh''"] no_arm_with_equals [of "''--insecure''"]
  by (simp_all add: args_loop.simps(2) take_arg_def assignment_tables starts_with_def)

section \<open>Precedence\<close>

definition leaves :: "(config_locals \<Rightarrow> 'a) \<Rightarrow> config_step \<Rightarrow> bool" where
  "leaves F s \<longleftrightarrow> (\<forall>x. step_keeps (\<lambda>l. F l = x) s)"

lemma run_steps_leave: "list_all (leaves F) steps \<Longrightarrow> run_steps steps l = Inr l' \<Longrightarrow> F l' = F l"
  using run_steps_keep [of "\<lambda>m. F m = F l" steps l l'] by (simp add: leaves_def list_all_iff)

lemma run_steps_append: "run_steps (xs @ ys) l = bind_result (run_steps xs l) (run_steps ys)"
  by (induction xs arbitrary: l) (simp_all add: bind_result_def split: sum.split)

text \<open>A variable that one step alone sets has the value this step gives it.\<close>

lemma run_steps_one:
  assumes "run_steps (xs @ s # ys) l = Inr l'" and "list_all (leaves F) xs" and "list_all (leaves F) ys"
  shows "\<exists>m m'. F m = F l \<and> s m = Inr m' \<and> F l' = F m'"
proof -
  obtain m m' where m: "run_steps xs l = Inr m" "s m = Inr m'" "run_steps ys m' = Inr l'"
    using assms(1) by (auto simp: run_steps_append result_simps)
  then show ?thesis using run_steps_leave [OF assms(2) m(1)] run_steps_leave [OF assms(3) m(3)] by auto
qed

lemma run_steps_nth:
  assumes "run_steps steps l = Inr l'" and "n < length steps"
    and "list_all (leaves F) (take n steps)" and "list_all (leaves F) (drop (Suc n) steps)"
  shows "\<exists>m m'. F m = F l \<and> (steps ! n) m = Inr m' \<and> F l' = F m'"
proof -
  have "run_steps (take n steps @ steps ! n # drop (Suc n) steps) l = Inr l'"
    using assms(1) by (simp only: id_take_nth_drop [OF assms(2), symmetric])
  then show ?thesis using run_steps_one assms(3,4) by blast
qed

lemma leaves_intros:
  "(\<And>v l. F (f v l) = F l) \<Longrightarrow> leaves F (apply_string_env env key f)"
  "(\<And>l. F (on_config h l) = F l) \<Longrightarrow> leaves F (apply_bool_true_env env key h)"
  "(\<And>b l. F (on_config (k b) l) = F l) \<Longrightarrow> leaves F (apply_bool_env env key k)"
  "(\<And>b l. F (on_config (\<lambda>c. c\<lparr>cfg_tunnel_control_enabled := b\<rparr>) l) = F l) \<Longrightarrow> leaves F (apply_tunnel_control_enabled_env env)"
  "(\<And>x l. F (g x l) = F l) \<Longrightarrow> leaves F (apply_parsed_env p env key g)"
  "(\<And>x l. F (g x l) = F l) \<Longrightarrow> leaves F (apply_parsed_env_strict p env key g)"
  "(\<And>v l. F (e v l) = F l) \<Longrightarrow> leaves F (given_value z e)"
  "(\<And>x l. F (g x l) = F l) \<Longrightarrow> leaves F (given_checked q y g)"
  "(\<And>v l. F (on_config (j v) l) = F l) \<Longrightarrow> leaves F (given_text t j)"
  unfolding leaves_def by (auto intro!: keeps_intros)

definition layered :: "'a option \<Rightarrow> 'a option \<Rightarrow> 'a \<Rightarrow> 'a" where
  "layered file env arg = (case file of Some v \<Rightarrow> v | None \<Rightarrow> (case env of Some v \<Rightarrow> v | None \<Rightarrow> arg))"

text \<open>A setting that only the step number \<open>n\<close> sets.\<close>

definition only_at :: "nat \<Rightarrow> (config_locals \<Rightarrow> 'a) \<Rightarrow> config_step list \<Rightarrow> bool" where
  "only_at n F steps \<longleftrightarrow> n < length steps \<and> list_all (leaves F) (take n steps) \<and> list_all (leaves F) (drop (Suc n) steps)"

lemma run_steps_only_at:
  "only_at n F steps \<Longrightarrow> run_steps steps l = Inr l' \<Longrightarrow> \<exists>m m'. F m = F l \<and> (steps ! n) m = Inr m' \<and> F l' = F m'"
  using run_steps_nth by (auto simp: only_at_def)

lemma env_set_once:
  "only_at 0 lc_endpoint (env_steps io env)"
  "only_at 1 lc_token (env_steps io env)"
  "only_at 35 lc_config_file (env_steps io env)"
  "only_at 5 (\<lambda>l. cfg_disable_web_ssh (lc_config l)) (env_steps io env)"
  "only_at 18 (\<lambda>l. cfg_max_retries (lc_config l)) (env_steps io env)"
  by (simp_all add: only_at_def step_tables leaves_intros setter_simps)

lemma env_layer:
  assumes "run_steps (env_steps io env) l = Inr l'"
  shows "lc_endpoint l' = layered None (map_option Some (clean_optional (env ''AGENT_ENDPOINT''))) (lc_endpoint l)"
    and "lc_token l' = layered None (map_option Some (clean_optional (env ''AGENT_TOKEN''))) (lc_token l)"
    and "lc_config_file l' = layered None (clean_optional (env ''AGENT_CONFIG_FILE'')) (lc_config_file l)"
    and "cfg_disable_web_ssh (lc_config l') \<longleftrightarrow> env_bool (env ''AGENT_DISABLE_WEB_SSH'') \<or> cfg_disable_web_ssh (lc_config l)"
    and "cfg_max_retries (lc_config l') = parse_env cfg_parse_u32 env ''AGENT_MAX_RETRIES'' (cfg_max_retries (lc_config l))"
proof -
  note set = run_steps_only_at [OF _ assms]
  show "lc_endpoint l' = layered None (map_option Some (clean_optional (env ''AGENT_ENDPOINT''))) (lc_endpoint l)"
    using set [OF env_set_once(1)]
    by (auto simp: step_tables setter_simps apply_string_env_def layered_def split: option.splits)
  show "lc_token l' = layered None (map_option Some (clean_optional (env ''AGENT_TOKEN''))) (lc_token l)"
    using set [OF env_set_once(2)]
    by (auto simp: step_tables setter_simps apply_string_env_def layered_def split: option.splits)
  show "lc_config_file l' = layered None (clean_optional (env ''AGENT_CONFIG_FILE'')) (lc_config_file l)"
    using set [OF env_set_once(3)]
    by (auto simp: step_tables setter_simps apply_string_env_def layered_def split: option.splits)
  show "cfg_disable_web_ssh (lc_config l') \<longleftrightarrow> env_bool (env ''AGENT_DISABLE_WEB_SSH'') \<or> cfg_disable_web_ssh (lc_config l)"
    using set [OF env_set_once(4)]
    by (auto simp: step_tables setter_simps apply_bool_true_env_def split: if_splits)
  show "cfg_max_retries (lc_config l') = parse_env cfg_parse_u32 env ''AGENT_MAX_RETRIES'' (cfg_max_retries (lc_config l))"
    using set [OF env_set_once(5)]
    by (auto simp: step_tables setter_simps apply_parsed_env_def parse_env_def split: option.splits sum.splits)
qed

lemma file_set_once:
  "only_at 0 lc_endpoint (file_steps io fc)"
  "only_at 1 lc_token (file_steps io fc)"
  "only_at 4 (\<lambda>l. cfg_disable_web_ssh (lc_config l)) (file_steps io fc)"
  "only_at 17 (\<lambda>l. cfg_max_retries (lc_config l)) (file_steps io fc)"
  by (simp_all add: only_at_def file_steps_def leaves_intros setter_simps)

lemma file_layer:
  assumes "run_steps (file_steps io fc) l = Inr l'"
  shows "lc_endpoint l' = layered (map_option clean_config_required_string (fc_endpoint fc)) None (lc_endpoint l)"
    and "lc_token l' = layered (map_option clean_config_required_string (fc_token fc)) None (lc_token l)"
    and "cfg_disable_web_ssh (lc_config l') \<longleftrightarrow> layered (fc_disable_web_ssh fc) None (cfg_disable_web_ssh (lc_config l))"
    and "cfg_max_retries (lc_config l') = layered (fc_max_retries fc) None (cfg_max_retries (lc_config l))"
proof -
  note set = run_steps_only_at [OF _ assms]
  show "lc_endpoint l' = layered (map_option clean_config_required_string (fc_endpoint fc)) None (lc_endpoint l)"
    using set [OF file_set_once(1)] by (auto simp: file_steps_def given_value_def layered_def split: option.splits)
  show "lc_token l' = layered (map_option clean_config_required_string (fc_token fc)) None (lc_token l)"
    using set [OF file_set_once(2)] by (auto simp: file_steps_def given_value_def layered_def split: option.splits)
  show "cfg_disable_web_ssh (lc_config l') \<longleftrightarrow> layered (fc_disable_web_ssh fc) None (cfg_disable_web_ssh (lc_config l))"
    using set [OF file_set_once(3)]
    by (auto simp: file_steps_def given_value_def setter_simps layered_def split: option.splits)
  show "cfg_max_retries (lc_config l') = layered (fc_max_retries fc) None (cfg_max_retries (lc_config l))"
    using set [OF file_set_once(4)]
    by (auto simp: file_steps_def given_value_def setter_simps layered_def split: option.splits)
qed

lemma finish_fields:
  assumes "finish_config l = Inr c"
  shows "lc_endpoint l = Some (cfg_endpoint c)"
    and "cfg_token c = (case lc_token l of Some t \<Rightarrow> t | None \<Rightarrow> [])"
    and "cfg_disable_web_ssh c = cfg_disable_web_ssh (lc_config l)" and "cfg_max_retries c = cfg_max_retries (lc_config l)"
  using assms by (auto simp: finish_config_def Let_def result_simps split: option.splits if_splits)

text \<open>
  Claim C31.  The file overrides the environment, and the environment overrides the command line, for texts,
  numbers and switches alike: the endpoint, the token and the number of retries come from the file if it
  gives them, otherwise from the environment if it has a usable value, otherwise from the command line.  Remote
  control is disabled if the file says so; without a word in the file it is disabled if the environment or the
  command line disables it, and neither can enable it again.
\<close>

theorem config_precedence:
  assumes "from_args_and_env io args env = Inr c" and "args_loop io (drop 1 args) (env_defaults io env) = Inr l"
    and "layered None (clean_optional (env ''AGENT_CONFIG_FILE'')) (lc_config_file l) = path" and "path \<noteq> []"
    and "read_file_config io path = Inr fc"
  shows "Some (cfg_endpoint c) = layered (map_option clean_config_required_string (fc_endpoint fc))
           (map_option Some (clean_optional (env ''AGENT_ENDPOINT''))) (lc_endpoint l)
    \<and> cfg_token c = (case layered (map_option clean_config_required_string (fc_token fc))
           (map_option Some (clean_optional (env ''AGENT_TOKEN''))) (lc_token l) of Some t \<Rightarrow> t | None \<Rightarrow> [])
    \<and> cfg_max_retries c = layered (fc_max_retries fc) None
           (parse_env cfg_parse_u32 env ''AGENT_MAX_RETRIES'' (cfg_max_retries (lc_config l)))
    \<and> cfg_disable_web_ssh c = layered (fc_disable_web_ssh fc) None
           (env_bool (env ''AGENT_DISABLE_WEB_SSH'') \<or> cfg_disable_web_ssh (lc_config l))"
proof -
  obtain l2 l3 where l2: "run_steps (env_steps io env) l = Inr l2" and l3: "apply_file io l2 = Inr l3"
    and c: "finish_config l3 = Inr c"
    using assms(1,2) by (auto simp: from_args_and_env_def result_simps)
  note env = env_layer [OF l2]
  have "run_steps (file_steps io fc) l2 = Inr l3"
    using l3 env(3) assms(3-5) by (simp add: apply_file_def)
  note given = file_layer [OF this]
  note fin = finish_fields [OF c]
  have "Some (cfg_endpoint c) = layered (map_option clean_config_required_string (fc_endpoint fc))
           (map_option Some (clean_optional (env ''AGENT_ENDPOINT''))) (lc_endpoint l)"
    using env(1) given(1) fin(1) by (simp add: layered_def split: option.splits)
  moreover have "cfg_token c = (case layered (map_option clean_config_required_string (fc_token fc))
           (map_option Some (clean_optional (env ''AGENT_TOKEN''))) (lc_token l) of Some t \<Rightarrow> t | None \<Rightarrow> [])"
    using env(2) given(2) fin(2) by (simp add: layered_def split: option.splits)
  ultimately show ?thesis using env(4,5) given(3,4) fin(3,4) by simp
qed

definition example_file :: FileConfig where
  "example_file =
     \<lparr>fc_endpoint = None, fc_token = Some '' file '', fc_auto_discovery_key = None, fc_ignore_unsafe_cert = None,
      fc_disable_web_ssh = None, fc_tunnel_control_enabled = None, fc_tunnel_data_enabled = None,
      fc_tunnel_ktp_tcp_address = None, fc_tunnel_ktp_tls_ca_cert = None, fc_tunnel_ktp_tcp_auth_version = None,
      fc_tunnel_ktp_relay_batch_policy = None, fc_adaptive_high_sessions = None, fc_adaptive_elevated_dwell_us = None,
      fc_adaptive_severe_dwell_us = None, fc_adaptive_elevated_cap = None, fc_adaptive_severe_cap = None,
      fc_interval = Some (Finite False 2), fc_max_retries = None, fc_reconnect_interval = None,
      fc_info_report_interval = None, fc_cf_access_client_id = None, fc_cf_access_client_secret = None,
      fc_include_nics = None, fc_exclude_nics = None, fc_include_mountpoints = None, fc_custom_ipv4 = None,
      fc_custom_ipv6 = None, fc_custom_dns = None, fc_get_ip_addr_from_nic = None, fc_memory_include_cache = None,
      fc_memory_report_raw_used = None, fc_enable_gpu = None, fc_month_rotate = None, fc_host_proc = None\<rparr>"

definition example_config_io :: config_io where
  "example_config_io =
     \<lparr>ci_round = Some, ci_show_f64 = (\<lambda>_. []), ci_read_to_string = Inr, ci_from_str = (\<lambda>_. Inr example_file)\<rparr>"

definition example_env :: environment where
  "example_env key = (if key = ''AGENT_MAX_RETRIES'' then Some ''7'' else None)"

lemma example_trim: "trim '' a'' = ''a''" "trim ''c'' = ''c''" "trim ''7'' = ''7''" "trim '' file '' = ''file''"
  by code_simp+

lemma example_retries: "cfg_parse_u32 ''AGENT_MAX_RETRIES'' ''7'' = Inr 7"
  by (simp add: cfg_parse_u32_def example_trim parse_unsigned_def digit_val_def)

lemma example_env_simps:
  "clean_optional (example_env ''AGENT_MAX_RETRIES'') = Some ''7''"
  "key \<noteq> ''AGENT_MAX_RETRIES'' \<Longrightarrow> example_env key = None" "clean_optional None = None" "env_bool None = False"
  by (simp_all add: example_env_def clean_optional_def example_trim env_bool_def)

definition example_locals :: config_locals where
  "example_locals = on_config (\<lambda>c. c\<lparr>cfg_disable_web_ssh := True\<rparr>)
     ((env_defaults example_config_io example_env)\<lparr>lc_endpoint := Some ''a'', lc_config_file := ''c''\<rparr>)"

lemma example_flags:
  "args_loop example_config_io [''-e'', '' a'', ''--config=c'', ''--disable-web-ssh''] (env_defaults example_config_io example_env)
     = Inr example_locals"
  by (simp add: args_loop.simps(2) take_arg_def switch_flags_def flag_tables assignment_tables starts_with_def
      next_value_def clean_required_def example_trim text_value_def cleaned_value_def setter_simps example_locals_def)

lemma example_env_phase: "run_steps (env_steps example_config_io example_env) example_locals
    = Inr (set_max_retries 7 example_locals)"
  by (simp add: step_tables apply_string_env_def apply_bool_true_env_def apply_bool_env_def apply_parsed_env_def
      apply_parsed_env_strict_def apply_tunnel_control_enabled_env_def example_env_simps example_retries)

lemma example_file_phase: "\<exists>l. apply_file example_config_io (set_max_retries 7 example_locals) = Inr l
    \<and> lc_endpoint l = Some ''a'' \<and> lc_token l = Some ''file''
    \<and> cfg_tunnel_ktp_relay_batch_tuning (lc_config l) = batch_tuning_default"
proof -
  let ?l = "set_interval 2 ((set_max_retries 7 example_locals)\<lparr>lc_token := Some ''file''\<rparr>)"
  have "apply_file example_config_io (set_max_retries 7 example_locals) = Inr ?l"
    by (simp add: apply_file_def read_file_config_def example_config_io_def file_steps_def given_value_def given_checked_def
        given_text_def example_file_def validate_positive_f64_def setter_simps example_locals_def
        clean_config_required_string_def example_trim)
  then show ?thesis by (simp add: setter_simps example_locals_def env_defaults_def)
qed

lemma example_accepted:
  "\<exists>c. from_args_and_env example_config_io [''agent'', ''-e'', '' a'', ''--config=c'', ''--disable-web-ssh''] example_env = Inr c"
  using example_flags example_env_phase example_file_phase
  by (auto simp: from_args_and_env_def finish_config_def Let_def validate_tunnel_relay_batch_tuning_def
      batch_tuning_default_def)

theorem config_precedence_witness:
  "\<exists>c. from_args_and_env example_config_io [''agent'', ''-e'', '' a'', ''--config=c'', ''--disable-web-ssh''] example_env = Inr c
    \<and> cfg_endpoint c = ''a'' \<and> cfg_token c = ''file'' \<and> cfg_max_retries c = 7 \<and> cfg_disable_web_ssh c"
proof -
  obtain c where c: "from_args_and_env example_config_io [''agent'', ''-e'', '' a'', ''--config=c'', ''--disable-web-ssh''] example_env = Inr c"
    using example_accepted by blast
  have loc: "lc_config_file example_locals = ''c''" "lc_endpoint example_locals = Some ''a''"
      "cfg_disable_web_ssh (lc_config example_locals)"
    by (simp_all add: example_locals_def setter_simps)
  have path: "layered None (clean_optional (example_env ''AGENT_CONFIG_FILE'')) (lc_config_file example_locals) = ''c''"
    by (simp add: layered_def example_env_simps loc)
  have fc: "read_file_config example_config_io ''c'' = Inr example_file"
    by (simp add: read_file_config_def example_config_io_def)
  have "args_loop example_config_io (drop 1 [''agent'', ''-e'', '' a'', ''--config=c'', ''--disable-web-ssh''])
      (env_defaults example_config_io example_env) = Inr example_locals"
    using example_flags by simp
  from config_precedence [OF c this path _ fc] c show ?thesis
    by (simp add: layered_def example_env_simps example_file_def clean_config_required_string_def example_trim loc
        parse_env_def example_retries)
qed

theorem flag_spellings_agree_witness:
  "args_loop example_config_io [''-e= a''] (env_defaults example_config_io example_env)
     = Inr (set_endpoint ''a'' (env_defaults example_config_io example_env))"
proof -
  have "args_loop example_config_io (''-e'' # '' a'' # []) (env_defaults example_config_io example_env)
      = Inr (set_endpoint ''a'' (env_defaults example_config_io example_env))"
    by (simp add: args_loop.simps(2) take_arg_def switch_flags_def flag_tables next_value_def clean_required_def
        example_trim text_value_def)
  moreover have "''-e'' \<in> set (concat (map fst (value_flags example_config_io)))" by (simp add: flag_tables)
  ultimately show ?thesis using flag_spellings_agree [of "''-e''" example_config_io "'' a''" "[]"] by simp
qed

theorem config_well_formed_witness:
  "\<exists>c. from_args_and_env example_config_io [''agent'', ''-e'', '' a'', ''--config=c'', ''--disable-web-ssh''] example_env = Inr c
    \<and> config_ok c \<and> cfg_endpoint c \<noteq> []"
  using example_accepted config_well_formed by blast

end
