(* ===== verification/AgentRuntime.thy ===== *)
theory AgentRuntime
  imports Protocol Config
begin

text \<open>
  The report loop of the agent, \<open>runtime.rs\<close>, with the recovery of a token, \<open>token.rs\<close>: uploading the basic
  information, connecting the report socket, sending reports and heartbeats and answering the messages of
  the backend.  The traits of the source are a record of operations on a state \<open>'w\<close>; \<open>'s\<close> are sockets, \<open>'r\<close>
  reports and \<open>'q\<close> results of pings.  A finite \<open>f64\<close> is a rational number, a configured value that is not
  finite is \<open>None\<close>, and \<open>rnd\<close> is the rounding of an exact result.  A loop that may not end is \<open>None\<close> then.
\<close>

section \<open>Operations\<close>

datatype RuntimeError = RtProtocol ProtocolError | RtTransport TransportError

record BasicInfo =
  bi_cpu_name :: string
  bi_cpu_cores :: int
  bi_arch :: string
  bi_os :: string
  bi_kernel_version :: string
  bi_ipv4 :: string
  bi_ipv6 :: string
  bi_mem_total :: int
  bi_swap_total :: int
  bi_disk_total :: int
  bi_gpu_name :: string
  bi_virtualization :: string
  bi_version :: string

definition without_kernel_version :: "BasicInfo \<Rightarrow> BasicInfo" where
  "without_kernel_version info = info\<lparr>bi_kernel_version := []\<rparr>"

record ('s, 'w, 'r, 'q) agent_io =
  io_domain_to_ascii :: "string \<Rightarrow> string option"
  io_from_slice :: "bytes \<Rightarrow> string + RawBackendMessage"
  io_basic_info :: "'w \<Rightarrow> BasicInfo \<times> 'w"
  io_upload :: "string \<Rightarrow> HeaderPair list \<Rightarrow> BasicInfo \<Rightarrow> 'w \<Rightarrow> (TransportError + unit) \<times> 'w"
  io_connect :: "string \<Rightarrow> HeaderPair list \<Rightarrow> 'w \<Rightarrow> (TransportError + 's) \<times> 'w"
  io_generate :: "'w \<Rightarrow> 'r \<times> 'w"
  io_send_report :: "'s \<Rightarrow> 'r \<Rightarrow> 'w \<Rightarrow> (TransportError + unit) \<times> 'w"
  io_send_ping :: "'s \<Rightarrow> 'w \<Rightarrow> (TransportError + unit) \<times> 'w"
  io_send_ping_result :: "'s \<Rightarrow> 'q \<Rightarrow> 'w \<Rightarrow> (TransportError + unit) \<times> 'w"
  io_read_message :: "'s \<Rightarrow> 'w \<Rightarrow> (TransportError + bytes option) \<times> 'w"
  io_run_ping :: "u32 \<Rightarrow> string \<Rightarrow> string \<Rightarrow> 'w \<Rightarrow> 'q \<times> 'w"
  io_handle :: "BackendMessage \<Rightarrow> 'w \<Rightarrow> 'w"
  io_recover :: "AgentConfig \<Rightarrow> TransportError \<Rightarrow> 'w \<Rightarrow> (bool \<times> AgentConfig) \<times> 'w"
  io_sleep_report :: "rat \<Rightarrow> 'w \<Rightarrow> 'w"
  io_sleep_reconnect :: "u64 \<Rightarrow> 'w \<Rightarrow> 'w"

section \<open>Uploading and connecting\<close>

definition upload_basic_info_with_legacy_retry ::
  "('s, 'w, 'r, 'q) agent_io \<Rightarrow> string \<Rightarrow> HeaderPair list \<Rightarrow> BasicInfo \<Rightarrow> 'w \<Rightarrow> (TransportError + unit) \<times> 'w" where
  "upload_basic_info_with_legacy_retry io url headers info w =
     (case io_upload io url headers info w of
        (Inr _, w) \<Rightarrow> (Inr (), w)
      | (Inl error, w) \<Rightarrow>
          if (case error of InvalidClientToken _ _ _ _ \<Rightarrow> True | _ \<Rightarrow> False) then (Inl error, w)
          else if bi_kernel_version info = [] then (Inl error, w)
          else io_upload io url headers (without_kernel_version info) w)"

text \<open>The loop recovers the token once at most.  It returns whether it did, and the configuration.\<close>

function upload_loop ::
  "('s, 'w, 'r, 'q) agent_io \<Rightarrow> HeaderPair list \<Rightarrow> BasicInfo \<Rightarrow> bool \<Rightarrow> AgentConfig \<Rightarrow> 'w
   \<Rightarrow> (RuntimeError + bool) \<times> AgentConfig \<times> 'w" where
  "upload_loop io headers info recovered c w =
     (case build_basic_info_url (cfg_endpoint c) (cfg_token c) of
        Inl e \<Rightarrow> (Inl (RtTransport e), c, w)
      | Inr url \<Rightarrow>
          (case upload_basic_info_with_legacy_retry io url headers info w of
             (Inr _, w) \<Rightarrow> (Inr recovered, c, w)
           | (Inl error, w) \<Rightarrow>
               if recovered then (Inl (RtTransport error), c, w)
               else (case io_recover io c error w of
                       ((True, c), w) \<Rightarrow> upload_loop io headers info True c w
                     | ((False, c), w) \<Rightarrow> (Inl (RtTransport error), c, w))))"
  by pat_completeness auto
termination
  by (relation "measure (\<lambda>(io, headers, info, recovered, c, w). if recovered then 0 else 1)") auto

declare upload_loop.simps [simp del]

definition upload_basic_info_with_token_recovery ::
  "('s, 'w, 'r, 'q) agent_io \<Rightarrow> HeaderPair list \<Rightarrow> BasicInfo \<Rightarrow> AgentConfig \<Rightarrow> 'w
   \<Rightarrow> (RuntimeError + bool) \<times> AgentConfig \<times> 'w" where
  "upload_basic_info_with_token_recovery io headers info c w = upload_loop io headers info False c w"

function connect_loop ::
  "('s, 'w, 'r, 'q) agent_io \<Rightarrow> HeaderPair list \<Rightarrow> bool \<Rightarrow> AgentConfig \<Rightarrow> 'w
   \<Rightarrow> (RuntimeError + 's) \<times> AgentConfig \<times> 'w" where
  "connect_loop io headers recovered c w =
     (case build_report_ws_url (io_domain_to_ascii io) (cfg_endpoint c) (cfg_token c) of
        Inl e \<Rightarrow> (Inl (RtProtocol e), c, w)
      | Inr url \<Rightarrow>
          (case io_connect io url headers w of
             (Inr s, w) \<Rightarrow> (Inr s, c, w)
           | (Inl error, w) \<Rightarrow>
               if recovered then (Inl (RtTransport error), c, w)
               else (case io_recover io c error w of
                       ((True, c), w) \<Rightarrow> connect_loop io headers True c w
                     | ((False, c), w) \<Rightarrow> (Inl (RtTransport error), c, w))))"
  by pat_completeness auto
termination
  by (relation "measure (\<lambda>(io, headers, recovered, c, w). if recovered then 0 else 1)") auto

declare connect_loop.simps [simp del]

definition connect_report_with_token_recovery ::
  "('s, 'w, 'r, 'q) agent_io \<Rightarrow> HeaderPair list \<Rightarrow> AgentConfig \<Rightarrow> 'w
   \<Rightarrow> (RuntimeError + 's) \<times> AgentConfig \<times> 'w" where
  "connect_report_with_token_recovery io headers c w = connect_loop io headers False c w"

text \<open>
  \<open>SharedTokenRecovery\<close> wraps a recovery: a recovered token is stored in the shared cell, which does nothing
  when the lock is poisoned.  The event it prints is left out.
\<close>

record shared_token =
  tok_value :: string
  tok_poisoned :: bool

definition token_get :: "shared_token \<Rightarrow> string" where
  "token_get t = (if tok_poisoned t then [] else tok_value t)"

definition token_set :: "string \<Rightarrow> shared_token \<Rightarrow> shared_token" where
  "token_set v t = (if tok_poisoned t then t else t\<lparr>tok_value := v\<rparr>)"

definition shared_recover ::
  "(AgentConfig \<Rightarrow> TransportError \<Rightarrow> 'w \<Rightarrow> (bool \<times> AgentConfig) \<times> 'w)
   \<Rightarrow> AgentConfig \<Rightarrow> TransportError \<Rightarrow> shared_token \<times> 'w \<Rightarrow> (bool \<times> AgentConfig) \<times> (shared_token \<times> 'w)" where
  "shared_recover inner c error s =
     (case inner c error (snd s) of
        ((recovered, c), w) \<Rightarrow>
          ((recovered, c), (if recovered then token_set (cfg_token c) (fst s) else fst s, w)))"

section \<open>Messages\<close>

definition process_backend_message ::
  "('s, 'w, 'r, 'q) agent_io \<Rightarrow> 's \<Rightarrow> bytes \<Rightarrow> 'w \<Rightarrow> (RuntimeError + unit) \<times> 'w" where
  "process_backend_message io s bs w =
     (case parse_socket_message (io_from_slice io) bs of
        PingMessage task_id ping_type target \<Rightarrow>
          (case io_run_ping io task_id ping_type target w of
             (result, w) \<Rightarrow>
               (case io_send_ping_result io s result w of
                  (Inl e, w) \<Rightarrow> (Inl (RtTransport e), w)
                | (Inr _, w) \<Rightarrow> (Inr (), w)))
      | other \<Rightarrow> (Inr (), io_handle io other w))"

text \<open>The result tells whether the socket is to be given up.\<close>

partial_function (option) drain_backend_messages_for_cycle ::
  "('s, 'w, 'r, 'q) agent_io \<Rightarrow> 's \<Rightarrow> 'w \<Rightarrow> ((RuntimeError + bool) \<times> 'w) option" where
  "drain_backend_messages_for_cycle io s w =
     (case io_read_message io s w of
        (Inr (Some bs), w) \<Rightarrow>
          (case process_backend_message io s bs w of
             (Inl (RtTransport _), w) \<Rightarrow> Some (Inr True, w)
           | (Inl other, w) \<Rightarrow> Some (Inl other, w)
           | (Inr _, w) \<Rightarrow> drain_backend_messages_for_cycle io s w)
      | (Inr None, w) \<Rightarrow> Some (Inr False, w)
      | (Inl _, w) \<Rightarrow> Some (Inr True, w))"

text \<open>\<open>drain_backend_messages\<close>, where every error ends the run.\<close>

partial_function (option) drain_backend_messages ::
  "('s, 'w, 'r, 'q) agent_io \<Rightarrow> 's \<Rightarrow> 'w \<Rightarrow> ((RuntimeError + unit) \<times> 'w) option" where
  "drain_backend_messages io s w =
     (case io_read_message io s w of
        (Inr (Some bs), w) \<Rightarrow>
          (case process_backend_message io s bs w of
             (Inl e, w) \<Rightarrow> Some (Inl e, w)
           | (Inr _, w) \<Rightarrow> drain_backend_messages io s w)
      | (Inr None, w) \<Rightarrow> Some (Inr (), w)
      | (Inl e, w) \<Rightarrow> Some (Inl (RtTransport e), w))"

definition run_once_with_ping_and_token_recovery ::
  "('s, 'w, 'r, 'q) agent_io \<Rightarrow> AgentConfig \<Rightarrow> 'w \<Rightarrow> ((RuntimeError + unit) \<times> AgentConfig \<times> 'w) option" where
  "run_once_with_ping_and_token_recovery io c w =
     (let headers = access_headers (cfg_cf_access_client_id c) (cfg_cf_access_client_secret c) in
      case io_basic_info io w of (info, w) \<Rightarrow>
      (case upload_basic_info_with_token_recovery io headers info c w of
         (Inl e, c, w) \<Rightarrow> Some (Inl e, c, w)
       | (Inr _, c, w) \<Rightarrow>
           (case connect_report_with_token_recovery io headers c w of
              (Inl e, c, w) \<Rightarrow> Some (Inl e, c, w)
            | (Inr s, c, w) \<Rightarrow>
                (case io_generate io w of (report, w) \<Rightarrow>
                 (case io_send_report io s report w of
                    (Inl e, w) \<Rightarrow> Some (Inl (RtTransport e), c, w)
                  | (Inr _, w) \<Rightarrow> map_option (\<lambda>(r, w). (r, c, w)) (drain_backend_messages io s w))))))"

section \<open>Intervals\<close>

definition report_tick_interval_seconds :: "(rat \<Rightarrow> rat) \<Rightarrow> rat option \<Rightarrow> rat" where
  "report_tick_interval_seconds rnd interval =
     (case interval of None \<Rightarrow> 1 | Some x \<Rightarrow> if x \<le> 1 then 1 else rnd (x - 1))"

definition f64_as_usize :: "rat \<Rightarrow> nat" where
  "f64_as_usize x = nat (max 0 (min (int usize_max) \<lfloor>x\<rfloor>))"

definition heartbeat_interval_cycles :: "(rat \<Rightarrow> rat) \<Rightarrow> rat \<Rightarrow> nat" where
  "heartbeat_interval_cycles rnd interval =
     (if interval \<le> 0 then 30 else f64_as_usize (max (of_int \<lceil>rnd (30 / interval)\<rceil>) 1))"

definition basic_info_interval_cycles :: "(rat \<Rightarrow> rat) \<Rightarrow> rat \<Rightarrow> u64 \<Rightarrow> nat" where
  "basic_info_interval_cycles rnd interval minutes =
     (if interval \<le> 0 \<or> minutes = 0 then 1
      else f64_as_usize (max (of_int \<lceil>rnd (rnd (rnd (of_nat (unat minutes)) * 60) / interval)\<rceil>) 1))"

section \<open>The loop\<close>

text \<open>Sleeping in steps of at most a second, with the messages of the backend after each.\<close>

partial_function (option) sleep_loop ::
  "(rat \<Rightarrow> rat) \<Rightarrow> ('s, 'w, 'r, 'q) agent_io \<Rightarrow> rat \<Rightarrow> 's option \<Rightarrow> 'w \<Rightarrow> ((RuntimeError + 's option) \<times> 'w) option" where
  "sleep_loop rnd io remaining socket w =
     (if remaining \<le> 0 then Some (Inr socket, w)
      else
        let sleep_for = min remaining 1;
            w = io_sleep_report io sleep_for w;
            remaining = max (rnd (remaining - sleep_for)) 0 in
        case socket of
          None \<Rightarrow> sleep_loop rnd io remaining socket w
        | Some s \<Rightarrow>
            Option.bind (drain_backend_messages_for_cycle io s w) (\<lambda>x. case x of
              (Inl e, w) \<Rightarrow> Some (Inl e, w)
            | (Inr gone, w) \<Rightarrow>
                if gone then Some (Inr None, w) else sleep_loop rnd io remaining socket w))"

definition sleep_report_interval_with_control_messages ::
  "(rat \<Rightarrow> rat) \<Rightarrow> ('s, 'w, 'r, 'q) agent_io \<Rightarrow> rat \<Rightarrow> 's option \<Rightarrow> 'w \<Rightarrow> ((RuntimeError + 's option) \<times> 'w) option" where
  "sleep_report_interval_with_control_messages rnd io seconds socket w = sleep_loop rnd io seconds socket w"

record 's agent_loop =
  lp_config :: AgentConfig
  lp_socket :: "'s option"
  lp_failures :: u32

text \<open>The parts of a cycle; \<open>Inl\<close> in the second ends the cycle early.\<close>

definition cycle_upload ::
  "('s, 'w, 'r, 'q) agent_io \<Rightarrow> HeaderPair list \<Rightarrow> nat \<Rightarrow> nat \<Rightarrow> 's agent_loop \<Rightarrow> 'w
   \<Rightarrow> (RuntimeError + 's agent_loop) \<times> 'w" where
  "cycle_upload io headers basic_info_every cycle l w =
     (if cycle mod basic_info_every = 0 then
        (case io_basic_info io w of (info, w) \<Rightarrow>
         (case upload_basic_info_with_token_recovery io headers info (lp_config l) w of
            (Inr True, c, w) \<Rightarrow> (Inr (l\<lparr>lp_config := c, lp_socket := None\<rparr>), w)
          | (Inr False, c, w) \<Rightarrow> (Inr (l\<lparr>lp_config := c\<rparr>), w)
          | (Inl error, c, w) \<Rightarrow>
              if cycle = 0 then (Inl error, w) else (Inr (l\<lparr>lp_config := c\<rparr>), w)))
      else (Inr l, w))"

definition cycle_connect ::
  "('s, 'w, 'r, 'q) agent_io \<Rightarrow> HeaderPair list \<Rightarrow> 's agent_loop \<Rightarrow> 'w
   \<Rightarrow> ((RuntimeError + 's agent_loop) + 's agent_loop) \<times> 'w" where
  "cycle_connect io headers l w =
     (if lp_socket l = None then
        (case connect_report_with_token_recovery io headers (lp_config l) w of
           (Inr s, c, w) \<Rightarrow> (Inr (l\<lparr>lp_config := c, lp_socket := Some s, lp_failures := 0\<rparr>), w)
         | (Inl error, c, w) \<Rightarrow>
             let failures = lp_failures l + 1; l = l\<lparr>lp_config := c, lp_failures := failures\<rparr> in
             if cfg_max_retries c < failures then (Inl (Inl error), w)
             else (Inl (Inr l), io_sleep_reconnect io (cfg_reconnect_interval_seconds c) w))
      else (Inr l, w))"

text \<open>The use of the socket in a cycle; the result tells whether to disconnect.\<close>

definition cycle_report ::
  "('s, 'w, 'r, 'q) agent_io \<Rightarrow> nat \<Rightarrow> nat \<Rightarrow> 's \<Rightarrow> 'w \<Rightarrow> ((RuntimeError + bool) \<times> 'w) option" where
  "cycle_report io heartbeat_every cycle s w =
     Option.bind (drain_backend_messages_for_cycle io s w) (\<lambda>x. case x of
       (Inl e, w) \<Rightarrow> Some (Inl e, w)
     | (Inr True, w) \<Rightarrow> Some (Inr True, w)
     | (Inr False, w) \<Rightarrow>
         (case io_generate io w of (report, w) \<Rightarrow>
          (case io_send_report io s report w of
             (Inl _, w) \<Rightarrow> Some (Inr True, w)
           | (Inr _, w) \<Rightarrow>
               Option.bind (drain_backend_messages_for_cycle io s w) (\<lambda>x. case x of
                 (Inl e, w) \<Rightarrow> Some (Inl e, w)
               | (Inr True, w) \<Rightarrow> Some (Inr True, w)
               | (Inr False, w) \<Rightarrow>
                   if (cycle + 1) mod heartbeat_every = 0 then
                     (case io_send_ping io s w of (r, w) \<Rightarrow> Some (Inr (isl r), w))
                   else Some (Inr False, w)))))"

text \<open>The end of a cycle, with the sleep unless the cycle is the last.\<close>

definition cycle_end ::
  "(rat \<Rightarrow> rat) \<Rightarrow> ('s, 'w, 'r, 'q) agent_io \<Rightarrow> rat \<Rightarrow> bool \<Rightarrow> bool \<Rightarrow> 's agent_loop \<Rightarrow> 'w
   \<Rightarrow> ((RuntimeError + 's agent_loop) \<times> 'w) option" where
  "cycle_end rnd io interval another disconnect l w =
     (let l = (if disconnect then l\<lparr>lp_socket := None\<rparr> else l) in
      if another then
        Option.bind (sleep_report_interval_with_control_messages rnd io interval (lp_socket l) w) (\<lambda>x. case x of
          (Inl e, w) \<Rightarrow> Some (Inl e, w)
        | (Inr socket, w) \<Rightarrow> Some (Inr (l\<lparr>lp_socket := socket\<rparr>), w))
      else Some (Inr l, w))"

definition report_cycle ::
  "(rat \<Rightarrow> rat) \<Rightarrow> ('s, 'w, 'r, 'q) agent_io \<Rightarrow> HeaderPair list \<Rightarrow> rat \<Rightarrow> nat \<Rightarrow> nat \<Rightarrow> nat \<Rightarrow> nat
   \<Rightarrow> 's agent_loop \<Rightarrow> 'w \<Rightarrow> ((RuntimeError + 's agent_loop) \<times> 'w) option" where
  "report_cycle rnd io headers interval heartbeat_every basic_info_every cycles cycle l w =
     (case cycle_upload io headers basic_info_every cycle l w of
        (Inl e, w) \<Rightarrow> Some (Inl e, w)
      | (Inr l, w) \<Rightarrow>
          (case cycle_connect io headers l w of
             (Inl (Inl e), w) \<Rightarrow> Some (Inl e, w)
           | (Inl (Inr l), w) \<Rightarrow> Some (Inr l, w)
           | (Inr l, w) \<Rightarrow>
               Option.bind
                 (case lp_socket l of
                    None \<Rightarrow> Some (Inr False, w)
                  | Some s \<Rightarrow> cycle_report io heartbeat_every cycle s w) (\<lambda>x. case x of
                 (Inl e, w) \<Rightarrow> Some (Inl e, w)
               | (Inr disconnect, w) \<Rightarrow> cycle_end rnd io interval (cycle + 1 < cycles) disconnect l w)))"

text \<open>
  The cycles that are left, the first of them being number \<open>cycles - n\<close>.  The configuration is not returned
  with an error, which ends the agent.
\<close>

fun report_cycles ::
  "(nat \<Rightarrow> 's agent_loop \<Rightarrow> 'w \<Rightarrow> ((RuntimeError + 's agent_loop) \<times> 'w) option) \<Rightarrow> nat \<Rightarrow> nat
   \<Rightarrow> 's agent_loop \<Rightarrow> 'w \<Rightarrow> ((RuntimeError + 's agent_loop) \<times> 'w) option" where
  "report_cycles body cycles 0 l w = Some (Inr l, w)"
| "report_cycles body cycles (Suc n) l w =
     Option.bind (body (cycles - Suc n) l w) (\<lambda>x. case x of
       (Inl e, w) \<Rightarrow> Some (Inl e, w)
     | (Inr l, w) \<Rightarrow> report_cycles body cycles n l w)"

definition run_report_cycles_with_ping_delay_and_token_recovery ::
  "(rat \<Rightarrow> rat) \<Rightarrow> ('s, 'w, 'r, 'q) agent_io \<Rightarrow> AgentConfig \<Rightarrow> nat \<Rightarrow> 'w
   \<Rightarrow> ((RuntimeError + 's agent_loop) \<times> 'w) option" where
  "run_report_cycles_with_ping_delay_and_token_recovery rnd io c cycles w =
     (let headers = access_headers (cfg_cf_access_client_id c) (cfg_cf_access_client_secret c);
          interval = report_tick_interval_seconds rnd (cfg_interval_seconds c);
          heartbeat_every = heartbeat_interval_cycles rnd interval;
          basic_info_every = basic_info_interval_cycles rnd interval (cfg_info_report_interval_minutes c) in
      report_cycles (report_cycle rnd io headers interval heartbeat_every basic_info_every cycles) cycles cycles
        \<lparr>lp_config = c, lp_socket = None, lp_failures = 0\<rparr> w)"

section \<open>Backends that let the loop end\<close>

text \<open>
  \<open>budget\<close> bounds the messages the backend still sends: reading one uses it up, and no operation adds to it.
  For such a backend every loop returns, whatever fails.
\<close>

locale finite_backend =
  fixes io :: "('s, 'w, 'r, 'q) agent_io"
    and budget :: "'w \<Rightarrow> nat"
  assumes read_message: "io_read_message io s w = (r, w') \<Longrightarrow>
      budget w' \<le> budget w \<and> ((\<exists>bs. r = Inr (Some bs)) \<longrightarrow> budget w' < budget w)"
    and run_ping: "budget (snd (io_run_ping io t k g w)) \<le> budget w"
    and send_ping_result: "budget (snd (io_send_ping_result io s q w)) \<le> budget w"
    and handle: "budget (io_handle io m w) \<le> budget w"
    and generate: "budget (snd (io_generate io w)) \<le> budget w"
    and send_report: "budget (snd (io_send_report io s p w)) \<le> budget w"
    and send_ping: "budget (snd (io_send_ping io s w)) \<le> budget w"
begin

lemma process_budget: "budget (snd (process_backend_message io s bs w)) \<le> budget w"
proof (cases "parse_socket_message (io_from_slice io) bs")
  case (PingMessage t k g)
  obtain q w1 where q: "io_run_ping io t k g w = (q, w1)" by fastforce
  obtain r w2 where r: "io_send_ping_result io s q w1 = (r, w2)" by fastforce
  have "budget w2 \<le> budget w"
    using run_ping [of t k g w] send_ping_result [of s q w1] q r by simp
  then show ?thesis
    using PingMessage q r by (cases r) (simp_all add: process_backend_message_def)
qed (simp_all add: process_backend_message_def handle)

lemma drain_step:
  "(\<exists>r w'. drain_backend_messages_for_cycle io s w = Some (r, w') \<and> budget w' \<le> budget w)
   \<or> (\<exists>w'. drain_backend_messages_for_cycle io s w = drain_backend_messages_for_cycle io s w' \<and> budget w' < budget w)"
proof -
  obtain r w1 where r: "io_read_message io s w = (r, w1)" by fastforce
  note b = read_message [OF r]
  show ?thesis
  proof (cases "\<exists>bs. r = Inr (Some bs)")
    case True
    then obtain bs where bs: "r = Inr (Some bs)" ..
    obtain x w2 where x: "process_backend_message io s bs w1 = (x, w2)" by fastforce
    have "budget w2 < budget w" using process_budget [of s bs w1] b True x by simp
    then show ?thesis
      using r bs x
      by (subst (1 2) drain_backend_messages_for_cycle.simps)
        (auto split: sum.splits RuntimeError.splits intro: less_imp_le)
  next
    case False
    then show ?thesis
      using r b
      by (subst (1 2) drain_backend_messages_for_cycle.simps)
        (auto split: sum.splits option.splits)
  qed
qed

lemma drain_returns:
  "\<exists>r w'. drain_backend_messages_for_cycle io s w = Some (r, w') \<and> budget w' \<le> budget w"
proof (induction "budget w" arbitrary: w rule: less_induct)
  case less
  from drain_step [of s w] show ?case
  proof
    assume "\<exists>w'. drain_backend_messages_for_cycle io s w = drain_backend_messages_for_cycle io s w' \<and> budget w' < budget w"
    then obtain w' where w': "drain_backend_messages_for_cycle io s w = drain_backend_messages_for_cycle io s w'"
        "budget w' < budget w" by blast
    then show ?thesis using less [OF w'(2)] by (metis less_imp_le order_trans)
  qed
qed

lemma cycle_report_returns: "\<exists>r w'. cycle_report io h k s w = Some (r, w')"
proof -
  obtain r1 w1 where d1: "drain_backend_messages_for_cycle io s w = Some (r1, w1)"
    using drain_returns by blast
  obtain rep w2 where g: "io_generate io w1 = (rep, w2)" by fastforce
  obtain r3 w3 where sr: "io_send_report io s rep w2 = (r3, w3)" by fastforce
  obtain r4 w4 where d2: "drain_backend_messages_for_cycle io s w3 = Some (r4, w4)"
    using drain_returns by blast
  show ?thesis
    using d1 g sr d2 by (auto simp: cycle_report_def split: sum.splits bool.splits prod.splits)
qed

end

text \<open>
  Rounding is harmless up to \<open>b\<close> if it is off by no more than a half there; for \<open>f64\<close> that is so up to
  \<open>2 ^ 53\<close>.
\<close>

definition rounds_well :: "(rat \<Rightarrow> rat) \<Rightarrow> rat \<Rightarrow> bool" where
  "rounds_well rnd b \<longleftrightarrow> rnd 0 = 0 \<and> (\<forall>x. 0 \<le> x \<and> x \<le> b \<longrightarrow> rnd x \<le> x + 1 / 2)"

lemma rounds_wellD: "rounds_well rnd b \<Longrightarrow> 0 \<le> x \<Longrightarrow> x \<le> b \<Longrightarrow> rnd x \<le> x + 1 / 2"
  by (simp add: rounds_well_def)

lemma rounds_well_step:
  assumes "rounds_well rnd b" and "0 < x" and "x \<le> b"
  shows "max (rnd (x - min x 1)) 0 \<le> b"
    and "nat \<lceil>2 * max (rnd (x - min x 1)) 0\<rceil> < nat \<lceil>2 * x\<rceil>"
proof -
  have "max (rnd (x - min x 1)) 0 = 0 \<or> 1 < x \<and> max (rnd (x - min x 1)) 0 \<le> x - 1 / 2"
  proof (cases "x \<le> 1")
    case True
    then show ?thesis using assms by (simp add: rounds_well_def)
  next
    case False
    moreover have "rnd (x - 1) \<le> x - 1 + 1 / 2"
      using rounds_wellD [OF assms(1), of "x - 1"] assms(3) False by simp
    ultimately show ?thesis by (simp add: min_def max_def)
  qed
  then show "max (rnd (x - min x 1)) 0 \<le> b"
      "nat \<lceil>2 * max (rnd (x - min x 1)) 0\<rceil> < nat \<lceil>2 * x\<rceil>"
  proof (atomize (full), elim disjE conjE)
    assume z: "max (rnd (x - min x 1)) 0 = 0"
    have "0 < \<lceil>2 * x\<rceil>" using assms(2) by (simp add: less_ceiling_iff)
    then show "max (rnd (x - min x 1)) 0 \<le> b \<and> nat \<lceil>2 * max (rnd (x - min x 1)) 0\<rceil> < nat \<lceil>2 * x\<rceil>"
      using z assms by simp
  next
    let ?y = "max (rnd (x - min x 1)) 0"
    assume y: "1 < x" "?y \<le> x - 1 / 2"
    then have "\<lceil>2 * ?y\<rceil> \<le> \<lceil>2 * x - 1\<rceil>" by (intro ceiling_mono) simp
    also have "\<dots> = \<lceil>2 * x\<rceil> - 1" by simp
    finally have "\<lceil>2 * ?y\<rceil> < \<lceil>2 * x\<rceil>" by simp
    moreover have "0 < \<lceil>2 * x\<rceil>" using assms(2) by (simp add: less_ceiling_iff)
    ultimately show "?y \<le> b \<and> nat \<lceil>2 * ?y\<rceil> < nat \<lceil>2 * x\<rceil>"
      using y assms(3) by (simp add: nat_less_iff)
  qed
qed

context finite_backend
begin

lemma sleep_returns:
  assumes "rounds_well rnd b" and "x \<le> b"
  shows "\<exists>r w'. sleep_loop rnd io x socket w = Some (r, w')"
  using assms(2)
proof (induction "nat \<lceil>2 * x\<rceil>" arbitrary: x w rule: less_induct)
  case less
  show ?case
  proof (cases "x \<le> 0")
    case True
    then show ?thesis by (subst sleep_loop.simps) simp
  next
    case False
    let ?y = "max (rnd (x - min x 1)) 0" and ?w = "io_sleep_report io (min x 1) w"
    have ih: "\<exists>r w'. sleep_loop rnd io ?y socket v = Some (r, w')" for v
      using less.hyps [of ?y v] rounds_well_step [OF assms(1), of x] less.prems False by auto
    show ?thesis
    proof (cases socket)
      case None
      then show ?thesis using ih [of ?w] False by (subst sleep_loop.simps) (simp add: Let_def)
    next
      case (Some s)
      obtain r w1 where d: "drain_backend_messages_for_cycle io s ?w = Some (r, w1)"
        using drain_returns by blast
      then show ?thesis
        using ih [of w1] False Some
        by (subst sleep_loop.simps) (auto simp: Let_def split: sum.split)
    qed
  qed
qed

lemma cycle_end_returns:
  assumes "rounds_well rnd b" and "interval \<le> b"
  shows "\<exists>r w'. cycle_end rnd io interval another disc l w = Some (r, w')"
proof -
  define l' where "l' = (if disc then l\<lparr>lp_socket := None\<rparr> else l)"
  obtain q w1 where "sleep_loop rnd io interval (lp_socket l') w = Some (q, w1)"
    using sleep_returns [OF assms] by blast
  then show ?thesis
    by (cases q)
      (simp_all add: cycle_end_def sleep_report_interval_with_control_messages_def Let_def l'_def [symmetric])
qed

lemma cycle_returns:
  assumes "rounds_well rnd b" and "interval \<le> b"
  shows "\<exists>r w'. report_cycle rnd io headers interval h bi cycles k l w = Some (r, w')"
proof -
  obtain u w1 where u: "cycle_upload io headers bi k l w = (u, w1)" by fastforce
  show ?thesis
  proof (cases u)
    case (Inr l1)
    obtain x w2 where x: "cycle_connect io headers l1 w1 = (x, w2)" by fastforce
    show ?thesis
    proof (cases x)
      case l2: (Inr l2)
      define use where "use = (case lp_socket l2 of None \<Rightarrow> Some (Inr False, w2) | Some s \<Rightarrow> cycle_report io h k s w2)"
      obtain r w3 where use: "use = Some (r, w3)"
        unfolding use_def by (cases "lp_socket l2") (simp, use cycle_report_returns in fastforce)
      show ?thesis
      proof (cases r)
        case (Inl e)
        then show ?thesis using u Inr x l2 use [unfolded use_def] by (simp add: report_cycle_def)
      next
        case disc: (Inr disc)
        then show ?thesis
          using u Inr x l2 use [unfolded use_def] cycle_end_returns [OF assms] by (simp add: report_cycle_def)
      qed
    qed (use u Inr x in \<open>auto simp: report_cycle_def split: sum.split\<close>)
  qed (use u in \<open>simp add: report_cycle_def\<close>)
qed

lemma cycles_return:
  assumes "rounds_well rnd b" and "interval \<le> b"
  shows "\<exists>r w'. report_cycles (report_cycle rnd io headers interval h bi cycles) cycles n l w = Some (r, w')"
proof (induction n arbitrary: l w)
  case (Suc n)
  obtain r w' where "report_cycle rnd io headers interval h bi cycles (cycles - Suc n) l w = Some (r, w')"
    using cycle_returns [OF assms] by blast
  then show ?case using Suc by (auto split: sum.split)
qed simp

end

section \<open>Sockets that failed\<close>

text \<open>
  \<open>live s w\<close> says that the socket \<open>s\<close> is open and has not failed, \<open>fine w\<close> that no socket has been used after
  it failed.  The operations on a live socket keep the world fine and leave the socket live unless they fail;
  the others touch no socket.  Then the loop never uses a socket that failed.
\<close>

definition keeps :: "('w \<Rightarrow> bool) \<Rightarrow> ('s \<Rightarrow> 'w \<Rightarrow> bool) \<Rightarrow> ('w \<Rightarrow> 'w) \<Rightarrow> bool" where
  "keeps fine live f \<longleftrightarrow> (\<forall>w. fine w \<longrightarrow> fine (f w)) \<and> (\<forall>s w. live s w \<longrightarrow> live s (f w))"

definition uses :: "('w \<Rightarrow> bool) \<Rightarrow> ('s \<Rightarrow> 'w \<Rightarrow> bool) \<Rightarrow> 's \<Rightarrow> ('w \<Rightarrow> (TransportError + 'a) \<times> 'w) \<Rightarrow> bool" where
  "uses fine live s f \<longleftrightarrow>
     (\<forall>w r w'. live s w \<longrightarrow> f w = (r, w') \<longrightarrow> fine w' \<and> (\<not> isl r \<longrightarrow> live s w'))"

definition socket_ok :: "('w \<Rightarrow> bool) \<Rightarrow> ('s \<Rightarrow> 'w \<Rightarrow> bool) \<Rightarrow> 's option \<Rightarrow> 'w \<Rightarrow> bool" where
  "socket_ok fine live so w \<longleftrightarrow> fine w \<and> (\<forall>s. so = Some s \<longrightarrow> live s w)"

locale socket_discipline =
  fixes io :: "('s, 'w, 'r, 'q) agent_io"
    and fine :: "'w \<Rightarrow> bool"
    and live :: "'s \<Rightarrow> 'w \<Rightarrow> bool"
  assumes live_fine: "live s w \<Longrightarrow> fine w"
    and connect: "fine w \<Longrightarrow> io_connect io url headers w = (r, w') \<Longrightarrow> fine w' \<and> (\<forall>s. r = Inr s \<longrightarrow> live s w')"
    and info_keeps: "keeps fine live (\<lambda>w. snd (io_basic_info io w))"
    and upload_keeps: "keeps fine live (\<lambda>w. snd (io_upload io url headers info w))"
    and recover_keeps: "keeps fine live (\<lambda>w. snd (io_recover io c e w))"
    and generate_keeps: "keeps fine live (\<lambda>w. snd (io_generate io w))"
    and run_keeps: "keeps fine live (\<lambda>w. snd (io_run_ping io t k g w))"
    and handle_keeps: "keeps fine live (io_handle io m)"
    and sleep_keeps: "keeps fine live (io_sleep_report io x)"
    and reconnect_keeps: "keeps fine live (io_sleep_reconnect io n)"
    and report_uses: "uses fine live s (io_send_report io s p)"
    and ping_uses: "uses fine live s (io_send_ping io s)"
    and result_uses: "uses fine live s (io_send_ping_result io s q)"
    and read_uses: "uses fine live s (io_read_message io s)"
begin

lemma keeps_pair: "keeps fine live (\<lambda>w. snd (f w)) \<Longrightarrow> f w = (r, w') \<Longrightarrow> (fine w \<longrightarrow> fine w') \<and> (live s w \<longrightarrow> live s w')"
  by (metis keeps_def snd_conv)

lemma process_live:
  assumes "live s w" and "process_backend_message io s bs w = (r, w')"
  shows "fine w' \<and> (\<not> isl r \<longrightarrow> live s w')"
proof (cases "parse_socket_message (io_from_slice io) bs")
  case (PingMessage t k g)
  obtain q w1 where q: "io_run_ping io t k g w = (q, w1)" by fastforce
  obtain x w2 where x: "io_send_ping_result io s q w1 = (x, w2)" by fastforce
  have "live s w1" using keeps_pair [OF run_keeps q] assms(1) by blast
  then have "fine w2 \<and> (\<not> isl x \<longrightarrow> live s w2)" using result_uses x unfolding uses_def by blast
  then show ?thesis
    using assms(2) PingMessage q x by (auto simp: process_backend_message_def split: sum.splits)
qed (use assms handle_keeps live_fine in \<open>auto simp: process_backend_message_def keeps_def\<close>)

lemma drain_live:
  assumes "drain_backend_messages_for_cycle io s w = Some (r, w')" and "live s w"
  shows "fine w' \<and> (r = Inr False \<longrightarrow> live s w')"
proof -
  have "io = io \<longrightarrow> live s w \<longrightarrow> fine (snd (r, w')) \<and> (fst (r, w') = Inr False \<longrightarrow> live s (snd (r, w')))"
  proof (rule drain_backend_messages_for_cycle.raw_induct [where
        P = "\<lambda>io' s w x. io' = io \<longrightarrow> live s w \<longrightarrow> fine (snd x) \<and> (fst x = Inr False \<longrightarrow> live s (snd x))",
        OF _ assms(1)], goal_cases)
    case (1 rec io' s w x)
    show ?case
    proof (intro impI)
      assume io: "io' = io" and live: "live s w"
      obtain r w1 where r: "io_read_message io s w = (r, w1)" by fastforce
      have w1: "fine w1 \<and> (\<not> isl r \<longrightarrow> live s w1)" using read_uses live r unfolding uses_def by blast
      show "fine (snd x) \<and> (fst x = Inr False \<longrightarrow> live s (snd x))"
      proof (cases "\<exists>bs. r = Inr (Some bs)")
        case True
        then obtain bs where bs: "r = Inr (Some bs)" ..
        obtain y w2 where y: "process_backend_message io s bs w1 = (y, w2)" by fastforce
        have "fine w2 \<and> (\<not> isl y \<longrightarrow> live s w2)" using process_live [OF _ y] w1 bs by simp
        then show ?thesis
          using 1 io r bs y by (auto split: sum.splits RuntimeError.splits)
      qed (use 1(2) io r w1 in \<open>auto split: sum.splits option.splits\<close>)
    qed
  qed
  then show ?thesis using assms(2) by simp
qed

lemma upload_loop_keeps: "keeps fine live (\<lambda>w. snd (snd (upload_loop io headers info rec c w)))"
proof -
  have retry: "keeps fine live (\<lambda>w. snd (upload_basic_info_with_legacy_retry io url headers info w))" for url
    using upload_keeps unfolding keeps_def upload_basic_info_with_legacy_retry_def
    by (auto split: prod.splits sum.splits; metis snd_conv)
  have once: "keeps fine live (\<lambda>w. snd (snd (upload_loop io headers info True c w)))" for c
    using retry unfolding keeps_def
    by (subst (1 2) upload_loop.simps) (auto split: prod.splits sum.splits; metis snd_conv)
  show ?thesis
    using retry recover_keeps once unfolding keeps_def
    by (subst (1 2) upload_loop.simps) (auto split: prod.splits sum.splits bool.splits; metis snd_conv)
qed

lemma connect_once_live:
  assumes "fine w" and "connect_loop io headers True c w = (r, c', w')"
  shows "fine w' \<and> (\<forall>s. r = Inr s \<longrightarrow> live s w')"
  using assms connect by (subst (asm) connect_loop.simps) (fastforce split: prod.splits sum.splits)

lemma connect_live:
  assumes "fine w" and "connect_loop io headers False c w = (r, c', w')"
  shows "fine w' \<and> (\<forall>s. r = Inr s \<longrightarrow> live s w')"
proof (cases "build_report_ws_url (io_domain_to_ascii io) (cfg_endpoint c) (cfg_token c)")
  case (Inl e)
  then show ?thesis using assms by (auto simp: connect_loop.simps)
next
  case (Inr url)
  obtain x w1 where x: "io_connect io url headers w = (x, w1)" by fastforce
  note w1 = connect [OF assms(1) x]
  show ?thesis
  proof (cases x)
    case (Inl e)
    obtain b d w2 where b: "io_recover io c e w1 = ((b, d), w2)" by (metis surj_pair)
    have "fine w2" using keeps_pair [OF recover_keeps b] w1 by blast
    then show ?thesis
      using assms(2) Inr x Inl b connect_once_live [of w2 headers d r c' w']
      by (cases b) (auto simp: connect_loop.simps [of io headers False])
  qed (use assms(2) Inr x w1 in \<open>auto simp: connect_loop.simps\<close>)
qed

lemma cycle_upload_live:
  assumes "socket_ok fine live (lp_socket l) w" and "cycle_upload io headers bi k l w = (r, w')"
  shows "fine w' \<and> (\<forall>l'. r = Inr l' \<longrightarrow> socket_ok fine live (lp_socket l') w')"
proof -
  obtain info w1 where i: "io_basic_info io w = (info, w1)" by fastforce
  obtain x c w2 where x: "upload_loop io headers info False (lp_config l) w1 = (x, c, w2)" by (metis surj_pair)
  have "(\<lambda>w. snd (upload_loop io headers info False (lp_config l) w)) w1 = (c, w2)" using x by simp
  note k = keeps_pair [OF info_keeps i] keeps_pair [OF upload_loop_keeps this]
  have "socket_ok fine live (lp_socket l) w2" using k assms(1) unfolding socket_ok_def by blast
  then show ?thesis
    using assms i x unfolding cycle_upload_def upload_basic_info_with_token_recovery_def
    by (auto simp: socket_ok_def split: if_splits sum.splits bool.splits)
qed

lemma cycle_connect_live:
  assumes "socket_ok fine live (lp_socket l) w" and "cycle_connect io headers l w = (r, w')"
  shows "fine w' \<and> (\<forall>l'. r = Inr l' \<or> r = Inl (Inr l') \<longrightarrow> socket_ok fine live (lp_socket l') w')"
proof (cases "lp_socket l")
  case None
  obtain x c w1 where x: "connect_loop io headers False (lp_config l) w = (x, c, w1)" by (metis surj_pair)
  have "fine w1 \<and> (\<forall>s. x = Inr s \<longrightarrow> live s w1)" using connect_live [OF _ x] assms(1) by (simp add: socket_ok_def)
  then show ?thesis
    using assms None x reconnect_keeps unfolding cycle_connect_def connect_report_with_token_recovery_def
    by (auto simp: socket_ok_def keeps_def Let_def split: if_splits sum.splits)
qed (use assms in \<open>auto simp: cycle_connect_def socket_ok_def\<close>)

lemma cycle_report_live:
  assumes "live s w" and "cycle_report io h k s w = Some (r, w')"
  shows "fine w' \<and> (r = Inr False \<longrightarrow> live s w')"
proof -
  obtain r1 w1 where d: "drain_backend_messages_for_cycle io s w = Some (r1, w1)"
    using assms(2) by (auto simp: cycle_report_def bind_eq_Some_conv)
  note w1 = drain_live [OF d assms(1)]
  show ?thesis
  proof (cases "r1 = Inr False")
    case True
    obtain p w2 where p: "io_generate io w1 = (p, w2)" by fastforce
    obtain r3 w3 where r3: "io_send_report io s p w2 = (r3, w3)" by fastforce
    have "live s w2" using keeps_pair [OF generate_keeps p] w1 True by blast
    then have w3: "fine w3 \<and> (\<not> isl r3 \<longrightarrow> live s w3)" using report_uses r3 unfolding uses_def by blast
    show ?thesis
    proof (cases r3)
      case (Inr u)
      obtain r4 w4 where d4: "drain_backend_messages_for_cycle io s w3 = Some (r4, w4)"
        using assms(2) d True p r3 Inr by (auto simp: cycle_report_def bind_eq_Some_conv)
      note w4 = drain_live [OF d4]
      obtain r5 w5 where r5: "io_send_ping io s w4 = (r5, w5)" by fastforce
      have w5: "fine w5 \<and> (\<not> isl r5 \<longrightarrow> live s w5)" if "r4 = Inr False"
        using ping_uses r5 w4 w3 Inr that unfolding uses_def by fastforce
      show ?thesis
        using assms(2) d True p r3 Inr d4 r5 w3 w4 w5
        by (auto simp: cycle_report_def split: sum.splits bool.splits if_splits)
    qed (use assms(2) d True p r3 w3 in \<open>auto simp: cycle_report_def\<close>)
  qed (use assms(2) d w1 in \<open>auto simp: cycle_report_def split: sum.splits bool.splits\<close>)
qed

lemma sleep_live:
  assumes "sleep_loop rnd io x so w = Some (r, w')" and "socket_ok fine live so w"
  shows "fine w' \<and> (\<forall>so'. r = Inr so' \<longrightarrow> socket_ok fine live so' w')"
proof -
  let ?Q = "\<lambda>x. fine (snd x) \<and> (\<forall>so'. fst x = Inr so' \<longrightarrow> socket_ok fine live so' (snd x))"
  have "io = io \<longrightarrow> socket_ok fine live so w \<longrightarrow> ?Q (r, w')"
  proof (rule sleep_loop.raw_induct [where
        P = "\<lambda>rnd io' x so w y. io' = io \<longrightarrow> socket_ok fine live so w \<longrightarrow> ?Q y", OF _ assms(1)], goal_cases)
    case (1 rec rnd io' x so w y)
    show ?case
    proof (intro impI)
      assume io: "io' = io" and ok: "socket_ok fine live so w"
      let ?w = "io_sleep_report io (min x 1) w"
      have w1: "socket_ok fine live so ?w" using ok sleep_keeps unfolding socket_ok_def keeps_def by blast
      show "?Q y"
      proof (cases "x \<le> 0 \<or> so = None")
        case True
        then show ?thesis using 1 io ok w1 by (auto simp: Let_def socket_ok_def split: if_splits)
      next
        case False
        then obtain s where s: "so = Some s" by auto
        obtain d w2 where d: "drain_backend_messages_for_cycle io s ?w = Some (d, w2)"
          using 1(2) False s io by (auto simp: Let_def bind_eq_Some_conv)
        have "fine w2 \<and> (d = Inr False \<longrightarrow> live s w2)"
          using drain_live [OF d] w1 s by (simp add: socket_ok_def)
        then show ?thesis
          using 1 False s io d by (auto simp: Let_def socket_ok_def split: sum.splits if_splits)
      qed
    qed
  qed
  then show ?thesis using assms(2) by simp
qed

lemma cycle_end_live:
  assumes "cycle_end rnd io interval another gone l w = Some (r, w')"
    and "fine w" and "\<not> gone \<Longrightarrow> socket_ok fine live (lp_socket l) w"
  shows "fine w' \<and> (\<forall>l'. r = Inr l' \<longrightarrow> socket_ok fine live (lp_socket l') w')"
proof -
  define l3 where "l3 = (if gone then l\<lparr>lp_socket := None\<rparr> else l)"
  have ok: "socket_ok fine live (lp_socket l3) w"
    using assms(2,3) by (cases gone) (simp_all add: socket_ok_def l3_def)
  have e: "(if another then Option.bind (sleep_loop rnd io interval (lp_socket l3) w) (\<lambda>x. case x of
          (Inl e, w) \<Rightarrow> Some (Inl e, w) | (Inr so, w) \<Rightarrow> Some (Inr (l3\<lparr>lp_socket := so\<rparr>), w))
        else Some (Inr l3, w)) = Some (r, w')"
    using assms(1)
    by (simp only: cycle_end_def Let_def l3_def [symmetric] sleep_report_interval_with_control_messages_def)
  show ?thesis
  proof (cases another)
    case True
    then obtain q w4 where q: "sleep_loop rnd io interval (lp_socket l3) w = Some (q, w4)"
      using e by (auto simp: bind_eq_Some_conv)
    show ?thesis using e True q sleep_live [OF q ok] by (auto split: sum.splits)
  qed (use e ok assms(2) in auto)
qed

lemma cycle_live:
  assumes "report_cycle rnd io headers interval h bi cycles k l w = Some (r, w')"
    and "socket_ok fine live (lp_socket l) w"
  shows "fine w' \<and> (\<forall>l'. r = Inr l' \<longrightarrow> socket_ok fine live (lp_socket l') w')"
proof -
  obtain u w1 where u: "cycle_upload io headers bi k l w = (u, w1)" by fastforce
  note w1 = cycle_upload_live [OF assms(2) u]
  show ?thesis
  proof (cases u)
    case (Inr l1)
    obtain x w2 where x: "cycle_connect io headers l1 w1 = (x, w2)" by fastforce
    have w2: "fine w2 \<and> (\<forall>l'. x = Inr l' \<or> x = Inl (Inr l') \<longrightarrow> socket_ok fine live (lp_socket l') w2)"
      using cycle_connect_live [OF _ x] w1 Inr by blast
    show ?thesis
    proof (cases x)
      case l2: (Inr l2)
      let ?use = "case lp_socket l2 of None \<Rightarrow> Some (Inr False, w2) | Some s \<Rightarrow> cycle_report io h k s w2"
      obtain d w3 where d: "?use = Some (d, w3)"
        using assms(1) u Inr x l2 by (auto simp: report_cycle_def bind_eq_Some_conv)
      have w3: "fine w3 \<and> (d = Inr False \<longrightarrow> socket_ok fine live (lp_socket l2) w3)"
        using d w2 l2 cycle_report_live by (auto simp: socket_ok_def split: option.splits)
      note cycle = assms(1) u Inr x l2 d
      show ?thesis
      proof (cases d)
        case (Inr gone)
        then show ?thesis using cycle cycle_end_live [of rnd interval "k + 1 < cycles" gone l2 w3] w3
          by (simp add: report_cycle_def)
      qed (use cycle w3 in \<open>auto simp: report_cycle_def\<close>)
    qed (use assms(1) u Inr x w2 in \<open>auto simp: report_cycle_def split: sum.splits\<close>)
  qed (use assms(1) u w1 in \<open>auto simp: report_cycle_def\<close>)
qed

lemma cycles_live:
  assumes "report_cycles (report_cycle rnd io headers interval h bi cycles) cycles n l w = Some (r, w')"
    and "socket_ok fine live (lp_socket l) w"
  shows "fine w'"
  using assms
proof (induction n arbitrary: l w)
  case (Suc n)
  obtain x w1 where x: "report_cycle rnd io headers interval h bi cycles (cycles - Suc n) l w = Some (x, w1)"
    using Suc.prems(1) by (auto simp: bind_eq_Some_conv)
  show ?case
    using Suc.prems(1) Suc.IH x cycle_live [OF x Suc.prems(2)] by (auto split: sum.splits)
qed (simp add: socket_ok_def)

end

section \<open>A scripted backend\<close>

text \<open>
  A backend that follows a script: the outcomes of the uploads, the attempts to connect, the reads, the sends
  and the recoveries of a token that are still to come.  When a script has ended, everything succeeds, no
  message comes and no token is recovered.  Sockets are numbered, and the log has the newest event first.
\<close>

datatype socket_op = ReadOp | ReportOp | HeartbeatOp | PingResultOp

datatype agent_event =
  Uploaded bool
| Connected nat
| ConnectFailed
| Used nat socket_op bool
| WaitedToReconnect u64

record agent_world =
  aw_uploads :: "(TransportError + unit) list"
  aw_connects :: "(TransportError + unit) list"
  aw_reads :: "(TransportError + bytes option) list"
  aw_sends :: "(TransportError + unit) list"
  aw_recovers :: "string option list"
  aw_next :: nat
  aw_log :: "agent_event list"

definition upcoming :: "'a \<Rightarrow> 'a list \<Rightarrow> 'a" where
  "upcoming d xs = (case xs of [] \<Rightarrow> d | x # _ \<Rightarrow> x)"

definition logged :: "agent_event \<Rightarrow> agent_world \<Rightarrow> agent_world" where
  "logged e w = w\<lparr>aw_log := e # aw_log w\<rparr>"

definition scripted_upload :: "agent_world \<Rightarrow> (TransportError + unit) \<times> agent_world" where
  "scripted_upload w =
     (let r = upcoming (Inr ()) (aw_uploads w) in (r, logged (Uploaded (\<not> isl r)) (w\<lparr>aw_uploads := tl (aw_uploads w)\<rparr>)))"

definition scripted_connect :: "agent_world \<Rightarrow> (TransportError + nat) \<times> agent_world" where
  "scripted_connect w =
     (let n = aw_next w; v = w\<lparr>aw_connects := tl (aw_connects w)\<rparr> in
      case upcoming (Inr ()) (aw_connects w) of
        Inl e \<Rightarrow> (Inl e, logged ConnectFailed v)
      | Inr _ \<Rightarrow> (Inr n, logged (Connected n) (v\<lparr>aw_next := n + 1\<rparr>)))"

definition scripted_read :: "nat \<Rightarrow> agent_world \<Rightarrow> (TransportError + bytes option) \<times> agent_world" where
  "scripted_read s w =
     (let r = upcoming (Inr None) (aw_reads w) in (r, logged (Used s ReadOp (\<not> isl r)) (w\<lparr>aw_reads := tl (aw_reads w)\<rparr>)))"

definition scripted_send :: "socket_op \<Rightarrow> nat \<Rightarrow> agent_world \<Rightarrow> (TransportError + unit) \<times> agent_world" where
  "scripted_send x s w =
     (let r = upcoming (Inr ()) (aw_sends w) in (r, logged (Used s x (\<not> isl r)) (w\<lparr>aw_sends := tl (aw_sends w)\<rparr>)))"

definition scripted_recover :: "AgentConfig \<Rightarrow> agent_world \<Rightarrow> (bool \<times> AgentConfig) \<times> agent_world" where
  "scripted_recover c w =
     (case upcoming None (aw_recovers w) of
        None \<Rightarrow> (False, c)
      | Some token \<Rightarrow> (True, c\<lparr>cfg_token := token\<rparr>), w\<lparr>aw_recovers := tl (aw_recovers w)\<rparr>)"

definition scripted_io ::
  "(string \<Rightarrow> string option) \<Rightarrow> (bytes \<Rightarrow> string + RawBackendMessage) \<Rightarrow> BasicInfo
   \<Rightarrow> (nat, agent_world, unit, u32) agent_io" where
  "scripted_io ascii from_slice info =
     \<lparr>io_domain_to_ascii = ascii, io_from_slice = from_slice, io_basic_info = Pair info,
      io_upload = (\<lambda>url headers i. scripted_upload), io_connect = (\<lambda>url headers. scripted_connect),
      io_generate = Pair (), io_send_report = (\<lambda>s p. scripted_send ReportOp s),
      io_send_ping = scripted_send HeartbeatOp, io_send_ping_result = (\<lambda>s q. scripted_send PingResultOp s),
      io_read_message = scripted_read, io_run_ping = (\<lambda>t k g. Pair t), io_handle = (\<lambda>m w. w),
      io_recover = (\<lambda>c e. scripted_recover c), io_sleep_report = (\<lambda>x w. w),
      io_sleep_reconnect = (\<lambda>n. logged (WaitedToReconnect n))\<rparr>"

named_theorems script_simps

lemmas [script_simps] =
  scripted_upload_def scripted_connect_def scripted_read_def scripted_send_def scripted_recover_def
  scripted_io_def upcoming_def logged_def Let_def

interpretation sb: finite_backend "scripted_io ascii from_slice info" "\<lambda>w. length (aw_reads w)"
  by unfold_locales (auto simp: script_simps split: list.splits)

text \<open>Every socket is used only between the time it is connected and its first failure.\<close>

fun sockets_fine :: "agent_event list \<Rightarrow> bool" where
  "sockets_fine [] \<longleftrightarrow> True"
| "sockets_fine (e # es) \<longleftrightarrow> sockets_fine es \<and>
     (case e of
        Used s _ _ \<Rightarrow> Connected s \<in> set es \<and> \<not> list_ex (\<lambda>e. case e of Used t _ ok \<Rightarrow> t = s \<and> \<not> ok | _ \<Rightarrow> False) es
      | Connected s \<Rightarrow> Connected s \<notin> set es
      | _ \<Rightarrow> True)"

definition world_fine :: "agent_world \<Rightarrow> bool" where
  "world_fine w \<longleftrightarrow> sockets_fine (aw_log w)
     \<and> list_all (\<lambda>e. case e of Used s _ _ \<Rightarrow> s < aw_next w | Connected s \<Rightarrow> s < aw_next w | _ \<Rightarrow> True) (aw_log w)"

definition socket_live :: "nat \<Rightarrow> agent_world \<Rightarrow> bool" where
  "socket_live s w \<longleftrightarrow> world_fine w \<and> s < aw_next w \<and> Connected s \<in> set (aw_log w)
     \<and> \<not> list_ex (\<lambda>e. case e of Used t _ ok \<Rightarrow> t = s \<and> \<not> ok | _ \<Rightarrow> False) (aw_log w)"

lemma fresh_socket:
  assumes "list_all (\<lambda>e. case e of Used s _ _ \<Rightarrow> s < n | Connected s \<Rightarrow> s < n | _ \<Rightarrow> True) es"
  shows "Connected n \<notin> set es" "\<not> list_ex (\<lambda>e. case e of Used t _ ok \<Rightarrow> t = n \<and> \<not> ok | _ \<Rightarrow> False) es"
    "list_all (\<lambda>e. case e of Used s _ _ \<Rightarrow> s < Suc n | Connected s \<Rightarrow> s < Suc n | _ \<Rightarrow> True) es"
  using assms by (induction es) (auto split: agent_event.splits)

interpretation sd: socket_discipline "scripted_io ascii from_slice info" world_fine socket_live
proof
  show "world_fine w' \<and> (\<forall>s. r = Inr s \<longrightarrow> socket_live s w')"
    if "world_fine w" "io_connect (scripted_io ascii from_slice info) url headers w = (r, w')" for w url headers r w'
    using that fresh_socket [of "aw_next w" "aw_log w"]
    by (auto simp: script_simps socket_live_def world_fine_def split: sum.splits)
qed (auto simp: script_simps keeps_def uses_def socket_live_def world_fine_def split: list.splits option.splits)

definition example_config :: AgentConfig where
  "example_config =
     \<lparr>cfg_endpoint = ''https://[::1]/'', cfg_token = ''t'', cfg_auto_discovery_key = [], cfg_insecure = False,
      cfg_disable_web_ssh = False, cfg_tunnel_control_enabled = True, cfg_tunnel_data_enabled = False,
      cfg_tunnel_ktp_tcp_address = [], cfg_tunnel_ktp_tls_ca_cert = [], cfg_tunnel_ktp_tcp_auth_version = V1,
      cfg_tunnel_ktp_relay_batch_policy = Fixed, cfg_tunnel_ktp_relay_batch_tuning = batch_tuning_default,
      cfg_interval_seconds = Some 3, cfg_max_retries = 1, cfg_reconnect_interval_seconds = 5,
      cfg_info_report_interval_minutes = 1, cfg_cf_access_client_id = [], cfg_cf_access_client_secret = [],
      cfg_include_nics = [], cfg_exclude_nics = [], cfg_include_mountpoints = [], cfg_custom_ipv4 = [],
      cfg_custom_ipv6 = [], cfg_custom_dns = [], cfg_get_ip_addr_from_nic = False, cfg_memory_include_cache = False,
      cfg_memory_report_raw_used = False, cfg_enable_gpu = False, cfg_month_rotate = 0, cfg_host_proc = [],
      cfg_once = False\<rparr>"

definition example_info :: BasicInfo where
  "example_info = \<lparr>bi_cpu_name = [], bi_cpu_cores = 1, bi_arch = [], bi_os = [], bi_kernel_version = ''6'', bi_ipv4 = [],
     bi_ipv6 = [], bi_mem_total = 0, bi_swap_total = 0, bi_disk_total = 0, bi_gpu_name = [], bi_virtualization = [],
     bi_version = []\<rparr>"

definition example_world :: "(TransportError + unit) list \<Rightarrow> (TransportError + bytes option) list \<Rightarrow> agent_world" where
  "example_world connects reads = \<lparr>aw_uploads = [], aw_connects = connects, aw_reads = reads, aw_sends = [],
     aw_recovers = [], aw_next = 0, aw_log = []\<rparr>"

lemma rounds_well_id: "rounds_well id b"
  by (simp add: rounds_well_def)

lemma example_tick: "report_tick_interval_seconds id (cfg_interval_seconds example_config) = 2"
  by (simp add: example_config_def report_tick_interval_seconds_def)

lemma example_urls:
  "build_basic_info_url (cfg_endpoint example_config) (cfg_token example_config)
     = Inr ''https://[::1]/api/clients/uploadBasicInfo?token=t''"
  "build_report_ws_url (\<lambda>_. None) (cfg_endpoint example_config) (cfg_token example_config)
     = Inr ''wss://[::1]/api/clients/report?token=t''"
  by code_simp+

text \<open>
  Claim C24.  For every configuration, number of cycles and script of the backend, whatever uploads, attempts
  to connect, reads, sends and recoveries fail, the report loop returns, if the rounding is harmless up to the
  interval; and it has used every socket only after it was connected and never again after an operation on
  it failed.
\<close>

theorem report_loop_safe:
  assumes "rounds_well rnd b" and "report_tick_interval_seconds rnd (cfg_interval_seconds c) \<le> b"
    and "aw_log w = []"
  shows "\<exists>r w'. run_report_cycles_with_ping_delay_and_token_recovery rnd (scripted_io ascii from_slice info) c cycles w
           = Some (r, w') \<and> sockets_fine (aw_log w')"
proof -
  let ?l = "\<lparr>lp_config = c, lp_socket = None, lp_failures = 0\<rparr>" and ?io = "scripted_io ascii from_slice info"
  have fine: "socket_ok world_fine socket_live (lp_socket ?l) w"
    using assms(3) by (simp add: socket_ok_def world_fine_def)
  show ?thesis
    unfolding run_report_cycles_with_ping_delay_and_token_recovery_def Let_def
    using sb.cycles_return [OF assms(1,2)] sd.cycles_live [OF _ fine] unfolding world_fine_def by metis
qed

theorem report_loop_safe_witness:
  "\<exists>r w'. run_report_cycles_with_ping_delay_and_token_recovery id (scripted_io (\<lambda>_. None) (\<lambda>_. Inl []) example_info)
        example_config 4 (example_world [Inr (), Inl EmptyToken] [Inr None, Inl EmptyToken])
      = Some (r, w') \<and> sockets_fine (aw_log w')"
  using report_loop_safe [OF rounds_well_id, of example_config 2
      "example_world [Inr (), Inl EmptyToken] [Inr None, Inl EmptyToken]" "\<lambda>_. None" "\<lambda>_. Inl []" example_info 4]
  by (simp add: example_tick example_world_def)

section \<open>A healthy backend\<close>

definition healthy :: "agent_world \<Rightarrow> bool" where
  "healthy w \<longleftrightarrow> aw_uploads w = [] \<and> aw_connects w = [] \<and> aw_sends w = [] \<and> list_all (\<lambda>r. \<not> isl r) (aw_reads w)"

text \<open>What the loop does, oldest first, without the reads and the results of pings.\<close>

definition transcript :: "agent_world \<Rightarrow> agent_event list" where
  "transcript w = rev (filter (\<lambda>e. case e of Used _ x _ \<Rightarrow> x = ReportOp \<or> x = HeartbeatOp | _ \<Rightarrow> True) (aw_log w))"

definition quiet :: "agent_world \<Rightarrow> agent_world \<Rightarrow> bool" where
  "quiet w w' \<longleftrightarrow> healthy w' \<and> transcript w' = transcript w \<and> aw_next w' = aw_next w"

lemma quiet_trans: "quiet w v \<Longrightarrow> quiet v u \<Longrightarrow> quiet w u"
  by (simp add: quiet_def)

lemma process_quiet:
  assumes "healthy w"
  shows "\<exists>w'. process_backend_message (scripted_io ascii from_slice info) s bs w = (Inr (), w')
           \<and> quiet w w' \<and> aw_reads w' = aw_reads w"
  using assms
  by (cases "parse_socket_message from_slice bs")
    (simp_all add: process_backend_message_def script_simps quiet_def healthy_def transcript_def)

lemma drain_quiet:
  "healthy w \<Longrightarrow>
   \<exists>w'. drain_backend_messages_for_cycle (scripted_io ascii from_slice info) s w = Some (Inr False, w') \<and> quiet w w'"
proof (induction "aw_reads w" arbitrary: w)
  case Nil
  then show ?case
    by (subst drain_backend_messages_for_cycle.simps)
      (simp add: script_simps quiet_def healthy_def transcript_def)
next
  case (Cons r rs)
  define w1 where "w1 = snd (scripted_read s w)"
  have r: "io_read_message (scripted_io ascii from_slice info) s w = (r, w1)" "\<not> isl r"
    and w1: "quiet w w1" "aw_reads w1 = rs"
    using Cons(2) [symmetric] Cons(3)
    by (simp_all add: script_simps w1_def quiet_def healthy_def transcript_def)
  then obtain m where m: "r = Inr m" by (cases r) simp_all
  show ?case
  proof (cases m)
    case None
    then show ?thesis
      using r m w1 by (subst drain_backend_messages_for_cycle.simps) simp
  next
    case (Some bs)
    obtain w2 where w2: "process_backend_message (scripted_io ascii from_slice info) s bs w1 = (Inr (), w2)"
        "quiet w1 w2" "aw_reads w2 = rs"
      using process_quiet [of w1 ascii from_slice info s bs] w1 by (auto simp: quiet_def)
    obtain w3 where "drain_backend_messages_for_cycle (scripted_io ascii from_slice info) s w2 = Some (Inr False, w3)"
        "quiet w2 w3"
      using Cons(1) [of w2] w2 by (auto simp: quiet_def)
    then show ?thesis
      using r m Some w2 w1 by (subst drain_backend_messages_for_cycle.simps) (auto intro: quiet_trans)
  qed
qed

lemma sleep_quiet:
  assumes "rounds_well rnd b" and "x \<le> b" and "healthy w"
  shows "\<exists>w'. sleep_loop rnd (scripted_io ascii from_slice info) x (Some s) w = Some (Inr (Some s), w') \<and> quiet w w'"
proof -
  let ?io = "scripted_io ascii from_slice info"
  obtain y where y: "sleep_loop rnd ?io x (Some s) w = Some y"
    using sb.sleep_returns [OF assms(1,2)] by fastforce
  have "?io = ?io \<longrightarrow> Some s = Some s \<longrightarrow> healthy w \<longrightarrow> fst y = Inr (Some s) \<and> quiet w (snd y)"
  proof (rule sleep_loop.raw_induct [where P = "\<lambda>rnd io' x so w y. io' = ?io \<longrightarrow> so = Some s \<longrightarrow> healthy w
          \<longrightarrow> fst y = Inr (Some s) \<and> quiet w (snd y)", OF _ y], goal_cases)
    case (1 rec rnd io' x so w y)
    show ?case
    proof (intro impI)
      assume io: "io' = ?io" "so = Some s" and h: "healthy w"
      obtain w1 where d: "drain_backend_messages_for_cycle ?io s w = Some (Inr False, w1)" "quiet w w1"
        using drain_quiet [OF h] by blast
      have sl: "io_sleep_report ?io z w = w" for z by (simp add: scripted_io_def)
      show "fst y = Inr (Some s) \<and> quiet w (snd y)"
      proof (cases "x \<le> 0")
        case True
        then show ?thesis using 1(2) io h by (auto simp: quiet_def)
      next
        case False
        then have "rec rnd io' (max (rnd (x - min x 1)) 0) so w1 = Some y"
          using 1(2) io d sl by (simp add: Let_def)
        from 1(1) [OF this] io d(2) show ?thesis by (simp add: quiet_def)
      qed
    qed
  qed
  then show ?thesis using y assms(3) by (cases y) auto
qed

lemma cycle_report_healthy:
  assumes "healthy w"
  shows "\<exists>w'. cycle_report (scripted_io ascii from_slice info) h k s w = Some (Inr False, w') \<and> healthy w'
     \<and> transcript w' = transcript w @ [Used s ReportOp True] @ (if (k + 1) mod h = 0 then [Used s HeartbeatOp True] else [])"
proof -
  let ?io = "scripted_io ascii from_slice info"
  obtain w1 where w1: "drain_backend_messages_for_cycle ?io s w = Some (Inr False, w1)" "quiet w w1"
    using drain_quiet [OF assms] by blast
  define w2 where "w2 = logged (Used s ReportOp True) w1"
  have send: "io_generate ?io w1 = ((), w1)" "io_send_report ?io s () w1 = (Inr (), w2)"
    using w1(2) by (simp_all add: script_simps w2_def quiet_def healthy_def)
  have w2: "healthy w2" "transcript w2 = transcript w @ [Used s ReportOp True]"
    using w1(2) by (simp_all add: w2_def logged_def quiet_def healthy_def transcript_def)
  obtain w3 where w3: "drain_backend_messages_for_cycle ?io s w2 = Some (Inr False, w3)" "quiet w2 w3"
    using drain_quiet [OF w2(1)] by blast
  define w4 where "w4 = logged (Used s HeartbeatOp True) w3"
  have "io_send_ping ?io s w3 = (Inr (), w4)" "healthy w4" "transcript w4 = transcript w3 @ [Used s HeartbeatOp True]"
    using w3(2) by (simp_all add: script_simps w4_def quiet_def healthy_def transcript_def)
  then show ?thesis
    using w1(1) send w2 w3 by (simp add: cycle_report_def quiet_def)
qed

text \<open>The events of a cycle of a healthy backend; \<open>h\<close> and \<open>b\<close> are the cycles between heartbeats and uploads.\<close>

definition cycle_events :: "nat \<Rightarrow> nat \<Rightarrow> nat \<Rightarrow> agent_event list" where
  "cycle_events h b k =
     (if k mod b = 0 then [Uploaded True] else []) @ (if k = 0 then [Connected 0] else [])
     @ [Used 0 ReportOp True] @ (if (k + 1) mod h = 0 then [Used 0 HeartbeatOp True] else [])"

lemma cycle_upload_works:
  assumes "aw_uploads w = []" and "build_basic_info_url (cfg_endpoint c) (cfg_token c) = Inr u" and "lp_config l = c"
  shows "cycle_upload (scripted_io ascii from_slice info) headers b k l w
    = (Inr l, if k mod b = 0 then logged (Uploaded True) w else w)"
  using assms
  by (simp add: cycle_upload_def upload_basic_info_with_token_recovery_def upload_loop.simps
      upload_basic_info_with_legacy_retry_def script_simps)

lemma cycle_healthy:
  assumes "rounds_well rnd x" and "interval \<le> x" and "healthy w"
    and "build_basic_info_url (cfg_endpoint c) (cfg_token c) = Inr u"
    and "build_report_ws_url ascii (cfg_endpoint c) (cfg_token c) = Inr v"
    and "lp_config l = c" and "if k = 0 then lp_socket l = None \<and> aw_next w = 0 else lp_socket l = Some 0"
  shows "\<exists>l' w'. report_cycle rnd (scripted_io ascii from_slice info) headers interval h b cycles k l w = Some (Inr l', w')
     \<and> lp_config l' = c \<and> lp_socket l' = Some 0 \<and> healthy w' \<and> transcript w' = transcript w @ cycle_events h b k"
proof -
  let ?io = "scripted_io ascii from_slice info"
  obtain w1 where w1: "cycle_upload ?io headers b k l w = (Inr l, w1)" "healthy w1" "aw_next w1 = aw_next w"
      "transcript w1 = transcript w @ (if k mod b = 0 then [Uploaded True] else [])"
    using assms(3) cycle_upload_works [OF _ assms(4,6)]
    by (simp add: healthy_def transcript_def logged_def)
  have "\<exists>l2 w2. cycle_connect ?io headers l w1 = (Inr l2, w2) \<and> healthy w2 \<and> lp_socket l2 = Some 0 \<and> lp_config l2 = c
      \<and> transcript w2 = transcript w1 @ (if k = 0 then [Connected 0] else [])"
    using assms(5-7) w1(2,3)
    by (simp add: cycle_connect_def connect_report_with_token_recovery_def connect_loop.simps
        script_simps healthy_def transcript_def split: if_splits)
  then obtain l2 w2 where w2: "cycle_connect ?io headers l w1 = (Inr l2, w2)" "healthy w2" "lp_socket l2 = Some 0"
      "lp_config l2 = c" "transcript w2 = transcript w1 @ (if k = 0 then [Connected 0] else [])" by blast
  obtain w3 where w3: "cycle_report ?io h k 0 w2 = Some (Inr False, w3)" "healthy w3"
      "transcript w3 = transcript w2 @ [Used 0 ReportOp True] @ (if (k + 1) mod h = 0 then [Used 0 HeartbeatOp True] else [])"
    using cycle_report_healthy [OF w2(2), of ascii from_slice info h k 0] by blast
  obtain w4 where w4: "sleep_loop rnd ?io interval (Some 0) w3 = Some (Inr (Some 0), w4)" "quiet w3 w4"
    using sleep_quiet [OF assms(1,2) w3(2)] by blast
  show ?thesis
    using w1 w2 w3 w4
    by (simp add: report_cycle_def cycle_end_def sleep_report_interval_with_control_messages_def cycle_events_def
        quiet_def)
qed

lemma cycles_healthy:
  assumes "rounds_well rnd x" and "interval \<le> x"
    and "build_basic_info_url (cfg_endpoint c) (cfg_token c) = Inr u"
    and "build_report_ws_url ascii (cfg_endpoint c) (cfg_token c) = Inr v"
    and "n \<le> cycles" and "healthy w" and "lp_config l = c"
    and "if n = cycles then lp_socket l = None \<and> aw_next w = 0 else lp_socket l = Some 0"
  shows "\<exists>l' w'. report_cycles (report_cycle rnd (scripted_io ascii from_slice info) headers interval h b cycles) cycles n l w
       = Some (Inr l', w')
     \<and> transcript w' = transcript w @ concat (map (cycle_events h b) [cycles - n..<cycles])"
  using assms(5-8)
proof (induction n arbitrary: l w)
  case (Suc n)
  have "if cycles - Suc n = 0 then lp_socket l = None \<and> aw_next w = 0 else lp_socket l = Some 0"
    using Suc.prems(1,4) by (auto split: if_splits)
  then obtain l1 w1 where w1: "report_cycle rnd (scripted_io ascii from_slice info) headers interval h b cycles (cycles - Suc n) l w
        = Some (Inr l1, w1)" "lp_config l1 = c" "lp_socket l1 = Some 0" "healthy w1"
      "transcript w1 = transcript w @ cycle_events h b (cycles - Suc n)"
    using cycle_healthy [OF assms(1,2) Suc.prems(2) assms(3,4) Suc.prems(3)] by blast
  have "[cycles - Suc n..<cycles] = (cycles - Suc n) # [cycles - n..<cycles]"
    using Suc.prems(1) by (subst upt_conv_Cons) (simp_all add: Suc_diff_Suc)
  moreover have "\<exists>l' w'. report_cycles (report_cycle rnd (scripted_io ascii from_slice info) headers interval h b cycles) cycles n l1 w1
       = Some (Inr l', w')
     \<and> transcript w' = transcript w1 @ concat (map (cycle_events h b) [cycles - n..<cycles])"
    using Suc.IH [of w1 l1] w1 Suc.prems(1) by simp
  ultimately show ?case using w1(1,5) by auto
qed simp

lemma cycle_counts_positive: "0 < heartbeat_interval_cycles rnd x" "0 < basic_info_interval_cycles rnd x m"
proof -
  have "0 < f64_as_usize (max y 1)" for y
  proof -
    have "1 \<le> \<lfloor>max y 1\<rfloor>" by (simp add: le_floor_iff)
    then show ?thesis by (simp add: f64_as_usize_def usize_max_def)
  qed
  then show "0 < heartbeat_interval_cycles rnd x" "0 < basic_info_interval_cycles rnd x m"
    by (simp_all add: heartbeat_interval_cycles_def basic_info_interval_cycles_def)
qed

text \<open>
  Claim C25.  When nothing fails, whatever messages the backend sends and however they are spread, \<open>n\<close> cycles of
  the report loop connect once, send exactly \<open>n\<close> reports, one in each cycle, upload the basic information in
  the cycles whose number is a multiple of the upload period, and end each group of as many cycles as the
  heartbeat period with a heartbeat.  The two periods are positive, so the remainders are defined.
\<close>

theorem report_transcript:
  assumes "rounds_well rnd x" and "report_tick_interval_seconds rnd (cfg_interval_seconds c) \<le> x"
    and "build_basic_info_url (cfg_endpoint c) (cfg_token c) = Inr u"
    and "build_report_ws_url ascii (cfg_endpoint c) (cfg_token c) = Inr v"
    and "healthy w" and "aw_next w = 0" and "aw_log w = []"
  defines "interval \<equiv> report_tick_interval_seconds rnd (cfg_interval_seconds c)"
  defines "h \<equiv> heartbeat_interval_cycles rnd interval"
    and "b \<equiv> basic_info_interval_cycles rnd interval (cfg_info_report_interval_minutes c)"
  shows "\<exists>l w'. run_report_cycles_with_ping_delay_and_token_recovery rnd (scripted_io ascii from_slice info) c n w
           = Some (Inr l, w')
         \<and> transcript w' = concat (map (cycle_events h b) [0..<n]) \<and> 0 < h \<and> 0 < b"
proof -
  have "transcript w = []" using assms(7) by (simp add: transcript_def)
  then show ?thesis
    using cycles_healthy [OF assms(1-4) order_refl [of n] assms(5), where from_slice = from_slice and info = info
        and headers = "access_headers (cfg_cf_access_client_id c) (cfg_cf_access_client_secret c)" and h = h and b = b
        and l = "\<lparr>lp_config = c, lp_socket = None, lp_failures = 0\<rparr>"] assms(6)
    by (simp add: run_report_cycles_with_ping_delay_and_token_recovery_def Let_def h_def b_def interval_def
        cycle_counts_positive)
qed

theorem report_transcript_witness:
  "\<exists>l w'. run_report_cycles_with_ping_delay_and_token_recovery id (scripted_io (\<lambda>_. None) (\<lambda>_. Inl []) example_info)
        example_config 16 (example_world [] [Inr (Some [123]), Inr None])
      = Some (Inr l, w')
    \<and> transcript w' = [Uploaded True, Connected 0] @ replicate 15 (Used 0 ReportOp True)
        @ [Used 0 HeartbeatOp True, Used 0 ReportOp True]"
proof -
  let ?w = "example_world [] [Inr (Some [123]), Inr None]"
  have periods: "heartbeat_interval_cycles id 2 = 15" "basic_info_interval_cycles id 2 (cfg_info_report_interval_minutes example_config) = 30"
    by (simp_all add: heartbeat_interval_cycles_def basic_info_interval_cycles_def f64_as_usize_def usize_max_def
        example_config_def)
  have "healthy ?w" "aw_next ?w = 0" "aw_log ?w = []" by (simp_all add: healthy_def example_world_def)
  note run = report_transcript [OF rounds_well_id eq_refl [OF example_tick] example_urls this,
      of "\<lambda>_. Inl []" example_info 16, unfolded example_tick periods]
  have "concat (map (cycle_events 15 30) [0..<16]) = [Uploaded True, Connected 0] @ replicate 15 (Used 0 ReportOp True)
        @ [Used 0 HeartbeatOp True, Used 0 ReportOp True]"
    by code_simp
  with run show ?thesis by auto
qed

section \<open>A backend that is down\<close>

definition connect_events :: "agent_world \<Rightarrow> agent_event list" where
  "connect_events w = rev (filter (\<lambda>e. case e of Used _ _ _ \<Rightarrow> False | Uploaded _ \<Rightarrow> False | _ \<Rightarrow> True) (aw_log w))"

lemma connect_down:
  assumes "aw_recovers w = []" and "aw_connects w = Inl e # rest"
    and "build_report_ws_url ascii (cfg_endpoint c) (cfg_token c) = Inr v"
    and "lp_config l = c" and "lp_socket l = None"
  defines "w1 \<equiv> logged ConnectFailed (w\<lparr>aw_connects := rest\<rparr>)" and "failures \<equiv> lp_failures l + 1"
  shows "cycle_connect (scripted_io ascii from_slice info) headers l w
    = (if cfg_max_retries c < failures then (Inl (Inl (RtTransport e)), w1)
       else (Inl (Inr (l\<lparr>lp_failures := failures\<rparr>)), logged (WaitedToReconnect (cfg_reconnect_interval_seconds c)) w1))"
  using assms
  by (simp add: cycle_connect_def connect_report_with_token_recovery_def connect_loop.simps script_simps)

lemma cycle_down:
  assumes "aw_uploads w = []" and "aw_recovers w = []" and "aw_connects w = Inl e # rest"
    and "build_basic_info_url (cfg_endpoint c) (cfg_token c) = Inr u"
    and "build_report_ws_url ascii (cfg_endpoint c) (cfg_token c) = Inr v"
    and "lp_config l = c" and "lp_socket l = None"
  defines "failures \<equiv> lp_failures l + 1"
  shows "\<exists>w'. report_cycle rnd (scripted_io ascii from_slice info) headers interval h b cycles k l w
        = Some (if cfg_max_retries c < failures then Inl (RtTransport e) else Inr (l\<lparr>lp_failures := failures\<rparr>), w')
      \<and> aw_uploads w' = [] \<and> aw_recovers w' = [] \<and> aw_connects w' = rest
      \<and> connect_events w' = connect_events w @ ConnectFailed
          # (if cfg_max_retries c < failures then [] else [WaitedToReconnect (cfg_reconnect_interval_seconds c)])"
proof -
  define w1 where "w1 = (if k mod b = 0 then logged (Uploaded True) w else w)"
  have u: "cycle_upload (scripted_io ascii from_slice info) headers b k l w = (Inr l, w1)"
    unfolding w1_def by (rule cycle_upload_works [OF assms(1,4,6)])
  have w1: "aw_uploads w1 = []" "aw_recovers w1 = []" "aw_connects w1 = Inl e # rest" "connect_events w1 = connect_events w"
    using assms(1-3) by (simp_all add: w1_def logged_def connect_events_def)
  show ?thesis
    using u w1 connect_down [OF w1(2,3) assms(5-7)]
    by (simp add: report_cycle_def failures_def connect_events_def logged_def)
qed

lemma cycles_down:
  assumes "build_basic_info_url (cfg_endpoint c) (cfg_token c) = Inr u"
    and "build_report_ws_url ascii (cfg_endpoint c) (cfg_token c) = Inr v"
    and "unat (cfg_max_retries c) + 1 < 2 ^ 32"
    and "unat (lp_failures l) + length es = unat (cfg_max_retries c) + 1" and "es \<noteq> []" and "length es \<le> n"
    and "aw_uploads w = []" and "aw_recovers w = []" and "aw_connects w = map Inl es @ rest"
    and "lp_config l = c" and "lp_socket l = None"
  shows "\<exists>w'. report_cycles (report_cycle rnd (scripted_io ascii from_slice info) headers interval h b cycles) cycles n l w
       = Some (Inl (RtTransport (last es)), w')
     \<and> connect_events w' = connect_events w
         @ concat (replicate (length es - 1) [ConnectFailed, WaitedToReconnect (cfg_reconnect_interval_seconds c)]) @ [ConnectFailed]"
  using assms(4-11)
proof (induction es arbitrary: n l w)
  case (Cons e es)
  obtain m where n: "n = Suc m" using Cons.prems(3) by (cases n) simp_all
  have f: "unat (lp_failures l + 1) = unat (lp_failures l) + 1"
    using Cons.prems(1) assms(3) by (subst unat_add_lem [THEN iffD1]) simp_all
  obtain w1 where w1: "report_cycle rnd (scripted_io ascii from_slice info) headers interval h b cycles (cycles - n) l w
        = Some (if cfg_max_retries c < lp_failures l + 1 then Inl (RtTransport e)
                else Inr (l\<lparr>lp_failures := lp_failures l + 1\<rparr>), w1)"
      "aw_uploads w1 = []" "aw_recovers w1 = []" "aw_connects w1 = map Inl es @ rest"
      "connect_events w1 = connect_events w @ ConnectFailed
          # (if cfg_max_retries c < lp_failures l + 1 then [] else [WaitedToReconnect (cfg_reconnect_interval_seconds c)])"
    using cycle_down [OF Cons.prems(4,5) Cons.prems(6) [simplified] assms(1,2) Cons.prems(7,8)] by blast
  have last: "cfg_max_retries c < lp_failures l + 1 \<longleftrightarrow> es = []"
    using Cons.prems(1) f by (cases es) (simp_all add: word_less_nat_alt)
  show ?case
  proof (cases "es = []")
    case False
    then show ?thesis
      using w1 last n Cons.prems f Cons.IH [of "l\<lparr>lp_failures := lp_failures l + 1\<rparr>" m w1]
      by (cases es) simp_all
  qed (use w1 last n in simp)
qed simp

text \<open>
  When the uploads work but no attempt to connect succeeds and no token is recovered, the report
  loop attempts to connect \<open>max_retries + 1\<close> times, waits the reconnect interval between two attempts, and then
  returns the error of the last attempt.
\<close>

theorem report_gives_up:
  assumes "build_basic_info_url (cfg_endpoint c) (cfg_token c) = Inr u"
    and "build_report_ws_url ascii (cfg_endpoint c) (cfg_token c) = Inr v"
    and "unat (cfg_max_retries c) + 1 < 2 ^ 32" and "length es = unat (cfg_max_retries c) + 1" and "length es \<le> n"
    and "aw_uploads w = []" and "aw_recovers w = []" and "aw_connects w = map Inl es @ rest" and "aw_log w = []"
  shows "\<exists>w'. run_report_cycles_with_ping_delay_and_token_recovery rnd (scripted_io ascii from_slice info) c n w
           = Some (Inl (RtTransport (last es)), w')
         \<and> connect_events w'
             = concat (replicate (unat (cfg_max_retries c)) [ConnectFailed, WaitedToReconnect (cfg_reconnect_interval_seconds c)])
               @ [ConnectFailed]"
proof -
  let ?l = "\<lparr>lp_config = c, lp_socket = None, lp_failures = 0\<rparr> :: nat agent_loop"
  have "connect_events w = []" "es \<noteq> []" using assms(4,9) by (auto simp: connect_events_def)
  moreover have "unat (lp_failures ?l) + length es = unat (cfg_max_retries c) + 1" using assms(4) by simp
  ultimately show ?thesis
    using cycles_down [OF assms(1-3), of ?l es n w rest rnd from_slice info] assms(4-8)
    by (simp add: run_report_cycles_with_ping_delay_and_token_recovery_def Let_def)
qed

theorem report_gives_up_witness:
  "\<exists>w'. run_report_cycles_with_ping_delay_and_token_recovery id (scripted_io (\<lambda>_. None) (\<lambda>_. Inl []) example_info)
        example_config 5 (example_world [Inl EmptyEndpoint, Inl EmptyToken] [])
      = Some (Inl (RtTransport EmptyToken), w')
    \<and> connect_events w' = [ConnectFailed, WaitedToReconnect 5, ConnectFailed]"
proof -
  let ?es = "[EmptyEndpoint, EmptyToken]" and ?w = "example_world [Inl EmptyEndpoint, Inl EmptyToken] []"
  have retries: "cfg_max_retries example_config = 1" "cfg_reconnect_interval_seconds example_config = 5"
    by (simp_all add: example_config_def)
  have "aw_uploads ?w = []" "aw_recovers ?w = []" "aw_connects ?w = map Inl ?es @ []" "aw_log ?w = []"
    by (simp_all add: example_world_def)
  from report_gives_up [OF example_urls _ _ _ this, of 5 id "\<lambda>_. Inl []" example_info]
  show ?thesis by (simp add: retries)
qed

end
