(* ===== verification/AutoDiscovery.thy ===== *)
theory AutoDiscovery
  imports AgentRuntime
begin

text \<open>
  Registration with the backend, \<open>auto_discovery.rs\<close>: the token comes from a cache file or from a registration
  that is then saved, and a refused token is given up and replaced.  The file system, the HTTP exchange and
  JSON are operations on a state \<open>'w\<close>.
\<close>

section \<open>Operations\<close>

record AutoDiscoveryCache =
  ac_uuid :: string
  ac_token :: string

record AutoDiscoveryRegisterRequest =
  rq_url :: string
  rq_key :: string
  rq_headers :: "HeaderPair list"

datatype AutoDiscoveryError =
    AdEmptyEndpoint
  | AdEmptyKey
  | AdUnsupportedScheme string
  | AdCachePath string
  | AdCacheWrite string
  | AdRequestFailed string
  | AdRegisterRejected string
  | AdEmptyRegisteredToken

fun show_auto_discovery_error :: "AutoDiscoveryError \<Rightarrow> string" where
  "show_auto_discovery_error AdEmptyEndpoint = ''endpoint is required''"
| "show_auto_discovery_error AdEmptyKey = ''auto-discovery key is required''"
| "show_auto_discovery_error (AdUnsupportedScheme scheme) = ''unsupported endpoint scheme: '' @ scheme"
| "show_auto_discovery_error (AdCachePath message) = ''failed to resolve auto-discovery cache path: '' @ message"
| "show_auto_discovery_error (AdCacheWrite message) = ''failed to write auto-discovery cache: '' @ message"
| "show_auto_discovery_error (AdRequestFailed message) = ''auto-discovery request failed: '' @ message"
| "show_auto_discovery_error (AdRegisterRejected message) = ''auto-discovery register rejected: '' @ message"
| "show_auto_discovery_error AdEmptyRegisteredToken = ''auto-discovery response did not include a token''"

datatype remove_outcome = Removed | NotFound | RemoveFailed string

record RegisterResponse =
  rs_status :: string
  rs_message :: string
  rs_data :: "AutoDiscoveryCache option"

text \<open>
  The cache file is at a fixed path, whose text is \<open>di_path\<close>.  A response of the server is its status code and
  its body, or the error of reading the body.
\<close>

record 'w discovery_io =
  di_path :: string
  di_hostname :: string
  di_domain_to_ascii :: "string \<Rightarrow> string option"
  di_read :: "'w \<Rightarrow> string option"
  di_write :: "string \<Rightarrow> 'w \<Rightarrow> (string + unit) \<times> 'w"
  di_remove :: "'w \<Rightarrow> remove_outcome \<times> 'w"
  di_to_string :: "AutoDiscoveryCache \<Rightarrow> string + string"
  di_from_str :: "string \<Rightarrow> string + AutoDiscoveryCache"
  di_response_from_str :: "string \<Rightarrow> string + RegisterResponse"
  di_post :: "string \<Rightarrow> HeaderPair list \<Rightarrow> string \<Rightarrow> 'w \<Rightarrow> (string + nat \<times> (string + string)) \<times> 'w"

section \<open>The cache file\<close>

definition read_cache :: "'w discovery_io \<Rightarrow> 'w \<Rightarrow> AutoDiscoveryCache option" where
  "read_cache io w =
     (case di_read io w of
        None \<Rightarrow> None
      | Some contents \<Rightarrow>
          (case di_from_str io contents of
             Inl _ \<Rightarrow> None
           | Inr cache \<Rightarrow> if trim (ac_token cache) \<noteq> [] then Some cache else None))"

definition save_cache :: "'w discovery_io \<Rightarrow> AutoDiscoveryCache \<Rightarrow> 'w \<Rightarrow> (AutoDiscoveryError + unit) \<times> 'w" where
  "save_cache io cache w =
     (case di_to_string io cache of
        Inl error \<Rightarrow> (Inl (AdCacheWrite error), w)
      | Inr contents \<Rightarrow>
          (case di_write io contents w of
             (r, w) \<Rightarrow> (map_err (\<lambda>error. AdCacheWrite (di_path io @ '': '' @ error)) r, w)))"

definition clear_cache :: "'w discovery_io \<Rightarrow> 'w \<Rightarrow> (AutoDiscoveryError + unit) \<times> 'w" where
  "clear_cache io w =
     (case di_remove io w of
        (Removed, w) \<Rightarrow> (Inr (), w)
      | (NotFound, w) \<Rightarrow> (Inr (), w)
      | (RemoveFailed error, w) \<Rightarrow> (Inl (AdCacheWrite (di_path io @ '': '' @ error)), w))"

section \<open>Registration\<close>

definition discovery_http_base :: "(string \<Rightarrow> string option) \<Rightarrow> string \<Rightarrow> AutoDiscoveryError + string" where
  "discovery_http_base domain_to_ascii endpoint =
     (let endpoint = trim_end_matches (CHR ''/'') (trim endpoint) in
      if endpoint = [] then Inl AdEmptyEndpoint
      else case strip_prefix ''https://'' endpoint of
        Some rest \<Rightarrow> Inr (''https://'' @ endpoint_rest_with_ascii_host domain_to_ascii rest)
      | None \<Rightarrow>
      (case strip_prefix ''http://'' endpoint of
         Some rest \<Rightarrow> Inr (''http://'' @ endpoint_rest_with_ascii_host domain_to_ascii rest)
       | None \<Rightarrow>
           Inl (AdUnsupportedScheme
                  (case split_once_str ''://'' endpoint of Some (scheme, _) \<Rightarrow> scheme | None \<Rightarrow> ''missing''))))"

definition build_auto_discovery_register_url ::
  "(string \<Rightarrow> string option) \<Rightarrow> string \<Rightarrow> string \<Rightarrow> AutoDiscoveryError + string" where
  "build_auto_discovery_register_url domain_to_ascii endpoint hostname =
     bind_result (discovery_http_base domain_to_ascii endpoint) (\<lambda>endpoint.
       Inr (endpoint @ ''/api/clients/register?name='' @ percent_encode hostname))"

definition register :: "'w discovery_io \<Rightarrow> AutoDiscoveryRegisterRequest \<Rightarrow> 'w \<Rightarrow> (AutoDiscoveryError + AutoDiscoveryCache) \<times> 'w" where
  "register io request w =
     (case di_post io (rq_url request)
             ([(''Authorization'', ''Bearer '' @ rq_key request), (''Content-Type'', ''application/json'')] @ rq_headers request)
             (rq_key request) w of
        (Inl error, w) \<Rightarrow> (Inl (AdRequestFailed error), w)
      | (Inr (status, Inl error), w) \<Rightarrow> (Inl (AdRequestFailed error), w)
      | (Inr (status, Inr body), w) \<Rightarrow>
          (if \<not> (200 \<le> status \<and> status < 300)
           then Inl (AdRequestFailed (''status='' @ show_nat status @ '': '' @ trim body))
           else
             case di_response_from_str io body of
               Inl error \<Rightarrow> Inl (AdRequestFailed (''invalid register response: '' @ error))
             | Inr parsed \<Rightarrow>
                 if rs_status parsed \<noteq> ''success'' then
                   Inl (AdRegisterRejected
                     (case non_empty_string (rs_message parsed) of
                        Some message \<Rightarrow> message | None \<Rightarrow> ''server returned non-success status''))
                 else (case rs_data parsed of
                         None \<Rightarrow> Inl (AdRequestFailed ''register response missing data'')
                       | Some cache \<Rightarrow> Inr cache), w))"

text \<open>The event line that reports a registration is left out.\<close>

definition resolve_auto_discovery_with ::
  "'w discovery_io \<Rightarrow> AgentConfig \<Rightarrow> 'w \<Rightarrow> (AutoDiscoveryError + bool) \<times> AgentConfig \<times> 'w" where
  "resolve_auto_discovery_with io c w =
     (let key = trim (cfg_auto_discovery_key c) in
      if key = [] then (Inr False, c, w)
      else case read_cache io w of
        Some cache \<Rightarrow> (Inr False, c\<lparr>cfg_token := ac_token cache\<rparr>, w)
      | None \<Rightarrow>
      (case build_auto_discovery_register_url (di_domain_to_ascii io) (cfg_endpoint c) (di_hostname io) of
         Inl e \<Rightarrow> (Inl e, c, w)
       | Inr url \<Rightarrow>
      (case register io \<lparr>rq_url = url, rq_key = key,
              rq_headers = access_headers (cfg_cf_access_client_id c) (cfg_cf_access_client_secret c)\<rparr> w of
         (Inl e, w) \<Rightarrow> (Inl e, c, w)
       | (Inr cache, w) \<Rightarrow>
           if trim (ac_token cache) = [] then (Inl AdEmptyRegisteredToken, c, w)
           else (case save_cache io cache w of
                   (Inl e, w) \<Rightarrow> (Inl e, c, w)
                 | (Inr _, w) \<Rightarrow> (Inr True, c\<lparr>cfg_token := ac_token cache\<rparr>, w)))))"

definition recover_from_transport_error ::
  "'w discovery_io \<Rightarrow> AgentConfig \<Rightarrow> TransportError \<Rightarrow> 'w \<Rightarrow> (bool \<times> AgentConfig) \<times> 'w" where
  "recover_from_transport_error io c error w =
     (if trim (cfg_auto_discovery_key c) = [] then ((False, c), w)
      else case error of
        InvalidClientToken _ tok _ _ \<Rightarrow>
          (let failed_token = trim tok in
           if failed_token \<noteq> [] \<and> trim (cfg_token c) \<noteq> failed_token then ((True, c), w)
           else case clear_cache io w of
             (Inl _, w) \<Rightarrow> ((False, c), w)
           | (Inr _, w) \<Rightarrow>
               (case resolve_auto_discovery_with io (c\<lparr>cfg_token := []\<rparr>) w of
                  (r, c, w) \<Rightarrow> ((is_ok r, c), w)))
      | _ \<Rightarrow> ((False, c), w))"

text \<open>The host name, from the variable or the first of two files that is not blank.\<close>

definition system_hostname :: "string option \<Rightarrow> (string \<Rightarrow> string option) \<Rightarrow> string" where
  "system_hostname var read_file =
     (case Option.bind var non_empty_string of
        Some name \<Rightarrow> name
      | None \<Rightarrow>
     (case Option.bind (read_file ''/proc/sys/kernel/hostname'') non_empty_string of
        Some name \<Rightarrow> name
      | None \<Rightarrow>
     (case Option.bind (read_file ''/etc/hostname'') non_empty_string of
        Some name \<Rightarrow> name
      | None \<Rightarrow> ''localhost'')))"

section \<open>The cache as a contract\<close>

text \<open>
  What the code relies on: a file that was written is read back, a file that was removed is gone, requests
  leave the file alone, and JSON that was printed is read back.
\<close>

locale token_cache =
  fixes io :: "'w discovery_io"
  assumes written: "di_write io s w = (Inr (), w') \<Longrightarrow> di_read io w' = Some s"
    and removed: "di_remove io w = (r, w') \<Longrightarrow> r = Removed \<or> r = NotFound \<Longrightarrow> di_read io w' = None"
    and posted: "di_read io (snd (di_post io url headers key w)) = di_read io w"
    and printed: "di_to_string io cache = Inr s \<Longrightarrow> di_from_str io s = Inr cache"
begin

lemma saved: "save_cache io cache w = (Inr u, w') \<Longrightarrow> trim (ac_token cache) \<noteq> [] \<Longrightarrow> read_cache io w' = Some cache"
  by (auto simp: save_cache_def read_cache_def printed dest!: written split: sum.splits prod.splits)

lemma cleared: "clear_cache io w = (Inr u, w') \<Longrightarrow> read_cache io w' = None"
  by (auto simp: clear_cache_def read_cache_def dest: removed split: prod.splits remove_outcome.splits)

lemma registered_again:
  assumes "resolve_auto_discovery_with io c w = (Inr b, c', w')" and "trim (cfg_auto_discovery_key c) \<noteq> []"
  shows "\<exists>cache. read_cache io w' = Some cache \<and> cfg_token c' = ac_token cache \<and> trim (cfg_token c') \<noteq> []"
proof (cases "read_cache io w")
  case (Some cache)
  then show ?thesis
    using assms by (auto simp: resolve_auto_discovery_with_def Let_def read_cache_def split: option.splits sum.splits if_splits)
next
  case None
  then show ?thesis
    using assms saved by (auto simp: resolve_auto_discovery_with_def Let_def split: sum.splits prod.splits if_splits)
qed

lemma resolved_stays:
  assumes "resolve_auto_discovery_with io c w = (Inr b, c', w')" and "trim (cfg_auto_discovery_key c) \<noteq> []"
    and "trim (cfg_auto_discovery_key d) \<noteq> []"
  shows "resolve_auto_discovery_with io d w' = (Inr False, d\<lparr>cfg_token := cfg_token c'\<rparr>, w')"
  using registered_again [OF assms(1,2)] assms(3) by (auto simp: resolve_auto_discovery_with_def Let_def)

end

section \<open>A cache on a disk that may fail\<close>

text \<open>
  The file, and the outcomes of the coming writes and removals (\<open>Some\<close> the error) and requests.  A write that
  fails leaves what was in the file before.  Requests are counted.
\<close>

record discovery_world =
  dv_file :: "string option"
  dv_writes :: "string option list"
  dv_removes :: "string option list"
  dv_responses :: "(string + nat \<times> (string + string)) list"
  dv_posts :: nat

definition print_cache :: "AutoDiscoveryCache \<Rightarrow> string" where
  "print_cache cache = replicate (length (ac_uuid cache)) (CHR ''u'') @ CHR '':'' # ac_uuid cache @ ac_token cache"

definition scan_cache :: "string \<Rightarrow> string + AutoDiscoveryCache" where
  "scan_cache s =
     (case split_once (CHR '':'') s of
        None \<Rightarrow> Inl ''no cache''
      | Some (u, rest) \<Rightarrow> Inr \<lparr>ac_uuid = take (length u) rest, ac_token = drop (length u) rest\<rparr>)"

lemma scan_print: "scan_cache (print_cache cache) = Inr cache"
  by (simp add: scan_cache_def print_cache_def split_once_append)

definition disk_write :: "string \<Rightarrow> discovery_world \<Rightarrow> (string + unit) \<times> discovery_world" where
  "disk_write s w =
     (let w' = w\<lparr>dv_writes := tl (dv_writes w)\<rparr> in
      case upcoming None (dv_writes w) of
        None \<Rightarrow> (Inr (), w'\<lparr>dv_file := Some s\<rparr>)
      | Some error \<Rightarrow> (Inl error, w'))"

definition disk_remove :: "discovery_world \<Rightarrow> remove_outcome \<times> discovery_world" where
  "disk_remove w =
     (let w' = w\<lparr>dv_removes := tl (dv_removes w)\<rparr> in
      case upcoming None (dv_removes w) of
        None \<Rightarrow> (if dv_file w = None then NotFound else Removed, w'\<lparr>dv_file := None\<rparr>)
      | Some error \<Rightarrow> (RemoveFailed error, w'))"

definition disk_io :: "string \<Rightarrow> (string \<Rightarrow> string option) \<Rightarrow> (string \<Rightarrow> string + RegisterResponse) \<Rightarrow> discovery_world discovery_io" where
  "disk_io host ascii response =
     \<lparr>di_path = ''auto-discovery.json'', di_hostname = host, di_domain_to_ascii = ascii, di_read = dv_file,
      di_write = disk_write, di_remove = disk_remove, di_to_string = (\<lambda>cache. Inr (print_cache cache)),
      di_from_str = scan_cache, di_response_from_str = response,
      di_post = (\<lambda>url headers key w. (upcoming (Inl ''no answer'') (dv_responses w),
        w\<lparr>dv_responses := tl (dv_responses w), dv_posts := dv_posts w + 1\<rparr>))\<rparr>"

interpretation disk: token_cache "disk_io host ascii response"
  by unfold_locales
    (auto simp: disk_io_def disk_write_def disk_remove_def scan_print Let_def split: option.splits if_splits)

lemma recover_refused:
  assumes "trim (cfg_auto_discovery_key c) \<noteq> []" and "trim tok = [] \<or> trim (cfg_token c) = trim tok"
  shows "recover_from_transport_error io c (InvalidClientToken op tok st detail) w =
    (case clear_cache io w of
       (Inl _, w) \<Rightarrow> ((False, c), w)
     | (Inr _, w) \<Rightarrow> (case resolve_auto_discovery_with io (c\<lparr>cfg_token := []\<rparr>) w of (r, c, w) \<Rightarrow> ((is_ok r, c), w)))"
  using assms by (auto simp: recover_from_transport_error_def Let_def)

lemma clear_cache_posts:
  "clear_cache (disk_io host ascii response) w = (r, w') \<Longrightarrow> dv_posts w' = dv_posts w"
  by (auto simp: clear_cache_def disk_io_def disk_remove_def Let_def split: option.splits if_splits prod.splits remove_outcome.splits)

lemma save_cache_posts:
  "save_cache (disk_io host ascii response) cache w = (r, w') \<Longrightarrow> dv_posts w' = dv_posts w"
  by (auto simp: save_cache_def disk_io_def disk_write_def Let_def split: option.splits prod.splits)

lemma register_posts:
  "register (disk_io host ascii response) request w = (r, w') \<Longrightarrow> dv_posts w' = dv_posts w + 1"
  by (auto simp: register_def disk_io_def split: sum.splits prod.splits if_splits)

lemma resolve_posts:
  assumes "resolve_auto_discovery_with (disk_io host ascii response) c w = (Inr b, c', w')"
    and "read_cache (disk_io host ascii response) w = None" and "trim (cfg_auto_discovery_key c) \<noteq> []"
  shows "dv_posts w' = dv_posts w + 1"
  using assms
  by (auto simp: resolve_auto_discovery_with_def Let_def dest!: register_posts save_cache_posts
      split: sum.splits prod.splits if_splits)


lemma resolve_error_keeps: "resolve_auto_discovery_with io c w = (Inl e, c', w') \<Longrightarrow> c' = c"
  by (auto simp: resolve_auto_discovery_with_def Let_def split: if_splits option.splits sum.splits prod.splits)

text \<open>
  Claim C34.  A recovery that fails after the cache was removed is final for the running agent: the token of
  the configuration is then blank, and with it neither an upload nor a connection is attempted and no further
  recovery takes place, whatever the backend does; both fail at once.
\<close>

theorem failed_recovery_final:
  assumes "recover_from_transport_error io c (InvalidClientToken op tok st detail) w = ((False, c'), w')"
    and "trim (cfg_auto_discovery_key c) \<noteq> []" and "trim tok = [] \<or> trim (cfg_token c) = trim tok"
    and "clear_cache io w = (Inr u, w1)"
  shows "cfg_token c' = []
    \<and> (\<exists>e. upload_basic_info_with_token_recovery aio headers info c' v = (Inl e, c', v))
    \<and> (\<exists>e. connect_report_with_token_recovery aio headers c' v = (Inl e, c', v))"
proof -
  obtain r where r: "resolve_auto_discovery_with io (c\<lparr>cfg_token := []\<rparr>) w1 = (r, c', w')" "\<not> is_ok r"
    using assms(1,4) recover_refused [OF assms(2,3), of io] by (auto split: prod.splits)
  then have "cfg_token c' = []"
    using resolve_error_keeps by (cases r) fastforce+
  then show ?thesis
    by (simp add: upload_basic_info_with_token_recovery_def connect_report_with_token_recovery_def
        upload_loop.simps connect_loop.simps build_basic_info_url_def build_report_ws_url_def build_ws_url_def
        require_non_empty_def require_value_def bind_result_def split: sum.split)
qed

definition discovery_config :: AgentConfig where
  "discovery_config = example_config\<lparr>cfg_auto_discovery_key := ''k''\<rparr>"

definition discovery_disk :: "(string + nat \<times> (string + string)) list \<Rightarrow> discovery_world" where
  "discovery_disk responses = \<lparr>dv_file = Some '':t'', dv_writes = [], dv_removes = [], dv_responses = responses, dv_posts = 0\<rparr>"

definition discovery_example :: "discovery_world discovery_io" where
  "discovery_example = disk_io ''h'' (\<lambda>_. None)
     (\<lambda>_. Inr \<lparr>rs_status = ''success'', rs_message = [], rs_data = Some \<lparr>ac_uuid = ''u'', ac_token = ''n''\<rparr>\<rparr>)"

lemma discovery_url:
  "build_auto_discovery_register_url (\<lambda>_. None) ''https://[::1]/'' ''h'' = Inr ''https://[::1]/api/clients/register?name=h''"
  by code_simp

lemma discovery_trims: "trim ''k'' = ''k''" "trim ''t'' = ''t''" "trim ''n'' = ''n''"
  by code_simp+

lemma discovery_simps:
  "cfg_auto_discovery_key discovery_config = ''k''" "cfg_token discovery_config = ''t''"
  "cfg_endpoint discovery_config = ''https://[::1]/''"
  by (simp_all add: discovery_config_def example_config_def)

lemma discovery_cleared:
  "clear_cache discovery_example (discovery_disk rs) = (Inr (), (discovery_disk rs)\<lparr>dv_file := None\<rparr>)"
  by (simp add: discovery_example_def disk_io_def clear_cache_def disk_remove_def upcoming_def discovery_disk_def)


theorem failed_recovery_final_witness:
  "\<exists>c' w'. recover_from_transport_error discovery_example discovery_config
        (InvalidClientToken ''upload'' ''t'' 401 []) (discovery_disk []) = ((False, c'), w')
    \<and> cfg_token c' = []"
proof -
  have "\<exists>e w'. resolve_auto_discovery_with discovery_example (discovery_config\<lparr>cfg_token := []\<rparr>) ((discovery_disk [])\<lparr>dv_file := None\<rparr>)
      = (Inl e, discovery_config\<lparr>cfg_token := []\<rparr>, w')"
    by (simp add: resolve_auto_discovery_with_def discovery_simps discovery_trims discovery_example_def disk_io_def
        read_cache_def discovery_url discovery_disk_def register_def upcoming_def)
  then obtain w' where "recover_from_transport_error discovery_example discovery_config
      (InvalidClientToken ''upload'' ''t'' 401 []) (discovery_disk []) = ((False, discovery_config\<lparr>cfg_token := []\<rparr>), w')"
    using discovery_cleared by (auto simp: recover_refused discovery_simps discovery_trims)
  with failed_recovery_final [OF this _ _ discovery_cleared] show ?thesis
    by (auto simp: discovery_simps discovery_trims)
qed

end
