(* ===== verification/Ping.thy ===== *)
theory Ping
  imports RustText RustNet
begin

text \<open>
  The ping executor, \<open>ping.rs\<close>: a measurement is repeated while the latency is high, the output of the program
  \<open>ping\<close> is parsed, and a target is split into host and port.  The program, the connections and the clock are
  operations on a state \<open>'w\<close>; latencies are milliseconds, a timeout is nanoseconds.
\<close>

section \<open>Targets\<close>

definition bracketed_host :: "string \<Rightarrow> string option" where
  "bracketed_host target =
     (case strip_prefix ''['' target of
        None \<Rightarrow> None
      | Some rest \<Rightarrow>
          (case split_once (CHR '']'') rest of
             None \<Rightarrow> None
           | Some (host, _) \<Rightarrow> if host = [] then None else Some host))"

definition ascii_digits :: "string \<Rightarrow> bool" where
  "ascii_digits s = list_all (\<lambda>c. digit_val c \<noteq> None) s"

definition split_explicit_host_port :: "string \<Rightarrow> (string \<times> string) option" where
  "split_explicit_host_port target =
     (case rsplit_once (CHR '':'') target of
        None \<Rightarrow> None
      | Some (host, port) \<Rightarrow>
          if host = [] \<or> port = [] \<or> \<not> ascii_digits port then None
          else if count_char (CHR '':'') target = 1 \<or> starts_with host ''['' then Some (host, port)
          else None)"

definition trim_brackets :: "string \<Rightarrow> string" where
  "trim_brackets s =
     (let bracket = (\<lambda>c. c = CHR ''['' \<or> c = CHR '']'') in
      rev (dropWhile bracket (rev (dropWhile bracket s))))"

definition host_without_port :: "string \<Rightarrow> string" where
  "host_without_port target =
     (let target = trim target in
      case bracketed_host target of
        Some host \<Rightarrow> host
      | None \<Rightarrow>
          if parse_ip_addr target \<noteq> None then target
          else (case split_explicit_host_port target of
                  Some (host, _) \<Rightarrow> trim_brackets host
                | None \<Rightarrow> trim_brackets target))"

definition normalize_socket_target :: "string \<Rightarrow> string \<Rightarrow> string option" where
  "normalize_socket_target target default_port =
     (let target = trim target in
      if target = [] then None
      else case bracketed_host target of
        Some host \<Rightarrow>
          if split_explicit_host_port target \<noteq> None then Some target
          else Some (''['' @ host @ '']:'' @ default_port)
      | None \<Rightarrow>
      (case parse_ip_addr target of
         Some (V6 _) \<Rightarrow> Some (''['' @ target @ '']:'' @ default_port)
       | Some (V4 _) \<Rightarrow> Some (target @ '':'' @ default_port)
       | None \<Rightarrow>
           if split_explicit_host_port target \<noteq> None then Some target
           else Some (target @ '':'' @ default_port)))"

definition socket_address_or_default ::
  "(string \<Rightarrow> string + (IpAddr \<times> nat) list) \<Rightarrow> string \<Rightarrow> string \<Rightarrow> (IpAddr \<times> nat) option" where
  "socket_address_or_default to_socket_addrs target default_port =
     (case normalize_socket_target target default_port of
        None \<Rightarrow> None
      | Some candidate \<Rightarrow>
          (case to_socket_addrs candidate of Inl _ \<Rightarrow> None | Inr [] \<Rightarrow> None | Inr (a # _) \<Rightarrow> Some a))"

section \<open>Measuring\<close>

record PingTask =
  pt_task_id :: u32
  pt_ping_type :: string
  pt_target :: string

record PingResult =
  pr_message_type :: string
  pr_task_id :: u32
  pr_ping_type :: string
  pr_value :: int
  pr_finished_at :: string

definition i32_max :: int where
  "i32_max = 2 ^ 31 - 1"

text \<open>\<open>round\<close>, away from zero in the middle, and \<open>as i32\<close>, which saturates and takes NaN to zero.\<close>

fun f64_round_i32 :: "f64_value \<Rightarrow> int" where
  "f64_round_i32 (Finite neg x) =
     (let r = \<lfloor>x + 1 / 2\<rfloor> in max (- (2 ^ 31)) (min i32_max (if neg then - r else r)))"
| "f64_round_i32 (Infinite neg) = (if neg then - (2 ^ 31) else i32_max)"
| "f64_round_i32 NaN = 0"

definition parse_linux_ping_latency_ms :: "(rat \<Rightarrow> rat option) \<Rightarrow> string \<Rightarrow> int option" where
  "parse_linux_ping_latency_ms rnd output =
     (case split_once_str ''time='' output of
        None \<Rightarrow> None
      | Some (_, after) \<Rightarrow>
          (case split_whitespace after of
             [] \<Rightarrow> None
           | raw # _ \<Rightarrow> map_option f64_round_i32 (parse_f64_str rnd raw)))"

record 'w ping_io =
  pg_round :: "rat \<Rightarrow> rat option"
  pg_command :: "string list \<Rightarrow> 'w \<Rightarrow> (bool \<times> bytes) option \<times> 'w"
  pg_to_socket_addrs :: "string \<Rightarrow> string + (IpAddr \<times> nat) list"
  pg_connect :: "IpAddr \<times> nat \<Rightarrow> nat \<Rightarrow> 'w \<Rightarrow> nat option \<times> 'w"
  pg_http_get :: "string \<Rightarrow> nat \<Rightarrow> 'w \<Rightarrow> (nat \<times> nat) option \<times> 'w"
  pg_now :: "'w \<Rightarrow> string"

text \<open>
  \<open>pg_command\<close> runs \<open>ping\<close> with arguments; \<open>pg_connect\<close> and \<open>pg_http_get\<close> return the time they took, the latter
  with the status code before it.
\<close>

definition icmp_ping :: "'w ping_io \<Rightarrow> string \<Rightarrow> nat \<Rightarrow> 'w \<Rightarrow> nat option \<times> 'w" where
  "icmp_ping io target timeout w =
     (let host = host_without_port target; timeout_seconds = show_nat (max (timeout div 10 ^ 9) 1) in
      case pg_command io [''-c'', ''1'', ''-W'', timeout_seconds, host] w of
        (None, w) \<Rightarrow> (None, w)
      | (Some (success, stdout), w) \<Rightarrow>
          (if \<not> success then None
           else map_option (\<lambda>v. nat (max v 0)) (parse_linux_ping_latency_ms (pg_round io) (from_utf8_lossy stdout)), w))"

definition tcp_ping :: "'w ping_io \<Rightarrow> string \<Rightarrow> nat \<Rightarrow> 'w \<Rightarrow> nat option \<times> 'w" where
  "tcp_ping io target timeout w =
     (case socket_address_or_default (pg_to_socket_addrs io) target ''80'' of
        None \<Rightarrow> (None, w)
      | Some address \<Rightarrow> pg_connect io address timeout w)"

definition http_ping :: "'w ping_io \<Rightarrow> string \<Rightarrow> nat \<Rightarrow> 'w \<Rightarrow> nat option \<times> 'w" where
  "http_ping io target timeout w =
     (let url = (if starts_with target ''http://'' \<or> starts_with target ''https://'' then target else ''http://'' @ target) in
      case pg_http_get io url timeout w of
        (None, w) \<Rightarrow> (None, w)
      | (Some (status, elapsed), w) \<Rightarrow> (if status < 400 then Some elapsed else None, w))"

definition HIGH_LATENCY_THRESHOLD_MS :: nat where
  "HIGH_LATENCY_THRESHOLD_MS = 1000"

definition HIGH_LATENCY_RETRIES :: nat where
  "HIGH_LATENCY_RETRIES = 3"

fun retry_loop :: "('w \<Rightarrow> nat option \<times> 'w) \<Rightarrow> nat \<Rightarrow> 'w \<Rightarrow> nat option \<times> 'w" where
  "retry_loop attempt 0 w = (None, w)"
| "retry_loop attempt (Suc n) w =
     (case attempt w of
        (None, w) \<Rightarrow> (None, w)
      | (Some next, w) \<Rightarrow> if next \<le> HIGH_LATENCY_THRESHOLD_MS then (Some next, w) else retry_loop attempt n w)"

definition measure_with_high_latency_retries :: "('w \<Rightarrow> nat option \<times> 'w) \<Rightarrow> 'w \<Rightarrow> nat option \<times> 'w" where
  "measure_with_high_latency_retries attempt w =
     (case attempt w of
        (None, w) \<Rightarrow> (None, w)
      | (Some first, w) \<Rightarrow>
          if first \<le> HIGH_LATENCY_THRESHOLD_MS then (Some first, w) else retry_loop attempt HIGH_LATENCY_RETRIES w)"

definition ping_result_now :: "'w ping_io \<Rightarrow> PingTask \<Rightarrow> int \<Rightarrow> 'w \<Rightarrow> PingResult" where
  "ping_result_now io task v w =
     \<lparr>pr_message_type = ''ping_result'', pr_task_id = pt_task_id task, pr_ping_type = pt_ping_type task, pr_value = v,
      pr_finished_at = pg_now io w\<rparr>"

definition ping_measure :: "'w ping_io \<Rightarrow> nat \<Rightarrow> PingTask \<Rightarrow> 'w \<Rightarrow> nat option \<times> 'w" where
  "ping_measure io timeout task w =
     (if pt_ping_type task = ''icmp'' then icmp_ping io (pt_target task) timeout w
      else if pt_ping_type task = ''tcp'' then tcp_ping io (pt_target task) timeout w
      else if pt_ping_type task = ''http'' then http_ping io (pt_target task) timeout w
      else (None, w))"

definition ping_run :: "'w ping_io \<Rightarrow> nat \<Rightarrow> PingTask \<Rightarrow> 'w \<Rightarrow> PingResult \<times> 'w" where
  "ping_run io timeout task w =
     (case measure_with_high_latency_retries (ping_measure io timeout task) w of
        (r, w) \<Rightarrow>
          (ping_result_now io task (case r of Some latency \<Rightarrow> min (int latency) i32_max | None \<Rightarrow> -1) w, w))"

definition fixed_ping_run :: "'w ping_io \<Rightarrow> int \<Rightarrow> PingTask \<Rightarrow> 'w \<Rightarrow> PingResult" where
  "fixed_ping_run io v task w = ping_result_now io task v w"

definition noop_ping_run :: "'w ping_io \<Rightarrow> PingTask \<Rightarrow> 'w \<Rightarrow> PingResult" where
  "noop_ping_run io task w = ping_result_now io task (-1) w"

section \<open>What a measurement reports\<close>

text \<open>The results of \<open>n\<close> attempts one after another, whatever they are.\<close>

fun attempts :: "('w \<Rightarrow> nat option \<times> 'w) \<Rightarrow> nat \<Rightarrow> 'w \<Rightarrow> nat option list" where
  "attempts attempt 0 w = []"
| "attempts attempt (Suc n) w = (case attempt w of (r, w) \<Rightarrow> r # attempts attempt n w)"

text \<open>An attempt settles the measurement when it fails or is fast enough.\<close>

definition settles :: "nat option \<Rightarrow> bool" where
  "settles r = (case r of None \<Rightarrow> True | Some latency \<Rightarrow> latency \<le> HIGH_LATENCY_THRESHOLD_MS)"

definition settled :: "nat option list \<Rightarrow> nat option" where
  "settled rs = (case find settles rs of Some r \<Rightarrow> r | None \<Rightarrow> None)"

lemma settled_Cons: "settled (r # rs) = (if settles r then r else settled rs)"
  by (simp add: settled_def)

lemma retry_loop_settled: "fst (retry_loop attempt n w) = settled (attempts attempt n w)"
proof (induction attempt n w rule: retry_loop.induct)
  case (1 attempt w)
  then show ?case by (simp add: settled_def)
next
  case (2 attempt n w)
  then show ?case
    by (auto simp: settled_Cons settles_def split: prod.split option.split)
qed

lemma measure_settled:
  "fst (measure_with_high_latency_retries attempt w) = settled (attempts attempt (Suc HIGH_LATENCY_RETRIES) w)"
  by (auto simp: measure_with_high_latency_retries_def retry_loop_settled settled_Cons settles_def
      split: prod.split option.split)

lemma settled_fast: "settled rs = Some latency \<Longrightarrow> latency \<le> HIGH_LATENCY_THRESHOLD_MS"
  by (auto simp: settled_def find_Some_iff settles_def split: option.splits)

text \<open>
  Claim C35.  The value the executor reports is that of the first of at most four attempts that fails or takes no
  more than a second: its latency, unclamped although it is cast to \<open>i32\<close>, or -1 for a failure and for four slow
  attempts.  So a reported value is never above 1000.
\<close>

theorem ping_value_settled:
  "pr_value (fst (ping_run io timeout task w)) =
     (case settled (attempts (ping_measure io timeout task) 4 w) of Some latency \<Rightarrow> int latency | None \<Rightarrow> -1)
   \<and> pr_value (fst (ping_run io timeout task w)) \<in> {-1..1000}"
proof -
  obtain r w' where m: "measure_with_high_latency_retries (ping_measure io timeout task) w = (r, w')"
    by fastforce
  have r: "r = settled (attempts (ping_measure io timeout task) 4 w)"
    using measure_settled [of "ping_measure io timeout task" w] m
    by (simp add: HIGH_LATENCY_RETRIES_def numeral_eq_Suc)
  have "int latency \<le> 1000" if "r = Some latency" for latency
    using that settled_fast [of _ latency] r by (simp add: HIGH_LATENCY_THRESHOLD_MS_def)
  then show ?thesis
    by (auto simp: ping_run_def m ping_result_now_def i32_max_def r [symmetric] split: option.split)
qed

section \<open>Every candidate address has a port\<close>

lemma split_once_parts: "split_once c s = Some (a, b) \<Longrightarrow> s = a @ c # b"
  by (induction s arbitrary: a) (auto split: if_splits)

lemma rsplit_once_parts:
  assumes "rsplit_once c s = Some (a, b)"
  shows "s = a @ c # b"
proof -
  have "rev s = rev b @ c # rev a"
    using assms by (auto simp: rsplit_once_def intro: split_once_parts)
  then have "rev (rev s) = rev (rev b @ c # rev a)" by (simp only:)
  then show ?thesis by simp
qed

definition has_port :: "string \<Rightarrow> bool" where
  "has_port s = (\<exists>host port. s = host @ CHR '':'' # port \<and> host \<noteq> [] \<and> port \<noteq> [] \<and> ascii_digits port)"

lemma added_port: "host \<noteq> [] \<Longrightarrow> p \<noteq> [] \<Longrightarrow> ascii_digits p \<Longrightarrow> has_port (host @ '':'' @ p)"
  unfolding has_port_def by (intro exI [of _ host] exI [of _ p]) simp

lemma explicit_port: "split_explicit_host_port s = Some hp \<Longrightarrow> has_port s"
  by (auto simp: split_explicit_host_port_def intro: added_port [simplified]
      dest!: rsplit_once_parts split: option.splits if_splits)

lemma added_port_bracketed: "p \<noteq> [] \<Longrightarrow> ascii_digits p \<Longrightarrow> has_port (''['' @ host @ '']:'' @ p)"
  using added_port [of "''['' @ host @ '']''" p] by simp

lemma normalized_has_port:
  assumes "normalize_socket_target target p = Some candidate" and "p \<noteq> []" and "ascii_digits p"
  shows "has_port candidate"
  using assms(1) added_port [OF _ assms(2,3)] added_port_bracketed [OF assms(2,3)]
  by (auto simp: normalize_socket_target_def Let_def intro: explicit_port split: option.splits if_splits IpAddr.splits)

end
