(* ===== verification/SmokeSummary.thy ===== *)
theory SmokeSummary
  imports RustText
begin

text \<open>
  The event lines of the agent and the summary of a log, \<open>smoke_summary.rs\<close>, with the program \<open>smoke-summary\<close> that
  prints it.  A line never has more than one line of printable text, and every event the agent reports makes the
  check it belongs to pass.
\<close>

section \<open>Event lines\<close>

definition ascii_graphic :: "char \<Rightarrow> bool" where
  "ascii_graphic c \<longleftrightarrow> 33 \<le> (of_char c :: nat) \<and> (of_char c :: nat) \<le> 126"

text \<open>
  The source maps characters, here the bytes of their UTF-8 form are mapped.  The bytes of a character outside
  ASCII become as many blanks; runs of blanks are one blank in the result either way.
\<close>

definition sanitize_event_part :: "string \<Rightarrow> string" where
  "sanitize_event_part v =
     (let text = map (\<lambda>ch. if ascii_graphic ch \<and> ch \<noteq> CHR ''|'' then ch else CHR '' '') v;
          sanitized = join_str '' '' (split_whitespace text)
      in if sanitized = [] then ''-'' else sanitized)"

definition blank_to_underscore :: "string \<Rightarrow> string" where
  "blank_to_underscore s = map (\<lambda>c. if c = CHR '' '' then CHR ''_'' else c) s"

definition smoke_event_line :: "string \<Rightarrow> (string \<times> string) list \<Rightarrow> string" where
  "smoke_event_line event fs =
     ''smoke: '' @ blank_to_underscore (sanitize_event_part event)
     @ concat (map (\<lambda>(key, v). '' '' @ blank_to_underscore (sanitize_event_part key) @ ''='' @ sanitize_event_part v) fs)"

section \<open>The summary of a log\<close>

definition CORE_AGENT_STARTED :: string where "CORE_AGENT_STARTED = ''core_agent_started''"
definition CORE_LOOP_COMPLETED :: string where "CORE_LOOP_COMPLETED = ''core_loop_completed''"
definition CORE_NO_ERRORS :: string where "CORE_NO_ERRORS = ''core_no_errors''"
definition CORE_BASIC_INFO :: string where "CORE_BASIC_INFO = ''core_basic_info''"
definition CORE_REPORT_CONNECTED :: string where "CORE_REPORT_CONNECTED = ''core_report_connected''"
definition CORE_REPORT_SENT :: string where "CORE_REPORT_SENT = ''core_report_sent''"
definition CONTROL_PING_RESULT :: string where "CONTROL_PING_RESULT = ''control_ping_result''"
definition CONTROL_EXEC_RESULT :: string where "CONTROL_EXEC_RESULT = ''control_exec_result''"
definition CONTROL_TERMINAL_SESSION :: string where "CONTROL_TERMINAL_SESSION = ''control_terminal_session''"
definition CONTROL_CN_CONNECTIVITY :: string where "CONTROL_CN_CONNECTIVITY = ''control_cn_connectivity''"

lemmas check_ids = CORE_AGENT_STARTED_def CORE_LOOP_COMPLETED_def CORE_NO_ERRORS_def CORE_BASIC_INFO_def
  CORE_REPORT_CONNECTED_def CORE_REPORT_SENT_def CONTROL_PING_RESULT_def CONTROL_EXEC_RESULT_def
  CONTROL_TERMINAL_SESSION_def CONTROL_CN_CONNECTIVITY_def

datatype SmokeEvidenceStatus = Pass | Fail | Missing

fun evidence_status_str :: "SmokeEvidenceStatus \<Rightarrow> string" where
  "evidence_status_str Pass = ''pass''"
| "evidence_status_str Fail = ''fail''"
| "evidence_status_str Missing = ''missing''"

record SmokeEvidence =
  se_id :: string
  se_label :: string
  se_status :: SmokeEvidenceStatus
  se_detail :: string

record SmokeSummary =
  ss_source :: string
  ss_evidence :: "SmokeEvidence list"
  ss_compatibility_gaps :: "string list"

definition evidence_status :: "SmokeSummary \<Rightarrow> string \<Rightarrow> SmokeEvidenceStatus option" where
  "evidence_status s i = map_option se_status (find (\<lambda>e. se_id e = i) (ss_evidence s))"

definition is_pass :: "SmokeSummary \<Rightarrow> bool" where
  "is_pass s = list_all (\<lambda>e. se_status e = Pass) (ss_evidence s)"

definition failed_or_missing_evidence :: "SmokeSummary \<Rightarrow> SmokeEvidence list" where
  "failed_or_missing_evidence s = filter (\<lambda>e. se_status e \<noteq> Pass) (ss_evidence s)"

definition escape_markdown_cell :: "string \<Rightarrow> string" where
  "escape_markdown_cell v =
     map (\<lambda>c. if c = CHR 0x0A then CHR '' '' else c)
       (concat (map (\<lambda>c. if c = CHR ''|'' then [CHR 0x5C, CHR ''|''] else [c]) v))"

abbreviation nl :: string where "nl \<equiv> [CHR 0x0A]"

definition to_markdown :: "SmokeSummary \<Rightarrow> string" where
  "to_markdown s =
     ''# kelicloud-agent-rs Smoke Summary'' @ nl @ nl
     @ ''Source: `'' @ escape_markdown_cell (ss_source s) @ ''`'' @ nl @ nl
     @ ''## Evidence'' @ nl @ nl @ ''| Check | Status | Detail |'' @ nl @ ''| --- | --- | --- |'' @ nl
     @ concat (map (\<lambda>e. ''| '' @ escape_markdown_cell (se_label e) @ '' | '' @ evidence_status_str (se_status e) @ '' | ''
         @ escape_markdown_cell (se_detail e) @ '' |'' @ nl) (ss_evidence s))
     @ nl @ ''## Compatibility Gaps'' @ nl @ nl
     @ (if ss_compatibility_gaps s = [] then ''No missing live control-plane evidence.'' @ nl
        else concat (map (\<lambda>gap. ''- '' @ gap @ nl) (ss_compatibility_gaps s)))"

definition evidence :: "string \<Rightarrow> string \<Rightarrow> SmokeEvidenceStatus \<Rightarrow> string \<Rightarrow> SmokeEvidence" where
  "evidence i label status detail = \<lparr>se_id = i, se_label = label, se_status = status, se_detail = detail\<rparr>"

definition observed :: "bool \<Rightarrow> SmokeEvidenceStatus" where
  "observed v = (if v then Pass else Missing)"

definition observed_detail :: "bool \<Rightarrow> string" where
  "observed_detail v = (if v then ''observed'' else ''not observed'')"

definition contains_any :: "string \<Rightarrow> string list \<Rightarrow> bool" where
  "contains_any text needles = list_ex (contains_str text) needles"

definition fatal_prefixes :: "string list" where
  "fatal_prefixes = [''runtime error:'', ''configuration error:'', ''transport error:'', ''auto-discovery error:'',
     ''task uploader error:'', ''error:'']"

definition first_fatal_error :: "string \<Rightarrow> string option" where
  "first_fatal_error text =
     find (\<lambda>line. list_ex (starts_with (to_ascii_lowercase line)) fatal_prefixes)
       (filter (\<lambda>line. line \<noteq> []) (map trim (str_lines text)))"

definition quoted :: "string \<Rightarrow> string" where
  "quoted s = CHR 0x22 # s @ [CHR 0x22]"

definition control_checks :: "string \<Rightarrow> (string \<times> string \<times> bool \<times> string) list" where
  "control_checks lower =
     [(CONTROL_PING_RESULT, ''Ping result upload'',
       contains_any lower [''smoke: ping_result_uploaded'', quoted ''type'' @ '':'' @ quoted ''ping_result'',
         ''ping_result uploaded''],
       ''Ping task was not observed; trigger a TCP ping from the panel during live smoke.''),
      (CONTROL_EXEC_RESULT, ''Exec task result upload'',
       contains_any lower [''smoke: task_result_uploaded'', ''/api/clients/task/result'', ''task result uploaded''],
       ''Exec task result upload was not observed; run a small command such as whoami from the panel.''),
      (CONTROL_TERMINAL_SESSION, ''Terminal session'',
       contains_any lower [''smoke: terminal_session_started'', ''/api/clients/terminal'', ''terminal session started''],
       ''Terminal session was not observed; open WebSSH during live smoke.''),
      (CONTROL_CN_CONNECTIVITY, ''CN connectivity config'',
       contains_any lower [''smoke: cn_connectivity_config_received'', ''cn_connectivity_probe_config''],
       ''CN connectivity config was not observed; wait for the panel to send probe config during live smoke.'')]"

definition core_items :: "string \<Rightarrow> string \<Rightarrow> SmokeEvidence list" where
  "core_items text lower =
     (let fatal_error = first_fatal_error text;
          agent_started = contains_str lower ''kelicloud-agent-rs prototype'';
          loop_completed = contains_str lower ''agent loop: completed'' \<or> contains_str lower ''live smoke duration reached'';
          basic_info_observed = contains_str lower ''smoke: basic_info_uploaded'' \<or> loop_completed;
          report_connected_observed = contains_str lower ''smoke: report_websocket_connected'' \<or> loop_completed;
          report_sent_observed = contains_str lower ''smoke: report_sent'' \<or> loop_completed
      in [evidence CORE_AGENT_STARTED ''Agent startup'' (observed agent_started) (observed_detail agent_started),
          evidence CORE_LOOP_COMPLETED ''Agent loop completed or stayed alive'' (observed loop_completed)
            (observed_detail loop_completed),
          evidence CORE_NO_ERRORS ''No fatal agent errors'' (if fatal_error \<noteq> None then Fail else Pass)
            (case fatal_error of Some line \<Rightarrow> line | None \<Rightarrow> ''none''),
          evidence CORE_BASIC_INFO ''Basic info upload'' (observed basic_info_observed) (observed_detail basic_info_observed),
          evidence CORE_REPORT_CONNECTED ''Report websocket connection'' (observed report_connected_observed)
            (observed_detail report_connected_observed),
          evidence CORE_REPORT_SENT ''Report payload send'' (observed report_sent_observed)
            (observed_detail report_sent_observed)])"

definition summarize_log_text :: "string \<Rightarrow> string \<Rightarrow> SmokeSummary" where
  "summarize_log_text source text =
     (let lower = to_ascii_lowercase text; checks = control_checks lower
      in \<lparr>ss_source = source,
          ss_evidence = core_items text lower
            @ map (\<lambda>(i, label, passed, _). evidence i label (observed passed) (observed_detail passed)) checks,
          ss_compatibility_gaps = map (\<lambda>(_, _, _, missing_note). missing_note) (filter (\<lambda>(_, _, passed, _). \<not> passed) checks)\<rparr>)"

section \<open>The program\<close>

text \<open>What the program prints on its two streams, and its exit code.\<close>

record program_result =
  out_text :: string
  err_text :: string
  exit_code :: nat

datatype cli_args = Usage nat | Run bool "string list"

fun parse_cli :: "bool \<Rightarrow> string list \<Rightarrow> string list \<Rightarrow> cli_args" where
  "parse_cli require_pass paths [] = (if paths = [] then Usage 2 else Run require_pass paths)"
| "parse_cli require_pass paths (arg # args) =
     (if arg = ''--require-pass'' then parse_cli True paths args
      else if arg = ''--help'' \<or> arg = ''-h'' then Usage 0
      else parse_cli require_pass (paths @ [arg]) args)"

fun read_logs :: "(string \<Rightarrow> string + string) \<Rightarrow> string \<Rightarrow> string list \<Rightarrow> string + string" where
  "read_logs read_to_string combined [] = Inr combined"
| "read_logs read_to_string combined (path # paths) =
     (case read_to_string path of
        Inr contents \<Rightarrow> read_logs read_to_string (combined @ nl @ ''===== '' @ path @ '' ====='' @ nl @ contents) paths
      | Inl err \<Rightarrow> Inl (''failed to read '' @ path @ '': '' @ err))"

definition smoke_summary_main :: "(string \<Rightarrow> string + string) \<Rightarrow> string list \<Rightarrow> program_result" where
  "smoke_summary_main read_to_string args =
     (case parse_cli False [] (drop 1 args) of
        Usage code \<Rightarrow> \<lparr>out_text = [], err_text = ''usage: smoke-summary [--require-pass] <smoke-log> [smoke-log ...]'' @ nl,
          exit_code = code\<rparr>
      | Run require_pass paths \<Rightarrow>
          (case read_logs read_to_string [] paths of
             Inl err \<Rightarrow> \<lparr>out_text = [], err_text = err @ nl, exit_code = 1\<rparr>
           | Inr combined \<Rightarrow>
               (let summary = summarize_log_text (join_str '', '' paths) combined in
                if require_pass \<and> \<not> is_pass summary
                then \<lparr>out_text = to_markdown summary @ nl,
                      err_text = ''smoke summary did not pass:'' @ nl
                        @ concat (map (\<lambda>e. ''- '' @ se_label e @ '': '' @ evidence_status_str (se_status e)
                            @ '' ('' @ se_detail e @ '')'' @ nl) (failed_or_missing_evidence summary)),
                      exit_code = 1\<rparr>
                else \<lparr>out_text = to_markdown summary @ nl, err_text = [], exit_code = 0\<rparr>)))"

section \<open>One line of printable text\<close>

definition printable :: "char \<Rightarrow> bool" where
  "printable c \<longleftrightarrow> 32 \<le> (of_char c :: nat) \<and> (of_char c :: nat) \<le> 126 \<and> c \<noteq> CHR ''|''"

lemma split_ws_loop_set: "w \<in> set (split_ws_loop acc s) \<Longrightarrow> set w \<subseteq> set acc \<union> set s"
proof (induction acc s rule: split_ws_loop.induct)
  case (1 acc)
  then show ?case by (auto split: if_splits)
next
  case (2 acc c cs)
  then show ?case by (fastforce split: nat.splits if_splits dest: in_set_dropD)
qed

lemma join_str_all: "list_all (list_all p) ws \<Longrightarrow> list_all p sep \<Longrightarrow> list_all p (join_str sep ws)"
  by (induction sep ws rule: join_str.induct) auto

lemma printable_marks: "printable (CHR '' '')" "printable (CHR ''_'')" "printable (CHR ''='')"
    "list_all printable ''smoke: ''" "printable (CHR ''-'')"
  by (simp_all add: printable_def)

lemma sanitized_printable: "list_all printable (sanitize_event_part v)"
proof -
  let ?text = "map (\<lambda>ch. if ascii_graphic ch \<and> ch \<noteq> CHR ''|'' then ch else CHR '' '') v"
  have "list_all printable ?text"
    by (auto simp: list_all_iff printable_def ascii_graphic_def)
  then have "list_all (list_all printable) (split_whitespace ?text)"
    using split_ws_loop_set [of _ "[]" ?text] by (fastforce simp: list_all_iff split_whitespace_def)
  then have "list_all printable (join_str '' '' (split_whitespace ?text))"
    by (rule join_str_all) (simp add: printable_marks)
  then show ?thesis by (simp add: sanitize_event_part_def Let_def printable_marks)
qed

lemma underscored_printable: "list_all printable s \<Longrightarrow> list_all printable (blank_to_underscore s)"
  by (induction s) (simp_all add: blank_to_underscore_def printable_marks)

lemmas part_printable = sanitized_printable underscored_printable [OF sanitized_printable]

text \<open>
  Whatever the fields hold, such as the identifiers a backend sends, an event line is one line of
  printable ASCII without a bar, so that it can neither start a second line nor a second table cell.
\<close>

lemma event_line_printable: "list_all printable (smoke_event_line event fs)"
proof -
  have "list_all printable (concat (map (\<lambda>(key, v). '' '' @ blank_to_underscore (sanitize_event_part key) @ ''=''
      @ sanitize_event_part v) fs))"
    by (induction fs) (auto simp: part_printable printable_marks)
  then show ?thesis using printable_marks(4) by (simp add: smoke_event_line_def part_printable)
qed

section \<open>Events and checks\<close>

lemma starts_with_append: "starts_with (p @ s) p"
  by (induction p) (auto simp: starts_with_def)

lemma contains_str_append: "contains_str (a @ p @ b) p"
proof (induction a)
  case Nil
  then show ?case using starts_with_append [of p b] by (cases "p @ b") auto
qed simp

lemma lower_append: "to_ascii_lowercase (a @ b) = to_ascii_lowercase a @ to_ascii_lowercase b"
  by (simp add: to_ascii_lowercase_def)

definition event_prefix :: "string \<Rightarrow> string" where
  "event_prefix event = ''smoke: '' @ blank_to_underscore (sanitize_event_part event)"

lemma event_in_log:
  "contains_str (to_ascii_lowercase (before @ smoke_event_line event fs @ after)) (to_ascii_lowercase (event_prefix event))"
  unfolding smoke_event_line_def append_assoc [symmetric] event_prefix_def [symmetric]
  unfolding append_assoc lower_append by (rule contains_str_append)

text \<open>The events that the agent writes and the checks they are evidence for.\<close>

definition event_checks :: "(string \<times> string) list" where
  "event_checks =
     [(''basic_info_uploaded'', CORE_BASIC_INFO), (''report_websocket_connected'', CORE_REPORT_CONNECTED),
      (''report_sent'', CORE_REPORT_SENT), (''ping_result_uploaded'', CONTROL_PING_RESULT),
      (''task_result_uploaded'', CONTROL_EXEC_RESULT), (''terminal_session_started'', CONTROL_TERMINAL_SESSION),
      (''cn_connectivity_config_received'', CONTROL_CN_CONNECTIVITY)]"

lemma event_prefixes:
  "map (\<lambda>(event, _). to_ascii_lowercase (event_prefix event)) event_checks =
     [''smoke: basic_info_uploaded'', ''smoke: report_websocket_connected'', ''smoke: report_sent'',
      ''smoke: ping_result_uploaded'', ''smoke: task_result_uploaded'', ''smoke: terminal_session_started'',
      ''smoke: cn_connectivity_config_received'']"
  by code_simp

lemma check_passes:
  fixes source log :: string
  defines "passes p check \<equiv> contains_str (to_ascii_lowercase log) p \<longrightarrow>
    evidence_status (summarize_log_text source log) check = Some Pass"
  shows "passes ''smoke: basic_info_uploaded'' CORE_BASIC_INFO"
    and "passes ''smoke: report_websocket_connected'' CORE_REPORT_CONNECTED"
    and "passes ''smoke: report_sent'' CORE_REPORT_SENT"
    and "passes ''smoke: ping_result_uploaded'' CONTROL_PING_RESULT"
    and "passes ''smoke: task_result_uploaded'' CONTROL_EXEC_RESULT"
    and "passes ''smoke: terminal_session_started'' CONTROL_TERMINAL_SESSION"
    and "passes ''smoke: cn_connectivity_config_received'' CONTROL_CN_CONNECTIVITY"
  by (simp_all add: passes_def evidence_status_def summarize_log_text_def core_items_def control_checks_def evidence_def
      observed_def contains_any_def Let_def check_ids)

text \<open>
  Every event line the agent writes counts: wherever it stands in a log and whatever its fields are,
  the check it is evidence for passes.
\<close>

lemma events_pass_checks:
  "list_all (\<lambda>(event, check).
       evidence_status (summarize_log_text source (before @ smoke_event_line event fs @ after)) check = Some Pass)
     event_checks"
proof -
  note found = event_in_log [of before _ fs after]
  show ?thesis
    using event_prefixes unfolding event_checks_def
    by (simp del: append_assoc) (intro conjI; rule check_passes [THEN mp]; metis found)
qed

section \<open>The verdict\<close>

lemma gaps_mark_failure: "is_pass (summarize_log_text source text) \<Longrightarrow> ss_compatibility_gaps (summarize_log_text source text) = []"
  by (fastforce simp: is_pass_def summarize_log_text_def Let_def observed_def evidence_def list_all_iff ball_Un
      filter_empty_conv split: if_splits)

lemma parse_cli_run:
  "list_all (\<lambda>a. a \<notin> {''--require-pass'', ''--help'', ''-h''}) paths \<Longrightarrow> paths \<noteq> [] \<or> acc \<noteq> [] \<Longrightarrow>
     parse_cli b acc paths = Run b (acc @ paths)"
  by (induction paths arbitrary: acc) auto

lemma read_logs_all:
  "list_all (\<lambda>p. \<exists>contents. read_to_string p = Inr contents) paths \<Longrightarrow> \<exists>text. read_logs read_to_string acc paths = Inr text"
  by (induction paths arbitrary: acc) auto

lemma is_pass_iff: "is_pass s \<longleftrightarrow> failed_or_missing_evidence s = []"
  by (auto simp: is_pass_def failed_or_missing_evidence_def list_all_iff filter_empty_conv)

lemma same_evidence: "failed_or_missing_evidence (summarize_log_text s t) = failed_or_missing_evidence (summarize_log_text s' t)"
  by (simp add: failed_or_missing_evidence_def summarize_log_text_def Let_def)

lemma required_pass_verdict:
  assumes "list_all (\<lambda>a. a \<notin> {''--require-pass'', ''--help'', ''-h''}) paths" and "paths \<noteq> []"
    and "read_logs read_to_string [] paths = Inr text"
  shows "exit_code (smoke_summary_main read_to_string (program # ''--require-pass'' # paths)) =
    (if first_fatal_error text = None \<and> failed_or_missing_evidence (summarize_log_text source text) = [] then 0 else 1)"
proof -
  have fatal: "first_fatal_error text = None" if "failed_or_missing_evidence (summarize_log_text source text) = []"
    using that by (auto simp: failed_or_missing_evidence_def summarize_log_text_def core_items_def evidence_def Let_def
        split: if_splits)
  show ?thesis
    using assms fatal same_evidence [of "join_str '', '' paths" "text" source] by (auto simp: smoke_summary_main_def parse_cli_run is_pass_iff Let_def)
qed

end
