(* ===== verification/Task.thy ===== *)
theory Task
  imports AgentRuntime SmokeSummary
begin

text \<open>
  The task executor, \<open>task.rs\<close>: a command of the backend is run by a shell, or written to a file and run by the
  interpreter its first line names; the result is uploaded with retries.  The file system, the processes and the
  HTTP client are operations on a state \<open>'w\<close>; the state \<open>task_world\<close> is one of them, with the files of the
  directory for temporary files and the programs that were started.
\<close>

section \<open>Programs in the search path\<close>

text \<open>\<open>Path::join\<close> with a relative name, \<open>split_paths\<close> and the search for a file.\<close>

definition path_join :: "string \<Rightarrow> string \<Rightarrow> string" where
  "path_join dir name = (if dir = [] \<or> last dir = CHR ''/'' then dir @ name else dir @ ''/'' @ name)"

definition find_in_path :: "string option \<Rightarrow> (string \<Rightarrow> bool) \<Rightarrow> string \<Rightarrow> string option" where
  "find_in_path path is_file binary =
     (case path of
        None \<Rightarrow> None
      | Some paths \<Rightarrow> find is_file (map (\<lambda>dir. path_join dir binary) (split_char (CHR '':'') paths)))"

section \<open>Preparing a command\<close>

record TaskExecution =
  te_result :: string
  te_exit_code :: int

record TaskResult =
  tr_task_id :: string
  tr_result :: string
  tr_exit_code :: int
  tr_finished_at :: string

record process_output =
  po_stdout :: bytes
  po_stderr :: bytes
  po_code :: "int option"

text \<open>
  \<open>tk_create_new\<close> fails when the file exists; \<open>tk_output\<close> starts a program with arguments and waits for it.
  Errors are their texts.  \<open>flush\<close> on a file does nothing.
\<close>

record 'w task_io =
  tk_path :: "string option"
  tk_is_file :: "string \<Rightarrow> 'w \<Rightarrow> bool"
  tk_temp_dir :: string
  tk_process_id :: nat
  tk_nanos :: "'w \<Rightarrow> nat"
  tk_create_new :: "string \<Rightarrow> 'w \<Rightarrow> (string + unit) \<times> 'w"
  tk_write_all :: "string \<Rightarrow> string \<Rightarrow> 'w \<Rightarrow> (string + unit) \<times> 'w"
  tk_set_executable :: "string \<Rightarrow> 'w \<Rightarrow> (string + unit) \<times> 'w"
  tk_remove_file :: "string \<Rightarrow> 'w \<Rightarrow> (string + unit) \<times> 'w"
  tk_output :: "string \<Rightarrow> string list \<Rightarrow> 'w \<Rightarrow> (string + process_output) \<times> 'w"
  tk_now :: "'w \<Rightarrow> string"

record PreparedTaskCommand =
  pc_program :: string
  pc_args :: "string list"
  pc_script_path :: "string option"

definition has_script_shebang :: "string \<Rightarrow> bool" where
  "has_script_shebang command = starts_with (trim command) ''#!''"

definition parse_shebang_interpreter :: "string \<Rightarrow> (string \<times> string list) option" where
  "parse_shebang_interpreter command =
     (case str_lines (trim_start command) of
        [] \<Rightarrow> None
      | line # _ \<Rightarrow>
          (case strip_prefix ''#!'' (trim line) of
             None \<Rightarrow> None
           | Some rest \<Rightarrow> (case split_whitespace (trim rest) of [] \<Rightarrow> None | program # args \<Rightarrow> Some (program, args))))"

definition command_for_shebang_script :: "string \<Rightarrow> string \<Rightarrow> string + string \<times> string list" where
  "command_for_shebang_script command script_path =
     (case parse_shebang_interpreter command of
        None \<Rightarrow> Inl ''script shebang is missing an interpreter''
      | Some (program, args) \<Rightarrow> Inr (program, args @ [script_path]))"

definition unique_task_script_path :: "'w task_io \<Rightarrow> 'w \<Rightarrow> string" where
  "unique_task_script_path io w =
     path_join (tk_temp_dir io) (''komari-task-'' @ show_nat (tk_process_id io) @ ''-'' @ show_nat (tk_nanos io w) @ ''.sh'')"

definition write_task_script :: "'w task_io \<Rightarrow> string \<Rightarrow> 'w \<Rightarrow> (string + string) \<times> 'w" where
  "write_task_script io command w =
     (let path = unique_task_script_path io w in
      case tk_create_new io path w of
        (Inl e, w) \<Rightarrow> (Inl e, w)
      | (Inr _, w) \<Rightarrow>
      (case tk_write_all io path command w of
        (Inl e, w) \<Rightarrow> (Inl e, w)
      | (Inr _, w) \<Rightarrow>
      (case tk_set_executable io path w of
        (Inl e, w) \<Rightarrow> (Inl e, w)
      | (Inr _, w) \<Rightarrow> (Inr path, w))))"

definition prepare_task_command :: "'w task_io \<Rightarrow> string \<Rightarrow> 'w \<Rightarrow> (string + PreparedTaskCommand) \<times> 'w" where
  "prepare_task_command io command w =
     (if has_script_shebang command then
        (case write_task_script io command w of
           (Inl e, w) \<Rightarrow> (Inl e, w)
         | (Inr script_path, w) \<Rightarrow>
             (case command_for_shebang_script command script_path of
                Inl e \<Rightarrow> (Inl e, w)
              | Inr (program, args) \<Rightarrow>
                  (Inr \<lparr>pc_program = program, pc_args = args, pc_script_path = Some script_path\<rparr>, w)))
      else
        (case find_in_path (tk_path io) (\<lambda>p. tk_is_file io p w) ''bash'' of
           Some bash_path \<Rightarrow>
             (Inr \<lparr>pc_program = bash_path, pc_args = [''-lc'', command], pc_script_path = None\<rparr>, w)
         | None \<Rightarrow> (Inr \<lparr>pc_program = ''sh'', pc_args = [''-c'', command], pc_script_path = None\<rparr>, w)))"

definition drop_prepared :: "'w task_io \<Rightarrow> PreparedTaskCommand \<Rightarrow> 'w \<Rightarrow> 'w" where
  "drop_prepared io prepared w =
     (case pc_script_path prepared of None \<Rightarrow> w | Some path \<Rightarrow> snd (tk_remove_file io path w))"

fun crlf_to_lf :: "string \<Rightarrow> string" where
  "crlf_to_lf (c # d # s) =
     (if c = CHR 0x0D \<and> d = CHR 0x0A then CHR 0x0A # crlf_to_lf s else c # crlf_to_lf (d # s))"
| "crlf_to_lf s = s"

definition combined_output :: "bytes \<Rightarrow> bytes \<Rightarrow> string" where
  "combined_output stdout stderr =
     crlf_to_lf (from_utf8_lossy stdout @ (if stderr = [] then [] else CHR 0x0A # from_utf8_lossy stderr))"

definition execute :: "'w task_io \<Rightarrow> string \<Rightarrow> 'w \<Rightarrow> TaskExecution \<times> 'w" where
  "execute io command w =
     (case prepare_task_command io command w of
        (Inl e, w) \<Rightarrow> (\<lparr>te_result = ''Failed to prepare command: '' @ e, te_exit_code = -1\<rparr>, w)
      | (Inr prepared, w) \<Rightarrow>
          (case tk_output io (pc_program prepared) (pc_args prepared) w of
             (r, w) \<Rightarrow>
               (case r of
                  Inr output \<Rightarrow> \<lparr>te_result = combined_output (po_stdout output) (po_stderr output),
                    te_exit_code = (case po_code output of Some code \<Rightarrow> code | None \<Rightarrow> -1)\<rparr>
                | Inl e \<Rightarrow> \<lparr>te_result = e, te_exit_code = -1\<rparr>,
                drop_prepared io prepared w)))"

section \<open>Messages\<close>

text \<open>
  \<open>handle\<close> starts a thread for a task; \<open>task_thread\<close> is what it runs.  Executor and uploader are traits: here they
  are arguments.
\<close>

definition task_handle :: "BackendMessage \<Rightarrow> (string \<times> string) option" where
  "task_handle message =
     (case message of
        ExecMessage task_id command \<Rightarrow> if task_id = [] then None else Some (task_id, command)
      | _ \<Rightarrow> None)"

definition task_result_now :: "('w \<Rightarrow> string) \<Rightarrow> string \<Rightarrow> TaskExecution \<Rightarrow> 'w \<Rightarrow> TaskResult" where
  "task_result_now now_text task_id execution w =
     \<lparr>tr_task_id = task_id, tr_result = te_result execution, tr_exit_code = te_exit_code execution, tr_finished_at = now_text w\<rparr>"

definition task_result_fixed :: "('w \<Rightarrow> string) \<Rightarrow> string \<Rightarrow> string \<Rightarrow> int \<Rightarrow> 'w \<Rightarrow> TaskResult" where
  "task_result_fixed now_text task_id result code w =
     \<lparr>tr_task_id = task_id, tr_result = result, tr_exit_code = code, tr_finished_at = now_text w\<rparr>"

definition task_thread ::
  "(string \<Rightarrow> 'w \<Rightarrow> TaskExecution \<times> 'w) \<Rightarrow> (TaskResult \<Rightarrow> 'w \<Rightarrow> (TransportError + unit) \<times> 'w) \<Rightarrow> ('w \<Rightarrow> string)
   \<Rightarrow> bool \<Rightarrow> string \<times> string \<Rightarrow> 'w \<Rightarrow> 'w" where
  "task_thread executor uploader now_text remote_control_disabled job w =
     (case job of (task_id, command) \<Rightarrow>
        (case (if trim command = [] then (task_result_fixed now_text task_id ''No command provided'' 0 w, w)
               else if remote_control_disabled
               then (task_result_fixed now_text task_id ''Remote control is disabled.'' (-1) w, w)
               else (case executor command w of (execution, w) \<Rightarrow> (task_result_now now_text task_id execution w, w))) of
           (result, w) \<Rightarrow> snd (uploader result w)))"

section \<open>Uploading a result\<close>

definition build_task_result_url :: "string \<Rightarrow> string \<Rightarrow> TransportError + string" where
  "build_task_result_url endpoint tok =
     bind_result (normalize_http_base endpoint) (\<lambda>endpoint.
     bind_result (require_non_empty tok EmptyToken) (\<lambda>tok.
       Inr (endpoint @ ''/api/clients/task/result?token='' @ percent_encode tok)))"

record HttpTaskResultUploader =
  hu_endpoint :: string
  hu_headers :: "HeaderPair list"
  hu_max_retries :: u32
  hu_retry_delay :: nat

definition uploader_from_config :: "AgentConfig \<Rightarrow> nat \<Rightarrow> HttpTaskResultUploader" where
  "uploader_from_config c retry_delay =
     \<lparr>hu_endpoint = cfg_endpoint c, hu_headers = access_headers (cfg_cf_access_client_id c) (cfg_cf_access_client_secret c),
      hu_max_retries = cfg_max_retries c, hu_retry_delay = retry_delay\<rparr>"

text \<open>
  \<open>ui_post\<close> sends one request; a response is whether its status is a success, the text of the status, and
  the body, empty when it cannot be read.  The token is shared with the report loop and read again before every
  attempt.
\<close>

record 'w upload_io =
  ui_token :: "'w \<Rightarrow> shared_token"
  ui_post :: "string \<Rightarrow> HeaderPair list \<Rightarrow> TaskResult \<Rightarrow> 'w \<Rightarrow> (string + bool \<times> string \<times> string) \<times> 'w"
  ui_sleep :: "nat \<Rightarrow> 'w \<Rightarrow> 'w"
  ui_println :: "string \<Rightarrow> 'w \<Rightarrow> 'w"

definition total_attempts :: "u32 \<Rightarrow> u32" where
  "total_attempts max_retries = max (max_retries + 1) 1"

definition show_i32 :: "int \<Rightarrow> string" where
  "show_i32 i = (if i < 0 then ''-'' @ show_nat (nat (- i)) else show_nat (nat i))"

definition task_uploaded_event :: "TaskResult \<Rightarrow> string" where
  "task_uploaded_event result =
     smoke_event_line ''task_result_uploaded'' [(''task_id'', tr_task_id result), (''exit_code'', show_i32 (tr_exit_code result))]"

fun attempt_loop ::
  "'w upload_io \<Rightarrow> HttpTaskResultUploader \<Rightarrow> TaskResult \<Rightarrow> nat \<Rightarrow> TransportError option \<Rightarrow> 'w \<Rightarrow> (TransportError + unit) \<times> 'w" where
  "attempt_loop io up result 0 last_error w =
     (Inl (case last_error of Some e \<Rightarrow> e | None \<Rightarrow> RequestFailed ''task result upload failed''), w)"
| "attempt_loop io up result (Suc n) last_error w =
     (case build_task_result_url (hu_endpoint up) (token_get (ui_token io w)) of
        Inl e \<Rightarrow> (Inl e, w)
      | Inr url \<Rightarrow>
          (case ui_post io url (hu_headers up) result w of
             (Inr (True, _, _), w) \<Rightarrow> (Inr (), ui_println io (task_uploaded_event result) w)
           | (Inr (False, status, body), w) \<Rightarrow>
               attempt_loop io up result n (Some (RequestFailed (''status='' @ status @ '' '' @ body)))
                 (if 0 < n \<and> hu_retry_delay up \<noteq> 0 then ui_sleep io (hu_retry_delay up) w else w)
           | (Inl e, w) \<Rightarrow>
               attempt_loop io up result n (Some (RequestFailed e))
                 (if 0 < n \<and> hu_retry_delay up \<noteq> 0 then ui_sleep io (hu_retry_delay up) w else w)))"

definition upload_task_result ::
  "'w upload_io \<Rightarrow> HttpTaskResultUploader \<Rightarrow> TaskResult \<Rightarrow> 'w \<Rightarrow> (TransportError + unit) \<times> 'w" where
  "upload_task_result io up result w = attempt_loop io up result (unat (total_attempts (hu_max_retries up))) None w"

section \<open>The life of a script\<close>

text \<open>
  The contract of the file system, for the contents of the files: a new file is empty, a file just created holds
  what was written to it, the mode changes no contents, and no operation touches another file.
\<close>

locale script_files =
  fixes io :: "'w task_io" and content :: "string \<Rightarrow> 'w \<Rightarrow> string option"
  assumes created: "tk_create_new io p w = (Inr u, w') \<Longrightarrow> content p w = None \<and> content p w' = Some []"
    and filled: "tk_write_all io p s w = (Inr u, w') \<Longrightarrow> content p w = Some [] \<Longrightarrow> content p w' = Some s"
    and kept: "tk_set_executable io p w = (r, w') \<Longrightarrow> content p w' = content p w"
begin

lemma script_written:
  assumes "write_task_script io command w = (Inr path, w')"
  shows "path = unique_task_script_path io w \<and> content path w = None \<and> content path w' = Some command"
  using assms by (auto simp: write_task_script_def Let_def split: prod.splits sum.splits dest!: created filled kept)

lemma script_prepared:
  assumes "prepare_task_command io command w = (Inr prepared, w')" and "has_script_shebang command"
  shows "\<exists>program args. parse_shebang_interpreter command = Some (program, args)
    \<and> prepared = \<lparr>pc_program = program, pc_args = args @ [unique_task_script_path io w],
         pc_script_path = Some (unique_task_script_path io w)\<rparr>
    \<and> content (unique_task_script_path io w) w' = Some command"
  using assms
  by (auto simp: prepare_task_command_def command_for_shebang_script_def split: prod.splits sum.splits option.splits
      dest!: script_written)

lemma script_left:
  assumes "write_task_script io command w = (Inr path, w')" and "parse_shebang_interpreter command = None"
    and "has_script_shebang command"
  shows "execute io command w =
      (\<lparr>te_result = ''Failed to prepare command: script shebang is missing an interpreter'', te_exit_code = -1\<rparr>, w')
    \<and> content (unique_task_script_path io w) w' = Some command"
  using assms script_written [OF assms(1)]
  by (auto simp: execute_def prepare_task_command_def command_for_shebang_script_def)

end

text \<open>
  A state that keeps the contract: files by name, the operations that fail, and the programs that were started
  with the contents their last argument had as a file.  A program may change all files.
\<close>

datatype file_op = OpCreate | OpWrite | OpMode | OpRemove

record task_world =
  tw_files :: "string \<Rightarrow> string option"
  tw_faults :: "file_op list"
  tw_runs :: "(string \<times> string list \<times> string option) list"

type_synonym programs = "string \<Rightarrow> string list \<Rightarrow> (string \<Rightarrow> string option) \<Rightarrow> (string + process_output) \<times> (string \<Rightarrow> string option)"

definition world_op :: "file_op \<Rightarrow> bool \<Rightarrow> (string \<Rightarrow> string option) \<Rightarrow> task_world \<Rightarrow> (string + unit) \<times> task_world" where
  "world_op op possible files w =
     (if op \<in> set (tw_faults w) \<or> \<not> possible then (Inl ''failed'', w) else (Inr (), w\<lparr>tw_files := files\<rparr>))"

definition task_world_io :: "programs \<Rightarrow> string option \<Rightarrow> string \<Rightarrow> nat \<Rightarrow> nat \<Rightarrow> task_world task_io" where
  "task_world_io programs path temp_dir process_id nanos =
     \<lparr>tk_path = path, tk_is_file = \<lambda>p w. tw_files w p \<noteq> None, tk_temp_dir = temp_dir, tk_process_id = process_id,
      tk_nanos = \<lambda>_. nanos,
      tk_create_new = \<lambda>p w. world_op OpCreate (tw_files w p = None) ((tw_files w)(p \<mapsto> [])) w,
      tk_write_all = \<lambda>p s w. world_op OpWrite True ((tw_files w)(p \<mapsto> (case tw_files w p of Some c \<Rightarrow> c | None \<Rightarrow> []) @ s)) w,
      tk_set_executable = \<lambda>p w. world_op OpMode True (tw_files w) w,
      tk_remove_file = \<lambda>p w. world_op OpRemove (tw_files w p \<noteq> None) ((tw_files w)(p := None)) w,
      tk_output = \<lambda>program args w.
        (case programs program args (tw_files w) of
           (r, files) \<Rightarrow> (r, w\<lparr>tw_files := files, tw_runs := tw_runs w @ [(program, args, tw_files w (last args))]\<rparr>)),
      tk_now = \<lambda>_. []\<rparr>"

interpretation files: script_files "task_world_io programs path temp_dir process_id nanos" "\<lambda>p w. tw_files w p"
  by unfold_locales (auto simp: task_world_io_def world_op_def split: if_splits)

lemma prepare_keeps_runs: "prepare_task_command (task_world_io programs p d i n) command w = (r, w') \<Longrightarrow> tw_runs w' = tw_runs w"
  by (auto simp: prepare_task_command_def write_task_script_def Let_def task_world_io_def world_op_def
      split: if_splits sum.splits option.splits prod.splits)

text \<open>Whatever fails, no interpreter is started on anything but the command.\<close>

lemma started_on_command:
  assumes "execute (task_world_io programs p d i n) command w = (e, w')" and "has_script_shebang command"
  shows "tw_runs w' = tw_runs w \<or>
    (\<exists>program args. parse_shebang_interpreter command = Some (program, args) \<and>
       tw_runs w' = tw_runs w @ [(program, args @ [unique_task_script_path (task_world_io programs p d i n) w], Some command)])"
proof -
  let ?io = "task_world_io programs p d i n"
  obtain r w1 where prep: "prepare_task_command ?io command w = (r, w1)" by fastforce
  show ?thesis
  proof (cases r)
    case (Inl err)
    then show ?thesis using assms(1) prep prepare_keeps_runs [OF prep] by (simp add: execute_def)
  next
    case (Inr prepared)
    obtain program args where parts: "parse_shebang_interpreter command = Some (program, args)"
        "prepared = \<lparr>pc_program = program, pc_args = args @ [unique_task_script_path ?io w],
           pc_script_path = Some (unique_task_script_path ?io w)\<rparr>"
        "tw_files w1 (unique_task_script_path ?io w) = Some command"
      using files.script_prepared [OF prep [unfolded Inr] assms(2)] by blast
    let ?as = "args @ [unique_task_script_path ?io w]"
    obtain r2 w2 where out: "tk_output ?io program ?as w1 = (r2, w2)" by fastforce
    then have "tw_runs w2 = tw_runs w1 @ [(program, ?as, Some command)]"
      using parts(3) by (auto simp: task_world_io_def split: prod.splits)
    moreover have "w' = drop_prepared ?io prepared w2"
      using assms(1) prep out by (simp add: Inr parts(2) execute_def)
    moreover have "tw_runs (drop_prepared ?io prepared w2) = tw_runs w2"
      by (auto simp: drop_prepared_def task_world_io_def world_op_def split: option.split)
    ultimately have "tw_runs w' = tw_runs w1 @ [(program, ?as, Some command)]" by simp
    then show ?thesis using parts(1) prepare_keeps_runs [OF prep] by auto
  qed
qed

lemma written_without_faults:
  assumes "tw_faults w = []" and "tw_files w (unique_task_script_path (task_world_io programs p d i n) w) = None"
  shows "write_task_script (task_world_io programs p d i n) command w =
    (Inr (unique_task_script_path (task_world_io programs p d i n) w),
     w\<lparr>tw_files := (tw_files w)(unique_task_script_path (task_world_io programs p d i n) w \<mapsto> command)\<rparr>)"
  using assms by (simp add: write_task_script_def Let_def task_world_io_def world_op_def unique_task_script_path_def)

text \<open>
  Claim C40.  A command that starts with \<open>#!\<close> and names an interpreter is run once, by that interpreter with the
  arguments of the first line and the script as last argument; at that time the script holds exactly the
  command, and it is removed afterwards whatever the program does to it.  A command that names no interpreter is
  not run, but its script stays in the directory for temporary files.
\<close>

theorem task_script_life:
  assumes "io = task_world_io programs p d i n" and "execute io command w = (e, w')" and "has_script_shebang command"
    and "tw_faults w = []" and "tw_files w (unique_task_script_path io w) = None"
  shows "case parse_shebang_interpreter command of
      Some (program, args) \<Rightarrow>
        tw_runs w' = tw_runs w @ [(program, args @ [unique_task_script_path io w], Some command)]
        \<and> tw_files w' (unique_task_script_path io w) = None
    | None \<Rightarrow> te_exit_code e = -1 \<and> tw_runs w' = tw_runs w \<and> tw_files w' (unique_task_script_path io w) = Some command"
proof (cases "parse_shebang_interpreter command")
  case None
  note written = written_without_faults [OF assms(4) assms(5) [unfolded assms(1)], of command]
  show ?thesis
    using files.script_left [OF written None assms(3)] assms(2) None unfolding assms(1) by auto
next
  case (Some i)
  note written = written_without_faults [OF assms(4) assms(5) [unfolded assms(1)], of command]
  show ?thesis
    using assms(2-4) written Some unfolding assms(1)
    by (auto simp: execute_def prepare_task_command_def command_for_shebang_script_def drop_prepared_def
        task_world_io_def world_op_def split: prod.splits if_splits)
qed

theorem task_script_life_witness:
  "let io = task_world_io (\<lambda>_ _ files. (Inl ''gone'', files)) None ''/tmp'' 7 9;
       w = \<lparr>tw_files = \<lambda>_. None, tw_faults = [], tw_runs = []\<rparr>;
       path = ''/tmp/komari-task-7-9.sh''
   in tw_runs (snd (execute io ''#!/bin/sh -e'' w)) = [(''/bin/sh'', [''-e'', path], Some ''#!/bin/sh -e'')]
      \<and> tw_files (snd (execute io ''#!/bin/sh -e'' w)) path = None
      \<and> tw_files (snd (execute io ''#!'' w)) path = Some ''#!''"
proof -
  let ?io = "task_world_io (\<lambda>_ _ files. (Inl ''gone'', files)) None ''/tmp'' 7 9"
  let ?w = "\<lparr>tw_files = \<lambda>_. None, tw_faults = [], tw_runs = []\<rparr>"
  have "show_nat 7 = ''7''" "show_nat 9 = ''9''" by code_simp+
  then have path: "unique_task_script_path ?io ?w = ''/tmp/komari-task-7-9.sh''"
    by (simp add: unique_task_script_path_def task_world_io_def path_join_def del: show_nat.simps)
  have shebang: "has_script_shebang ''#!/bin/sh -e''" "has_script_shebang ''#!''"
    and parse: "parse_shebang_interpreter ''#!/bin/sh -e'' = Some (''/bin/sh'', [''-e''])"
      "parse_shebang_interpreter ''#!'' = None"
    by code_simp+
  note life = task_script_life [where programs = "\<lambda>_ _ files. (Inl ''gone'', files)" and p = None and d = "''/tmp''" and i = 7
      and n = 9 and w = ?w, OF HOL.refl prod.collapse [symmetric]]
  show ?thesis
    using life [OF shebang(1)] life [OF shebang(2)] by (simp add: path parse)
qed

section \<open>Attempts to upload\<close>

text \<open>
  A state in which the answers to the requests are a script; without an answer the request fails.  It records
  the addresses, the delays and the printed lines.
\<close>

record upload_world =
  uw_token :: shared_token
  uw_answers :: "(string + bool \<times> string \<times> string) list"
  uw_posts :: "(string \<times> TaskResult) list"
  uw_sleeps :: "nat list"
  uw_lines :: "string list"

definition upload_world_io :: "upload_world upload_io" where
  "upload_world_io =
     \<lparr>ui_token = uw_token,
      ui_post = \<lambda>url headers result w.
        (case uw_answers w of [] \<Rightarrow> Inl ''no answer'' | a # _ \<Rightarrow> a,
         w\<lparr>uw_answers := tl (uw_answers w), uw_posts := uw_posts w @ [(url, result)]\<rparr>),
      ui_sleep = \<lambda>d w. w\<lparr>uw_sleeps := uw_sleeps w @ [d]\<rparr>,
      ui_println = \<lambda>line w. w\<lparr>uw_lines := uw_lines w @ [line]\<rparr>\<rparr>"

definition accepted :: "string + bool \<times> string \<times> string \<Rightarrow> bool" where
  "accepted answer = (case answer of Inr (success, _, _) \<Rightarrow> success | Inl _ \<Rightarrow> False)"

text \<open>The number of attempts that are refused before one is accepted, at most \<open>n\<close>.\<close>

fun refusals :: "nat \<Rightarrow> (string + bool \<times> string \<times> string) list \<Rightarrow> nat" where
  "refusals 0 answers = 0"
| "refusals (Suc n) [] = Suc n"
| "refusals (Suc n) (a # answers) = (if accepted a then 0 else Suc (refusals n answers))"

lemma refusals_le: "refusals n answers \<le> n"
  by (induction n answers rule: refusals.induct) auto

definition uploaded_right ::
  "HttpTaskResultUploader \<Rightarrow> TaskResult \<Rightarrow> string \<Rightarrow> nat \<Rightarrow> upload_world \<Rightarrow> (TransportError + unit) \<times> upload_world \<Rightarrow> bool" where
  "uploaded_right up result url n w rw =
     (case rw of (r, w') \<Rightarrow>
        (let k = refusals n (uw_answers w) in
         is_ok r = (k < n)
         \<and> uw_posts w' = uw_posts w @ replicate (min n (Suc k)) (url, result)
         \<and> uw_sleeps w' = uw_sleeps w @ (if hu_retry_delay up = 0 then [] else replicate (min (n - 1) k) (hu_retry_delay up))
         \<and> uw_lines w' = uw_lines w @ (if is_ok r then [task_uploaded_event result] else [])))"

lemma attempt_loop_right:
  assumes "build_task_result_url (hu_endpoint up) (token_get (uw_token w)) = Inr url"
  shows "uploaded_right up result url n w (attempt_loop upload_world_io up result n last_error w)"
  using assms
proof (induction n arbitrary: last_error w)
  case 0
  then show ?case by (simp add: uploaded_right_def)
next
  case (Suc n)
  define w1 where "w1 = w\<lparr>uw_answers := tl (uw_answers w), uw_posts := uw_posts w @ [(url, result)]\<rparr>"
  define w2 where "w2 = (if 0 < n \<and> hu_retry_delay up \<noteq> 0 then w1\<lparr>uw_sleeps := uw_sleeps w1 @ [hu_retry_delay up]\<rparr> else w1)"
  have "build_task_result_url (hu_endpoint up) (token_get (uw_token w2)) = Inr url"
    using Suc.prems by (simp add: w2_def w1_def)
  then have IH: "uploaded_right up result url n w2 (attempt_loop upload_world_io up result n e w2)" for e
    by (rule Suc.IH)
  define e where "e = Some (RequestFailed (case uw_answers w of [] \<Rightarrow> ''no answer'' | Inl t # _ \<Rightarrow> t
    | Inr (_, status, body) # _ \<Rightarrow> ''status='' @ status @ '' '' @ body))"
  have refused: "attempt_loop upload_world_io up result (Suc n) last_error w = attempt_loop upload_world_io up result n e w2"
    if "uw_answers w = [] \<or> \<not> accepted (hd (uw_answers w))"
    using that Suc.prems unfolding attempt_loop.simps(2)
    by (cases "uw_answers w") (auto simp: upload_world_io_def w1_def w2_def e_def accepted_def simp del: attempt_loop.simps
        split: sum.splits bool.splits)
  show ?case
  proof (cases "uw_answers w = [] \<or> \<not> accepted (hd (uw_answers w))")
    case True
    then have "refusals (Suc n) (uw_answers w) = Suc (refusals n (uw_answers w2))"
      by (cases "uw_answers w"; cases n) (auto simp: w2_def w1_def)
    then show ?thesis
      using refused [OF True] IH [of e] refusals_le [of n "uw_answers w2"]
      by (cases n) (auto simp: uploaded_right_def Let_def w2_def w1_def min_def replicate_append_same [symmetric] split: if_splits)
  next
    case False
    then show ?thesis
      using Suc.prems by (cases "uw_answers w") (auto simp: uploaded_right_def upload_world_io_def accepted_def split: sum.splits prod.splits)
  qed
qed

lemma attempts_made: "unat (total_attempts r) = (if r = -1 then 1 else Suc (unat r))"
proof (cases "r = -1")
  case False
  then have "1 + r \<noteq> 0" by (metis add.commute eq_neg_iff_add_eq_0)
  then have "unat (r + 1) = Suc (unat r)" by (simp add: unatSuc add.commute)
  moreover from this have "1 \<le> r + 1" by (simp add: word_le_nat_alt)
  ultimately show ?thesis using False by (simp add: total_attempts_def max_def)
qed (simp add: total_attempts_def)

text \<open>
  The result of a task is sent until the backend accepts it, \<open>max_retries + 1\<close> times at most, with
  the delay between two attempts and none after the last; it is \<open>Ok\<close> exactly if an attempt was accepted, and
  then the event is printed once.  With the largest number of retries the addition wraps around and there is a
  single attempt.
\<close>

lemma task_upload_attempts:
  assumes "build_task_result_url (hu_endpoint up) (token_get (uw_token w)) = Inr url"
  shows "uploaded_right up result url (if hu_max_retries up = -1 then 1 else Suc (unat (hu_max_retries up))) w
    (upload_task_result upload_world_io up result w)"
  unfolding upload_task_result_def attempts_made by (rule attempt_loop_right [OF assms])

lemma task_upload_example:
  "let up = \<lparr>hu_endpoint = ''https://x/'', hu_headers = [], hu_max_retries = 2, hu_retry_delay = 5\<rparr>;
       result = \<lparr>tr_task_id = ''t'', tr_result = [], tr_exit_code = 0, tr_finished_at = []\<rparr>;
       w = \<lparr>uw_token = \<lparr>tok_value = ''a'', tok_poisoned = False\<rparr>, uw_answers = [Inl ''e'', Inr (True, [], [])], uw_posts = [],
         uw_sleeps = [], uw_lines = []\<rparr>
   in uw_posts (snd (upload_task_result upload_world_io up result w)) = replicate 2 (''https://x/api/clients/task/result?token=a'', result)
      \<and> uw_sleeps (snd (upload_task_result upload_world_io up result w)) = [5]"
proof -
  let ?up = "\<lparr>hu_endpoint = ''https://x/'', hu_headers = [], hu_max_retries = 2, hu_retry_delay = 5\<rparr>"
  let ?w = "\<lparr>uw_token = \<lparr>tok_value = ''a'', tok_poisoned = False\<rparr>, uw_answers = [Inl ''e'', Inr (True, [], [])], uw_posts = [],
    uw_sleeps = [], uw_lines = []\<rparr>"
  have "build_task_result_url ''https://x/'' ''a'' = Inr ''https://x/api/clients/task/result?token=a''" by code_simp
  then have url: "build_task_result_url (hu_endpoint ?up) (token_get (uw_token ?w)) = Inr ''https://x/api/clients/task/result?token=a''"
    by (simp add: token_get_def)
  have attempts: "(if hu_max_retries ?up = -1 then 1 else Suc (unat (hu_max_retries ?up))) = Suc (Suc (Suc 0))" by simp
  have "uploaded_right ?up result ''https://x/api/clients/task/result?token=a'' (Suc (Suc (Suc 0))) ?w
      (upload_task_result upload_world_io ?up result ?w)" for result
    using task_upload_attempts [OF url, of result] unfolding attempts .
  then show ?thesis
    by (simp add: uploaded_right_def Let_def accepted_def numeral_2_eq_2 case_prod_unfold)
qed

end
