(* ===== verification/Terminal.thy ===== *)
theory Terminal
  imports Task
begin

text \<open>
  The web terminal, \<open>terminal.rs\<close>.  A session has two threads: the main thread reads from the WebSocket and writes
  to the pseudo terminal, the output thread reads from the pseudo terminal and writes to the WebSocket.  They
  share the socket under a lock.  The step relation \<open>terminal_step\<close> interleaves them; what a thread does between two
  uses of the lock is one step.  Socket, pseudo terminal and shell are operations on a state \<open>'w\<close>.
\<close>

section \<open>Commands and events\<close>

datatype TerminalError = TerminalProtocol ProtocolError | TerminalTransport TransportError | TerminalIo string | UnsupportedPlatform

fun show_terminal_error :: "TerminalError \<Rightarrow> string" where
  "show_terminal_error (TerminalProtocol e) = show_protocol_error e"
| "show_terminal_error (TerminalTransport e) = show_transport_error e"
| "show_terminal_error (TerminalIo e) = e"
| "show_terminal_error UnsupportedPlatform = ''terminal is supported on Linux only''"

definition WEB_SSH_DISABLED_MESSAGE :: string where
  "WEB_SSH_DISABLED_MESSAGE =
     nl @ nl @ ''Web SSH is disabled. Enable it by running without the --disable-web-ssh flag.''"

datatype TerminalClientCommand = ClientInput bytes | ClientResize u16 u16 | ClientIgnore

record RawTerminalClientCommand =
  rc_command_type :: "string option"
  rc_cols :: "u16 option"
  rc_rows :: "u16 option"
  rc_input :: "string option"

definition parse_terminal_client_text :: "(bytes \<Rightarrow> RawTerminalClientCommand option) \<Rightarrow> bytes \<Rightarrow> TerminalClientCommand" where
  "parse_terminal_client_text from_slice bs =
     (case from_slice bs of
        Some command \<Rightarrow>
          (if rc_command_type command = Some ''resize'' then
             (case (rc_cols command, rc_rows command) of
                (Some cols, Some rows) \<Rightarrow> if 0 < cols \<and> 0 < rows then ClientResize cols rows else ClientIgnore
              | _ \<Rightarrow> ClientIgnore)
           else if rc_command_type command = Some ''input'' then
             (case rc_input command of
                Some input \<Rightarrow> if input \<noteq> [] then ClientInput (as_bytes input) else ClientIgnore
              | None \<Rightarrow> ClientIgnore)
           else ClientIgnore)
      | None \<Rightarrow> ClientInput bs)"

definition terminal_input_for_pty :: "bytes \<Rightarrow> bytes" where
  "terminal_input_for_pty input = map (\<lambda>b. if b = 13 then 10 else b) input"

definition terminal_session_error_event :: "string \<Rightarrow> string \<Rightarrow> string" where
  "terminal_session_error_event request_id err =
     smoke_event_line ''terminal_session_error'' [(''request_id'', request_id), (''error'', err)]"

definition terminal_input_received_event :: "nat \<Rightarrow> string" where
  "terminal_input_received_event n = smoke_event_line ''terminal_input_received'' [(''bytes'', show_nat n)]"

definition terminal_output_sent_event :: "nat \<Rightarrow> string" where
  "terminal_output_sent_event n = smoke_event_line ''terminal_output_sent'' [(''bytes'', show_nat n)]"

section \<open>The operations of a session\<close>

record 'w terminal_io =
  tm_shell_var :: "string option"
  tm_path :: "string option"
  tm_is_file :: "string \<Rightarrow> bool"
  tm_from_slice :: "bytes \<Rightarrow> RawTerminalClientCommand option"
  tm_openpty :: "u16 \<Rightarrow> u16 \<Rightarrow> 'w \<Rightarrow> (string + unit) \<times> 'w"
  tm_spawn :: "string \<Rightarrow> string list \<Rightarrow> (string \<times> string) list \<Rightarrow> 'w \<Rightarrow> (string + unit) \<times> 'w"
  tm_clone_reader :: "'w \<Rightarrow> (string + unit) \<times> 'w"
  tm_take_writer :: "'w \<Rightarrow> (string + unit) \<times> 'w"
  tm_pty_read :: "'w \<Rightarrow> (string + bytes) \<times> 'w"
  tm_pty_write :: "bytes \<Rightarrow> 'w \<Rightarrow> (string + unit) \<times> 'w"
  tm_pty_flush :: "'w \<Rightarrow> (string + unit) \<times> 'w"
  tm_resize :: "u16 \<Rightarrow> u16 \<Rightarrow> 'w \<Rightarrow> (string + unit) \<times> 'w"
  tm_kill :: "'w \<Rightarrow> 'w"
  tm_wait :: "'w \<Rightarrow> 'w"
  tm_sleep :: "nat \<Rightarrow> 'w \<Rightarrow> 'w"
  tm_set_read_timeout :: "nat \<Rightarrow> 'w \<Rightarrow> (string + unit) \<times> 'w"
  tm_socket_read :: "'w \<Rightarrow> ws_read \<times> 'w"
  tm_socket_send :: "ws_message \<Rightarrow> 'w \<Rightarrow> (string + unit) \<times> 'w"
  tm_println :: "string \<Rightarrow> 'w \<Rightarrow> 'w"

definition terminal_find_in_path :: "'w terminal_io \<Rightarrow> string \<Rightarrow> string option" where
  "terminal_find_in_path io binary =
     map_option (\<lambda>p. from_utf8_lossy (as_bytes p)) (find_in_path (tm_path io) (tm_is_file io) binary)"

fun find_map :: "('a \<Rightarrow> 'b option) \<Rightarrow> 'a list \<Rightarrow> 'b option" where
  "find_map f [] = None"
| "find_map f (x # xs) = (case f x of Some y \<Rightarrow> Some y | None \<Rightarrow> find_map f xs)"

definition find_shell :: "'w terminal_io \<Rightarrow> string option" where
  "find_shell io =
     (case tm_shell_var io of
        Some shell \<Rightarrow> if tm_is_file io shell then Some shell
          else find_map (terminal_find_in_path io) [''zsh'', ''bash'', ''sh'']
      | None \<Rightarrow> find_map (terminal_find_in_path io) [''zsh'', ''bash'', ''sh''])"

definition shutdown_terminal :: "'w terminal_io \<Rightarrow> 'w \<Rightarrow> 'w" where
  "shutdown_terminal io w =
     (let w = snd (tm_pty_write io [3] w);
          w = tm_sleep io (50 * 10 ^ 6) w;
          w = snd (tm_pty_write io [4] w);
          w = tm_sleep io (50 * 10 ^ 6) w;
          w = snd (tm_pty_write io (as_bytes (''exit'' @ nl)) w);
          w = tm_kill io w
      in tm_wait io w)"

text \<open>Opening the pseudo terminal and starting the shell.\<close>

definition open_session :: "'w terminal_io \<Rightarrow> 'w \<Rightarrow> (TerminalError + unit) \<times> 'w" where
  "open_session io w =
     (case tm_openpty io 24 80 w of
        (Inl e, w) \<Rightarrow> (Inl (TerminalIo e), w)
      | (Inr _, w) \<Rightarrow>
     (case find_shell io of
        None \<Rightarrow> (Inl (TerminalIo ''no supported shell found among zsh, bash, sh''), w)
      | Some shell \<Rightarrow>
     (case tm_spawn io shell [''-i''] [(''TERM'', ''xterm-256color''), (''LANG'', ''C.UTF-8''), (''LC_ALL'', ''C.UTF-8'')] w of
        (Inl e, w) \<Rightarrow> (Inl (TerminalIo e), w)
      | (Inr _, w) \<Rightarrow>
     (case tm_clone_reader io w of
        (Inl e, w) \<Rightarrow> (Inl (TerminalIo e), w)
      | (Inr _, w) \<Rightarrow>
     (case tm_take_writer io w of
        (Inl e, w) \<Rightarrow> (Inl (TerminalIo e), w)
      | (Inr _, w) \<Rightarrow> (Inr (), w))))))"

section \<open>The two threads\<close>

text \<open>
  Where the main thread is: before the lock, with the lock before its read, with what it read after it has given
  the lock back, before and after shutting down, and returned.  The flag says whether it still has the lock: the
  guard of a failed read lives until the function returns.
\<close>

datatype main_thread =
    AtLock
  | Reading
  | Handling "ws_message option"
  | ShuttingDown bool "TerminalError + unit"
  | Joining bool "TerminalError + unit"
  | Returned "TerminalError + unit"

datatype output_thread = PtyReading | WaitingLock bytes | Sending bytes | OutputDone

record 'w session =
  sn_main :: main_thread
  sn_output :: output_thread
  sn_poisoned :: bool
  sn_world :: 'w

fun main_holds :: "main_thread \<Rightarrow> bool" where
  "main_holds Reading = True"
| "main_holds (ShuttingDown held _) = held"
| "main_holds (Joining held _) = held"
| "main_holds _ = False"

fun output_holds :: "output_thread \<Rightarrow> bool" where
  "output_holds (Sending _) = True"
| "output_holds _ = False"

definition read_locked :: "'w terminal_io \<Rightarrow> 'w \<Rightarrow> main_thread \<times> 'w" where
  "read_locked io w =
     (case tm_set_read_timeout io (20 * 10 ^ 6) w of
        (Inl e, w) \<Rightarrow> (Returned (Inl (TerminalIo e)), w)
      | (Inr _, w) \<Rightarrow>
          (case tm_socket_read io w of
             (WsMessage m, w) \<Rightarrow> (Handling (Some m), w)
           | (WsIoError kind e, w) \<Rightarrow>
               (if kind \<in> {WouldBlock, TimedOut} then Handling None
                else ShuttingDown True (Inl (TerminalTransport (RequestFailed e))), w)
           | (WsReadError e, w) \<Rightarrow> (ShuttingDown True (Inl (TerminalTransport (RequestFailed e))), w)))"

definition write_input :: "'w terminal_io \<Rightarrow> bytes \<Rightarrow> 'w \<Rightarrow> main_thread \<times> 'w" where
  "write_input io input w =
     (let w = tm_println io (terminal_input_received_event (length input)) w in
      case tm_pty_write io (terminal_input_for_pty input) w of
        (Inl e, w) \<Rightarrow> (Returned (Inl (TerminalIo e)), w)
      | (Inr _, w) \<Rightarrow>
          (case tm_pty_flush io w of
             (Inl e, w) \<Rightarrow> (Returned (Inl (TerminalIo e)), w)
           | (Inr _, w) \<Rightarrow> (AtLock, w)))"

fun handle_message :: "'w terminal_io \<Rightarrow> ws_message option \<Rightarrow> 'w \<Rightarrow> main_thread \<times> 'w" where
  "handle_message io (Some (WsText text)) w =
     (case parse_terminal_client_text (tm_from_slice io) (as_bytes text) of
        ClientInput input \<Rightarrow> write_input io input w
      | ClientResize cols rows \<Rightarrow>
          (case tm_resize io rows cols w of
             (Inl e, w) \<Rightarrow> (Returned (Inl (TerminalIo e)), w)
           | (Inr _, w) \<Rightarrow> (AtLock, w))
      | ClientIgnore \<Rightarrow> (AtLock, w))"
| "handle_message io (Some (WsBinary bs)) w = write_input io bs w"
| "handle_message io (Some WsClose) w = (ShuttingDown False (Inr ()), w)"
| "handle_message io (Some WsControl) w = (AtLock, w)"
| "handle_message io None w = (AtLock, tm_sleep io (5 * 10 ^ 6) w)"

definition read_output :: "'w terminal_io \<Rightarrow> 'w \<Rightarrow> output_thread \<times> 'w" where
  "read_output io w =
     (case tm_pty_read io w of
        (Inr bs, w) \<Rightarrow> (if bs = [] then OutputDone else WaitingLock bs, w)
      | (Inl _, w) \<Rightarrow> (OutputDone, w))"

definition send_output :: "'w terminal_io \<Rightarrow> bytes \<Rightarrow> 'w \<Rightarrow> output_thread \<times> 'w" where
  "send_output io bs w =
     (case tm_socket_send io (WsBinary bs) w of
        (Inl _, w) \<Rightarrow> (OutputDone, w)
      | (Inr _, w) \<Rightarrow> (PtyReading, tm_println io (terminal_output_sent_event (length bs)) w))"

inductive terminal_step :: "'w terminal_io \<Rightarrow> 'w session \<Rightarrow> 'w session \<Rightarrow> bool" for io where
  main_lock: "sn_main s = AtLock \<Longrightarrow> \<not> output_holds (sn_output s) \<Longrightarrow>
    terminal_step io s
      (s\<lparr>sn_main := if sn_poisoned s then Returned (Inl (TerminalIo ''terminal socket lock poisoned'')) else Reading\<rparr>)"
| main_read: "sn_main s = Reading \<Longrightarrow> read_locked io (sn_world s) = (m, w) \<Longrightarrow>
    terminal_step io s (s\<lparr>sn_main := m, sn_world := w\<rparr>)"
| main_handle: "sn_main s = Handling message \<Longrightarrow> handle_message io message (sn_world s) = (m, w) \<Longrightarrow>
    terminal_step io s (s\<lparr>sn_main := m, sn_world := w\<rparr>)"
| main_shutdown: "sn_main s = ShuttingDown held r \<Longrightarrow>
    terminal_step io s (s\<lparr>sn_main := Joining held r, sn_world := shutdown_terminal io (sn_world s)\<rparr>)"
| main_join: "sn_main s = Joining held r \<Longrightarrow> sn_output s = OutputDone \<Longrightarrow>
    terminal_step io s (s\<lparr>sn_main := Returned r\<rparr>)"
| output_read: "sn_output s = PtyReading \<Longrightarrow> read_output io (sn_world s) = (out, w) \<Longrightarrow>
    terminal_step io s (s\<lparr>sn_output := out, sn_world := w\<rparr>)"
| output_lock: "sn_output s = WaitingLock bs \<Longrightarrow> \<not> main_holds (sn_main s) \<Longrightarrow>
    terminal_step io s (s\<lparr>sn_output := if sn_poisoned s then OutputDone else Sending bs\<rparr>)"
| output_send: "sn_output s = Sending bs \<Longrightarrow> send_output io bs (sn_world s) = (out, w) \<Longrightarrow>
    terminal_step io s (s\<lparr>sn_output := out, sn_world := w\<rparr>)"

definition session_start :: "'w \<Rightarrow> 'w session" where
  "session_start w = \<lparr>sn_main = AtLock, sn_output = PtyReading, sn_poisoned = False, sn_world = w\<rparr>"

section \<open>Messages\<close>

definition terminal_handle :: "BackendMessage \<Rightarrow> string option" where
  "terminal_handle message =
     (case message of TerminalMessage request_id \<Rightarrow> if request_id = [] then None else Some request_id | _ \<Rightarrow> None)"

record TungsteniteTerminalConnector =
  tc_endpoint :: string
  tc_headers :: "HeaderPair list"
  tc_custom_dns :: string

definition connector_from_config :: "AgentConfig \<Rightarrow> TungsteniteTerminalConnector" where
  "connector_from_config c =
     \<lparr>tc_endpoint = cfg_endpoint c, tc_headers = access_headers (cfg_cf_access_client_id c) (cfg_cf_access_client_secret c),
      tc_custom_dns = cfg_custom_dns c\<rparr>"

text \<open>
  \<open>connect\<close> builds the request with its headers and opens the WebSocket.  The result is that of the call, or a
  session whose two threads run on.
\<close>

datatype 'w terminal_start = Ended "TerminalError + unit" 'w | Running "'w session"

definition run_terminal_session :: "'w terminal_io \<Rightarrow> 'w \<Rightarrow> 'w terminal_start" where
  "run_terminal_session io w =
     (case open_session io w of (Inl e, w) \<Rightarrow> Ended (Inl e) w | (Inr _, w) \<Rightarrow> Running (session_start w))"

definition start_terminal ::
  "'w terminal_io \<Rightarrow> (string \<Rightarrow> string option) \<Rightarrow> (string \<Rightarrow> HeaderPair list \<Rightarrow> string \<Rightarrow> 'w \<Rightarrow> (TransportError + unit) \<times> 'w)
   \<Rightarrow> TungsteniteTerminalConnector \<Rightarrow> shared_token \<Rightarrow> string \<Rightarrow> bool \<Rightarrow> 'w \<Rightarrow> 'w terminal_start" where
  "start_terminal io domain_to_ascii connect c tok request_id remote_control_disabled w =
     (case build_terminal_ws_url domain_to_ascii (tc_endpoint c) (token_get tok) request_id of
        Inl e \<Rightarrow> Ended (Inl (TerminalProtocol e)) w
      | Inr url \<Rightarrow>
          (case connect url (tc_headers c) (tc_custom_dns c) w of
             (Inl e, w) \<Rightarrow> Ended (Inl (TerminalTransport e)) w
           | (Inr _, w) \<Rightarrow>
               (let w = tm_println io (smoke_event_line ''terminal_session_started'' [(''request_id'', request_id)]) w in
                if remote_control_disabled then
                  (case tm_socket_send io (WsText WEB_SSH_DISABLED_MESSAGE) w of
                     (Inl e, w) \<Rightarrow> Ended (Inl (TerminalTransport (RequestFailed e))) w
                   | (Inr _, w) \<Rightarrow> Ended (Inr ()) w)
                else run_terminal_session io w)))"

section \<open>The lock\<close>

inductive_cases terminal_stepE: "terminal_step io s s'"

lemma write_input_free: "write_input io bs w = (m, w') \<Longrightarrow> \<not> main_holds m"
  by (auto simp: write_input_def Let_def split: prod.splits sum.splits)

lemma handle_message_free: "handle_message io message w = (m, w') \<Longrightarrow> \<not> main_holds m"
  by (cases "(io, message, w)" rule: handle_message.cases)
     (auto dest: write_input_free split: prod.splits sum.splits TerminalClientCommand.splits)

lemma lock_exclusive:
  assumes "(terminal_step io)\<^sup>*\<^sup>* (session_start w) s"
  shows "\<not> (main_holds (sn_main s) \<and> output_holds (sn_output s)) \<and> \<not> sn_poisoned s"
  using assms
proof (induction rule: rtranclp_induct)
  case base
  then show ?case by (simp add: session_start_def)
next
  case (step s s')
  from step.hyps(2) step.IH show ?case
  proof (cases rule: terminal_step.cases)
    case (output_read out w)
    then have "\<not> output_holds out" by (auto simp: read_output_def split: prod.splits sum.splits if_splits)
    then show ?thesis using output_read step.IH by simp
  next
    case (output_send bs out w)
    then have "\<not> output_holds out" by (auto simp: send_output_def split: prod.splits sum.splits)
    then show ?thesis using output_send step.IH by simp
  qed (auto dest: handle_message_free)
qed

definition finished :: "'w session \<Rightarrow> bool" where
  "finished s = (case (sn_main s, sn_output s) of (Returned _, OutputDone) \<Rightarrow> True | _ \<Rightarrow> False)"

definition deadlocked :: "'w session \<Rightarrow> bool" where
  "deadlocked s = (case (sn_main s, sn_output s) of (Joining True _, WaitingLock _) \<Rightarrow> True | _ \<Rightarrow> False)"

lemma main_can_step:
  assumes "\<not> output_holds (sn_output s)" and "\<nexists>r. sn_main s = Returned r" and "\<nexists>held r. sn_main s = Joining held r"
  shows "\<exists>s'. terminal_step io s s'"
proof (cases "sn_main s")
  case AtLock
  then show ?thesis using assms(1) terminal_step.main_lock by blast
next
  case Reading
  then show ?thesis using terminal_step.main_read by (metis surj_pair)
next
  case (Handling m)
  then show ?thesis using terminal_step.main_handle by (metis surj_pair)
next
  case (ShuttingDown held r)
  then show ?thesis using terminal_step.main_shutdown by blast
qed (use assms in auto)

lemma output_can_step:
  assumes "sn_output s \<noteq> OutputDone" and "\<not> main_holds (sn_main s) \<or> (\<nexists>bs. sn_output s = WaitingLock bs)"
  shows "\<exists>s'. terminal_step io s s'"
proof (cases "sn_output s")
  case PtyReading
  then show ?thesis using terminal_step.output_read by (metis surj_pair)
next
  case (WaitingLock bs)
  then show ?thesis using assms(2) terminal_step.output_lock by blast
next
  case (Sending bs)
  then show ?thesis using terminal_step.output_send by (metis surj_pair)
qed (use assms in auto)


lemma doomed_forever:
  assumes "terminal_step io s s'" and "sn_output s = WaitingLock bs" and "sn_main s = ShuttingDown True r \<or> sn_main s = Joining True r"
  shows "sn_output s' = WaitingLock bs \<and> (sn_main s' = ShuttingDown True r \<or> sn_main s' = Joining True r)"
  using assms by (auto elim!: terminal_stepE)

text \<open>
  Claim C39.  That way is taken whenever a read of the socket fails while the output thread waits for the lock
  with something the shell wrote: from then on the main thread never gives the lock back and never returns, and
  the output is never sent.
\<close>

theorem terminal_read_error_deadlocks:
  assumes "sn_main s = Reading" and "sn_output s = WaitingLock bs"
    and "read_locked io (sn_world s) = (ShuttingDown True r, w)" and "(terminal_step io)\<^sup>*\<^sup>* s s'"
  shows "sn_output s' = WaitingLock bs \<and> main_holds (sn_main s')"
proof -
  have "sn_output s' = WaitingLock bs \<and> (s' = s \<or> sn_main s' = ShuttingDown True r \<or> sn_main s' = Joining True r)"
    using assms(4)
  proof (induction rule: rtranclp_induct)
    case (step s1 s2)
    show ?case
    proof (cases "s1 = s")
      case True
      then show ?thesis using step.hyps(2) assms(1-3) by (auto elim!: terminal_stepE)
    next
      case False
      then show ?thesis using step.IH doomed_forever [OF step.hyps(2), of bs r] by blast
    qed
  qed (use assms in simp)
  then show ?thesis using assms(1) by auto
qed
section \<open>What is relayed\<close>

text \<open>
  A peer and a shell given by scripts: the outcomes of the reads of the socket, after which it stays idle, and the
  pieces of output of the shell, after which the pseudo terminal is at its end.  The state records what is typed
  and sent and whether the shell was killed and waited for.
\<close>

record pty_world =
  pw_reads :: "ws_read list"
  pw_output :: "bytes list"
  pw_typed :: bytes
  pw_sent :: "ws_message list"
  pw_killed :: bool
  pw_waited :: bool

definition pty_world_io :: "(bytes \<Rightarrow> RawTerminalClientCommand option) \<Rightarrow> pty_world terminal_io" where
  "pty_world_io from_slice =
     \<lparr>tm_shell_var = None, tm_path = None, tm_is_file = \<lambda>_. False, tm_from_slice = from_slice,
      tm_openpty = \<lambda>_ _ w. (Inr (), w), tm_spawn = \<lambda>_ _ _ w. (Inr (), w), tm_clone_reader = \<lambda>w. (Inr (), w),
      tm_take_writer = \<lambda>w. (Inr (), w),
      tm_pty_read = \<lambda>w. (case pw_output w of [] \<Rightarrow> (Inr [], w) | bs # rest \<Rightarrow> (Inr bs, w\<lparr>pw_output := rest\<rparr>)),
      tm_pty_write = \<lambda>bs w. (Inr (), w\<lparr>pw_typed := pw_typed w @ bs\<rparr>), tm_pty_flush = \<lambda>w. (Inr (), w),
      tm_resize = \<lambda>_ _ w. (Inr (), w), tm_kill = \<lambda>w. w\<lparr>pw_killed := True\<rparr>,
      tm_wait = \<lambda>w. w\<lparr>pw_waited := pw_killed w\<rparr>, tm_sleep = \<lambda>_ w. w, tm_set_read_timeout = \<lambda>_ w. (Inr (), w),
      tm_socket_read = \<lambda>w. (case pw_reads w of [] \<Rightarrow> (WsIoError TimedOut [], w) | r # rest \<Rightarrow> (r, w\<lparr>pw_reads := rest\<rparr>)),
      tm_socket_send = \<lambda>m w. (Inr (), w\<lparr>pw_sent := pw_sent w @ [m]\<rparr>), tm_println = \<lambda>_ w. w\<rparr>"

text \<open>The keys a message stands for, and the farewell to the shell.\<close>

fun keys :: "(bytes \<Rightarrow> RawTerminalClientCommand option) \<Rightarrow> ws_read \<Rightarrow> bytes" where
  "keys from_slice (WsMessage (WsText text)) =
     (case parse_terminal_client_text from_slice (as_bytes text) of ClientInput input \<Rightarrow> terminal_input_for_pty input | _ \<Rightarrow> [])"
| "keys from_slice (WsMessage (WsBinary bs)) = terminal_input_for_pty bs"
| "keys from_slice _ = []"

definition farewell :: bytes where
  "farewell = [3] @ [4] @ as_bytes (''exit'' @ nl)"

fun in_hand :: "main_thread \<Rightarrow> ws_read list" where
  "in_hand (Handling (Some m)) = [WsMessage m]"
| "in_hand _ = []"

fun said_farewell :: "main_thread \<Rightarrow> bool" where
  "said_farewell (Joining _ _) = True"
| "said_farewell (Returned _) = True"
| "said_farewell _ = False"

fun output_in_hand :: "output_thread \<Rightarrow> bytes list" where
  "output_in_hand (WaitingLock bs) = [bs]"
| "output_in_hand (Sending bs) = [bs]"
| "output_in_hand _ = []"

definition relayed :: "(bytes \<Rightarrow> RawTerminalClientCommand option) \<Rightarrow> pty_world \<Rightarrow> pty_world session \<Rightarrow> bool" where
  "relayed from_slice w s \<longleftrightarrow>
     (\<exists>handled. pw_reads w = handled @ in_hand (sn_main s) @ pw_reads (sn_world s)
        \<and> pw_typed (sn_world s) = pw_typed w @ concat (map (keys from_slice) handled)
            @ (if said_farewell (sn_main s) then farewell else []))
     \<and> (\<exists>sent. pw_output w = sent @ output_in_hand (sn_output s) @ pw_output (sn_world s)
        \<and> pw_sent (sn_world s) = pw_sent w @ map WsBinary sent)
     \<and> (said_farewell (sn_main s) \<longrightarrow> pw_killed (sn_world s) \<and> pw_waited (sn_world s))
     \<and> (sn_output s = OutputDone \<longrightarrow> pw_output (sn_world s) = [])"

lemma read_scripted:
  "read_locked (pty_world_io f) w =
     (case pw_reads w of
        [] \<Rightarrow> (Handling None, w)
      | r # rest \<Rightarrow>
          (case r of
             WsMessage m \<Rightarrow> Handling (Some m)
           | WsIoError kind e \<Rightarrow> if kind \<in> {WouldBlock, TimedOut} then Handling None
               else ShuttingDown True (Inl (TerminalTransport (RequestFailed e)))
           | WsReadError e \<Rightarrow> ShuttingDown True (Inl (TerminalTransport (RequestFailed e))), w\<lparr>pw_reads := rest\<rparr>))"
  by (simp add: read_locked_def pty_world_io_def split: list.split ws_read.split)

lemma write_scripted:
  "write_input (pty_world_io f) bs w = (AtLock, w\<lparr>pw_typed := pw_typed w @ terminal_input_for_pty bs\<rparr>)"
  by (simp add: write_input_def pty_world_io_def)

lemma pty_world_ops:
  "tm_from_slice (pty_world_io f) = f" "tm_resize (pty_world_io f) rows cols w = (Inr (), w)" "tm_sleep (pty_world_io f) d w = w"
  by (simp_all add: pty_world_io_def)

lemma handle_scripted:
  "handle_message (pty_world_io f) message w =
     (if message = Some WsClose then ShuttingDown False (Inr ()) else AtLock,
      w\<lparr>pw_typed := pw_typed w @ concat (map (keys f) (in_hand (Handling message)))\<rparr>)"
  by (cases "(pty_world_io f, message, w)" rule: handle_message.cases)
     (auto simp: write_scripted pty_world_ops split: TerminalClientCommand.split)

lemma shutdown_scripted:
  "shutdown_terminal (pty_world_io f) w = w\<lparr>pw_typed := pw_typed w @ farewell, pw_killed := True, pw_waited := True\<rparr>"
  by (simp add: shutdown_terminal_def pty_world_io_def farewell_def)

lemma read_output_scripted:
  "read_output (pty_world_io f) w =
     (case pw_output w of
        [] \<Rightarrow> (OutputDone, w)
      | bs # rest \<Rightarrow> (if bs = [] then OutputDone else WaitingLock bs, w\<lparr>pw_output := rest\<rparr>))"
  by (simp add: read_output_def pty_world_io_def split: list.split)

lemma send_scripted: "send_output (pty_world_io f) bs w = (PtyReading, w\<lparr>pw_sent := pw_sent w @ [WsBinary bs]\<rparr>)"
  by (simp add: send_output_def pty_world_io_def)

lemmas scripted = read_scripted handle_scripted shutdown_scripted read_output_scripted send_scripted

lemma relayed_step:
  assumes "terminal_step (pty_world_io f) s s'" and "relayed f w s" and "[] \<notin> set (pw_output w)" and "\<not> sn_poisoned s"
  shows "relayed f w s'"
  using assms(1)
proof (cases rule: terminal_step.cases)
  case main_lock
  then show ?thesis using assms(2,4) by (simp add: relayed_def)
next
  case (main_read m v)
  then show ?thesis using assms(2)
    by (fastforce simp: relayed_def scripted split: list.splits ws_read.splits if_splits)
next
  case (main_handle message m v)
  obtain handled where "pw_reads w = handled @ in_hand (sn_main s) @ pw_reads (sn_world s)"
      "pw_typed (sn_world s) = pw_typed w @ concat (map (keys f) handled)"
    using assms(2) main_handle by (auto simp: relayed_def)
  then have "pw_reads w = (handled @ in_hand (Handling message)) @ pw_reads v
      \<and> pw_typed v = pw_typed w @ concat (map (keys f) (handled @ in_hand (Handling message)))"
    using main_handle by (auto simp: scripted)
  moreover have "m = ShuttingDown False (Inr ()) \<or> m = AtLock" "pw_output v = pw_output (sn_world s)" "pw_sent v = pw_sent (sn_world s)"
    using main_handle by (auto simp: scripted split: if_splits)
  ultimately show ?thesis using assms(2) main_handle unfolding relayed_def by auto
next
  case (main_shutdown held r)
  then show ?thesis using assms(2) by (auto simp: relayed_def scripted)
next
  case (main_join held r)
  then show ?thesis using assms(2) by (auto simp: relayed_def)
next
  case (output_read out v)
  then show ?thesis using assms(2,3) by (auto simp: relayed_def scripted split: list.splits if_splits)
next
  case (output_lock bs)
  then show ?thesis using assms(2,4) by (simp add: relayed_def)
next
  case (output_send bs out v)
  then show ?thesis using assms(2) by (fastforce simp: relayed_def scripted)
qed


section \<open>Examples\<close>

definition broken_peer :: pty_world where
  "broken_peer = \<lparr>pw_reads = [WsReadError ''reset''], pw_output = [[36]], pw_typed = [], pw_sent = [], pw_killed = False,
     pw_waited = False\<rparr>"

text \<open>The session in which the output thread has read a prompt and the main thread has the lock.\<close>

definition prompt_waiting :: "pty_world session" where
  "prompt_waiting = (session_start broken_peer)\<lparr>sn_main := Reading, sn_output := WaitingLock [36],
     sn_world := broken_peer\<lparr>pw_output := []\<rparr>\<rparr>"

definition prompt_stuck :: "pty_world session" where
  "prompt_stuck = prompt_waiting\<lparr>sn_main := Joining True (Inl (TerminalTransport (RequestFailed ''reset''))),
     sn_world := shutdown_terminal (pty_world_io (\<lambda>_. None)) (broken_peer\<lparr>pw_output := [], pw_reads := []\<rparr>)\<rparr>"

lemma prompt_waiting_reached: "(terminal_step (pty_world_io f))\<^sup>*\<^sup>* (session_start broken_peer) prompt_waiting"
proof -
  let ?s = "(session_start broken_peer)\<lparr>sn_output := WaitingLock [36], sn_world := broken_peer\<lparr>pw_output := []\<rparr>\<rparr>"
  have "terminal_step (pty_world_io f) (session_start broken_peer) ?s"
    by (rule terminal_step.output_read) (simp_all add: session_start_def scripted broken_peer_def)
  moreover have "terminal_step (pty_world_io f) ?s prompt_waiting"
    using terminal_step.main_lock [of ?s "pty_world_io f"] by (simp add: session_start_def prompt_waiting_def)
  ultimately show ?thesis by simp
qed

lemma prompt_stuck_reached: "(terminal_step (pty_world_io (\<lambda>_. None)))\<^sup>*\<^sup>* prompt_waiting prompt_stuck"
proof -
  let ?io = "pty_world_io (\<lambda>_. None)"
  let ?r = "Inl (TerminalTransport (RequestFailed ''reset''))"
  let ?s = "prompt_waiting\<lparr>sn_main := ShuttingDown True ?r, sn_world := broken_peer\<lparr>pw_output := [], pw_reads := []\<rparr>\<rparr>"
  have "terminal_step ?io prompt_waiting ?s"
    by (rule terminal_step.main_read) (simp_all add: prompt_waiting_def scripted broken_peer_def)
  moreover have "terminal_step ?io ?s prompt_stuck"
    using terminal_step.main_shutdown [of ?s True ?r ?io] by (simp add: prompt_stuck_def)
  ultimately show ?thesis by simp
qed


theorem terminal_read_error_deadlocks_witness: "sn_output prompt_stuck = WaitingLock [36] \<and> main_holds (sn_main prompt_stuck)"
proof (rule terminal_read_error_deadlocks [OF _ _ _ prompt_stuck_reached])
  show "read_locked (pty_world_io (\<lambda>_. None)) (sn_world prompt_waiting) =
      (ShuttingDown True (Inl (TerminalTransport (RequestFailed ''reset''))), broken_peer\<lparr>pw_output := [], pw_reads := []\<rparr>)"
    by (simp add: prompt_waiting_def scripted broken_peer_def)
qed (simp_all add: prompt_waiting_def)


end
