(* ===== verification/Spec2Isabelle.thy ===== *)
theory Spec2Isabelle
  imports TunnelData DnsClient NetStatic CnConnectivity ConfigLayers AutoDiscovery Ping Terminal
begin

text \<open>
  \<^bold>\<open>A verification library for the kelicloud agent.\<close>

  The agent runs on a host and serves a backend.  It reports figures of the host, and it carries TCP
  connections through tunnels: an ingress agent accepts connections on listeners that the backend's rules
  ask for, an egress agent dials their targets, and both exchange frames of the KTP protocol with the
  backend over one data connection.  A control connection delivers the rules.  All sources are under
  \<open>src/src\<close>.

  \<^bold>\<open>Foundations.\<close>  \<open>Prelude\<close> has the machine integers (\<open>u8\<close> to \<open>u64\<close> are words, \<open>usize\<close> is a natural number),
  results (\<open>Inl\<close> the error) and big-endian bytes.  \<open>RustStr\<close> models \<open>str\<close> as its UTF-8 bytes with trimming,
  splitting and number formats, \<open>RustText\<close> lines, words and the text of an \<open>f64\<close>, \<open>RustNet\<close> the parsers and
  printers of \<open>std::net\<close>.  A method with \<open>&mut self\<close>
  returns the new state with its result.  A \<open>Mutex\<close> is its value and whether it is poisoned.  Durations and
  instants are nanoseconds.

  \<^bold>\<open>KTP, \<open>ktp.rs\<close> and \<open>ktp_transport.rs\<close>.\<close>  \<open>KtpFrame\<close> is the frame format: encoding and decoding are inverse, and
  the decoder accepts only canonical encodings.  \<open>KtpCodec\<close> is the incremental decoder over a cursor buffer: it
  conserves bytes under any pushes and polls and is determined by the bytes not yet read.  Its interface
  \<open>stream_decoder\<close> is interpreted for it and for the record codec of \<open>KtpCrypto\<close>, which seals and opens
  records: nonces never repeat, replays are refused, and against any network the frames returned are a
  prefix of those sent, if the cipher is authentic.  The cipher is a parameter.  \<open>KtpStream\<close> sends, receives and
  relays over a socket that is given by its future reads and write outcomes.

  \<^bold>\<open>Sessions.\<close>  \<open>TunnelSession\<close> (\<open>tunnel_session.rs\<close>) has the payloads of session frames; the decoders accept
  exactly what the encoders write.  \<open>TunnelQueue\<close> (first half of \<open>tunnel_async_runtime.rs\<close>) has the batch policy,
  the bounded outbound queue, a FIFO, and the dwell time percentiles.  \<open>TunnelCore\<close> (its second half) has the
  session map, counters, listeners and the reader and writer tasks; \<open>core_step\<close> interleaves single steps of
  the tasks with the calls of the runtime, and the theorems hold in all reachable states: the counters equal
  the sessions, and the memory of a session is bounded.

  \<^bold>\<open>Rules.\<close>  \<open>TunnelAccess\<close> has the preflight (\<open>tunnel_preflight.rs\<close>) and the source allowlist.  \<open>TunnelControl\<close>
  (\<open>tunnel_control.rs\<close>) has the messages and the two loops of the control connection: what they send, that they
  end for every sequence of read outcomes, and the cadence of heartbeats.  \<open>TunnelRuntime\<close> (\<open>tunnel_runtime.rs\<close>)
  has the shared rule state, the listener plan, the readiness report and the frame handler: after a refresh
  the listeners are those planned, and every request to open a session is answered.

  \<^bold>\<open>The data connection, \<open>tunnel_data.rs\<close>.\<close>  \<open>TunnelReady\<close> has the readiness payload, \<open>TunnelDiagnostics\<close> the counters
  and percentiles of a session, \<open>TunnelCarrier\<close> the authentication preface and the carrier socket with its
  timers, which lose no frame.  \<open>TunnelData\<close> has the session loop over records of operations for the two traits
  of the source.  Its contract is the locale \<open>data_session\<close>, interpreted for a carrier that is a script of
  outcomes and the runtime of \<open>TunnelRuntime\<close>.  \<open>Transport\<close> (\<open>transport.rs\<close>) has the addresses and
  redaction of tokens and the reads of the three WebSockets.

  \<^bold>\<open>The host, \<open>linux_proc.rs\<close>.\<close>  \<open>HostProbe\<close> has the network counters, the memory figures and the start of the
  traffic month; \<open>DnsClient\<close> the resolver for a configured DNS server, with termination of the name parser
  and the round trip against the format of RFC 1035.  \<open>NetStatic\<close> (\<open>net_static.rs\<close>) keeps the traffic history:
  whatever the order of samples, flushes and failing saves, it counts the growth of the counters exactly once.

  \<^bold>\<open>Reporting.\<close>  \<open>Protocol\<close> (\<open>protocol.rs\<close>) has the WebSocket addresses, from which the token is read back exactly,
  and the messages of the backend.  \<open>CnConnectivity\<close> (\<open>cn_connectivity.rs\<close>) has the connectivity probe, which
  implements a specification over the results of the probes of the current configuration.  \<open>AgentRuntime\<close>
  (\<open>runtime.rs\<close>, \<open>token.rs\<close>) has the report loop.  Two locales are its contracts with the backend:
  \<open>finite_backend\<close>, under which every loop returns, and \<open>socket_discipline\<close>, under which no socket is used after
  it failed.  Both are interpreted for a backend that is a script of outcomes; the transcripts of a healthy
  backend and of one that is down are computed exactly.

  \<^bold>\<open>Configuration.\<close>  \<open>Config\<close> (\<open>config.rs\<close>) builds the configuration from arguments, environment and file.  The arms
  of the argument match and the assignments of the two later passes are tables in the order of the source, so
  that the theorems quantify over them: what is accepted is well formed (\<open>Config\<close>), the two spellings of a flag
  agree, and the layers override each other file, environment, command line (\<open>ConfigLayers\<close>).  \<open>AutoDiscovery\<close>
  (\<open>auto_discovery.rs\<close>) registers the agent and keeps its token in a cache file; the locale \<open>token_cache\<close> is the
  contract of that file, interpreted for a disk whose writes and removals may fail.

  \<^bold>\<open>Executors.\<close>  \<open>Ping\<close> (\<open>ping.rs\<close>) splits targets, measures and repeats slow measurements; the reported value is that of
  a reference definition over the attempts.  \<open>Task\<close> (\<open>task.rs\<close>) runs commands and scripts and uploads results; the
  locale \<open>script_files\<close> is its contract with the file system.  \<open>Terminal\<close> (\<open>terminal.rs\<close>) has the web terminal, whose two
  threads and lock are the step relation \<open>terminal_step\<close>: what is typed and printed is relayed in order, and
  the states in which a session hangs are exactly those of one deadlock, which a failing read reaches.
  \<open>SmokeSummary\<close> (\<open>smoke_summary.rs\<close> and \<open>bin/smoke-summary.rs\<close>) has the event lines they print, which are single lines of
  printable text, and the summary of a log.  The theorem of this theory is about both remote executors.

  \<^bold>\<open>Loops and environments.\<close>  A loop over data is a recursive function with its termination proof.  A loop that
  waits for its environment is \<open>partial_function (option)\<close>; the environment is a finite script (reads of the
  control socket, outcomes of the carrier and calls of other threads), and the theorems prove that the loop
  returns for every script.  There is no fuel.

  \<^bold>\<open>Parameters.\<close>  Code outside the repository enters as an argument: the cipher, hash and MAC functions, random
  numbers, \<open>serde_json\<close>'s parser, binding and dialling sockets, DNS exchanges, the texts of operating system
  errors.  Where a theorem relies on them it names what it assumes, and its witness instantiates them.  A finite
  \<open>f64\<close> is a rational number; the rounding of a result is a parameter, of which the report loop needs that it is
  off by no more than a half up to the interval (for \<open>f64\<close> up to \<open>2 ^ 53\<close> seconds).

  \<^bold>\<open>Not modelled.\<close>  Calls into libraries with nothing between them: TLS set-up, the reqwest and tungstenite clients,
  loading of certificates.  Probes of the host that run commands or read device files, and their text
  handling, which rests on Unicode tables or floating point numbers.  The reports of the system, which are
  data carriers over the \<open>sysinfo\<close> crate.  Test drivers, benchmarks and their tables, and the program entry.
\<close>

text \<open>
  Claim C36.  With remote control disabled nothing the backend asks for is run.  What a task does is independent of
  the executor, so that no command is started, and a request for a terminal is answered and ends without a
  session, whatever opening a pseudo terminal or starting a shell would do.
\<close>

theorem remote_control_disabled_inert:
  "task_thread executor uploader now_text True job w = task_thread executor' uploader now_text True job w
   \<and> (\<exists>r w'. start_terminal io domain_to_ascii connect c tok request_id True w = Ended r w'
        \<and> start_terminal (io\<lparr>tm_openpty := opening, tm_spawn := spawning\<rparr>) domain_to_ascii connect c tok request_id True w
            = Ended r w')"
  by (auto simp: task_thread_def start_terminal_def Let_def split: sum.split prod.split)

end
